(* ===== verification/Prelude.thy ===== *)
theory Prelude
  imports Main "HOL-Library.Word"
begin

text \<open>
  Shared vocabulary of the development: bytes and byte streams, big-endian codecs, Go's
  bounds-checked indexing and slicing, and the generic lemmas the component theories rest on.
  Logging is not modelled anywhere: it has no effect on the state the program keeps.
\<close>

unbundle bit_operations_syntax

named_theorems wire_simps \<open>rewrite rules for the byte-level codecs\<close>

subsection \<open>Types\<close>

type_synonym byte = "8 word"
type_synonym bytes = "byte list"

text \<open>Instants and durations, in nanoseconds as in Go's \<open>time\<close> package.\<close>

type_synonym time = int

definition second :: time where "second = 1000000000"
definition minute :: time where "minute = 60 * second"

text \<open>Go strings are byte sequences; they are HOL strings, whose characters are 8-bit too.\<close>

definition byte_of :: "nat \<Rightarrow> byte" where
  "byte_of n = word_of_nat n"

definition bytes_of :: "string \<Rightarrow> bytes" where
  "bytes_of s = map (\<lambda>c. byte_of (of_char c)) s"

definition string_of :: "bytes \<Rightarrow> string" where
  "string_of bs = map (\<lambda>b. char_of (unat b)) bs"

lemma unat_byte_of [simp]: "unat (byte_of n) = n mod 256"
  by (simp add: byte_of_def unat_of_nat)

lemma byte_of_unat [simp]: "byte_of (unat b) = b"
  by (simp add: byte_of_def)

lemma unat_byte_less: "unat (b :: byte) < 256"
  using unsigned_less [of b] by simp

lemma unat_byte_mod [simp]: "unat (b :: byte) mod 256 = unat b"
  by (simp add: unat_byte_less)

lemma length_bytes_of [simp]: "length (bytes_of s) = length s"
  by (simp add: bytes_of_def)

lemma length_string_of [simp]: "length (string_of s) = length s"
  by (simp add: string_of_def)

lemma string_of_bytes_of [simp]: "string_of (bytes_of s) = s"
  by (simp add: string_of_def bytes_of_def o_def)

lemma bytes_of_string_of [simp]: "bytes_of (string_of bs) = bs"
  by (simp add: string_of_def bytes_of_def o_def)

lemma bytes_of_append [simp]: "bytes_of (s @ t) = bytes_of s @ bytes_of t"
  by (simp add: bytes_of_def)

lemma string_of_append [simp]: "string_of (s @ t) = string_of s @ string_of t"
  by (simp add: string_of_def)

text \<open>Arithmetic on Go's 64-bit \<open>int\<close>, where it may overflow.\<close>

definition wrap64 :: "int \<Rightarrow> int" where
  "wrap64 x = sint (word_of_int x :: 64 word)"

lemma wrap64_id: "- (2 ^ 63) \<le> x \<Longrightarrow> x < 2 ^ 63 \<Longrightarrow> wrap64 x = x"
  by (simp add: wrap64_def sint_sbintrunc' signed_take_bit_int_eq_self)

lemma wrap64_range: "- (2 ^ 63) \<le> wrap64 x \<and> wrap64 x < 2 ^ 63"
  using sint_range_size [of "word_of_int x :: 64 word"] by (simp add: wrap64_def word_size)

subsection \<open>Results\<close>

text \<open>
  A fallible Go function returns \<open>'e + 'a\<close>, \<open>Inl\<close> for the error. \<open>andThen\<close> is the
  "if err != nil return" that follows every call.
\<close>

fun andThen :: "'e + 'a \<Rightarrow> ('a \<Rightarrow> 'e + 'b) \<Rightarrow> 'e + 'b" where
  "andThen (Inl e) f = Inl e"
| "andThen (Inr x) f = f x"

lemma andThen_Inr_iff [simp]:
  "andThen r f = Inr y \<longleftrightarrow> (\<exists>x. r = Inr x \<and> f x = Inr y)"
  by (cases r) auto

lemma andThen_Inl_iff:
  "andThen r f = Inl e \<longleftrightarrow> r = Inl e \<or> (\<exists>x. r = Inr x \<and> f x = Inl e)"
  by (cases r) auto

lemma andThen_assoc: "andThen (andThen r f) g = andThen r (\<lambda>x. andThen (f x) g)"
  by (cases r) simp_all

lemma andThen_cong [fundef_cong]:
  "r = r' \<Longrightarrow> (\<And>x. r' = Inr x \<Longrightarrow> f x = g x) \<Longrightarrow> andThen r f = andThen r' g"
  by (cases r') auto

lemma map_sum_id_Inr_iff: "map_sum f id r = Inr x \<longleftrightarrow> r = Inr x"
  by (cases r) simp_all

text \<open>
  Parsers read their input by index. A read outside the input is a Go panic, the value
  \<open>OutOfRange\<close>, so that absence of panics is a statement about the result.
\<close>

datatype 'e go_err = Err 'e | OutOfRange

definition byte_at :: "bytes \<Rightarrow> nat \<Rightarrow> 'e go_err + byte" where
  "byte_at d i = (if i < length d then Inr (d ! i) else Inl OutOfRange)"

definition slice_at :: "bytes \<Rightarrow> nat \<Rightarrow> nat \<Rightarrow> 'e go_err + bytes" where
  "slice_at d i j = (if i \<le> j \<and> j \<le> length d then Inr (take (j - i) (drop i d)) else Inl OutOfRange)"

lemma byte_at_app [simp]: "length xs = i \<Longrightarrow> byte_at (xs @ b # ys) i = Inr b"
  by (auto simp: byte_at_def)

lemma slice_at_app: "length xs = i \<Longrightarrow> length ys = k \<Longrightarrow> slice_at (xs @ ys @ zs) i (i + k) = Inr ys"
  by (auto simp: slice_at_def)

lemma byte_at_safe [simp]: "i < length d \<Longrightarrow> byte_at d i = Inr (d ! i)"
  by (simp add: byte_at_def)

lemma slice_at_safe [simp]:
  "i \<le> j \<Longrightarrow> j \<le> length d \<Longrightarrow> slice_at d i j = Inr (take (j - i) (drop i d))"
  by (simp add: slice_at_def)

definition is_ok :: "'e + 'a \<Rightarrow> bool" where
  "is_ok r = (case r of Inl _ \<Rightarrow> False | Inr _ \<Rightarrow> True)"

lemma is_ok_simps [simp]: "is_ok (Inr x)" "\<not> is_ok (Inl e)"
  by (simp_all add: is_ok_def)

subsection \<open>Streams: io.ReadFull\<close>

datatype io_error = EOF | UnexpectedEOF

text \<open>
  A reader is the sequence of bytes it will still deliver. \<open>io.ReadFull\<close> hides how the
  bytes are cut into reads: it returns exactly \<open>n\<close> bytes, or EOF when none was left, or
  UnexpectedEOF when the stream ended inside.
\<close>

definition readFull :: "nat \<Rightarrow> bytes \<Rightarrow> io_error + bytes \<times> bytes" where
  "readFull n s =
     (if n \<le> length s then Inr (take n s, drop n s)
      else if s = [] then Inl EOF else Inl UnexpectedEOF)"

lemma readFull_append [wire_simps]:
  "length xs = n \<Longrightarrow> readFull n (xs @ ys) = Inr (xs, ys)"
  by (simp add: readFull_def)

lemma readFull_Inr_iff:
  "readFull n s = Inr (xs, ys) \<longleftrightarrow> s = xs @ ys \<and> length xs = n"
proof
  assume "readFull n s = Inr (xs, ys)"
  then show "s = xs @ ys \<and> length xs = n"
    by (auto simp: readFull_def split: if_splits)
qed (auto simp: readFull_def)

lemma readFull_short: "length s < n \<Longrightarrow> \<exists>e. readFull n s = Inl e"
  by (simp add: readFull_def)

text \<open>
  \<open>conn.Read\<close> itself returns what has arrived, at most a buffer full. A connection is the list
  of segments in the order they arrive; the end of the list is a read error (EOF or timeout).
\<close>

fun conn_read :: "nat \<Rightarrow> bytes list \<Rightarrow> (bytes \<times> bytes list) option" where
  "conn_read n [] = None"
| "conn_read n (seg # segs) =
     (if length seg \<le> n then Some (seg, segs) else Some (take n seg, drop n seg # segs))"

lemma conn_read_length: "conn_read n segs = Some (bs, segs') \<Longrightarrow> length bs \<le> n"
  by (cases segs) (auto split: if_splits)

lemma conn_read_concat: "conn_read n segs = Some (bs, segs') \<Longrightarrow> concat segs = bs @ concat segs'"
  by (cases segs) (auto split: if_splits)

text \<open>What a read leaves in a buffer that already held something.\<close>

definition overwrite :: "bytes \<Rightarrow> bytes \<Rightarrow> bytes" where
  "overwrite buf xs = xs @ drop (length xs) buf"

lemma nth_overwrite: "i < length xs \<Longrightarrow> overwrite buf xs ! i = xs ! i"
  by (simp add: overwrite_def nth_append)

lemma take_overwrite: "i \<le> length xs \<Longrightarrow> take i (overwrite buf xs) = take i xs"
  by (simp add: overwrite_def)

subsection \<open>Big-endian codecs\<close>

text \<open>
  \<open>encoding/binary.BigEndian\<close> on words, and the same shifts written on Go's \<open>int\<close> lengths
  (\<open>byte(n >> 8), byte(n)\<close> and \<open>int(a) << 8 | int(b)\<close>).
\<close>

definition putUint16 :: "16 word \<Rightarrow> bytes" where
  "putUint16 w = [ucast (drop_bit 8 w), ucast w]"

definition getUint16 :: "byte \<Rightarrow> byte \<Rightarrow> 16 word" where
  "getUint16 a b = push_bit 8 (ucast a) OR ucast b"

definition putUint32 :: "32 word \<Rightarrow> bytes" where
  "putUint32 w = [ucast (drop_bit 24 w), ucast (drop_bit 16 w), ucast (drop_bit 8 w), ucast w]"

definition getUint32 :: "byte \<Rightarrow> byte \<Rightarrow> byte \<Rightarrow> byte \<Rightarrow> 32 word" where
  "getUint32 a b c d =
     push_bit 24 (ucast a) OR push_bit 16 (ucast b) OR push_bit 8 (ucast c) OR ucast d"

definition len16 :: "nat \<Rightarrow> bytes" where
  "len16 n = [byte_of (drop_bit 8 n), byte_of n]"

definition int16 :: "byte \<Rightarrow> byte \<Rightarrow> nat" where
  "int16 a b = push_bit 8 (unat a) OR unat b"

lemma length_putUint16 [simp]: "length (putUint16 w) = 2"
  by (simp add: putUint16_def)

lemma length_putUint32 [simp]: "length (putUint32 w) = 4"
  by (simp add: putUint32_def)

lemma length_len16 [simp]: "length (len16 n) = 2"
  by (simp add: len16_def)

lemma getUint16_put:
  "getUint16 (ucast (drop_bit 8 w)) (ucast w) = w"
  unfolding getUint16_def by (rule bit_word_eqI) (auto simp: bit_simps not_le not_less)

lemma getUint32_put:
  "getUint32 (ucast (drop_bit 24 w)) (ucast (drop_bit 16 w)) (ucast (drop_bit 8 w)) (ucast w) = w"
  unfolding getUint32_def
proof (rule bit_word_eqI)
  fix n :: nat
  assume "n < LENGTH(32)"
  then consider "n < 8" | "8 \<le> n" "n < 16" | "16 \<le> n" "n < 24" | "24 \<le> n" "n < 32"
    by fastforce
  then show "bit ((push_bit 24 (ucast (ucast (drop_bit 24 w) :: byte)) OR
      push_bit 16 (ucast (ucast (drop_bit 16 w) :: byte)) OR
      push_bit 8 (ucast (ucast (drop_bit 8 w) :: byte)) OR ucast (ucast w :: byte)) :: 32 word) n =
      bit w n"
    by cases (auto simp: bit_simps)
qed

lemma int16_eq: "int16 a b = 256 * unat a + unat b"
proof -
  have "push_bit 8 (unat a) + unat b = push_bit 8 (unat a) OR unat b"
    by (rule disjunctive_add)
      (auto simp: bit_push_bit_iff bit_unsigned_iff dest: bit_imp_le_length)
  then show ?thesis
    by (simp add: int16_def push_bit_eq_mult)
qed

lemma int16_len16: "int16 (byte_of (drop_bit 8 n)) (byte_of n) = n mod 65536"
  by (simp add: int16_eq drop_bit_eq_div mod_mult2_eq [of n 256 256, simplified])

lemma int16_less: "int16 a b < 65536"
  using unat_byte_less [of a] unat_byte_less [of b] unfolding int16_eq by linarith

lemma unat_getUint16: "unat (getUint16 a b) = int16 a b"
proof -
  have "unat (getUint16 a b) = unat (word_of_nat (int16 a b) :: 16 word)"
    by (rule arg_cong [where f = unat], rule bit_word_eqI)
      (auto simp: getUint16_def int16_def bit_simps)
  then show ?thesis
    using int16_less [of a b] by (simp add: unat_of_nat)
qed

text \<open>\<open>binary.BigEndian.Uint16(d[i:])\<close>.\<close>

definition u16_at :: "bytes \<Rightarrow> nat \<Rightarrow> 'e go_err + nat" where
  "u16_at d i = (if i + 1 < length d then Inr (int16 (d ! i) (d ! (i + 1))) else Inl OutOfRange)"

lemma u16_at_safe [simp]: "i + 1 < length d \<Longrightarrow> u16_at d i = Inr (int16 (d ! i) (d ! (i + 1)))"
  by (simp add: u16_at_def)

lemma u16_at_app: "length xs = i \<Longrightarrow> n < 65536 \<Longrightarrow> u16_at (xs @ len16 n @ ys) i = Inr n"
  by (auto simp: u16_at_def len16_def nth_append int16_len16)

definition len32 :: "nat \<Rightarrow> bytes" where
  "len32 n = [byte_of (drop_bit 24 n), byte_of (drop_bit 16 n), byte_of (drop_bit 8 n), byte_of n]"

definition int32 :: "byte \<Rightarrow> byte \<Rightarrow> byte \<Rightarrow> byte \<Rightarrow> nat" where
  "int32 a b c d = push_bit 24 (unat a) OR push_bit 16 (unat b) OR push_bit 8 (unat c) OR unat d"

lemma length_len32 [simp]: "length (len32 n) = 4"
  by (simp add: len32_def)

lemma bit_unat_byte_of: "bit (unat (byte_of m)) k \<longleftrightarrow> k < 8 \<and> bit m k"
  by (auto simp: byte_of_def bit_simps)

lemma int32_len32:
  "int32 (byte_of (drop_bit 24 n)) (byte_of (drop_bit 16 n)) (byte_of (drop_bit 8 n)) (byte_of n) =
     n mod 2 ^ 32"
proof -
  have "int32 (byte_of (drop_bit 24 n)) (byte_of (drop_bit 16 n)) (byte_of (drop_bit 8 n)) (byte_of n)
      = take_bit 32 n"
  proof (rule bit_eqI)
    fix k :: nat
    consider "k < 8" | "8 \<le> k" "k < 16" | "16 \<le> k" "k < 24" | "24 \<le> k" "k < 32" | "32 \<le> k"
      by linarith
    then show "bit (int32 (byte_of (drop_bit 24 n)) (byte_of (drop_bit 16 n))
        (byte_of (drop_bit 8 n)) (byte_of n)) k = bit (take_bit 32 n) k"
      by cases (auto simp: int32_def bit_or_iff bit_push_bit_iff bit_unat_byte_of
          bit_drop_bit_eq bit_take_bit_iff simp del: unat_byte_of)
  qed
  then show ?thesis by (simp add: take_bit_eq_mod)
qed

lemma unat_word32: "n < 2 ^ 32 \<Longrightarrow> unat (word_of_nat n :: 32 word) = n"
  by (simp add: unat_of_nat)

lemma putUint16_of_nat: "putUint16 (word_of_nat n) = len16 n"
proof -
  have "(ucast (drop_bit 8 (word_of_nat n :: 16 word)) :: byte) = word_of_nat (drop_bit 8 n)"
    by (rule bit_word_eqI) (auto simp: bit_simps ac_simps)
  moreover have "(ucast (word_of_nat n :: 16 word) :: byte) = word_of_nat n"
    by (rule bit_word_eqI) (simp add: bit_simps)
  ultimately show ?thesis by (simp add: putUint16_def len16_def byte_of_def)
qed

end
