(* ===== verification/Framing.thy ===== *)
theory Framing
  imports Prelude
begin

text \<open>
  Every byte stream of the tunnel carries length-prefixed messages. This theory states the
  contract of such a format once, as the locale \<open>frame_codec\<close> (what the reader returns on the
  bytes the writer produced), and derives what a sequence of messages on one stream satisfies.
  The formats of the sources are interpretations of it.
\<close>

primrec decode_n :: "(bytes \<Rightarrow> 'e + 'm \<times> bytes) \<Rightarrow> nat \<Rightarrow> bytes \<Rightarrow> 'e + 'm list \<times> bytes" where
  "decode_n dec 0 s = Inr ([], s)"
| "decode_n dec (Suc n) s =
     andThen (dec s) (\<lambda>(m, s'). andThen (decode_n dec n s') (\<lambda>(ms, s''). Inr (m # ms, s'')))"

locale frame_codec =
  fixes enc :: "'m \<Rightarrow> bytes"
    and dec :: "bytes \<Rightarrow> 'e + 'm \<times> bytes"
    and ok :: "'m \<Rightarrow> bool"
  assumes dec_enc: "ok m \<Longrightarrow> dec (enc m @ rest) = Inr (m, rest)"
    and enc_nonempty: "enc m \<noteq> []"
begin

lemma dec_enc_self: "ok m \<Longrightarrow> dec (enc m) = Inr (m, [])"
  using dec_enc [of m "[]"] by simp

lemma enc_prefix_free:
  assumes "ok m" "ok m'" "enc m @ r = enc m' @ r'"
  shows "m = m' \<and> r = r'"
proof -
  have "dec (enc m @ r) = dec (enc m' @ r')"
    by (rule arg_cong [OF assms(3)])
  then show ?thesis
    unfolding dec_enc [OF assms(1)] dec_enc [OF assms(2)] by simp
qed

lemma decode_n_stream:
  "list_all ok ms \<Longrightarrow> decode_n dec (length ms) (concat (map enc ms) @ rest) = Inr (ms, rest)"
  by (induction ms) (auto simp: dec_enc)

lemma stream_unique:
  "list_all ok ms \<Longrightarrow> list_all ok ms' \<Longrightarrow> concat (map enc ms) = concat (map enc ms') \<Longrightarrow> ms = ms'"
proof (induction ms arbitrary: ms')
  case Nil
  then show ?case using enc_nonempty by (cases ms') auto
next
  case (Cons m ms)
  have "concat (map enc ms') \<noteq> []"
    using Cons.prems(3) [symmetric] enc_nonempty [of m] by (simp only: list.map concat.simps) simp
  then obtain m' ns where ms': "ms' = m' # ns"
    by (cases ms') simp_all
  have oks: "ok m" "ok m'" "list_all ok ms" "list_all ok ns"
    using Cons.prems(1,2) ms' by simp_all
  have eq: "enc m @ concat (map enc ms) = enc m' @ concat (map enc ns)"
    using Cons.prems(3) unfolding ms' by (simp only: list.map concat.simps)
  show ?case
    using enc_prefix_free [OF oks(1,2) eq] Cons.IH [OF oks(3,4)] ms' by blast
qed

end

end
