(* ===== verification/Go_Net.thy ===== *)
theory Go_Net
  imports Prelude
begin

text \<open>
  The parts of Go's standard library the sources rely on for textual addresses: decimal and
  hexadecimal printing (\<open>strconv\<close>/\<open>fmt\<close>), \<open>net.IP.String\<close>, \<open>strings.Index*\<close> and
  \<open>net.SplitHostPort\<close>, with the facts about them that the tunnel, server and security
  components need.
\<close>

subsection \<open>Numbers as text\<close>

definition digit :: "nat \<Rightarrow> char" where
  "digit d = char_of (if d < 10 then 48 + d else 87 + d)"

fun itoa :: "nat \<Rightarrow> string" where
  "itoa n = (if n < 10 then [digit n] else itoa (n div 10) @ [digit (n mod 10)])"

declare itoa.simps [simp del]

fun hex :: "nat \<Rightarrow> string" where
  "hex n = (if n < 16 then [digit n] else hex (n div 16) @ [digit (n mod 16)])"

declare hex.simps [simp del]

definition colon :: char where "colon = CHR '':''"
definition open_bracket :: char where "open_bracket = CHR ''[''"
definition close_bracket :: char where "close_bracket = CHR '']''"

lemma of_char_digit: "d < 16 \<Longrightarrow> (of_char (digit d) :: nat) = (if d < 10 then 48 + d else 87 + d)"
  by (simp add: digit_def)

lemma of_char_punct:
  "(of_char colon :: nat) = 58" "(of_char open_bracket :: nat) = 91"
  "(of_char close_bracket :: nat) = 93"
  by (simp_all add: colon_def open_bracket_def close_bracket_def)

lemma digit_not_punct:
  assumes "d < 16"
  shows "colon \<noteq> digit d" "open_bracket \<noteq> digit d" "close_bracket \<noteq> digit d"
  using assms by (auto dest!: arg_cong [where f = "of_char :: char \<Rightarrow> nat"]
      simp: of_char_digit of_char_punct split: if_splits)

lemma itoa_no_punct:
  "colon \<notin> set (itoa n)" "open_bracket \<notin> set (itoa n)" "close_bracket \<notin> set (itoa n)"
proof (induction n rule: itoa.induct)
  case (1 n)
  show "colon \<notin> set (itoa n)" "open_bracket \<notin> set (itoa n)" "close_bracket \<notin> set (itoa n)"
    using 1 by (subst itoa.simps; auto simp: digit_not_punct)+
qed

lemma length_itoa_le:
  "n < 10 ^ k \<Longrightarrow> 0 < k \<Longrightarrow> length (itoa n) \<le> k"
proof (induction n arbitrary: k rule: itoa.induct)
  case (1 n)
  show ?case
  proof (cases "n < 10")
    case True
    with 1 show ?thesis by (subst itoa.simps) auto
  next
    case False
    then obtain j where k: "k = Suc j" "0 < j"
      using 1(2,3) by (cases k; cases "k - 1") auto
    with 1(2) have "n div 10 < 10 ^ j" by auto
    with 1(1) False k have "length (itoa (n div 10)) \<le> j" by blast
    with False k show ?thesis by (subst itoa.simps) auto
  qed
qed

subsection \<open>strings.IndexByte and strings.LastIndexByte\<close>

primrec indexByte :: "'a \<Rightarrow> 'a list \<Rightarrow> nat option" where
  "indexByte c [] = None"
| "indexByte c (x # xs) = (if x = c then Some 0 else map_option Suc (indexByte c xs))"

definition lastIndexByte :: "'a \<Rightarrow> 'a list \<Rightarrow> nat option" where
  "lastIndexByte c s = map_option (\<lambda>i. length s - 1 - i) (indexByte c (rev s))"

lemma indexByte_None_iff: "indexByte c s = None \<longleftrightarrow> c \<notin> set s"
  by (induction s) auto

lemma indexByte_append:
  "c \<notin> set xs \<Longrightarrow> indexByte c (xs @ c # ys) = Some (length xs)"
  by (induction xs) auto

lemma lastIndexByte_append:
  assumes "c \<notin> set ys"
  shows "lastIndexByte c (xs @ c # ys) = Some (length xs)"
proof -
  have "indexByte c (rev ys @ c # rev xs) = Some (length ys)"
    using assms indexByte_append [of c "rev ys" "rev xs"] by simp
  then show ?thesis by (simp add: lastIndexByte_def)
qed

lemma lastIndexByte_None_iff: "lastIndexByte c s = None \<longleftrightarrow> c \<notin> set s"
  by (simp add: lastIndexByte_def indexByte_None_iff)

subsection \<open>net.IP.String\<close>

definition ipv4_string :: "bytes \<Rightarrow> string" where
  "ipv4_string ip = itoa (unat (ip ! 0)) @ ''.'' @ itoa (unat (ip ! 1)) @ ''.'' @
                    itoa (unat (ip ! 2)) @ ''.'' @ itoa (unat (ip ! 3))"

definition ip_group :: "bytes \<Rightarrow> nat \<Rightarrow> nat" where
  "ip_group ip i = int16 (ip ! (2 * i)) (ip ! (2 * i + 1))"

text \<open>Length of the run of zero groups that starts at group \<open>i\<close>.\<close>

definition zero_run :: "bytes \<Rightarrow> nat \<Rightarrow> nat" where
  "zero_run ip i = length (takeWhile (\<lambda>j. ip_group ip j = 0) [i..<8])"

text \<open>The first longest run of at least two zero groups, as (start, end); (255, 255) if none.\<close>

definition longest_zero_run :: "bytes \<Rightarrow> nat \<times> nat" where
  "longest_zero_run ip =
     foldl (\<lambda>(s, e) i. let l = zero_run ip i in if 2 \<le> l \<and> e - s < l then (i, i + l) else (s, e))
       (255, 255) [0..<8]"

fun ipv6_groups :: "bytes \<Rightarrow> nat \<Rightarrow> nat \<Rightarrow> nat \<Rightarrow> nat \<Rightarrow> string" where
  "ipv6_groups ip s e i 0 = []"
| "ipv6_groups ip s e i (Suc fuel) =
     (if 8 \<le> i then []
      else if i = s then
        (if 8 \<le> e then ''::'' else ''::'' @ hex (ip_group ip e) @ ipv6_groups ip s e (e + 1) fuel)
      else (if 0 < i then '':'' else []) @ hex (ip_group ip i) @ ipv6_groups ip s e (i + 1) fuel)"

definition ipv6_string :: "bytes \<Rightarrow> string" where
  "ipv6_string ip = (let (s, e) = longest_zero_run ip in ipv6_groups ip s e 0 9)"

definition is_v4_mapped :: "bytes \<Rightarrow> bool" where
  "is_v4_mapped ip = (take 12 ip = replicate 10 0 @ [0xff, 0xff])"

definition IP_String :: "bytes \<Rightarrow> string" where
  "IP_String ip =
     (if length ip = 4 then ipv4_string ip
      else if is_v4_mapped ip then ipv4_string (drop 12 ip)
      else ipv6_string ip)"

lemma ipv4_string_no_punct:
  "colon \<notin> set (ipv4_string ip)" "open_bracket \<notin> set (ipv4_string ip)"
  "close_bracket \<notin> set (ipv4_string ip)"
  by (auto simp: ipv4_string_def itoa_no_punct)
    (simp_all add: colon_def open_bracket_def close_bracket_def)

lemma length_ipv4_string: "length (ipv4_string ip) \<le> 15"
proof -
  have "length (itoa (unat b)) \<le> 3" for b :: byte
    using unat_byte_less [of b] by (intro length_itoa_le) auto
  from this [of "ip ! 0"] this [of "ip ! 1"] this [of "ip ! 2"] this [of "ip ! 3"]
  show ?thesis by (simp add: ipv4_string_def)
qed

text \<open>An IPv6 literal that is not IPv4-mapped always contains a colon and never a bracket.\<close>

lemma hex_no_punct:
  "colon \<notin> set (hex n)" "open_bracket \<notin> set (hex n)" "close_bracket \<notin> set (hex n)"
proof (induction n rule: hex.induct)
  case (1 n)
  show "colon \<notin> set (hex n)" "open_bracket \<notin> set (hex n)" "close_bracket \<notin> set (hex n)"
    using 1 by (subst hex.simps; auto simp: digit_not_punct)+
qed

lemma ipv6_groups_no_bracket:
  "open_bracket \<notin> set (ipv6_groups ip s e i fuel)"
  "close_bracket \<notin> set (ipv6_groups ip s e i fuel)"
  by (induction ip s e i fuel rule: ipv6_groups.induct)
    (auto simp: hex_no_punct, simp_all add: open_bracket_def close_bracket_def)

lemma ipv6_string_colon: "colon \<in> set (ipv6_string ip)"
proof -
  obtain s e where "longest_zero_run ip = (s, e)" by fastforce
  moreover have "colon \<in> set (ipv6_groups ip s e 0 (Suc (Suc n)))" for n
    by (cases "s = 0"; cases "s = 1") (auto simp: colon_def)
  from this [of 7] have "colon \<in> set (ipv6_groups ip s e 0 9)"
    by (simp add: eval_nat_numeral)
  ultimately show ?thesis by (simp add: ipv6_string_def)
qed

lemma ipv6_string_no_bracket:
  "open_bracket \<notin> set (ipv6_string ip)" "close_bracket \<notin> set (ipv6_string ip)"
  by (auto simp: ipv6_string_def ipv6_groups_no_bracket split: prod.splits)

lemma IP_String_no_bracket:
  "open_bracket \<notin> set (IP_String ip)" "close_bracket \<notin> set (IP_String ip)"
  by (auto simp: IP_String_def ipv4_string_no_punct ipv6_string_no_bracket)

subsection \<open>net.SplitHostPort\<close>

datatype addr_error = MissingPort | TooManyColons | MissingBracket | UnexpectedOpen | UnexpectedClose

definition SplitHostPort :: "string \<Rightarrow> addr_error + string \<times> string" where
  "SplitHostPort hp =
    (case lastIndexByte colon hp of
       None \<Rightarrow> Inl MissingPort
     | Some i \<Rightarrow>
       andThen
         (if hp ! 0 = open_bracket then
            (case indexByte close_bracket hp of
               None \<Rightarrow> Inl MissingBracket
             | Some en \<Rightarrow>
                 if en + 1 = length hp then Inl MissingPort
                 else if en + 1 = i then Inr (take (en - 1) (drop 1 hp), 1, en + 1)
                 else if hp ! (en + 1) = colon then Inl TooManyColons
                 else Inl MissingPort)
          else if colon \<in> set (take i hp) then Inl TooManyColons
          else Inr (take i hp, 0, 0))
         (\<lambda>(host, j, k).
            if open_bracket \<in> set (drop j hp) then Inl UnexpectedOpen
            else if close_bracket \<in> set (drop k hp) then Inl UnexpectedClose
            else Inr (host, drop (i + 1) hp)))"

definition join_port :: "string \<Rightarrow> string \<Rightarrow> string" where
  "join_port host port = host @ colon # port"

lemma length_join_port [simp]: "length (join_port h p) = length h + 1 + length p"
  by (simp add: join_port_def)

lemma SplitHostPort_plain:
  assumes "colon \<notin> set host" "open_bracket \<notin> set host" "close_bracket \<notin> set host"
    and "colon \<notin> set port" "open_bracket \<notin> set port" "close_bracket \<notin> set port"
  shows "SplitHostPort (join_port host port) = Inr (host, port)"
proof -
  have "(host @ colon # port) ! 0 \<noteq> open_bracket"
    using assms(2) by (cases host) (auto simp: colon_def open_bracket_def)
  moreover have "open_bracket \<noteq> colon" "close_bracket \<noteq> colon"
    by (simp_all add: colon_def open_bracket_def close_bracket_def)
  ultimately show ?thesis
    using assms by (simp add: SplitHostPort_def join_port_def lastIndexByte_append)
qed

lemma SplitHostPort_colons:
  assumes "colon \<in> set host" "open_bracket \<notin> set host" "colon \<notin> set port"
  shows "SplitHostPort (join_port host port) = Inl TooManyColons"
proof -
  have "(host @ colon # port) ! 0 \<noteq> open_bracket"
    using assms by (cases host) (auto simp: colon_def open_bracket_def)
  then show ?thesis
    using assms by (simp add: SplitHostPort_def join_port_def lastIndexByte_append)
qed

subsection \<open>net.JoinHostPort and the text form of a TCP address\<close>

definition JoinHostPort :: "string \<Rightarrow> string \<Rightarrow> string" where
  "JoinHostPort host port =
     (if colon \<in> set host \<or> CHR ''%'' \<in> set host then open_bracket # host @ close_bracket # colon # port
      else join_port host port)"

definition TCPAddr_String :: "bytes \<Rightarrow> nat \<Rightarrow> string" where
  "TCPAddr_String ip port = JoinHostPort (IP_String ip) (itoa port)"

lemma SplitHostPort_bracketed:
  assumes "open_bracket \<notin> set host" "close_bracket \<notin> set host"
    and "colon \<notin> set port" "open_bracket \<notin> set port" "close_bracket \<notin> set port"
  shows "SplitHostPort (open_bracket # host @ close_bracket # colon # port) = Inr (host, port)"
proof -
  have ne: "open_bracket \<noteq> colon" "close_bracket \<noteq> colon" "open_bracket \<noteq> close_bracket"
    by (simp_all add: colon_def open_bracket_def close_bracket_def)
  have "lastIndexByte colon (open_bracket # host @ close_bracket # colon # port) = Some (length host + 2)"
    using lastIndexByte_append [OF assms(3), of "open_bracket # host @ [close_bracket]"] by simp
  moreover have "indexByte close_bracket (open_bracket # host @ close_bracket # colon # port) = Some (Suc (length host))"
    using assms(2) ne indexByte_append [of close_bracket "open_bracket # host" "colon # port"] by simp
  ultimately show ?thesis
    using assms ne by (simp add: SplitHostPort_def)
qed

lemma SplitHostPort_TCPAddr: "SplitHostPort (TCPAddr_String ip port) = Inr (IP_String ip, itoa port)"
  using SplitHostPort_plain [of "IP_String ip" "itoa port"] SplitHostPort_bracketed [of "IP_String ip" "itoa port"]
  by (auto simp: TCPAddr_String_def JoinHostPort_def IP_String_no_bracket itoa_no_punct)

text \<open>The text of an IP address is never the text of an address with a port.\<close>

definition dot :: char where "dot = CHR ''.''"

lemma digit_not_dot: "d < 16 \<Longrightarrow> dot \<noteq> digit d"
  by (auto dest!: arg_cong [where f = "of_char :: char \<Rightarrow> nat"] simp: of_char_digit dot_def split: if_splits)

lemma hex_no_dot: "dot \<notin> set (hex n)"
proof (induction n rule: hex.induct)
  case (1 n)
  then show ?case
    by (subst hex.simps) (auto simp: digit_not_dot)
qed

lemma ipv6_string_no_dot: "dot \<notin> set (ipv6_string ip)"
proof -
  have "dot \<notin> set (ipv6_groups ip s e i fuel)" for s e i fuel
    by (induction ip s e i fuel rule: ipv6_groups.induct) (auto simp: hex_no_dot, simp_all add: dot_def)
  then show ?thesis
    by (auto simp: ipv6_string_def split: prod.splits)
qed

lemma IP_String_neq_TCPAddr: "IP_String ip \<noteq> TCPAddr_String ip' port"
proof (cases "colon \<in> set (IP_String ip') \<or> CHR ''%'' \<in> set (IP_String ip')")
  case True
  then have "open_bracket \<in> set (TCPAddr_String ip' port)"
    by (auto simp: TCPAddr_String_def JoinHostPort_def)
  then show ?thesis
    using IP_String_no_bracket(1) by metis
next
  case False
  then have v4: "dot \<in> set (IP_String ip')"
    using ipv6_string_colon [of ip'] by (auto simp: IP_String_def ipv4_string_def dot_def)
  have t: "TCPAddr_String ip' port = join_port (IP_String ip') (itoa port)"
    using False by (simp add: TCPAddr_String_def JoinHostPort_def)
  then have "colon \<in> set (TCPAddr_String ip' port)" "dot \<in> set (TCPAddr_String ip' port)"
    using v4 by (auto simp: join_port_def)
  moreover have "colon \<notin> set (IP_String ip) \<or> dot \<notin> set (IP_String ip)"
    using ipv4_string_no_punct(1) ipv6_string_no_dot by (simp add: IP_String_def)
  ultimately show ?thesis by metis
qed

end
