(* ===== verification/Dest_Header.thy ===== *)
theory Dest_Header
  imports Framing Go_Net
begin

text \<open>
  The destination header every tunnel stream starts with (internal/tunnel/header.go), the
  client's TCP forwarder that writes it (internal/tunnel/forwarder.go) and the server's stream
  handler that reads it (internal/server/server.go).
\<close>

subsection \<open>Header codec\<close>

definition MaxDestLen :: nat where "MaxDestLen = 512"

datatype 'w write_dest_error = DestTooLong nat | WriteErr 'w

datatype read_dest_error = InvalidDestLen nat | ReadErr io_error

definition destHeader :: "string \<Rightarrow> bytes" where
  "destHeader dest = len16 (length (bytes_of dest)) @ bytes_of dest"

text \<open>\<open>w\<close> is the writer: the error, if any, its \<open>Write\<close> returns. The result is the bytes written.\<close>

definition WriteDestHeader :: "(bytes \<Rightarrow> 'w option) \<Rightarrow> string \<Rightarrow> 'w write_dest_error + bytes" where
  "WriteDestHeader w dest =
     (if length (bytes_of dest) > MaxDestLen then Inl (DestTooLong (length (bytes_of dest)))
      else case w (destHeader dest) of Some e \<Rightarrow> Inl (WriteErr e) | None \<Rightarrow> Inr (destHeader dest))"

definition ReadDestHeader :: "bytes \<Rightarrow> read_dest_error + string \<times> bytes" where
  "ReadDestHeader r =
     andThen (map_sum ReadErr id (readFull 2 r)) (\<lambda>(destBuf, r1).
       let destLen = int16 (destBuf ! 0) (destBuf ! 1) in
       if destLen = 0 \<or> destLen > MaxDestLen then Inl (InvalidDestLen destLen)
       else andThen (map_sum ReadErr id (readFull destLen r1)) (\<lambda>(destAddr, r2).
              Inr (string_of destAddr, r2)))"

definition valid_dest :: "string \<Rightarrow> bool" where
  "valid_dest dest \<longleftrightarrow> 0 < length dest \<and> length dest \<le> MaxDestLen"

lemma ReadDestHeader_two:
  "ReadDestHeader (a # b # r) =
     (if int16 a b = 0 \<or> int16 a b > MaxDestLen then Inl (InvalidDestLen (int16 a b))
      else andThen (map_sum ReadErr id (readFull (int16 a b) r)) (\<lambda>(d, r2). Inr (string_of d, r2)))"
  using readFull_append [of "[a, b]" 2 r]
  by (simp add: ReadDestHeader_def Let_def)

lemma ReadDestHeader_destHeader:
  assumes "valid_dest dest"
  shows "ReadDestHeader (destHeader dest @ rest) = Inr (dest, rest)"
proof -
  have "length dest mod 65536 = length dest"
    using assms by (simp add: valid_dest_def MaxDestLen_def)
  then show ?thesis
    using assms
    by (simp add: destHeader_def len16_def ReadDestHeader_two int16_len16 valid_dest_def
        readFull_append)
qed

lemma destHeader_length: "length (destHeader dest) = 2 + length dest"
  by (simp add: destHeader_def)

lemma destHeader_nonempty [simp]: "destHeader dest \<noteq> []"
  by (simp add: destHeader_def len16_def)

interpretation dest_codec: frame_codec destHeader ReadDestHeader valid_dest
  by unfold_locales (simp_all add: ReadDestHeader_destHeader)

lemma WriteDestHeader_ok:
  "length dest \<le> MaxDestLen \<Longrightarrow> w (destHeader dest) = None \<Longrightarrow>
     WriteDestHeader w dest = Inr (destHeader dest)"
  by (simp add: WriteDestHeader_def)

text \<open>The reader consumes exactly the header: whatever it accepts is a header the writer makes.\<close>

lemma ReadDestHeader_sound:
  assumes "ReadDestHeader r = Inr (dest, rest)"
  shows "valid_dest dest \<and> r = destHeader dest @ rest"
proof -
  from assms obtain b r1 d where b: "readFull 2 r = Inr (b, r1)"
    and len: "\<not> (int16 (b ! 0) (b ! 1) = 0 \<or> int16 (b ! 0) (b ! 1) > MaxDestLen)"
    and d: "readFull (int16 (b ! 0) (b ! 1)) r1 = Inr (d, rest)" and dest: "dest = string_of d"
    by (cases "readFull 2 r"; cases "readFull (int16 (fst (projr (readFull 2 r)) ! 0)
          (fst (projr (readFull 2 r)) ! 1)) (snd (projr (readFull 2 r)))")
      (auto simp: ReadDestHeader_def Let_def split: if_splits)
  from b have r: "r = b @ r1" "length b = 2" by (simp_all add: readFull_Inr_iff)
  then obtain x y where xy: "b = [x, y]"
    by (cases b; cases "tl b") auto
  from d have d': "r1 = d @ rest" "length d = int16 x y"
    by (simp_all add: readFull_Inr_iff xy)
  have "len16 (int16 x y) = [x, y]"
  proof -
    have "drop_bit 8 (int16 x y) = unat x"
      using unat_byte_less [of y] by (simp add: int16_eq drop_bit_eq_div)
    moreover have "byte_of (int16 x y) = y"
      by (rule word_unat_eq_iff [THEN iffD2]) (simp add: int16_eq)
    ultimately show ?thesis by (simp add: len16_def)
  qed
  with r d' len dest xy show ?thesis
    by (auto simp: valid_dest_def destHeader_def)
qed

subsection \<open>The client's TCP forwarder and the server's stream handler\<close>

text \<open>
  \<open>handleTCPConn\<close> gets a stream (\<open>None\<close> if the pool has none), writes the header for the
  configured remote and relays what the local connection sends; the result is the bytes the
  stream carries to the server, \<open>None\<close> when the handler gives up before relaying.
\<close>

definition handleTCPConn :: "(bytes \<Rightarrow> 'w option) option \<Rightarrow> string \<Rightarrow> bytes \<Rightarrow> bytes option" where
  "handleTCPConn getStream remote payload =
     (case getStream of
        None \<Rightarrow> None
      | Some w \<Rightarrow>
          (case WriteDestHeader w remote of
             Inl _ \<Rightarrow> None
           | Inr header \<Rightarrow> Some (header @ payload)))"

datatype stream_outcome =
    StreamRejected read_dest_error
  | StreamDialFailed string
  | StreamRelayed string bytes

definition handleStream :: "(string \<Rightarrow> bool) \<Rightarrow> bytes \<Rightarrow> stream_outcome" where
  "handleStream dial stream =
     (case ReadDestHeader stream of
        Inl e \<Rightarrow> StreamRejected e
      | Inr (dest, rest) \<Rightarrow>
          if dial dest then StreamRelayed dest rest else StreamDialFailed dest)"

lemma handleStream_destHeader:
  "valid_dest dest \<Longrightarrow> handleStream dial (destHeader dest @ rest) =
     (if dial dest then StreamRelayed dest rest else StreamDialFailed dest)"
  by (simp add: handleStream_def ReadDestHeader_destHeader)

lemma handleStream_relayed_iff:
  "handleStream dial s = StreamRelayed dest rest \<longleftrightarrow>
     valid_dest dest \<and> dial dest \<and> s = destHeader dest @ rest"
proof
  assume "handleStream dial s = StreamRelayed dest rest"
  then have "ReadDestHeader s = Inr (dest, rest)" "dial dest"
    by (auto simp: handleStream_def split: sum.splits if_splits)
  then show "valid_dest dest \<and> dial dest \<and> s = destHeader dest @ rest"
    using ReadDestHeader_sound by blast
qed (auto simp: handleStream_destHeader)

lemma handleTCPConn_stream:
  "length remote \<le> MaxDestLen \<Longrightarrow> w (destHeader remote) = None \<Longrightarrow>
     handleTCPConn (Some w) remote payload = Some (destHeader remote @ payload)"
  by (simp add: handleTCPConn_def WriteDestHeader_ok)

text \<open>
  the server accepts a stream exactly when it begins with a header the client's writer
  produces for a destination of 1 to 512 bytes that can be dialled; it then relays every byte
  after the header, and nothing else, to that destination.
\<close>

theorem handleStream_exact:
  "handleStream dial s = StreamRelayed dest rest \<longleftrightarrow>
     0 < length dest \<and> length dest \<le> 512 \<and> dial dest \<and>
     WriteDestHeader (\<lambda>_. None) dest = Inr (take (2 + length dest) s) \<and>
     s = take (2 + length dest) s @ rest"
proof -
  have "s = destHeader dest @ rest \<longleftrightarrow>
      destHeader dest = take (2 + length dest) s \<and> s = take (2 + length dest) s @ rest"
    by (metis append.assoc append_eq_conv_conj destHeader_length)
  then show ?thesis
    unfolding handleStream_relayed_iff
    by (auto simp: valid_dest_def MaxDestLen_def WriteDestHeader_def simp del: append_take_drop_id)
qed

text \<open>
  End to end, a TCP forward whose remote is 1 to 512 bytes long delivers the local
  connection's bytes, unchanged and complete, to that remote.
\<close>

lemma tcp_forward_end_to_end:
  assumes "0 < length remote" "length remote \<le> 512" "dial remote" "w (destHeader remote) = None"
  shows "\<exists>s. handleTCPConn (Some w) remote payload = Some s \<and>
             handleStream dial s = StreamRelayed remote payload"
  using assms
  by (intro exI [of _ "destHeader remote @ payload"])
    (simp add: handleTCPConn_stream handleStream_destHeader valid_dest_def MaxDestLen_def)

end
