(* ===== verification/Socks5.thy ===== *)
theory Socks5
  imports Dest_Header
begin

text \<open>
  SOCKS5: the address parser and the reply of internal/tunnel/socks5.go, and the proxy handler
  of internal/tunnel/forwarder.go, which parses the request out of one 258-byte buffer.
\<close>

subsection \<open>socks5.go\<close>

datatype socks_addr_error = SocksRead io_error | SocksUnsupportedAddr byte

definition ParseSOCKS5Addr :: "bytes \<Rightarrow> socks_addr_error + string \<times> bytes" where
  "ParseSOCKS5Addr r =
    andThen (map_sum SocksRead id (readFull 1 r)) (\<lambda>(addrType, r1).
    andThen
      (if addrType ! 0 = 0x01 then
         andThen (map_sum SocksRead id (readFull 4 r1)) (\<lambda>(ip, r2). Inr (IP_String ip, r2))
       else if addrType ! 0 = 0x03 then
         andThen (map_sum SocksRead id (readFull 1 r1)) (\<lambda>(lenBuf, r2).
         andThen (map_sum SocksRead id (readFull (unat (lenBuf ! 0)) r2)) (\<lambda>(domain, r3).
           Inr (string_of domain, r3)))
       else if addrType ! 0 = 0x04 then
         andThen (map_sum SocksRead id (readFull 16 r1)) (\<lambda>(ip, r2). Inr (IP_String ip, r2))
       else Inl (SocksUnsupportedAddr (addrType ! 0)))
    (\<lambda>(host, r4).
    andThen (map_sum SocksRead id (readFull 2 r4)) (\<lambda>(portBuf, r5).
      Inr (join_port host (itoa (int16 (portBuf ! 0) (portBuf ! 1))), r5))))"

text \<open>\<open>net.Addr\<close>: a TCP address, or any other implementation.\<close>

datatype net_addr = TCPAddr bytes nat | OtherAddr

definition To4 :: "bytes \<Rightarrow> bytes option" where
  "To4 ip =
     (if length ip = 4 then Some ip
      else if length ip = 16 \<and> is_v4_mapped ip then Some (drop 12 ip)
      else None)"

definition SOCKS5Reply :: "byte \<Rightarrow> net_addr option \<Rightarrow> bytes" where
  "SOCKS5Reply rep addr =
     (let reply = [0x05, rep, 0x00, 0x01, 0, 0, 0, 0, 0, 0] in
      case addr of
        Some (TCPAddr ip port) \<Rightarrow>
          (case To4 ip of
             Some v4 \<Rightarrow> take 4 reply @ v4 @ len16 port
           | None \<Rightarrow> reply)
      | _ \<Rightarrow> reply)"

subsection \<open>The handshake of the proxy handler\<close>

datatype socks_error =
    BadGreeting | NotSocks5 byte | BadRequest | UnsupportedCommand byte
  | V4Short | DomainShort | V6Short | UnsupportedAddr byte

text \<open>Lines 254-290: the switch on the request held in the first \<open>n\<close> bytes of the buffer.\<close>

definition parseRequest :: "bytes \<Rightarrow> nat \<Rightarrow> socks_error + string" where
  "parseRequest buf n =
    (if buf ! 0 \<noteq> 0x05 \<or> buf ! 1 \<noteq> 0x01 then Inl (UnsupportedCommand (buf ! 1))
     else
       andThen
        (if buf ! 3 = 0x01 then
           (if n < 10 then Inl V4Short
            else Inr (ipv4_string (take 4 (drop 4 buf)), getUint16 (buf ! 8) (buf ! 9)))
         else if buf ! 3 = 0x03 then
           (let domainLen = unat (buf ! 4) in
            if n < 5 + domainLen + 2 then Inl DomainShort
            else Inr (string_of (take domainLen (drop 5 buf)),
                      getUint16 (buf ! (5 + domainLen)) (buf ! (6 + domainLen))))
         else if buf ! 3 = 0x04 then
           (if n < 22 then Inl V6Short
            else Inr (IP_String (take 16 (drop 4 buf)), getUint16 (buf ! 20) (buf ! 21)))
         else Inl (UnsupportedAddr (buf ! 3)))
       (\<lambda>(host, port). Inr (join_port host (itoa (unat port)))))"

text \<open>The result, the bytes written to the connection, and the segments left to read.\<close>

definition socks5Handshake :: "bytes list \<Rightarrow> (socks_error + string) \<times> bytes list \<times> bytes list" where
  "socks5Handshake conn =
    (let buf = replicate 258 0 in
     case conn_read 258 conn of
       None \<Rightarrow> (Inl BadGreeting, [], conn)
     | Some (g, conn1) \<Rightarrow>
        if length g < 2 then (Inl BadGreeting, [], conn1)
        else let buf1 = overwrite buf g in
        if buf1 ! 0 \<noteq> 0x05 then (Inl (NotSocks5 (buf1 ! 0)), [], conn1)
        else
         case conn_read 258 conn1 of
           None \<Rightarrow> (Inl BadRequest, [[0x05, 0x00]], conn1)
         | Some (req, conn2) \<Rightarrow>
            if length req < 7 then (Inl BadRequest, [[0x05, 0x00]], conn2)
            else (parseRequest (overwrite buf1 req) (length req), [[0x05, 0x00]], conn2))"

definition socks_fail :: bytes where
  "socks_fail = [0x05, 0x01, 0x00, 0x01, 0, 0, 0, 0, 0, 0]"

definition socks_success :: bytes where
  "socks_success = [0x05, 0x00, 0x00, 0x01, 0, 0, 0, 0, 0, 0]"

text \<open>
  The whole handler: the bytes the tunnel stream receives (\<open>None\<close> if the handler stops before
  relaying) and the writes on the local connection before the relay.
\<close>

definition handleSOCKS5 ::
  "(bytes \<Rightarrow> 'w option) option \<Rightarrow> bytes list \<Rightarrow> bytes option \<times> bytes list" where
  "handleSOCKS5 getStream conn =
    (case socks5Handshake conn of
       (Inl _, out, _) \<Rightarrow> (None, out)
     | (Inr dest, out, conn') \<Rightarrow>
         (case getStream of
            None \<Rightarrow> (None, out @ [socks_fail])
          | Some w \<Rightarrow>
              (case WriteDestHeader w dest of
                 Inl _ \<Rightarrow> (None, out @ [socks_fail])
               | Inr header \<Rightarrow> (Some (header @ concat conn'), out @ [socks_success]))))"

subsection \<open>The buffer is only read where the request filled it\<close>

lemma parseRequest_overwrite:
  assumes "7 \<le> length req"
  shows "parseRequest (overwrite buf req) (length req) = parseRequest req (length req)"
proof -
  have tk: "take k (drop i (overwrite buf req)) = take k (drop i req)" if "i + k \<le> length req" for i k
    using that by (simp add: overwrite_def)
  have nt: "overwrite buf req ! i = req ! i" if "i < length req" for i
    using that by (rule nth_overwrite)
  have z: "overwrite buf req ! 0 = req ! 0"
    using assms by (intro nt) linarith
  show ?thesis
    using assms by (simp add: parseRequest_def nt z tk Let_def not_less)
qed

lemma socks5Handshake_two_segments:
  assumes "2 \<le> length g" "length g \<le> 258" "g ! 0 = 0x05" "7 \<le> length req" "length req \<le> 258"
  shows "socks5Handshake (g # req # rest) = (parseRequest req (length req), [[0x05, 0x00]], rest)"
proof -
  have "overwrite buf g ! 0 = 0x05" for buf
    using assms nth_overwrite [of 0 g buf] by force
  with assms show ?thesis
    by (simp add: socks5Handshake_def Let_def parseRequest_overwrite)
qed

subsection \<open>Agreement of the two parsers\<close>

definition connect_request :: "bytes \<Rightarrow> bytes" where
  "connect_request addr = [0x05, 0x01, 0x00] @ addr"

lemma ParseSOCKS5Addr_v4:
  "(\<exists>rest. ParseSOCKS5Addr (0x01 # r) = Inr (d, rest)) \<longleftrightarrow>
     6 \<le> length r \<and> d = join_port (ipv4_string (take 4 r)) (itoa (int16 (r ! 4) (r ! 5)))"
  by (auto simp: ParseSOCKS5Addr_def readFull_def IP_String_def)

lemma ParseSOCKS5Addr_domain:
  "(\<exists>rest. ParseSOCKS5Addr (0x03 # l # r) = Inr (d, rest)) \<longleftrightarrow>
     unat l + 2 \<le> length r \<and>
     d = join_port (string_of (take (unat l) r)) (itoa (int16 (r ! unat l) (r ! (unat l + 1))))"
  by (auto simp: ParseSOCKS5Addr_def readFull_def)

lemma ParseSOCKS5Addr_v6:
  "(\<exists>rest. ParseSOCKS5Addr (0x04 # r) = Inr (d, rest)) \<longleftrightarrow>
     18 \<le> length r \<and> d = join_port (IP_String (take 16 r)) (itoa (int16 (r ! 16) (r ! 17)))"
  by (auto simp: ParseSOCKS5Addr_def readFull_def)

lemma ParseSOCKS5Addr_other:
  "t \<notin> {0x01, 0x03, 0x04} \<Longrightarrow> ParseSOCKS5Addr (t # r) = Inl (SocksUnsupportedAddr t)"
  by (simp add: ParseSOCKS5Addr_def readFull_def)

lemmas ParseSOCKS5Addr_iff = ParseSOCKS5Addr_v4 ParseSOCKS5Addr_domain ParseSOCKS5Addr_v6

lemma parseRequest_agrees:
  assumes "4 \<le> length addr"
  shows "parseRequest (connect_request addr) (length (connect_request addr)) = Inr d \<longleftrightarrow>
     (\<exists>rest. ParseSOCKS5Addr addr = Inr (d, rest))"
proof -
  obtain t l r where addr: "addr = t # l # r"
    using assms by (cases addr; cases "tl addr") auto
  consider "t = 0x01" | "t = 0x03" | "t = 0x04" | "t \<notin> {0x01, 0x03, 0x04}" by blast
  then show ?thesis
  proof cases
    case 1
    then show ?thesis
      by (auto simp: addr ParseSOCKS5Addr_v4 parseRequest_def connect_request_def unat_getUint16)
  next
    case 2
    then show ?thesis
      by (auto simp: addr ParseSOCKS5Addr_domain parseRequest_def connect_request_def unat_getUint16
          Let_def)
  next
    case 3
    then show ?thesis
      by (auto simp: addr ParseSOCKS5Addr_v6 parseRequest_def connect_request_def unat_getUint16)
  next
    case 4
    then show ?thesis
      by (auto simp: addr ParseSOCKS5Addr_other parseRequest_def connect_request_def)
  qed
qed

subsection \<open>Requests by address type\<close>

definition domain_request :: "string \<Rightarrow> byte \<Rightarrow> byte \<Rightarrow> bytes" where
  "domain_request domain p1 p2 =
     connect_request ([0x03, byte_of (length domain)] @ bytes_of domain @ [p1, p2])"

definition v6_request :: "bytes \<Rightarrow> byte \<Rightarrow> byte \<Rightarrow> bytes" where
  "v6_request ip p1 p2 = connect_request ([0x04] @ ip @ [p1, p2])"

definition is_greeting :: "bytes \<Rightarrow> bool" where
  "is_greeting g \<longleftrightarrow> 2 \<le> length g \<and> length g \<le> 258 \<and> g ! 0 = 0x05"

definition socks_dest :: "string \<Rightarrow> byte \<Rightarrow> byte \<Rightarrow> string" where
  "socks_dest host p1 p2 = join_port host (itoa (int16 p1 p2))"

lemma length_socks_dest: "length (socks_dest host p1 p2) \<le> length host + 6"
proof -
  have "length (itoa (int16 p1 p2)) \<le> 5"
    using int16_less [of p1 p2] by (intro length_itoa_le) simp_all
  then show ?thesis by (simp add: socks_dest_def)
qed

lemma socks_dest_nonempty: "0 < length (socks_dest host p1 p2)"
  by (simp add: socks_dest_def)

lemma parse_domain_request:
  assumes "length domain < 256"
  shows "parseRequest (domain_request domain p1 p2) (length (domain_request domain p1 p2)) =
           Inr (socks_dest domain p1 p2)"
proof -
  have "length (bytes_of domain) = length domain" by simp
  then show ?thesis
    using assms unfolding domain_request_def
    by (subst parseRequest_agrees) (simp_all add: ParseSOCKS5Addr_domain socks_dest_def nth_append)
qed

lemma parse_v6_request:
  assumes "length ip = 16"
  shows "parseRequest (v6_request ip p1 p2) (length (v6_request ip p1 p2)) =
           Inr (socks_dest (IP_String ip) p1 p2)"
  using assms unfolding v6_request_def
  by (subst parseRequest_agrees) (simp_all add: ParseSOCKS5Addr_v6 socks_dest_def nth_append)

lemma length_domain_request [simp]: "length (domain_request domain p1 p2) = length domain + 7"
  by (simp add: domain_request_def connect_request_def)

lemma length_v6_request [simp]: "length (v6_request ip p1 p2) = length ip + 6"
  by (simp add: v6_request_def connect_request_def)

text \<open>A successful handshake followed by a writable stream starts the relay with its header.\<close>

lemma handleSOCKS5_relays:
  assumes "socks5Handshake conn = (Inr dest, out, conn')"
    and "length dest \<le> MaxDestLen" "w (destHeader dest) = None"
  shows "handleSOCKS5 (Some w) conn = (Some (destHeader dest @ concat conn'), out @ [socks_success])"
  using assms by (simp add: handleSOCKS5_def WriteDestHeader_ok)

text \<open>
  C13: the proxy's in-buffer parser and the stream parser \<open>ParseSOCKS5Addr\<close> accept the same
  CONNECT requests (of up to 258 bytes) and produce the same destination string.
\<close>

theorem socks5_parsers_agree:
  assumes "is_greeting g" "4 \<le> length addr" "length addr \<le> 255"
  shows "fst (socks5Handshake (g # connect_request addr # rest)) = Inr d \<longleftrightarrow>
           (\<exists>left. ParseSOCKS5Addr addr = Inr (d, left))"
  using assms parseRequest_agrees [of addr d]
  by (subst socks5Handshake_two_segments) (simp_all add: is_greeting_def connect_request_def)

theorem socks5_parsers_agree_witness:
  "fst (socks5Handshake [[5, 1, 0], connect_request [1, 10, 0, 0, 1, 0, 80]]) =
     Inr ''10.0.0.1:80'' \<longleftrightarrow>
   (\<exists>left. ParseSOCKS5Addr [1, 10, 0, 0, 1, 0, 80] = Inr (''10.0.0.1:80'', left))"
  using socks5_parsers_agree [of "[5, 1, 0]" "[1, 10, 0, 0, 1, 0, 80]" "[]" "''10.0.0.1:80''"]
  by (simp add: is_greeting_def)

text \<open>
  C12: end to end, a SOCKS5 CONNECT to a domain name of up to 251 bytes makes the server relay
  everything the client sends after the request to exactly \<open>domain:port\<close>, and the client is
  answered with the method selection and then the success reply.
\<close>

theorem socks5_domain_end_to_end:
  assumes "is_greeting g" "length domain \<le> 251" "\<And>h. w h = None" "dial (socks_dest domain p1 p2)"
  shows "\<exists>s. handleSOCKS5 (Some w) (g # domain_request domain p1 p2 # rest) =
               (Some s, [[0x05, 0x00], socks_success]) \<and>
             handleStream dial s = StreamRelayed (socks_dest domain p1 p2) (concat rest)"
proof -
  have hs: "socks5Handshake (g # domain_request domain p1 p2 # rest) =
      (Inr (socks_dest domain p1 p2), [[0x05, 0x00]], rest)"
    using assms(1,2)
    by (subst socks5Handshake_two_segments)
      (simp_all add: is_greeting_def parse_domain_request [simplified])
  have "valid_dest (socks_dest domain p1 p2)"
    using assms(2) length_socks_dest [of domain p1 p2] socks_dest_nonempty [of domain p1 p2]
    by (simp add: valid_dest_def MaxDestLen_def)
  then show ?thesis
    using handleSOCKS5_relays [OF hs, of w] assms(3,4)
    by (simp add: valid_dest_def handleStream_destHeader)
qed

theorem socks5_domain_end_to_end_witness:
  "\<exists>s. handleSOCKS5 (Some (\<lambda>_. None :: unit option))
          [[5, 1, 0], domain_request ''example.com'' 1 187, [42]] =
            (Some s, [[0x05, 0x00], socks_success]) \<and>
       handleStream (\<lambda>_. True) s = StreamRelayed (socks_dest ''example.com'' 1 187) [42]"
  using socks5_domain_end_to_end [of "[5, 1, 0]" "''example.com''" "\<lambda>_. None :: unit option"
      "\<lambda>_. True" 1 187 "[[42]]"]
  by (simp add: is_greeting_def)

text \<open>
  a domain name of 252 to 255 bytes, which SOCKS5 allows, is always refused: the request
  does not fit the 258-byte buffer, so its tail is cut off and the handler stops before it
  opens a stream.
\<close>

theorem socks5_long_domain_refused:
  assumes "is_greeting g" "252 \<le> length domain" "length domain \<le> 255"
  shows "handleSOCKS5 getStream (g # domain_request domain p1 p2 # rest) = (None, [[0x05, 0x00]])"
proof -
  let ?r = "domain_request domain p1 p2"
  have r: "parseRequest (take 258 ?r) 258 = Inl DomainShort"
    using assms(2,3)
    by (simp add: parseRequest_def domain_request_def connect_request_def Let_def take_Cons')
  have "overwrite buf g ! 0 = 0x05" for buf
    using assms(1) nth_overwrite [of 0 g buf] by (force simp: is_greeting_def)
  moreover have "parseRequest (overwrite buf (take 258 ?r)) 258 = Inl DomainShort" for buf
    using parseRequest_overwrite [of "take 258 ?r" buf] assms(2) r by simp
  ultimately have "fst (socks5Handshake (g # ?r # rest)) = Inl DomainShort \<and>
      fst (snd (socks5Handshake (g # ?r # rest))) = [[0x05, 0x00]]"
    using assms by (simp add: socks5Handshake_def is_greeting_def Let_def)
  then show ?thesis
    by (auto simp: handleSOCKS5_def split: prod.splits sum.splits)
qed

theorem socks5_long_domain_refused_witness:
  "handleSOCKS5 (Some (\<lambda>_. None :: unit option))
     [[5, 1, 0], domain_request (replicate 253 CHR ''a'') 1 187] = (None, [[0x05, 0x00]])"
  using socks5_long_domain_refused [of "[5, 1, 0]" "replicate 253 CHR ''a''"
      "Some (\<lambda>_. None :: unit option)" 1 187 "[]"]
  by (simp add: is_greeting_def)

text \<open>
  a CONNECT to an IPv6 address (other than an IPv4-mapped one) can never be served: the
  destination is printed without brackets, so \<open>net.SplitHostPort\<close>, on which \<open>net.Dial\<close>
  relies, refuses it and the server's dial fails, although the client was told it succeeded.
\<close>

theorem socks5_ipv6_never_relayed:
  assumes "is_greeting g" "length ip = 16" "\<not> is_v4_mapped ip"
    and dial_splits: "\<And>a. dial a \<Longrightarrow> is_ok (SplitHostPort a)"
    and "handleSOCKS5 getStream (g # v6_request ip p1 p2 # rest) = (Some s, out)"
  shows "handleStream dial s = StreamDialFailed (socks_dest (IP_String ip) p1 p2) \<and>
         socks_success \<in> set out"
proof -
  let ?d = "socks_dest (IP_String ip) p1 p2"
  have hs: "socks5Handshake (g # v6_request ip p1 p2 # rest) = (Inr ?d, [[0x05, 0x00]], rest)"
    using assms(1,2) parse_v6_request [OF assms(2), of p1 p2]
    by (subst socks5Handshake_two_segments) (simp_all add: is_greeting_def)
  then have s: "s = destHeader ?d @ concat rest" "length ?d \<le> MaxDestLen" "socks_success \<in> set out"
    using assms(5)
    by (auto simp: handleSOCKS5_def WriteDestHeader_def split: option.splits if_splits)
  have "SplitHostPort ?d = Inl TooManyColons"
    using assms(2,3) ipv6_string_colon [of ip] ipv6_string_no_bracket [of ip]
    unfolding socks_dest_def IP_String_def
    by (simp add: SplitHostPort_colons itoa_no_punct)
  then have "\<not> dial ?d"
    using dial_splits [of ?d] by auto
  moreover have "valid_dest ?d"
    using s(2) socks_dest_nonempty [of "IP_String ip" p1 p2] by (simp add: valid_dest_def)
  ultimately show ?thesis
    using s by (simp add: handleStream_destHeader)
qed

definition dial_host_port :: "string \<Rightarrow> bool" where
  "dial_host_port a = is_ok (SplitHostPort a)"

definition v6_loopback :: bytes where
  "v6_loopback = replicate 15 0 @ [1]"

theorem socks5_ipv6_never_relayed_witness:
  "handleStream dial_host_port (destHeader (socks_dest (IP_String v6_loopback) 0 80)) =
     StreamDialFailed (socks_dest (IP_String v6_loopback) 0 80) \<and>
   socks_success \<in> set [[0x05, 0x00], socks_success]"
proof -
  have "length (IP_String v6_loopback) \<le> 3"
    by code_simp
  then have "length (socks_dest (IP_String v6_loopback) 0 80) \<le> MaxDestLen"
    using length_socks_dest [of "IP_String v6_loopback" 0 80] by (simp add: MaxDestLen_def)
  moreover have "socks5Handshake [[5, 1, 0], v6_request v6_loopback 0 80] =
      (Inr (socks_dest (IP_String v6_loopback) 0 80), [[0x05, 0x00]], [])"
    using parse_v6_request [of v6_loopback 0 80]
    by (subst socks5Handshake_two_segments) (simp_all add: v6_loopback_def)
  ultimately have "handleSOCKS5 (Some (\<lambda>_. None :: unit option))
      [[5, 1, 0], v6_request v6_loopback 0 80] =
      (Some (destHeader (socks_dest (IP_String v6_loopback) 0 80)), [[0x05, 0x00], socks_success])"
    using handleSOCKS5_relays by fastforce
  moreover have "\<not> is_v4_mapped v6_loopback" "length v6_loopback = 16"
    by code_simp+
  ultimately show ?thesis
    by (intro socks5_ipv6_never_relayed [of "[5, 1, 0]" v6_loopback dial_host_port
          "Some (\<lambda>_. None :: unit option)" 0 80 "[]"])
      (simp_all add: is_greeting_def dial_host_port_def)
qed

end
