(* ===== verification/Udp_Forward.thy ===== *)
theory Udp_Forward
  imports Dest_Header
begin

text \<open>
  Datagram forwarding: the UDP forwarder (internal/tunnel/udp.go) and the WireGuard forwarder
  (internal/tunnel/wireguard_fwd.go), their wire formats, session tables and the loop that
  turns a tunnel stream back into datagrams.
\<close>

subsection \<open>UDP forwarder\<close>

record udp_session =
  us_clientAddr :: string
  us_lastActive :: time

type_synonym udp_sessions = "string \<Rightarrow> udp_session option"

text \<open>The table part of one iteration of \<open>readLoop\<close>: LoadOrStore, then refresh.\<close>

definition udpReceive :: "time \<Rightarrow> string \<Rightarrow> udp_sessions \<Rightarrow> udp_sessions" where
  "udpReceive now key st =
     (let st1 = (case st key of
                   None \<Rightarrow> st(key \<mapsto> \<lparr>us_clientAddr = key, us_lastActive = now\<rparr>)
                 | Some _ \<Rightarrow> st) in
      case st1 key of
        Some s \<Rightarrow> st1(key \<mapsto> s\<lparr>us_lastActive := now\<rparr>)
      | None \<Rightarrow> st1)"

definition udpCleanup :: "time \<Rightarrow> udp_sessions \<Rightarrow> udp_sessions" where
  "udpCleanup now st =
     (\<lambda>key. case st key of
        Some s \<Rightarrow> if now - us_lastActive s > 2 * minute then None else Some s
      | None \<Rightarrow> None)"

definition udpHeader :: "string \<Rightarrow> bytes \<Rightarrow> bytes" where
  "udpHeader remote packet =
     (let dest = bytes_of remote in
      [0x02, byte_of (length dest)] @ dest @ len16 (length packet) @ packet)"

text \<open>
  \<open>forwardPacket\<close>: \<open>getStream\<close> is the pool's answer; a stream is the peer behind it, which maps
  what is written to the response that can be read (\<open>None\<close>: the read fails or times out). The
  result is the datagram sent back to the client.
\<close>

definition forwardPacket ::
  "(bytes \<Rightarrow> bytes option) option \<Rightarrow> string \<Rightarrow> string \<Rightarrow> bytes \<Rightarrow> (string \<times> bytes) option" where
  "forwardPacket getStream remote clientAddr packet =
     (case getStream of
        None \<Rightarrow> None
      | Some stream \<Rightarrow>
          (case stream (udpHeader remote packet) of
             None \<Rightarrow> None
           | Some resp \<Rightarrow> Some (clientAddr, take 65535 resp)))"

lemma udpReceive_fresh: "\<exists>s. udpReceive now key st key = Some s \<and> us_lastActive s = now"
  by (cases "st key") (auto simp: udpReceive_def)

lemma udpReceive_other: "k \<noteq> key \<Longrightarrow> udpReceive now key st k = st k"
  by (auto simp: udpReceive_def Let_def split: option.splits)

lemma udpCleanup_keeps_iff:
  "udpCleanup now st key = Some s \<longleftrightarrow> st key = Some s \<and> now - us_lastActive s \<le> 2 * minute"
  by (auto simp: udpCleanup_def split: option.splits)

text \<open>The server reads the type marker and the length byte as one 16-bit length.\<close>

lemma ReadDestHeader_udpHeader:
  assumes "length remote mod 256 \<noteq> 0"
  shows "ReadDestHeader (udpHeader remote packet) =
           Inl (InvalidDestLen (512 + length remote mod 256))"
proof -
  have "int16 0x02 (byte_of (length remote)) = 512 + length remote mod 256"
    by (simp add: int16_eq)
  then show ?thesis
    using assms by (simp add: udpHeader_def Let_def ReadDestHeader_two MaxDestLen_def)
qed

text \<open>
  What the server makes of a stream, as the client sees it: it answers only after the stream was
  relayed; \<open>remote_reply\<close> is what the destination would answer.
\<close>

definition server_stream :: "(string \<Rightarrow> bool) \<Rightarrow> (bytes \<Rightarrow> bytes option) \<Rightarrow> bytes \<Rightarrow> bytes option" where
  "server_stream dial remote_reply s =
     (case handleStream dial s of StreamRelayed _ rest \<Rightarrow> remote_reply rest | _ \<Rightarrow> None)"

text \<open>
  UDP forwarding never delivers anything: whatever the remote (1 to 255 bytes) and the
  datagram, the server takes the UDP marker 0x02 for the high byte of the destination length,
  rejects the stream, and no response ever reaches the client.
\<close>

theorem udp_forward_never_delivered:
  assumes "0 < length remote" "length remote < 256"
  shows "handleStream dial (udpHeader remote packet) =
           StreamRejected (InvalidDestLen (512 + length remote)) \<and>
         forwardPacket (Some (server_stream dial remote_reply)) remote client packet = None"
  using assms ReadDestHeader_udpHeader [of remote packet]
  by (simp add: forwardPacket_def server_stream_def handleStream_def)

theorem udp_forward_never_delivered_witness:
  "handleStream (\<lambda>_. True) (udpHeader ''10.0.0.1:53'' [1, 2, 3]) =
     StreamRejected (InvalidDestLen 523) \<and>
   forwardPacket (Some (server_stream (\<lambda>_. True) Some)) ''10.0.0.1:53'' ''c:1'' [1, 2, 3] = None"
  using udp_forward_never_delivered [of "''10.0.0.1:53''" "\<lambda>_. True" "[1, 2, 3]" Some "''c:1''"]
  by simp

subsection \<open>WireGuard forwarder\<close>

definition wgFrame :: "bytes \<Rightarrow> bytes" where
  "wgFrame packet = len16 (length packet) @ packet"

text \<open>The loop of \<open>tunnelToClient\<close>: the datagrams it sends until the stream ends.\<close>

function tunnelToClient :: "bytes \<Rightarrow> bytes list" where
  "tunnelToClient s =
     (case readFull 2 s of
        Inl _ \<Rightarrow> []
      | Inr (header, s1) \<Rightarrow>
          (let pktLen = int16 (header ! 0) (header ! 1) in
           if pktLen = 0 \<or> pktLen > 65535 then tunnelToClient s1
           else case readFull pktLen s1 of
                  Inl _ \<Rightarrow> []
                | Inr (pkt, s2) \<Rightarrow> pkt # tunnelToClient s2))"
  by pat_completeness auto
termination
  by (relation "measure length") (auto simp: readFull_Inr_iff)

declare tunnelToClient.simps [simp del]

definition readWgFrame :: "bytes \<Rightarrow> io_error + bytes \<times> bytes" where
  "readWgFrame s = andThen (readFull 2 s) (\<lambda>(h, s1). readFull (int16 (h ! 0) (h ! 1)) s1)"

lemma readWgFrame_wgFrame: "length p \<le> 65535 \<Longrightarrow> readWgFrame (wgFrame p @ rest) = Inr (p, rest)"
  using readFull_append [of "len16 (length p)" 2 "p @ rest"]
  by (simp add: readWgFrame_def wgFrame_def len16_def int16_len16 readFull_append)

interpretation wg_codec: frame_codec wgFrame readWgFrame "\<lambda>p. length p \<le> 65535"
  by unfold_locales (simp_all add: readWgFrame_wgFrame, simp add: wgFrame_def len16_def)

lemma tunnelToClient_step:
  assumes "length p \<le> 65535"
  shows "tunnelToClient (wgFrame p @ rest) =
           (if p = [] then tunnelToClient rest else p # tunnelToClient rest)"
proof -
  have "readFull 2 (wgFrame p @ rest) = Inr (len16 (length p), p @ rest)"
    by (simp add: wgFrame_def readFull_append)
  moreover have "int16 (len16 (length p) ! 0) (len16 (length p) ! 1) = length p"
    using assms by (simp add: len16_def int16_len16)
  ultimately show ?thesis
    using assms by (subst tunnelToClient.simps) (simp add: readFull_append)
qed

lemma tunnelToClient_nil: "tunnelToClient [] = []"
  by (subst tunnelToClient.simps) (simp add: readFull_def)

lemma tunnelToClient_cut:
  assumes "k < length (wgFrame p)" "0 < length p" "length p \<le> 65535"
  shows "tunnelToClient (take k (wgFrame p)) = []"
proof (cases "2 \<le> k")
  case True
  then have t: "take k (wgFrame p) = len16 (length p) @ take (k - 2) p"
    by (simp add: wgFrame_def)
  have "length (take (k - 2) p) < length p"
    using assms True by (simp add: wgFrame_def)
  then obtain e where e: "readFull (length p) (take (k - 2) p) = Inl e"
    using readFull_short by blast
  have "int16 (len16 (length p) ! 0) (len16 (length p) ! 1) = length p"
    using assms by (simp add: len16_def int16_len16)
  with e show ?thesis
    by (subst tunnelToClient.simps) (use assms in \<open>simp add: t readFull_append Let_def\<close>)
next
  case False
  then show ?thesis
    by (subst tunnelToClient.simps) (auto simp: readFull_def split: sum.splits)
qed

text \<open>
  The client table. A stream is identified by a number; \<open>wg_written\<close> is what was sent on each
  stream and \<open>wg_closed\<close> the streams the forwarder closed.
\<close>

record wg_client =
  wc_stream :: "nat option"
  wc_lastActive :: time

record wg_state =
  wg_clients :: "string \<Rightarrow> wg_client option"
  wg_written :: "nat \<Rightarrow> bytes"
  wg_closed :: "nat set"

definition sendToStream :: "nat \<Rightarrow> bytes \<Rightarrow> wg_state \<Rightarrow> wg_state" where
  "sendToStream sid packet st =
     st\<lparr>wg_written := (wg_written st)(sid := wg_written st sid @ wgFrame packet)\<rparr>"

definition forwardToTunnel :: "wg_client \<Rightarrow> bytes \<Rightarrow> wg_state \<Rightarrow> wg_state" where
  "forwardToTunnel client packet st =
     (case wc_stream client of None \<Rightarrow> st | Some sid \<Rightarrow> sendToStream sid packet st)"

text \<open>One iteration of \<open>readLoop\<close>; the flag says that \<open>setupClient\<close> was started.\<close>

definition wgReceive :: "time \<Rightarrow> string \<Rightarrow> bytes \<Rightarrow> wg_state \<Rightarrow> wg_state \<times> bool" where
  "wgReceive now addr packet st =
     (case wg_clients st addr of
        None \<Rightarrow> (st\<lparr>wg_clients := (wg_clients st)(addr \<mapsto> \<lparr>wc_stream = None, wc_lastActive = now\<rparr>)\<rparr>, True)
      | Some c \<Rightarrow>
          (let c' = c\<lparr>wc_lastActive := now\<rparr> in
           (forwardToTunnel c' packet (st\<lparr>wg_clients := (wg_clients st)(addr \<mapsto> c')\<rparr>), False)))"

text \<open>
  \<open>setupClient\<close> up to the start of \<open>tunnelToClient\<close>, whose first action (storing the stream in
  the client) is included. \<open>w\<close> is the writer of the stream.
\<close>

definition wgDest :: "string \<Rightarrow> string" where
  "wgDest remote = (if remote = [] then ''127.0.0.1:51820'' else remote)"

definition setupClient ::
  "(nat \<times> (bytes \<Rightarrow> 'w option)) option \<Rightarrow> string \<Rightarrow> string \<Rightarrow> bytes \<Rightarrow> wg_state \<Rightarrow> wg_state" where
  "setupClient getStream remote addr firstPacket st =
     (case getStream of
        None \<Rightarrow> st\<lparr>wg_clients := (wg_clients st)(addr := None)\<rparr>
      | Some (sid, w) \<Rightarrow>
          (case WriteDestHeader w (wgDest remote) of
             Inl _ \<Rightarrow> st\<lparr>wg_clients := (wg_clients st)(addr := None), wg_closed := insert sid (wg_closed st)\<rparr>
           | Inr header \<Rightarrow>
               (let st1 = st\<lparr>wg_written := (wg_written st)(sid := wg_written st sid @ header)\<rparr>;
                    st2 = sendToStream sid firstPacket st1 in
                st2\<lparr>wg_clients := (wg_clients st2)(addr :=
                     map_option (\<lambda>c. c\<lparr>wc_stream := Some sid\<rparr>) (wg_clients st2 addr))\<rparr>)))"

definition wgStale :: "time \<Rightarrow> wg_client \<Rightarrow> bool" where
  "wgStale now c \<longleftrightarrow> now - wc_lastActive c > 2 * minute"

text \<open>\<open>sync.Map.Range\<close> over the keys of the table, in any order.\<close>

definition wgCleanup1 :: "time \<Rightarrow> string \<Rightarrow> wg_state \<Rightarrow> wg_state" where
  "wgCleanup1 now key st =
     (case wg_clients st key of
        None \<Rightarrow> st
      | Some c \<Rightarrow>
          if wgStale now c then
            st\<lparr>wg_clients := (wg_clients st)(key := None),
               wg_closed := wg_closed st \<union> set_option (wc_stream c)\<rparr>
          else st)"

definition wgCleanup :: "time \<Rightarrow> string list \<Rightarrow> wg_state \<Rightarrow> wg_state" where
  "wgCleanup now keys st = fold (wgCleanup1 now) keys st"

lemma wgReceive_unattached_dropped:
  assumes "wg_clients st addr = Some c" "wc_stream c = None"
  shows "wg_written (fst (wgReceive now addr packet st)) = wg_written st"
  using assms by (simp add: wgReceive_def forwardToTunnel_def)

lemma wgReceive_attached_sent:
  assumes "wg_clients st addr = Some c" "wc_stream c = Some sid"
  shows "wg_written (fst (wgReceive now addr packet st)) sid = wg_written st sid @ wgFrame packet"
  using assms by (simp add: wgReceive_def forwardToTunnel_def sendToStream_def Let_def)

definition wg_purge :: "time \<Rightarrow> wg_client option \<Rightarrow> wg_client option" where
  "wg_purge now oc = (case oc of Some c \<Rightarrow> if wgStale now c then None else Some c | None \<Rightarrow> None)"

lemma wg_purge_idem: "wg_purge now (wg_purge now oc) = wg_purge now oc"
  by (simp add: wg_purge_def split: option.split)

lemma wgCleanup1_clients:
  "wg_clients (wgCleanup1 now k st) key =
     (if k = key then wg_purge now (wg_clients st key) else wg_clients st key)"
  by (simp add: wgCleanup1_def wg_purge_def split: option.split)

text \<open>After a cleanup exactly the clients heard from in the last two minutes remain.\<close>

lemma wgCleanup_clients:
  "wg_clients (wgCleanup now keys st) key =
     (if key \<in> set keys then wg_purge now (wg_clients st key) else wg_clients st key)"
  unfolding wgCleanup_def
  by (induction keys arbitrary: st) (auto simp: wgCleanup1_clients wg_purge_idem)

text \<open>
  the frames one end writes for a sequence of datagrams (each of at most 65535 bytes, empty
  ones dropped) come out of the other end's loop as the same datagrams in the same order; a
  stream cut inside a frame yields the complete frames before the cut.
\<close>

theorem wireguard_datagrams_roundtrip:
  assumes "\<forall>p \<in> set packets. length p \<le> 65535"
    and "0 < length lost" "length lost \<le> 65535" "k < length (wgFrame lost)"
  shows "tunnelToClient (concat (map wgFrame packets) @ take k (wgFrame lost)) =
           filter (\<lambda>p. p \<noteq> []) packets"
  using assms(1)
  by (induction packets) (simp_all add: tunnelToClient_step tunnelToClient_cut [OF assms(4,2,3)])

theorem wireguard_datagrams_roundtrip_witness:
  "tunnelToClient (concat (map wgFrame [[1, 2], [], [3]]) @ take 3 (wgFrame [4, 5])) = [[1, 2], [3]]"
  using wireguard_datagrams_roundtrip [of "[[1, 2], [], [3]]" "[4, 5]" 3]
  by (auto simp: wgFrame_def)

end
