(* ===== verification/Aead.thy ===== *)
theory Aead
  imports Framing
begin

text \<open>
  internal/crypto/aead.go: the encrypted frames of the handshake. XChaCha20-Poly1305 is code
  outside the repository: it is the pair of parameters \<open>seal\<close> and \<open>unseal\<close>, and \<open>aead_ok\<close>
  states what its documentation promises.
\<close>

definition MaxPayloadSize :: nat where "MaxPayloadSize = 65535"
definition NonceSize :: nat where "NonceSize = 24"
definition TagSize :: nat where "TagSize = 16"
definition LengthSize :: nat where "LengthSize = 2"
definition HeaderSize :: nat where "HeaderSize = NonceSize + LengthSize + TagSize"

lemmas aead_sizes = MaxPayloadSize_def NonceSize_def TagSize_def LengthSize_def HeaderSize_def

type_synonym seal = "bytes \<Rightarrow> bytes \<Rightarrow> bytes"
type_synonym unseal = "bytes \<Rightarrow> bytes \<Rightarrow> bytes option"

text \<open>
  \<open>cipher.AEAD\<close>: opening what was sealed under the same nonce gives the plaintext back, and a
  ciphertext is its plaintext plus \<open>Overhead\<close> bytes.
\<close>

definition aead_ok :: "seal \<Rightarrow> unseal \<Rightarrow> bool" where
  "aead_ok seal unseal \<longleftrightarrow>
     (\<forall>n p. unseal n (seal n p) = Some p) \<and>
     (\<forall>n p. length (seal n p) = length p + TagSize) \<and>
     (\<forall>n c p. unseal n c = Some p \<longrightarrow> length c = length p + TagSize)"

lemma aead_okD:
  assumes "aead_ok seal unseal"
  shows "unseal n (seal n p) = Some p" "length (seal n p) = length p + TagSize"
    "length c < TagSize \<Longrightarrow> unseal n c = None"
  using assms by (auto simp: aead_ok_def) (metis not_None_eq not_add_less2)

subsection \<open>Encrypt and Decrypt\<close>

datatype aead_error =
    PayloadTooLarge | RandFailed | CiphertextTooShort | LengthCorrupt | PayloadShort
  | PayloadCorrupt | FrameTooLarge | AeadRead io_error | AeadPanic

text \<open>\<open>rnd\<close> is what the random source delivers for the nonce.\<close>

definition Encrypt :: "seal \<Rightarrow> bytes option \<Rightarrow> bytes \<Rightarrow> aead_error + bytes" where
  "Encrypt seal rnd plaintext =
     (if length plaintext > MaxPayloadSize then Inl PayloadTooLarge
      else case rnd of
        None \<Rightarrow> Inl RandFailed
      | Some nonce \<Rightarrow>
          (let lengthBuf = putUint16 (word_of_nat (length plaintext));
               encryptedLength = seal nonce lengthBuf;
               encryptedPayload = seal nonce plaintext in
           Inr (nonce @ encryptedLength @ encryptedPayload)))"

text \<open>\<open>payloadLen + TagSize\<close> is computed in 16 bits, as in the source.\<close>

definition Decrypt :: "unseal \<Rightarrow> bytes \<Rightarrow> aead_error + bytes" where
  "Decrypt unseal ciphertext =
     (if length ciphertext < NonceSize + LengthSize + TagSize then Inl CiphertextTooShort
      else
        let nonce = take NonceSize ciphertext;
            encryptedLength = take (LengthSize + TagSize) (drop NonceSize ciphertext) in
        case unseal nonce encryptedLength of
          None \<Rightarrow> Inl LengthCorrupt
        | Some lengthBuf \<Rightarrow>
            if length lengthBuf < 2 then Inl AeadPanic
            else
              let payloadLen = getUint16 (lengthBuf ! 0) (lengthBuf ! 1);
                  encryptedPayload = drop (NonceSize + LengthSize + TagSize) ciphertext in
              if length encryptedPayload < unat payloadLen + TagSize then Inl PayloadShort
              else
                case unseal nonce (take (unat (payloadLen + word_of_nat TagSize)) encryptedPayload) of
                  None \<Rightarrow> Inl PayloadCorrupt
                | Some plaintext \<Rightarrow> Inr plaintext)"

lemma Encrypt_ok:
  "length p \<le> MaxPayloadSize \<Longrightarrow>
     Encrypt seal (Some n) p = Inr (n @ seal n (len16 (length p)) @ seal n p)"
  by (simp add: Encrypt_def putUint16_of_nat)

lemma length_Encrypt:
  "aead_ok seal unseal \<Longrightarrow> length n = NonceSize \<Longrightarrow> Encrypt seal (Some n) p = Inr c \<Longrightarrow>
     length c = HeaderSize + length p + TagSize"
  by (auto simp: Encrypt_def aead_okD aead_sizes split: if_splits)

lemma Decrypt_sealed:
  assumes ok: "aead_ok seal unseal" and n: "length n = NonceSize" and p: "length p \<le> MaxPayloadSize"
  shows "Decrypt unseal (n @ seal n (len16 (length p)) @ seal n p) =
           (case unseal n (take (unat (word_of_nat (length p) + word_of_nat TagSize :: 16 word)) (seal n p)) of
              None \<Rightarrow> Inl PayloadCorrupt | Some q \<Rightarrow> Inr q)"
proof -
  have l: "length (seal n (len16 (length p))) = LengthSize + TagSize"
    by (simp add: aead_okD [OF ok] LengthSize_def)
  have g: "getUint16 (len16 (length p) ! 0) (len16 (length p) ! 1) = word_of_nat (length p)"
    using getUint16_put [of "word_of_nat (length p)"] putUint16_of_nat [of "length p"]
    by (metis nth_Cons_0 nth_Cons_Suc One_nat_def putUint16_def)
  have u: "unat (word_of_nat (length p) :: 16 word) = length p"
    using p by (simp add: unat_of_nat MaxPayloadSize_def)
  show ?thesis
    using n l g [simplified] u by (simp add: Decrypt_def Let_def aead_okD [OF ok])
qed

lemma Decrypt_Encrypt:
  assumes "aead_ok seal unseal" "length n = NonceSize" "length p \<le> MaxPayloadSize"
  shows "Decrypt unseal (n @ seal n (len16 (length p)) @ seal n p) =
           (if length p + TagSize < 65536 then Inr p else Inl PayloadCorrupt)"
proof -
  have w: "unat (word_of_nat (length p) + word_of_nat TagSize :: 16 word) = (length p + TagSize) mod 65536"
    by (simp add: unat_of_nat flip: of_nat_add)
  show ?thesis
  proof (cases "length p + TagSize < 65536")
    case True
    then show ?thesis
      using assms w by (simp add: Decrypt_sealed aead_okD)
  next
    case False
    then have "(length p + TagSize) mod 65536 < TagSize"
      using assms(3) by (auto simp: aead_sizes mod_if)
    then have "unseal n (take ((length p + TagSize) mod 65536) (seal n p)) = None"
      using aead_okD(3) [OF assms(1)] by simp
    then show ?thesis
      using False assms w by (simp add: Decrypt_sealed)
  qed
qed

subsection \<open>Frames\<close>

text \<open>
  \<open>w\<close> is the error the writer returns for a write. The result is the error, if any, and the
  bytes that were written before the function returned.
\<close>

datatype 'w frame_write_error = FrameEncrypt aead_error | FrameWrite 'w

definition WriteEncryptedFrame ::
  "seal \<Rightarrow> bytes option \<Rightarrow> (bytes \<Rightarrow> 'w option) \<Rightarrow> bytes \<Rightarrow> 'w frame_write_error option \<times> bytes" where
  "WriteEncryptedFrame seal rnd w payload =
     (case Encrypt seal rnd payload of
        Inl e \<Rightarrow> (Some (FrameEncrypt e), [])
      | Inr encrypted \<Rightarrow>
          (let lenBuf = putUint32 (word_of_nat (length encrypted)) in
           case w lenBuf of
             Some e \<Rightarrow> (Some (FrameWrite e), [])
           | None \<Rightarrow>
               (case w encrypted of
                  Some e \<Rightarrow> (Some (FrameWrite e), lenBuf)
                | None \<Rightarrow> (None, lenBuf @ encrypted))))"

text \<open>\<open>EncryptedWriter.Write\<close> does the same and reports the length of its argument.\<close>

definition EncryptedWriter_Write ::
  "seal \<Rightarrow> bytes option \<Rightarrow> (bytes \<Rightarrow> 'w option) \<Rightarrow> bytes \<Rightarrow> ('w frame_write_error + nat) \<times> bytes" where
  "EncryptedWriter_Write seal rnd w p =
     (case Encrypt seal rnd p of
        Inl e \<Rightarrow> (Inl (FrameEncrypt e), [])
      | Inr encrypted \<Rightarrow>
          (let lenBuf = putUint32 (word_of_nat (length encrypted)) in
           case w lenBuf of
             Some e \<Rightarrow> (Inl (FrameWrite e), [])
           | None \<Rightarrow>
               (case w encrypted of
                  Some e \<Rightarrow> (Inl (FrameWrite e), lenBuf)
                | None \<Rightarrow> (Inr (length p), lenBuf @ encrypted))))"

definition ReadEncryptedFrame :: "unseal \<Rightarrow> bytes \<Rightarrow> aead_error + bytes \<times> bytes" where
  "ReadEncryptedFrame unseal reader =
     andThen (map_sum AeadRead id (readFull 4 reader)) (\<lambda>(lenBuf, r1).
       let frameLen = getUint32 (lenBuf ! 0) (lenBuf ! 1) (lenBuf ! 2) (lenBuf ! 3) in
       if unat frameLen > MaxPayloadSize + HeaderSize + 100 then Inl FrameTooLarge
       else andThen (map_sum AeadRead id (readFull (unat frameLen) r1)) (\<lambda>(frame, r2).
            andThen (Decrypt unseal frame) (\<lambda>plaintext. Inr (plaintext, r2))))"

definition encFrame :: "seal \<Rightarrow> bytes \<Rightarrow> bytes \<Rightarrow> bytes" where
  "encFrame seal n p = snd (WriteEncryptedFrame seal (Some n) (\<lambda>_. None :: unit option) p)"

lemma getUint32_putUint32:
  "getUint32 (putUint32 w ! 0) (putUint32 w ! 1) (putUint32 w ! 2) (putUint32 w ! 3) = w"
  by (simp add: putUint32_def getUint32_put)

lemma WriteEncryptedFrame_ok:
  assumes "length p \<le> MaxPayloadSize" "\<And>b. w b = None"
  shows "WriteEncryptedFrame seal (Some n) w p = (None, encFrame seal n p)"
  using assms by (simp add: WriteEncryptedFrame_def encFrame_def Encrypt_ok)

lemma ReadEncryptedFrame_encFrame:
  assumes "aead_ok seal unseal" "length n = NonceSize" "length p \<le> MaxPayloadSize"
  shows "ReadEncryptedFrame unseal (encFrame seal n p @ rest) =
           (if length p + TagSize < 65536 then Inr (p, rest) else Inl PayloadCorrupt)"
proof -
  let ?c = "n @ seal n (len16 (length p)) @ seal n p"
  have len: "length ?c = HeaderSize + length p + TagSize"
    using assms by (simp add: aead_okD [OF assms(1)] aead_sizes)
  have u: "unat (word_of_nat (length ?c) :: 32 word) = length ?c"
    using assms(3) len by (intro unat_word32) (simp add: aead_sizes)
  have f: "encFrame seal n p @ rest = putUint32 (word_of_nat (length ?c)) @ ?c @ rest"
    using assms(3) by (simp add: encFrame_def WriteEncryptedFrame_def Encrypt_ok)
  have "ReadEncryptedFrame unseal (encFrame seal n p @ rest) =
      andThen (Decrypt unseal ?c) (\<lambda>plaintext. Inr (plaintext, rest))"
    unfolding f ReadEncryptedFrame_def
    using assms(3) len u readFull_append [of ?c "length ?c" rest]
    by (simp add: readFull_append getUint32_putUint32 [simplified] Let_def aead_sizes del: append_assoc)
  then show ?thesis
    using Decrypt_Encrypt [OF assms] by simp
qed

text \<open>A pair of functions that meets \<open>aead_ok\<close>: the plaintext followed by a constant tag.\<close>

definition plain_seal :: seal where
  "plain_seal n p = p @ replicate TagSize 0"

definition plain_unseal :: unseal where
  "plain_unseal n c =
     (if TagSize \<le> length c \<and> drop (length c - TagSize) c = replicate TagSize 0
      then Some (take (length c - TagSize) c) else None)"

lemma plain_aead_ok: "aead_ok plain_seal plain_unseal"
  by (auto simp: aead_ok_def plain_seal_def plain_unseal_def)

definition framable :: "bytes \<times> bytes \<Rightarrow> bool" where
  "framable m \<longleftrightarrow> length (fst m) = NonceSize \<and> length (snd m) \<le> 65519"

lemma decode_encFrames:
  assumes "aead_ok seal unseal" "list_all framable msgs"
  shows "decode_n (ReadEncryptedFrame unseal) (length msgs)
    (concat (map (\<lambda>(n, p). encFrame seal n p) msgs) @ rest) = Inr (map snd msgs, rest)"
  using assms(2)
proof (induction msgs)
  case (Cons m msgs)
  obtain n p where m: "m = (n, p)" by fastforce
  with Cons.prems have "length n = NonceSize" "length p \<le> MaxPayloadSize" "length p + TagSize < 65536"
    by (auto simp: aead_sizes framable_def)
  with ReadEncryptedFrame_encFrame [OF assms(1)] Cons m show ?case
    by simp
qed simp

text \<open>
  C4: a sequence of payloads of at most 65519 bytes, each sealed under any 24-byte nonce and
  written as a frame, is read back payload by payload, in order, leaving the rest of the stream
  untouched.
\<close>

theorem encrypted_frames_roundtrip:
  assumes "aead_ok seal unseal"
    and "\<forall>(n, p) \<in> set msgs. length n = NonceSize \<and> length p \<le> 65519"
  shows "decode_n (ReadEncryptedFrame unseal) (length msgs)
           (concat (map (\<lambda>(n, p). snd (WriteEncryptedFrame seal (Some n) (\<lambda>_. None :: unit option) p)) msgs)
              @ rest) = Inr (map snd msgs, rest)"
proof -
  have "list_all framable msgs"
    using assms(2) by (auto simp: list_all_iff framable_def)
  from decode_encFrames [OF assms(1) this] show ?thesis
    by (simp add: encFrame_def)
qed

theorem encrypted_frames_roundtrip_witness:
  "decode_n (ReadEncryptedFrame plain_unseal) 2
     (concat (map (\<lambda>(n, p). snd (WriteEncryptedFrame plain_seal (Some n) (\<lambda>_. None :: unit option) p))
        [(replicate 24 7, [1, 2]), (replicate 24 8, [])]) @ [9]) = Inr ([[1, 2], []], [9])"
  using encrypted_frames_roundtrip [OF plain_aead_ok,
      of "[(replicate 24 7, [1, 2]), (replicate 24 8, [])]" "[9]"]
  by (simp add: NonceSize_def numeral_2_eq_2)

text \<open>
  a payload of 65520 to 65535 bytes, which Encrypt accepts, can never be read back: the
  receiver computes \<open>payloadLen + TagSize\<close> in 16 bits, wraps around, and cuts the ciphertext
  to fewer than 16 bytes.
\<close>

theorem encrypted_frame_large_payload_lost:
  assumes "aead_ok seal unseal" "length n = NonceSize" "65520 \<le> length p" "length p \<le> 65535"
  shows "\<exists>f. WriteEncryptedFrame seal (Some n) (\<lambda>_. None :: unit option) p = (None, f) \<and>
             ReadEncryptedFrame unseal (f @ rest) = Inl PayloadCorrupt"
  using assms ReadEncryptedFrame_encFrame [OF assms(1,2), of p rest]
    WriteEncryptedFrame_ok [of p "\<lambda>_. None :: unit option" seal n]
  by (simp add: aead_sizes)

theorem encrypted_frame_large_payload_lost_witness:
  "\<exists>f. WriteEncryptedFrame plain_seal (Some (replicate 24 0)) (\<lambda>_. None :: unit option)
         (replicate 65520 0) = (None, f) \<and>
       ReadEncryptedFrame plain_unseal (f @ []) = Inl PayloadCorrupt"
  using encrypted_frame_large_payload_lost [OF plain_aead_ok, of "replicate 24 0" "replicate 65520 0" "[]"]
  by (simp only: length_replicate NonceSize_def)

end
