(* ===== verification/Go_Strings.thy ===== *)
theory Go_Strings
  imports Go_Net
begin

text \<open>
  The functions of Go's \<open>strings\<close> and \<open>strconv\<close> packages the sources call on configuration
  text and header fields: Split, TrimSpace, Atoi, Contains, HasPrefix, HasSuffix, ToLower.
  White space and letter case are those of ASCII.
\<close>

subsection \<open>strings.Split\<close>

fun split_on :: "'a \<Rightarrow> 'a list \<Rightarrow> 'a list list" where
  "split_on c [] = [[]]"
| "split_on c (x # xs) =
     (if x = c then [] # split_on c xs
      else case split_on c xs of (p # ps) \<Rightarrow> (x # p) # ps | [] \<Rightarrow> [[x]])"

lemma split_on_nonempty [simp]: "split_on c s \<noteq> []"
  by (induction s) (auto split: list.splits)

lemma split_on_free: "c \<notin> set s \<Longrightarrow> split_on c s = [s]"
  by (induction s) auto

lemma split_on_append: "c \<notin> set p \<Longrightarrow> split_on c (p @ c # s) = p # split_on c s"
  by (induction p) auto

subsection \<open>strings.TrimSpace, ToLower, prefixes and substrings\<close>

definition is_space :: "char \<Rightarrow> bool" where
  "is_space c \<longleftrightarrow> (let n = (of_char c :: nat) in n = 32 \<or> (9 \<le> n \<and> n \<le> 13))"

definition trim_space :: "string \<Rightarrow> string" where
  "trim_space s = rev (dropWhile is_space (rev (dropWhile is_space s)))"

lemma dropWhile_free: "(\<And>c. c \<in> set s \<Longrightarrow> \<not> P c) \<Longrightarrow> dropWhile P s = s"
  by (cases s) auto

lemma trim_space_free: "(\<And>c. c \<in> set s \<Longrightarrow> \<not> is_space c) \<Longrightarrow> trim_space s = s"
  using dropWhile_free [of s is_space] dropWhile_free [of "rev s" is_space]
  by (simp add: trim_space_def)

definition to_lower_char :: "char \<Rightarrow> char" where
  "to_lower_char c =
     (let n = (of_char c :: nat) in if 65 \<le> n \<and> n \<le> 90 then char_of (n + 32) else c)"

definition to_lower :: "string \<Rightarrow> string" where
  "to_lower s = map to_lower_char s"

definition has_prefix :: "string \<Rightarrow> string \<Rightarrow> bool" where
  "has_prefix s p \<longleftrightarrow> take (length p) s = p"

definition has_suffix :: "string \<Rightarrow> string \<Rightarrow> bool" where
  "has_suffix s p \<longleftrightarrow> length p \<le> length s \<and> drop (length s - length p) s = p"

fun contains_str :: "string \<Rightarrow> string \<Rightarrow> bool" where
  "contains_str [] p = (p = [])"
| "contains_str (c # s) p = (has_prefix (c # s) p \<or> contains_str s p)"

lemma contains_str_iff: "contains_str s p \<longleftrightarrow> (\<exists>a b. s = a @ p @ b)"
proof (induction s)
  case (Cons c s)
  have "(\<exists>a b. c # s = a @ p @ b) \<longleftrightarrow> (\<exists>b. c # s = p @ b) \<or> (\<exists>a b. s = a @ p @ b)"
    by (metis append_Cons append_Nil append_eq_Cons_conv)
  moreover have "(\<exists>b. c # s = p @ b) \<longleftrightarrow> has_prefix (c # s) p"
    by (metis append_eq_conv_conj append_take_drop_id has_prefix_def)
  ultimately show ?case using Cons by simp
qed simp

subsection \<open>strconv.Atoi\<close>

definition max_int :: int where "max_int = 2 ^ 63 - 1"
definition min_int :: int where "min_int = - (2 ^ 63)"

definition is_digit :: "char \<Rightarrow> bool" where
  "is_digit c \<longleftrightarrow> (let n = (of_char c :: nat) in 48 \<le> n \<and> n \<le> 57)"

definition digit_val :: "char \<Rightarrow> nat" where
  "digit_val c = (of_char c :: nat) - 48"

definition nat_of_digits :: "string \<Rightarrow> nat" where
  "nat_of_digits s = foldl (\<lambda>a c. 10 * a + digit_val c) 0 s"

text \<open>An optional sign, at least one digit, nothing else, and a value that fits an int.\<close>

definition atoi :: "string \<Rightarrow> int option" where
  "atoi s =
     (let neg = (s \<noteq> [] \<and> hd s = CHR ''-'');
          ds = (if s \<noteq> [] \<and> (hd s = CHR ''-'' \<or> hd s = CHR ''+'') then tl s else s);
          v = (if neg then - int (nat_of_digits ds) else int (nat_of_digits ds)) in
      if ds \<noteq> [] \<and> list_all is_digit ds \<and> min_int \<le> v \<and> v \<le> max_int then Some v else None)"

lemma digit_is_digit [simp]: "d < 10 \<Longrightarrow> is_digit (digit d)" "d < 10 \<Longrightarrow> digit_val (digit d) = d"
  by (simp_all add: is_digit_def digit_val_def of_char_digit)

lemma itoa_nonempty [simp]: "itoa n \<noteq> []"
  by (subst itoa.simps) simp

lemma itoa_all_digits: "list_all is_digit (itoa n)"
  by (induction n rule: itoa.induct) (subst itoa.simps, simp)

lemma nat_of_digits_itoa: "nat_of_digits (itoa n) = n"
  by (induction n rule: itoa.induct) (subst itoa.simps, auto simp: nat_of_digits_def)

lemma is_digit_not_special:
  "is_digit c \<Longrightarrow> c \<noteq> CHR ''-'' \<and> c \<noteq> CHR ''+'' \<and> \<not> is_space c"
  by (auto simp: is_digit_def is_space_def Let_def)

lemma atoi_itoa: "int n \<le> max_int \<Longrightarrow> atoi (itoa n) = Some (int n)"
proof -
  assume n: "int n \<le> max_int"
  have "is_digit (hd (itoa n))"
    using itoa_all_digits [of n] by (cases "itoa n") auto
  with n show ?thesis
    using itoa_all_digits [of n] is_digit_not_special [of "hd (itoa n)"]
    by (simp add: atoi_def nat_of_digits_itoa min_int_def)
qed

lemma trim_space_itoa [simp]: "trim_space (itoa n) = itoa n"
  using itoa_all_digits [of n] by (intro trim_space_free) (auto simp: list_all_iff is_digit_not_special)

lemma itoa_no_minus: "CHR ''-'' \<notin> set (itoa n)"
  using itoa_all_digits [of n] is_digit_not_special by (auto simp: list_all_iff)

subsection \<open>Ranges "min-max"\<close>

text \<open>
  The padding, fragmentation and burst options are all written "min-max" and read by the same
  code: split on the minus sign, trim and parse both halves.
\<close>

datatype range_error = BadRange | BadMin | BadMax | EmptyRange int int

definition parse_range :: "string \<Rightarrow> range_error + int \<times> int" where
  "parse_range s =
     (case split_on CHR ''-'' s of
        [a, b] \<Rightarrow>
          (case atoi (trim_space a) of
             None \<Rightarrow> Inl BadMin
           | Some x \<Rightarrow> (case atoi (trim_space b) of None \<Rightarrow> Inl BadMax | Some y \<Rightarrow> Inr (x, y)))
      | _ \<Rightarrow> Inl BadRange)"

lemma parse_range_print:
  "int a \<le> max_int \<Longrightarrow> int b \<le> max_int \<Longrightarrow>
     parse_range (itoa a @ CHR ''-'' # itoa b) = Inr (int a, int b)"
  by (simp add: parse_range_def split_on_append split_on_free itoa_no_minus atoi_itoa)

end
