(* ===== verification/Padding.thy ===== *)
theory Padding
  imports Go_Strings
begin

text \<open>
  internal/crypto/padding.go: random padding with a 4-byte length prefix. The random source is
  a parameter: \<open>rnd_int m\<close> is \<open>rand.Int\<close> for the bound \<open>m\<close>, \<open>rnd_bytes k\<close> the filling of \<open>k\<close>
  bytes; \<open>rand_ok\<close> states what crypto/rand documents.
\<close>

record Padder =
  minSize :: int
  maxSize :: int
  enabled :: bool

datatype pad_error = PadRange range_error | PadRand | PadShort | PadLength nat nat | PadPanic

definition NewPadder :: "string \<Rightarrow> bool \<Rightarrow> pad_error + Padder" where
  "NewPadder sizeRange en =
     (if \<not> en then Inr \<lparr>minSize = 0, maxSize = 0, enabled = False\<rparr>
      else case parse_range sizeRange of
        Inl e \<Rightarrow> Inl (PadRange e)
      | Inr (mn, mx) \<Rightarrow>
          if mn < 0 \<or> mx < mn then Inl (PadRange (EmptyRange mn mx))
          else Inr \<lparr>minSize = mn, maxSize = mx, enabled = True\<rparr>)"

definition rand_ok :: "(int \<Rightarrow> int option) \<Rightarrow> (nat \<Rightarrow> bytes option) \<Rightarrow> bool" where
  "rand_ok rnd_int rnd_bytes \<longleftrightarrow>
     (\<forall>m v. 0 < m \<longrightarrow> rnd_int m = Some v \<longrightarrow> 0 \<le> v \<and> v < m) \<and>
     (\<forall>k bs. rnd_bytes k = Some bs \<longrightarrow> length bs = k)"

text \<open>\<open>rand.Int\<close> panics on a bound that is not positive, which needs \<open>rangeSize\<close> to overflow.\<close>

definition randomSize :: "(int \<Rightarrow> int option) \<Rightarrow> Padder \<Rightarrow> pad_error + int" where
  "randomSize rnd_int p =
     (if maxSize p = minSize p then Inr (minSize p)
      else
        let rangeSize = wrap64 (maxSize p - minSize p + 1) in
        if rangeSize \<le> 0 then Inl PadPanic
        else case rnd_int rangeSize of
               None \<Rightarrow> Inl PadRand
             | Some n \<Rightarrow> Inr (minSize p + n))"

definition Pad ::
  "(int \<Rightarrow> int option) \<Rightarrow> (nat \<Rightarrow> bytes option) \<Rightarrow> Padder \<Rightarrow> bytes \<Rightarrow> pad_error + bytes" where
  "Pad rnd_int rnd_bytes p payload =
     (if \<not> enabled p then Inr payload
      else andThen (randomSize rnd_int p) (\<lambda>paddingSize.
        let head = putUint32 (word_of_nat (length payload)) @ payload in
        if paddingSize > 0 then
          (case rnd_bytes (nat paddingSize) of
             None \<Rightarrow> Inl PadRand
           | Some padding \<Rightarrow> Inr (head @ padding))
        else Inr head))"

text \<open>The upper bound \<open>4 + origLen\<close> of the final slice is a 32-bit sum.\<close>

definition Unpad :: "Padder \<Rightarrow> bytes \<Rightarrow> pad_error + bytes" where
  "Unpad p padded =
     (if \<not> enabled p then Inr padded
      else if length padded < 4 then Inl PadShort
      else
        let origLen = getUint32 (padded ! 0) (padded ! 1) (padded ! 2) (padded ! 3) in
        if unat origLen > length padded - 4 then Inl (PadLength (unat origLen) (length padded - 4))
        else
          let hi = unat (4 + origLen) in
          if hi < 4 then Inl PadPanic else Inr (take (hi - 4) (drop 4 padded)))"

subsection \<open>Lemmas\<close>

lemma NewPadder_range:
  "NewPadder r en = Inr p \<Longrightarrow> 0 \<le> minSize p \<and> minSize p \<le> maxSize p"
  by (auto simp: NewPadder_def split: if_splits sum.splits prod.splits)

lemma NewPadder_print:
  "a \<le> b \<Longrightarrow> int b \<le> max_int \<Longrightarrow>
     NewPadder (itoa a @ CHR ''-'' # itoa b) True =
       Inr \<lparr>minSize = int a, maxSize = int b, enabled = True\<rparr>"
  by (simp add: NewPadder_def parse_range_print)

lemma randomSize_bounds:
  assumes "rand_ok rnd_int rnd_bytes" "minSize p \<le> maxSize p" "randomSize rnd_int p = Inr s"
  shows "minSize p \<le> s \<and> (maxSize p - minSize p + 1 < 2 ^ 63 \<longrightarrow> s \<le> maxSize p)"
proof (cases "maxSize p = minSize p")
  case True
  with assms show ?thesis by (simp add: randomSize_def)
next
  case False
  let ?r = "wrap64 (maxSize p - minSize p + 1)"
  from False assms(3) obtain n where n: "rnd_int ?r = Some n" "0 < ?r" "s = minSize p + n"
    by (auto simp: randomSize_def Let_def split: if_splits option.splits)
  with assms(1) have "0 \<le> n" "n < ?r"
    by (auto simp: rand_ok_def)
  moreover have "maxSize p - minSize p + 1 < 2 ^ 63 \<longrightarrow> ?r = maxSize p - minSize p + 1"
    using assms(2) by (simp add: wrap64_id)
  ultimately show ?thesis using n by linarith
qed

lemma randomSize_total:
  assumes "minSize p \<le> maxSize p" "maxSize p - minSize p + 1 < 2 ^ 63"
    and "rnd_int (maxSize p - minSize p + 1) = Some v"
  shows "\<exists>s. randomSize rnd_int p = Inr s"
  using assms by (auto simp: randomSize_def wrap64_id Let_def split: option.splits)

lemma getUint32_head:
  "getUint32 ((putUint32 w @ r) ! 0) ((putUint32 w @ r) ! 1)
     ((putUint32 w @ r) ! 2) ((putUint32 w @ r) ! 3) = w"
  by (simp add: putUint32_def getUint32_put)

lemma Unpad_head:
  assumes "enabled p" "length payload < 2 ^ 32 - 4"
  shows "Unpad p (putUint32 (word_of_nat (length payload)) @ payload @ padding) = Inr payload"
proof -
  let ?w = "word_of_nat (length payload) :: 32 word"
  have u: "unat ?w = length payload"
    using assms(2) by (intro unat_word32) simp
  have "4 + ?w = word_of_nat (4 + length payload)" by simp
  then have "unat (4 + ?w) = 4 + length payload"
    using assms(2) unat_word32 [of "4 + length payload"] by (simp del: of_nat_add)
  then show ?thesis
    using assms(1) u getUint32_head [of ?w "payload @ padding"] by (simp add: Unpad_def Let_def)
qed

text \<open>Unpad never panics on anything a 32-bit length can describe.\<close>

lemma Unpad_no_panic:
  assumes "length padded < 2 ^ 32"
  shows "Unpad p padded \<noteq> Inl PadPanic"
proof -
  have "unat (4 + w) = 4 + unat w" if "unat w \<le> length padded - 4" "4 \<le> length padded" for w :: "32 word"
    using that assms unat_word32 [of "4 + unat w"] by simp
  then show ?thesis
    by (auto simp: Unpad_def Let_def)
qed

text \<open>
  whatever padding size the random source picks, unpadding returns the original bytes, and
  the padded packet is 4 bytes plus between min and max bytes longer than the original, the
  configured bounds.
\<close>

theorem pad_unpad_roundtrip:
  assumes "rand_ok rnd_int rnd_bytes" "a \<le> b" "int b < max_int" "length payload < 2 ^ 32 - 4"
    and "NewPadder (itoa a @ CHR ''-'' # itoa b) True = Inr p"
    and "Pad rnd_int rnd_bytes p payload = Inr padded"
  shows "Unpad p padded = Inr payload \<and>
         4 + length payload + a \<le> length padded \<and> length padded \<le> 4 + length payload + b"
proof -
  have p: "p = \<lparr>minSize = int a, maxSize = int b, enabled = True\<rparr>"
    using NewPadder_print [OF assms(2)] assms(3,5) by simp
  then obtain s where s: "randomSize rnd_int p = Inr s"
    using assms(6) by (cases "randomSize rnd_int p") (auto simp: Pad_def)
  have sb: "int a \<le> s" "s \<le> int b"
    using randomSize_bounds [OF assms(1) _ s] assms(2,3) by (auto simp: p max_int_def)
  with assms(1,6) s obtain padding where
    pd: "padded = putUint32 (word_of_nat (length payload)) @ payload @ padding" "length padding = nat s"
    by (auto simp: Pad_def p Let_def rand_ok_def split: if_splits option.splits)
  then show ?thesis
    using Unpad_head [of p payload padding] assms(4) sb p by auto
qed

definition const_rand_int :: "int \<Rightarrow> int option" where "const_rand_int m = Some 0"
definition const_rand_bytes :: "nat \<Rightarrow> bytes option" where "const_rand_bytes k = Some (replicate k 0)"

lemma const_rand_ok: "rand_ok const_rand_int const_rand_bytes"
  by (simp add: rand_ok_def const_rand_int_def const_rand_bytes_def)

theorem pad_unpad_roundtrip_witness:
  "Unpad \<lparr>minSize = 2, maxSize = 5, enabled = True\<rparr> ([0, 0, 0, 3] @ [1, 2, 3] @ [0, 0]) = Inr [1, 2, 3] \<and>
   4 + 3 + (2 :: nat) \<le> length ([0, 0, 0, 3] @ [1, 2, 3] @ [0, 0 :: byte]) \<and>
   length ([0, 0, 0, 3] @ [1, 2, 3] @ [0, 0 :: byte]) \<le> 4 + 3 + 5"
proof -
  let ?p = "\<lparr>minSize = 2, maxSize = 5, enabled = True\<rparr>"
  have np: "NewPadder (itoa 2 @ CHR ''-'' # itoa 5) True = Inr ?p"
    using NewPadder_print [of 2 5] by (simp add: max_int_def)
  have pd: "Pad const_rand_int const_rand_bytes ?p [1, 2, 3] = Inr ([0, 0, 0, 3] @ [1, 2, 3] @ [0, 0])"
    by code_simp
  show ?thesis
    using pad_unpad_roundtrip [OF const_rand_ok _ _ _ np pd] by (simp add: max_int_def)
qed

end
