(* ===== verification/Conn_Writer.thy ===== *)
theory Conn_Writer
  imports Prelude
begin

text \<open>
  Connections as byte sinks, and the contract of a wrapper around \<open>net.Conn\<close> that cuts what it
  is given into smaller writes. The fragmenter, the SNI splitter and the obfuscator promise
  that the peer still receives the same byte stream; the locale \<open>stream_writer\<close> states that
  promise for one call and derives it for a sequence of calls.
\<close>

subsection \<open>The underlying connection\<close>

text \<open>
  A connection records the writes it delivered, one by one, and how many more bytes it accepts before it fails
  (\<open>None\<close>: it never fails). This is the contract of \<open>net.Conn.Write\<close>: a write that returns
  fewer bytes than it was given returns an error.
\<close>

record net_conn =
  nc_writes :: "bytes list"
  nc_budget :: "nat option"

definition nc_sent :: "net_conn \<Rightarrow> bytes" where
  "nc_sent c = concat (nc_writes c)"

definition conn_write :: "bytes \<Rightarrow> net_conn \<Rightarrow> nat \<times> bool \<times> net_conn" where
  "conn_write bs c =
     (case nc_budget c of
        None \<Rightarrow> (length bs, False, c\<lparr>nc_writes := nc_writes c @ [bs]\<rparr>)
      | Some b \<Rightarrow>
          if length bs \<le> b then
            (length bs, False, c\<lparr>nc_writes := nc_writes c @ [bs], nc_budget := Some (b - length bs)\<rparr>)
          else (b, True, c\<lparr>nc_writes := nc_writes c @ [take b bs], nc_budget := Some 0\<rparr>))"

lemma conn_write_sent:
  assumes "conn_write bs c = (n, err, c')"
  shows "n \<le> length bs" "nc_sent c' = nc_sent c @ take n bs" "\<not> err \<longleftrightarrow> n = length bs"
  using assms by (auto simp: conn_write_def nc_sent_def split: option.splits if_splits)

lemma conn_write_ok:
  assumes "conn_write bs c = (n, False, c')"
  shows "n = length bs" "nc_sent c' = nc_sent c @ bs"
  using conn_write_sent [OF assms] by auto

lemma conn_write_unlimited:
  "nc_budget c = None \<Longrightarrow> conn_write bs c = (length bs, False, c\<lparr>nc_writes := nc_writes c @ [bs]\<rparr>)"
  by (simp add: conn_write_def)

subsection \<open>Contract of a stream-preserving writer\<close>

text \<open>
  A call returns \<open>Some\<close> of the reported count, the error flag, the new state of the wrapper and
  the connection, or \<open>None\<close> when it does not return.
\<close>

type_synonym 's writer = "'s \<Rightarrow> bytes \<Rightarrow> net_conn \<Rightarrow> (nat \<times> bool \<times> 's \<times> net_conn) option"

fun write_all :: "'s writer \<Rightarrow> 's \<Rightarrow> bytes list \<Rightarrow> net_conn \<Rightarrow> (bool \<times> 's \<times> net_conn) option" where
  "write_all wr s [] c = Some (False, s, c)"
| "write_all wr s (p # ps) c =
     (case wr s p c of
        None \<Rightarrow> None
      | Some (n, err, s', c') \<Rightarrow> if err then Some (True, s', c') else write_all wr s' ps c')"

locale stream_writer =
  fixes wr :: "'s writer"
  assumes write_prefix:
      "wr s p c = Some (n, err, s', c') \<Longrightarrow> \<exists>k \<le> length p. nc_sent c' = nc_sent c @ take k p"
    and write_complete:
      "wr s p c = Some (n, False, s', c') \<Longrightarrow> n = length p \<and> nc_sent c' = nc_sent c @ p"
begin

lemma write_all_complete:
  "write_all wr s ps c = Some (False, s', c') \<Longrightarrow> nc_sent c' = nc_sent c @ concat ps"
proof (induction ps arbitrary: s c)
  case (Cons p ps)
  then obtain n s1 c1 where w: "wr s p c = Some (n, False, s1, c1)"
    and r: "write_all wr s1 ps c1 = Some (False, s', c')"
    by (auto split: option.splits if_splits)
  show ?case
    using write_complete [OF w] Cons.IH [OF r] by simp
qed simp

lemma write_all_prefix:
  "write_all wr s ps c = Some (err, s', c') \<Longrightarrow>
     \<exists>k \<le> length (concat ps). nc_sent c' = nc_sent c @ take k (concat ps)"
proof (induction ps arbitrary: s c)
  case (Cons p ps)
  then obtain n e s1 c1 where w: "wr s p c = Some (n, e, s1, c1)"
    by (auto split: option.splits)
  show ?case
  proof (cases e)
    case True
    then have "c1 = c'" using Cons.prems w by simp
    then obtain k where "k \<le> length p" "nc_sent c' = nc_sent c @ take k p"
      using write_prefix [OF w] by blast
    then show ?thesis by (intro exI [of _ k]) simp
  next
    case False
    then have s1: "nc_sent c1 = nc_sent c @ p"
      using write_complete [of s p c n s1 c1] w by simp
    have "write_all wr s1 ps c1 = Some (err, s', c')"
      using Cons.prems w False by simp
    from Cons.IH [OF this] obtain k where
      "k \<le> length (concat ps)" "nc_sent c' = nc_sent c1 @ take k (concat ps)" by blast
    then show ?thesis
      using s1 by (intro exI [of _ "length p + k"]) simp
  qed
qed simp

end

subsection \<open>Composing writes\<close>

text \<open>\<open>sends c p err c'\<close>: a prefix of \<open>p\<close> went out, all of it if there was no error.\<close>

definition sends :: "net_conn \<Rightarrow> bytes \<Rightarrow> bool \<Rightarrow> net_conn \<Rightarrow> bool" where
  "sends c p err c' \<longleftrightarrow>
     (\<exists>k \<le> length p. nc_sent c' = nc_sent c @ take k p) \<and> (\<not> err \<longrightarrow> nc_sent c' = nc_sent c @ p)"

lemma sends_conn_write: "conn_write p c = (n, err, c') \<Longrightarrow> sends c p err c'"
  using conn_write_sent [of p c n err c'] by (auto simp: sends_def)

lemma sends_refl: "sends c [] False c" "sends c p True c"
  by (auto simp: sends_def intro: exI [of _ 0])

lemma take_min_length: "take (min k (length p)) p = take k p"
  by (simp add: min_def)

lemma sends_error_part:
  assumes "sends c (take k p) True c'" shows "sends c p True c'"
proof -
  from assms obtain j where "nc_sent c' = nc_sent c @ take (min j k) p"
    by (auto simp: sends_def)
  then show ?thesis
    by (auto simp: sends_def take_min_length intro!: exI [of _ "min (min j k) (length p)"])
qed

lemma sends_trans:
  assumes "sends c (take k p) False c1" "sends c1 (drop k p) err c2"
  shows "sends c p err c2"
proof -
  from assms obtain j where c1: "nc_sent c1 = nc_sent c @ take k p"
    and j: "j \<le> length (drop k p)" "nc_sent c2 = nc_sent c1 @ take j (drop k p)"
    by (auto simp: sends_def)
  then have "nc_sent c2 = nc_sent c @ take (k + j) p"
    by (simp add: take_add)
  then have "\<exists>m \<le> length p. nc_sent c2 = nc_sent c @ take m p"
    by (intro exI [of _ "min (k + j) (length p)"]) (simp add: take_min_length)
  with assms c1 show ?thesis
    by (auto simp: sends_def)
qed

lemma stream_writerI:
  assumes "\<And>s p c n err s' c'. wr s p c = Some (n, err, s', c') \<Longrightarrow> sends c p err c'"
    and "\<And>s p c n s' c'. wr s p c = Some (n, False, s', c') \<Longrightarrow> n = length p"
  shows "stream_writer wr"
  by unfold_locales (use assms in \<open>fastforce simp: sends_def\<close>)+

text \<open>The bare connection is such a writer.\<close>

definition plain_write :: "unit writer" where
  "plain_write s p c = (case conn_write p c of (n, err, c') \<Rightarrow> Some (n, err, s, c'))"

interpretation plain_conn: stream_writer plain_write
  by (rule stream_writerI)
    (auto simp: plain_write_def sends_conn_write dest: conn_write_ok split: prod.splits)

subsection \<open>Chunked write loops\<close>

text \<open>
  The shaping wrappers share one loop: while data remains, plan the next chunk, write it, stop at
  the first error, otherwise advance. \<open>plan\<close> gives the bytes to write, the number of bytes to
  advance by and the state after the random draws made so far; \<open>adv\<close> is what happens to the
  state after a successful write. The count \<open>tot\<close> is the \<open>totalWritten\<close> of the source.
\<close>

type_synonym 's plan = "'s \<Rightarrow> bytes \<Rightarrow> bytes \<times> nat \<times> 's"

fun chunk_loop ::
  "nat \<Rightarrow> 's plan \<Rightarrow> (nat \<Rightarrow> 's \<Rightarrow> 's) \<Rightarrow> nat \<Rightarrow> 's \<Rightarrow> bytes \<Rightarrow> net_conn \<Rightarrow>
     (nat \<times> bool \<times> 's \<times> net_conn) option" where
  "chunk_loop fuel plan adv tot s [] c = Some (tot, False, s, c)"
| "chunk_loop 0 plan adv tot s (b # rest) c = None"
| "chunk_loop (Suc fuel) plan adv tot s (b # rest) c =
     (case plan s (b # rest) of
        (chunk, k, s1) \<Rightarrow>
          (case conn_write chunk c of
             (n, err, c') \<Rightarrow>
               if err then Some (tot + n, True, s1, c')
               else chunk_loop fuel plan adv (tot + n) (adv k s1) (drop k (b # rest)) c'))"

lemma chunk_loop_unlimited_no_error:
  "nc_budget c = None \<Longrightarrow> chunk_loop fuel plan adv tot s p c = Some (n, err, s', c') \<Longrightarrow> \<not> err"
proof (induction fuel arbitrary: tot s p c)
  case 0
  then show ?case by (cases p) simp_all
next
  case (Suc fuel)
  show ?case
  proof (cases p)
    case (Cons b rest)
    obtain chunk k s1 where pl: "plan s p = (chunk, k, s1)" by (cases "plan s p") auto
    let ?c = "c\<lparr>nc_writes := nc_writes c @ [chunk]\<rparr>"
    have "chunk_loop fuel plan adv (tot + length chunk) (adv k s1) (drop k p) ?c = Some (n, err, s', c')"
      using Suc.prems pl Cons by (simp add: conn_write_unlimited)
    then show ?thesis
      using Suc.IH [of ?c] Suc.prems(1) by simp
  qed (use Suc.prems in simp)
qed

text \<open>\<open>relays\<close>: what a loop that starts with \<open>tot\<close> bytes counted does with the rest of the data.\<close>

definition relays :: "nat \<Rightarrow> net_conn \<Rightarrow> bytes \<Rightarrow> (nat \<times> bool \<times> 's \<times> net_conn) option \<Rightarrow> bool" where
  "relays tot c p r \<longleftrightarrow>
     (case r of None \<Rightarrow> True
      | Some (n, err, s, c') \<Rightarrow> sends c p err c' \<and> (\<not> err \<longrightarrow> n = tot + length p))"

lemma relays_done: "relays tot c [] (Some (tot, False, s, c))" "relays tot c p None"
  by (simp_all add: relays_def sends_refl)

lemma relays_error:
  "conn_write (take k p) c = (n, True, c') \<Longrightarrow> relays tot c p (Some (m, True, s, c'))"
  by (auto simp: relays_def dest!: sends_conn_write intro: sends_error_part)

lemma relays_step:
  assumes "conn_write (take k p) c = (n, False, c')" "k \<le> length p" "relays (tot + n) c' (drop k p) r"
  shows "relays tot c p r"
proof (cases r)
  case (Some t)
  obtain m err s c2 where t: "t = (m, err, s, c2)" by (cases t) auto
  have "sends c (take k p) False c'" "n = k"
    using assms(1,2) sends_conn_write conn_write_ok(1) by fastforce+
  then show ?thesis
    using assms(2,3) Some t by (auto simp: relays_def intro: sends_trans)
qed (simp add: relays_def)

locale chunk_plan =
  fixes plan :: "'s plan" and adv :: "nat \<Rightarrow> 's \<Rightarrow> 's"
  assumes plan_take: "plan s p = (chunk, k, s1) \<Longrightarrow> chunk = take k p \<and> k \<le> length p"
begin

lemma loop_relays: "relays tot c p (chunk_loop fuel plan adv tot s p c)"
proof (induction fuel arbitrary: tot s p c)
  case 0
  then show ?case by (cases p) (simp_all add: relays_done)
next
  case (Suc fuel)
  show ?case
  proof (cases p)
    case (Cons b rest)
    obtain chunk k s1 where pl: "plan s p = (chunk, k, s1)" by (cases "plan s p") auto
    obtain n err c' where w: "conn_write chunk c = (n, err, c')" by (cases "conn_write chunk c") auto
    have k: "chunk = take k p" "k \<le> length p" using plan_take [OF pl] by simp_all
    show ?thesis
    proof (cases err)
      case True
      then show ?thesis
        using pl w k relays_error [of k p c n c'] Cons by simp
    next
      case False
      then show ?thesis
        using pl w k relays_step [OF _ k(2) Suc.IH, of c n c'] Cons by simp
    qed
  qed (simp add: relays_done)
qed

end

locale live_chunk_plan = chunk_plan plan adv
  for plan :: "'s plan" and adv +
  fixes inv :: "'s \<Rightarrow> bool"
  assumes plan_progress: "inv s \<Longrightarrow> p \<noteq> [] \<Longrightarrow> plan s p = (chunk, k, s1) \<Longrightarrow> 1 \<le> k"
    and inv_step: "inv s \<Longrightarrow> plan s p = (chunk, k, s1) \<Longrightarrow> inv (adv k s1)"
begin

lemma loop_total: "inv s \<Longrightarrow> length p \<le> fuel \<Longrightarrow> chunk_loop fuel plan adv tot s p c \<noteq> None"
proof (induction fuel arbitrary: tot s p c)
  case (Suc fuel)
  show ?case
  proof (cases p)
    case (Cons b rest)
    obtain chunk k s1 where pl: "plan s p = (chunk, k, s1)" by (cases "plan s p") auto
    have "1 \<le> k" "inv (adv k s1)"
      using plan_progress [OF Suc.prems(1) _ pl] inv_step [OF Suc.prems(1) pl] Cons by auto
    then have "chunk_loop fuel plan adv t (adv k s1) (drop k p) d \<noteq> None" for t d
      using Suc.prems(2) Cons by (intro Suc.IH) auto
    then show ?thesis
      using pl Cons by (auto split: prod.splits)
  qed simp
qed simp

end

end
