(* ===== verification/Fragment.thy ===== *)
theory Fragment
  imports Conn_Writer Go_Strings
begin

text \<open>
  internal/antidpi/fragment.go: the ClientHello of a connection is sent in random-sized pieces.
  The random source is a sequence of draws (\<open>None\<close>: the draw fails), consumed by an index that
  is part of the state. Delays between fragments are not modelled.
\<close>

type_synonym rng = "nat \<Rightarrow> nat option"

text \<open>\<open>rand.Int(rand.Reader, big.NewInt(m))\<close>: a value below \<open>m\<close>.\<close>

definition draw :: "rng \<Rightarrow> nat \<Rightarrow> nat \<Rightarrow> nat option" where
  "draw rnd m i = map_option (\<lambda>v. v mod m) (rnd i)"

lemma draw_less: "0 < m \<Longrightarrow> draw rnd m i = Some v \<Longrightarrow> v < m"
  by (auto simp: draw_def)

record Fragmenter =
  f_enabled :: bool
  f_minSize :: nat
  f_maxSize :: nat

definition NewFragmenter :: "string \<Rightarrow> bool \<Rightarrow> range_error + Fragmenter" where
  "NewFragmenter sizeRange en =
     (if \<not> en then Inr \<lparr>f_enabled = False, f_minSize = 0, f_maxSize = 0\<rparr>
      else andThen (parse_range sizeRange) (\<lambda>(mn, mx).
        if mn < 1 \<or> mx < mn then Inl (EmptyRange mn mx)
        else Inr \<lparr>f_enabled = True, f_minSize = nat mn, f_maxSize = nat mx\<rparr>))"

definition fragmenter_ok :: "Fragmenter \<Rightarrow> bool" where
  "fragmenter_ok f \<longleftrightarrow> (f_enabled f \<longrightarrow> 1 \<le> f_minSize f \<and> f_minSize f \<le> f_maxSize f)"

lemma NewFragmenter_ok: "NewFragmenter r en = Inr f \<Longrightarrow> fragmenter_ok f"
  by (auto simp: NewFragmenter_def fragmenter_ok_def split: if_splits)

text \<open>The size (\<open>None\<close> on a failed draw) and the index of the next draw.\<close>

definition frag_randomSize :: "rng \<Rightarrow> Fragmenter \<Rightarrow> nat \<Rightarrow> nat option \<times> nat" where
  "frag_randomSize rnd f i =
     (if f_maxSize f = f_minSize f then (Some (f_minSize f), i)
      else (map_option (\<lambda>n. f_minSize f + n) (draw rnd (f_maxSize f - f_minSize f + 1) i), Suc i))"

definition randomSplitPoint :: "rng \<Rightarrow> nat \<Rightarrow> nat \<Rightarrow> nat \<times> nat" where
  "randomSplitPoint rnd dataLen i =
     (let maxSplit0 = (if 100 > dataLen div 2 then dataLen div 2 else 100);
          (minSplit, maxSplit) = (if 5 \<ge> maxSplit0 then (1, dataLen div 2) else (5, maxSplit0)) in
      if maxSplit \<le> minSplit then (dataLen div 2, i)
      else case draw rnd (maxSplit - minSplit) i of
             None \<Rightarrow> (dataLen div 2, Suc i)
           | Some n \<Rightarrow> (minSplit + n, Suc i))"

text \<open>
  The loop of \<open>FragmentedWrite\<close> on the data not yet sent: error flag, next draw, connection.
  It returns \<open>None\<close> when the fuel does not suffice.
\<close>

fun fragment_loop ::
  "nat \<Rightarrow> rng \<Rightarrow> Fragmenter \<Rightarrow> nat \<Rightarrow> bytes \<Rightarrow> net_conn \<Rightarrow> (bool \<times> nat \<times> net_conn) option" where
  "fragment_loop fuel rnd f i [] c = Some (False, i, c)"
| "fragment_loop 0 rnd f i (b # rest) c = None"
| "fragment_loop (Suc fuel) rnd f i (b # rest) c =
     (case frag_randomSize rnd f i of
        (None, i') \<Rightarrow> Some (True, i', c)
      | (Some fragSize, i') \<Rightarrow>
          (case conn_write (take fragSize (b # rest)) c of
             (n, err, c') \<Rightarrow>
               if err then Some (True, i', c')
               else fragment_loop fuel rnd f i' (drop fragSize (b # rest)) c'))"

definition FragmentedWrite ::
  "nat \<Rightarrow> rng \<Rightarrow> Fragmenter \<Rightarrow> nat \<Rightarrow> bytes \<Rightarrow> net_conn \<Rightarrow> (bool \<times> nat \<times> net_conn) option" where
  "FragmentedWrite fuel rnd f i payload c =
     (if \<not> f_enabled f \<or> length payload \<le> f_minSize f then
        (case conn_write payload c of (n, err, c') \<Rightarrow> Some (err, i, c'))
      else fragment_loop fuel rnd f i payload c)"

definition FragmentTLSClientHello ::
  "nat \<Rightarrow> rng \<Rightarrow> Fragmenter \<Rightarrow> nat \<Rightarrow> bytes \<Rightarrow> net_conn \<Rightarrow> (bool \<times> nat \<times> net_conn) option" where
  "FragmentTLSClientHello fuel rnd f i clientHello c =
     (if \<not> f_enabled f \<or> length clientHello < 10 then
        (case conn_write clientHello c of (n, err, c') \<Rightarrow> Some (err, i, c'))
      else
        (case randomSplitPoint rnd (length clientHello) i of
           (splitPoint, i') \<Rightarrow>
             (case conn_write (take splitPoint clientHello) c of
                (n, err, c') \<Rightarrow>
                  if err then Some (True, i', c')
                  else FragmentedWrite fuel rnd f i' (drop splitPoint clientHello) c')))"

record FragmentedConn =
  fc_fragmenter :: Fragmenter
  fc_firstWrite :: bool
  fc_didFirst :: bool
  fc_rng :: nat

definition NewFragmentedConn :: "Fragmenter \<Rightarrow> FragmentedConn" where
  "NewFragmentedConn f =
     \<lparr>fc_fragmenter = f, fc_firstWrite = True, fc_didFirst = False, fc_rng = 0\<rparr>"

definition FragmentedConn_Write :: "nat \<Rightarrow> rng \<Rightarrow> FragmentedConn writer" where
  "FragmentedConn_Write fuel rnd fc p c =
     (if fc_firstWrite fc \<and> \<not> fc_didFirst fc \<and> f_enabled (fc_fragmenter fc) then
        let fc1 = fc\<lparr>fc_didFirst := True\<rparr> in
        if length p > 5 \<and> p ! 0 = 0x16 then
          (case FragmentTLSClientHello fuel rnd (fc_fragmenter fc1) (fc_rng fc1) p c of
             None \<Rightarrow> None
           | Some (err, i, c') \<Rightarrow>
               Some (if err then 0 else length p, err, fc1\<lparr>fc_rng := i\<rparr>, c'))
        else (case conn_write p c of (n, err, c') \<Rightarrow> Some (n, err, fc1, c'))
      else (case conn_write p c of (n, err, c') \<Rightarrow> Some (n, err, fc, c')))"

subsection \<open>What is sent\<close>

lemma fragment_loop_sends:
  "fragment_loop fuel rnd f i p c = Some (err, i', c') \<Longrightarrow> sends c p err c'"
proof (induction fuel rnd f i p c rule: fragment_loop.induct)
  case (3 fuel rnd f i b rest c)
  then show ?case
    by (auto split: prod.splits option.splits if_splits
        dest!: sends_conn_write intro: sends_refl sends_error_part sends_trans)
qed (auto simp: sends_refl)

lemma FragmentedWrite_sends:
  "FragmentedWrite fuel rnd f i p c = Some (err, i', c') \<Longrightarrow> sends c p err c'"
  by (auto simp: FragmentedWrite_def fragment_loop_sends sends_conn_write split: if_splits prod.splits)

lemma FragmentTLSClientHello_sends:
  "FragmentTLSClientHello fuel rnd f i p c = Some (err, i', c') \<Longrightarrow> sends c p err c'"
  by (auto simp: FragmentTLSClientHello_def split: if_splits prod.splits
      dest!: sends_conn_write FragmentedWrite_sends intro: sends_error_part sends_trans)

lemma FragmentedConn_Write_sends:
  "FragmentedConn_Write fuel rnd fc p c = Some (n, err, fc', c') \<Longrightarrow> sends c p err c'"
  by (auto simp: FragmentedConn_Write_def Let_def split: if_splits prod.splits option.splits
      dest!: sends_conn_write FragmentTLSClientHello_sends)

lemma FragmentedConn_Write_count:
  "FragmentedConn_Write fuel rnd fc p c = Some (n, False, fc', c') \<Longrightarrow> n = length p"
  by (auto simp: FragmentedConn_Write_def Let_def split: if_splits prod.splits option.splits
      dest: conn_write_ok)

interpretation fragmented: stream_writer "FragmentedConn_Write fuel rnd" for fuel rnd
  by (rule stream_writerI) (fact FragmentedConn_Write_sends, fact FragmentedConn_Write_count)

subsection \<open>Sizes and termination\<close>

lemma frag_randomSize_bounds:
  assumes "fragmenter_ok f" "f_enabled f" "frag_randomSize rnd f i = (Some sz, i')"
  shows "1 \<le> sz" "sz \<le> f_maxSize f"
proof -
  have mn: "1 \<le> f_minSize f" "f_minSize f \<le> f_maxSize f"
    using assms by (auto simp: fragmenter_ok_def)
  have "f_minSize f \<le> sz \<and> sz \<le> f_maxSize f"
    using assms(3) mn draw_less [of "f_maxSize f - f_minSize f + 1" rnd i]
    by (fastforce simp: frag_randomSize_def split: if_splits)
  with mn show "1 \<le> sz" "sz \<le> f_maxSize f" by auto
qed

lemma randomSplitPoint_bounds:
  assumes "10 \<le> n" "randomSplitPoint rnd n i = (sp, i')"
  shows "1 \<le> sp" "sp \<le> n div 2"
proof -
  have "draw rnd m i = Some v \<Longrightarrow> 0 < m \<Longrightarrow> v < m" for m v
    using draw_less by blast
  with assms have "1 \<le> sp \<and> sp \<le> n div 2"
    by (fastforce simp: randomSplitPoint_def Let_def split: if_splits option.splits)
  then show "1 \<le> sp" "sp \<le> n div 2" by auto
qed

lemma fragment_loop_total:
  assumes "fragmenter_ok f" "f_enabled f"
  shows "length p \<le> fuel \<Longrightarrow> fragment_loop fuel rnd f i p c \<noteq> None"
proof (induction fuel arbitrary: i p c)
  case (Suc fuel)
  show ?case
  proof (cases p)
    case (Cons b rest)
    have "length (drop sz (b # rest)) \<le> fuel" if "frag_randomSize rnd f i = (Some sz, i')" for sz i'
      using Suc.prems Cons frag_randomSize_bounds(1) [OF assms that] by auto
    then show ?thesis
      using Suc.IH unfolding Cons by (auto split: prod.splits option.splits)
  qed simp
qed simp

lemma FragmentedConn_Write_total:
  assumes "fragmenter_ok (fc_fragmenter fc)" "length p \<le> fuel"
  shows "FragmentedConn_Write fuel rnd fc p c \<noteq> None"
proof -
  have fw: "FragmentedWrite fuel rnd (fc_fragmenter fc) i q d \<noteq> None" if "length q \<le> fuel" for i q d
    using that fragment_loop_total [OF assms(1)]
    by (auto simp: FragmentedWrite_def split: prod.splits)
  have "FragmentTLSClientHello fuel rnd (fc_fragmenter fc) i p d \<noteq> None" for i d
    using assms(2) fw by (auto simp: FragmentTLSClientHello_def split: prod.splits)
  from this [of "fc_rng fc" c] show ?thesis
    by (auto simp: FragmentedConn_Write_def Let_def split: prod.splits option.splits)
qed

text \<open>On a connection that does not fail, the loop cuts the data into non-empty pieces.\<close>

definition frag_pieces :: "nat \<Rightarrow> bytes list \<Rightarrow> bytes \<Rightarrow> bool" where
  "frag_pieces mx ws p \<longleftrightarrow> concat ws = p \<and> (\<forall>w \<in> set ws. w \<noteq> [] \<and> length w \<le> mx)"

lemma frag_randomSize_Some: "\<exists>sz i'. frag_randomSize (\<lambda>i. Some (g i)) f i = (Some sz, i')"
  by (simp add: frag_randomSize_def draw_def)

lemma fragment_loop_pieces:
  assumes "fragmenter_ok f" "f_enabled f" "rnd = (\<lambda>i. Some (g i))"
  shows "length p \<le> fuel \<Longrightarrow> nc_budget c = None \<Longrightarrow>
    \<exists>ws i'. fragment_loop fuel rnd f i p c = Some (False, i', c\<lparr>nc_writes := nc_writes c @ ws\<rparr>) \<and>
         frag_pieces (f_maxSize f) ws p"
proof (induction fuel arbitrary: i p c)
  case 0
  then show ?case by (auto simp: frag_pieces_def intro!: exI [of _ "[]"])
next
  case (Suc fuel)
  show ?case
  proof (cases p)
    case Nil
    then show ?thesis by (auto simp: frag_pieces_def intro!: exI [of _ "[]"])
  next
    case (Cons b rest)
    obtain sz i1 where sz: "frag_randomSize rnd f i = (Some sz, i1)"
      unfolding assms(3) using frag_randomSize_Some by blast
    note bounds = frag_randomSize_bounds [OF assms(1,2) sz]
    let ?c = "c\<lparr>nc_writes := nc_writes c @ [take sz p]\<rparr>"
    have "length (drop sz p) \<le> fuel" "nc_budget ?c = None"
      using Suc.prems bounds Cons by auto
    from Suc.IH [OF this] obtain ws i2 where
      ws: "fragment_loop fuel rnd f i1 (drop sz p) ?c = Some (False, i2, ?c\<lparr>nc_writes := nc_writes ?c @ ws\<rparr>)"
        "frag_pieces (f_maxSize f) ws (drop sz p)"
      by blast
    have "fragment_loop (Suc fuel) rnd f i p c =
        Some (False, i2, c\<lparr>nc_writes := nc_writes c @ (take sz p # ws)\<rparr>)"
      using sz ws(1) Suc.prems(2) unfolding Cons by (simp add: conn_write_unlimited)
    moreover have "frag_pieces (f_maxSize f) (take sz p # ws) p"
      using ws(2) bounds Cons by (auto simp: frag_pieces_def)
    ultimately show ?thesis by blast
  qed
qed

lemma FragmentedWrite_pieces:
  assumes "fragmenter_ok f" "f_enabled f" "rnd = (\<lambda>i. Some (g i))" "length p \<le> fuel" "nc_budget c = None"
    and "p \<noteq> []"
  shows "\<exists>ws i'. FragmentedWrite fuel rnd f i p c = Some (False, i', c\<lparr>nc_writes := nc_writes c @ ws\<rparr>) \<and>
         frag_pieces (f_maxSize f) ws p"
proof (cases "length p \<le> f_minSize f")
  case True
  then have "frag_pieces (f_maxSize f) [p] p"
    using assms(1,2,6) by (auto simp: frag_pieces_def fragmenter_ok_def)
  with True show ?thesis
    using assms(5) by (auto simp: FragmentedWrite_def conn_write_unlimited intro!: exI [of _ "[p]"])
next
  case False
  then show ?thesis
    using fragment_loop_pieces [OF assms(1-5), of i] assms(2)
    by (simp add: FragmentedWrite_def)
qed

text \<open>
  the first TLS record of at least 10 bytes written to a fragmented connection goes out in
  at least two writes, the first holding at most half of it, each further one at most the
  configured maximum; together they are the record, byte for byte, and the call reports it
  completely written.
\<close>

theorem client_hello_is_fragmented:
  assumes "NewFragmenter sizeRange True = Inr f" "rnd = (\<lambda>i. Some (g i))"
    and "10 \<le> length p" "p ! 0 = 0x16" "length p \<le> fuel" "nc_budget c = None"
  shows "\<exists>w ws fc'. FragmentedConn_Write fuel rnd (NewFragmentedConn f) p c =
           Some (length p, False, fc', c\<lparr>nc_writes := nc_writes c @ w # ws\<rparr>) \<and>
         w @ concat ws = p \<and> ws \<noteq> [] \<and> w \<noteq> [] \<and> length w \<le> length p div 2 \<and>
         (\<forall>v \<in> set ws. v \<noteq> [] \<and> length v \<le> f_maxSize f)"
proof -
  have f: "fragmenter_ok f" "f_enabled f"
    using NewFragmenter_ok [OF assms(1)] assms(1) by (auto simp: NewFragmenter_def split: if_splits)
  obtain sp i1 where sp: "randomSplitPoint rnd (length p) 0 = (sp, i1)" by fastforce
  note spb = randomSplitPoint_bounds [OF assms(3) sp]
  let ?c = "c\<lparr>nc_writes := nc_writes c @ [take sp p]\<rparr>"
  have "drop sp p \<noteq> []" "length (drop sp p) \<le> fuel" using spb assms(3,5) by simp_all
  then obtain ws i2 where ws: "frag_pieces (f_maxSize f) ws (drop sp p)"
      "FragmentedWrite fuel rnd f i1 (drop sp p) ?c = Some (False, i2, ?c\<lparr>nc_writes := nc_writes ?c @ ws\<rparr>)"
    using FragmentedWrite_pieces [OF f assms(2), of "drop sp p" fuel ?c i1] assms(6) by auto
  have "FragmentTLSClientHello fuel rnd f 0 p c =
      Some (False, i2, c\<lparr>nc_writes := nc_writes c @ take sp p # ws\<rparr>)"
    using f(2) assms(3,6) sp ws(2) by (simp add: FragmentTLSClientHello_def conn_write_unlimited)
  then have "FragmentedConn_Write fuel rnd (NewFragmentedConn f) p c =
      Some (length p, False, (NewFragmentedConn f)\<lparr>fc_didFirst := True, fc_rng := i2\<rparr>,
        c\<lparr>nc_writes := nc_writes c @ take sp p # ws\<rparr>)"
    using f(2) assms(3,4) by (simp add: FragmentedConn_Write_def NewFragmentedConn_def)
  moreover have "take sp p @ concat ws = p" "ws \<noteq> []" "take sp p \<noteq> []" "length (take sp p) \<le> length p div 2"
    using ws(1) \<open>drop sp p \<noteq> []\<close> spb assms(3) by (auto simp: frag_pieces_def)
  ultimately show ?thesis
    using ws(1) unfolding frag_pieces_def by blast
qed

theorem client_hello_is_fragmented_witness:
  "\<exists>w ws fc'. FragmentedConn_Write 16 (\<lambda>i. Some (3 * i)) (NewFragmentedConn \<lparr>f_enabled = True, f_minSize = 2, f_maxSize = 5\<rparr>)
        (0x16 # replicate 11 1) \<lparr>nc_writes = [], nc_budget = None\<rparr> =
        Some (12, False, fc', \<lparr>nc_writes = w # ws, nc_budget = None\<rparr>) \<and>
      w @ concat ws = 0x16 # replicate 11 1 \<and> ws \<noteq> [] \<and> w \<noteq> [] \<and> length w \<le> 6 \<and>
      (\<forall>v \<in> set ws. v \<noteq> [] \<and> length v \<le> 5)"
proof -
  have "NewFragmenter (itoa 2 @ CHR ''-'' # itoa 5) True = Inr \<lparr>f_enabled = True, f_minSize = 2, f_maxSize = 5\<rparr>"
    using parse_range_print [of 2 5] by (simp add: NewFragmenter_def max_int_def)
  from client_hello_is_fragmented [OF this, of "\<lambda>i. Some (3 * i)" "\<lambda>i. 3 * i" "0x16 # replicate 11 1" 16
      "\<lparr>nc_writes = [], nc_budget = None\<rparr>"]
  show ?thesis by simp
qed

text \<open>
  whatever the sequence of writes, the random draws and the point where the connection
  fails, the peer of a fragmented connection has received a prefix of the concatenated data,
  and all of it when no write reported an error.
\<close>

theorem fragmented_stream_preserved:
  assumes "write_all (FragmentedConn_Write fuel rnd) fc ps c = Some (err, fc', c')"
  shows "(\<exists>k \<le> length (concat ps). nc_sent c' = nc_sent c @ take k (concat ps)) \<and>
         (\<not> err \<longrightarrow> nc_sent c' = nc_sent c @ concat ps)"
  using fragmented.write_all_prefix [OF assms] fragmented.write_all_complete [of fuel rnd fc ps c fc' c'] assms
  by simp

theorem fragmented_stream_preserved_witness:
  "\<exists>err fc' c'. write_all (FragmentedConn_Write 16 (\<lambda>i. Some i))
       (NewFragmentedConn \<lparr>f_enabled = True, f_minSize = 2, f_maxSize = 2\<rparr>)
       [0x16 # replicate 11 1, [4, 5]] \<lparr>nc_writes = [], nc_budget = Some 7\<rparr> = Some (err, fc', c') \<and>
     (\<exists>k \<le> 14. nc_sent c' = take k ((0x16 # replicate 11 1) @ [4, 5]))"
proof -
  let ?w = "write_all (FragmentedConn_Write 16 (\<lambda>i. Some i))
       (NewFragmentedConn \<lparr>f_enabled = True, f_minSize = 2, f_maxSize = 2\<rparr>)
       [0x16 # replicate 11 1, [4, 5]] \<lparr>nc_writes = [], nc_budget = Some 7\<rparr>"
  have "?w \<noteq> None" by code_simp
  then obtain err fc' c' where w: "?w = Some (err, fc', c')" by (cases ?w) auto
  then show ?thesis
    using fragmented_stream_preserved [OF w] by (auto simp: nc_sent_def)
qed

end
