(* ===== verification/Obfuscation.thy ===== *)
theory Obfuscation
  imports Conn_Writer
begin

text \<open>
  internal/antidpi/obfuscation.go: traffic obfuscation by cutting writes into chunks whose sizes
  follow a pattern. Random draws come from a sequence \<open>rnd\<close> indexed by the state; the code
  ignores the error of \<open>rand.Int\<close>, so the draws are total. Sleeping is not modelled, but the
  draws made for delays are. Every loop takes fuel and returns \<open>None\<close> when it is not enough.
\<close>

datatype ObfuscationMode = ModeMimicHTTPS | ModeMimicVideo | ModeRandomBurst | ModeConstantRate | ModeOther

record ObfuscationConfig =
  oc_Mode :: ObfuscationMode
  oc_Enabled :: bool
  oc_PaddingEnabled :: bool
  oc_MinDelay :: nat
  oc_MaxDelay :: nat
  oc_TargetRate :: int

definition DefaultObfuscationConfig :: ObfuscationConfig where
  "DefaultObfuscationConfig =
     \<lparr>oc_Mode = ModeMimicHTTPS, oc_Enabled = True, oc_PaddingEnabled = True,
      oc_MinDelay = 0, oc_MaxDelay = 5000000, oc_TargetRate = 0\<rparr>"

record Obfuscator =
  ob_cfg :: ObfuscationConfig
  ob_phase :: nat
  ob_phaseBytes :: nat
  ob_targetBytes :: nat
  ob_segmentSize :: nat
  ob_segmentsSent :: nat
  ob_rng :: nat

definition randomRange :: "(nat \<Rightarrow> nat) \<Rightarrow> nat \<Rightarrow> nat \<Rightarrow> nat \<Rightarrow> nat \<times> nat" where
  "randomRange rnd mn mx i = (if mn \<ge> mx then (mn, i) else (rnd i mod (mx - mn) + mn, Suc i))"

definition NewObfuscator :: "(nat \<Rightarrow> nat) \<Rightarrow> ObfuscationConfig \<Rightarrow> Obfuscator" where
  "NewObfuscator rnd cfg =
     (let ob = \<lparr>ob_cfg = cfg, ob_phase = 0, ob_phaseBytes = 0, ob_targetBytes = 0,
                ob_segmentSize = 0, ob_segmentsSent = 0, ob_rng = 0\<rparr> in
      case oc_Mode cfg of
        ModeMimicHTTPS \<Rightarrow>
          (case randomRange rnd 200 800 0 of (t, i) \<Rightarrow> ob\<lparr>ob_targetBytes := t, ob_rng := i\<rparr>)
      | ModeMimicVideo \<Rightarrow>
          (case randomRange rnd 65536 262144 0 of (s, i) \<Rightarrow> ob\<lparr>ob_segmentSize := s, ob_rng := i\<rparr>)
      | _ \<Rightarrow> ob)"

subsection \<open>HTTPS mimicry\<close>

definition https_chunk :: "(nat \<Rightarrow> nat) \<Rightarrow> Obfuscator \<Rightarrow> nat \<times> nat" where
  "https_chunk rnd ob =
     (if ob_phase ob = 0 then randomRange rnd 100 1500 (ob_rng ob)
      else if ob_phase ob = 1 then randomRange rnd 1400 16384 (ob_rng ob)
      else if ob_phase ob = 2 then randomRange rnd 20 100 (ob_rng ob)
      else (0, ob_rng ob))"

text \<open>Lines 165-187: account the chunk, move to the next phase, draw the delays.\<close>

definition https_advance :: "(nat \<Rightarrow> nat) \<Rightarrow> nat \<Rightarrow> Obfuscator \<Rightarrow> Obfuscator" where
  "https_advance rnd chunkSize ob =
     (let ob1 = ob\<lparr>ob_phaseBytes := ob_phaseBytes ob + chunkSize\<rparr>;
          ob2 =
            (if ob_phaseBytes ob1 \<ge> ob_targetBytes ob1 then
               let ph = (ob_phase ob1 + 1) mod 3; o' = ob1\<lparr>ob_phase := ph, ob_phaseBytes := 0\<rparr> in
               if ph = 0 then
                 (case randomRange rnd 200 800 (ob_rng o') of (t, i) \<Rightarrow> o'\<lparr>ob_targetBytes := t, ob_rng := i\<rparr>)
               else if ph = 1 then
                 (case randomRange rnd 5000 50000 (ob_rng o') of (t, i) \<Rightarrow> o'\<lparr>ob_targetBytes := t, ob_rng := i\<rparr>)
               else
                 (case randomRange rnd 50 200 (ob_rng o') of (t, i) \<Rightarrow>
                    (case randomRange rnd 10 100 i of (d, i') \<Rightarrow> o'\<lparr>ob_targetBytes := t, ob_rng := i'\<rparr>))
             else ob1) in
      if oc_MaxDelay (ob_cfg ob2) > 0 then
        (case randomRange rnd (oc_MinDelay (ob_cfg ob2)) (oc_MaxDelay (ob_cfg ob2)) (ob_rng ob2) of
           (d, i) \<Rightarrow> ob2\<lparr>ob_rng := i\<rparr>)
      else ob2)"

text \<open>
  The padding drawn for a chunk is cut off again before the write, \<open>chunk[:chunkSize]\<close>, so its
  random content is never sent; zeros stand for it.
\<close>

definition clip :: "nat \<Rightarrow> bytes \<Rightarrow> nat" where
  "clip sz remaining = (if sz > length remaining then length remaining else sz)"

definition https_plan :: "(nat \<Rightarrow> nat) \<Rightarrow> Obfuscator plan" where
  "https_plan rnd ob remaining =
     (let (sz, i) = https_chunk rnd ob;
          chunkSize = clip sz remaining;
          chunk0 = take chunkSize remaining;
          (chunk, i') =
            (if oc_PaddingEnabled (ob_cfg ob) \<and> chunkSize < 1400 then
               (case randomRange rnd 0 100 i of (padSize, j) \<Rightarrow> (chunk0 @ replicate padSize 0, j))
             else (chunk0, i)) in
      (take chunkSize chunk, chunkSize, ob\<lparr>ob_rng := i'\<rparr>))"

definition writeHTTPSMimic :: "nat \<Rightarrow> (nat \<Rightarrow> nat) \<Rightarrow> Obfuscator writer" where
  "writeHTTPSMimic fuel rnd ob p c = chunk_loop fuel (https_plan rnd) (https_advance rnd) 0 ob p c"

subsection \<open>Video mimicry, random bursts, constant rate\<close>

definition video_plan :: "(nat \<Rightarrow> nat) \<Rightarrow> Obfuscator plan" where
  "video_plan rnd ob remaining =
     (let chunkSize = clip (ob_segmentSize ob) remaining;
          (interval, i) = randomRange rnd 1000 4000 (ob_rng ob) in
      (take chunkSize remaining, chunkSize, ob\<lparr>ob_rng := i\<rparr>))"

definition video_advance :: "(nat \<Rightarrow> nat) \<Rightarrow> nat \<Rightarrow> Obfuscator \<Rightarrow> Obfuscator" where
  "video_advance rnd chunkSize ob =
     (case randomRange rnd 65536 262144 (ob_rng ob) of
        (s, i) \<Rightarrow> ob\<lparr>ob_segmentsSent := ob_segmentsSent ob + 1, ob_segmentSize := s, ob_rng := i\<rparr>)"

definition writeVideoMimic :: "nat \<Rightarrow> (nat \<Rightarrow> nat) \<Rightarrow> Obfuscator writer" where
  "writeVideoMimic fuel rnd ob p c = chunk_loop fuel (video_plan rnd) (video_advance rnd) 0 ob p c"

definition burst_plan :: "(nat \<Rightarrow> nat) \<Rightarrow> Obfuscator plan" where
  "burst_plan rnd ob remaining =
     (let (sz, i) = randomRange rnd 512 8192 (ob_rng ob);
          burstSize = clip sz remaining in
      (take burstSize remaining, burstSize, ob\<lparr>ob_rng := i\<rparr>))"

definition burst_advance :: "(nat \<Rightarrow> nat) \<Rightarrow> nat \<Rightarrow> Obfuscator \<Rightarrow> Obfuscator" where
  "burst_advance rnd burstSize ob =
     (case randomRange rnd 1 20 (ob_rng ob) of (d, i) \<Rightarrow> ob\<lparr>ob_rng := i\<rparr>)"

definition writeRandomBurst :: "nat \<Rightarrow> (nat \<Rightarrow> nat) \<Rightarrow> Obfuscator writer" where
  "writeRandomBurst fuel rnd ob p c = chunk_loop fuel (burst_plan rnd) (burst_advance rnd) 0 ob p c"

definition rate_plan :: "nat \<Rightarrow> Obfuscator plan" where
  "rate_plan bytesPerTick ob remaining =
     (let chunkSize = clip bytesPerTick remaining in (take chunkSize remaining, chunkSize, ob))"

definition writeThrough :: "Obfuscator writer" where
  "writeThrough ob p c = (case conn_write p c of (n, err, c') \<Rightarrow> Some (n, err, ob, c'))"

definition writeConstantRate :: "nat \<Rightarrow> Obfuscator writer" where
  "writeConstantRate fuel ob p c =
     (if oc_TargetRate (ob_cfg ob) \<le> 0 then writeThrough ob p c
      else
        let bytesPerTick = nat (oc_TargetRate (ob_cfg ob)) div 100 in
        chunk_loop fuel (rate_plan bytesPerTick) (\<lambda>k ob. ob) 0 ob p c)"

definition Obfuscator_Write :: "nat \<Rightarrow> (nat \<Rightarrow> nat) \<Rightarrow> Obfuscator writer" where
  "Obfuscator_Write fuel rnd ob p c =
     (if \<not> oc_Enabled (ob_cfg ob) then writeThrough ob p c
      else case oc_Mode (ob_cfg ob) of
             ModeMimicHTTPS \<Rightarrow> writeHTTPSMimic fuel rnd ob p c
           | ModeMimicVideo \<Rightarrow> writeVideoMimic fuel rnd ob p c
           | ModeRandomBurst \<Rightarrow> writeRandomBurst fuel rnd ob p c
           | ModeConstantRate \<Rightarrow> writeConstantRate fuel ob p c
           | ModeOther \<Rightarrow> writeThrough ob p c)"

subsection \<open>The stream is preserved\<close>

lemma clip_le [simp]: "clip n p \<le> length p" "0 < n \<Longrightarrow> p \<noteq> [] \<Longrightarrow> 0 < clip n p"
  by (auto simp: clip_def)

lemma randomRange_bounds:
  "randomRange rnd mn mx i = (v, j) \<Longrightarrow> mn \<le> v \<and> (mn < mx \<longrightarrow> v < mx)"
  by (auto simp: randomRange_def simp flip: less_diff_conv split: if_splits)

lemma https_advance_phase:
  "ob_phase (https_advance rnd k ob) =
     (if ob_phaseBytes ob + k \<ge> ob_targetBytes ob then (ob_phase ob + 1) mod 3 else ob_phase ob)"
  by (simp add: https_advance_def Let_def split: prod.split)

interpretation https: live_chunk_plan "https_plan rnd" "https_advance rnd" "\<lambda>ob. ob_phase ob < 3" for rnd
proof
  fix ob p chunk k ob1
  assume pl: "https_plan rnd ob p = (chunk, k, ob1)"
  show "chunk = take k p \<and> k \<le> length p"
    using pl by (auto simp: https_plan_def Let_def split: prod.splits if_splits)
  assume ph: "ob_phase ob < 3"
  obtain sz i where ch: "https_chunk rnd ob = (sz, i)" by fastforce
  have "20 \<le> sz"
    using ph ch randomRange_bounds [of rnd _ _ "ob_rng ob" sz i]
    by (fastforce simp: https_chunk_def split: if_splits)
  then show "1 \<le> k" if "p \<noteq> []"
    using that pl ch by (auto simp: https_plan_def Let_def Suc_le_eq split: prod.splits if_splits)
  have "ob_phase ob1 = ob_phase ob"
    using pl by (auto simp: https_plan_def Let_def split: prod.splits)
  then show "ob_phase (https_advance rnd k ob1) < 3"
    using ph by (simp add: https_advance_phase)
qed

interpretation video: live_chunk_plan "video_plan rnd" "video_advance rnd" "\<lambda>ob. 0 < ob_segmentSize ob" for rnd
proof
  fix ob p chunk k ob1
  assume pl: "video_plan rnd ob p = (chunk, k, ob1)"
  show "chunk = take k p \<and> k \<le> length p"
    using pl by (auto simp: video_plan_def Let_def split: prod.splits)
  show "1 \<le> k" if "0 < ob_segmentSize ob" "p \<noteq> []"
    using that pl by (auto simp: video_plan_def Let_def Suc_le_eq split: prod.splits)
  show "0 < ob_segmentSize (video_advance rnd k ob1)"
    using randomRange_bounds [of rnd 65536 262144 "ob_rng ob1"]
    by (fastforce simp: video_advance_def split: prod.splits)
qed

interpretation burst: live_chunk_plan "burst_plan rnd" "burst_advance rnd" "\<lambda>_. True" for rnd
proof
  fix ob p chunk k ob1
  assume pl: "burst_plan rnd ob p = (chunk, k, ob1)"
  show "chunk = take k p \<and> k \<le> length p"
    using pl by (auto simp: burst_plan_def Let_def split: prod.splits)
  show "1 \<le> k" if "p \<noteq> []"
    using that pl randomRange_bounds [of rnd 512 8192 "ob_rng ob"]
    by (fastforce simp: burst_plan_def Let_def Suc_le_eq split: prod.splits)
qed simp

interpretation rate: live_chunk_plan "rate_plan t" "\<lambda>k ob. ob" "\<lambda>_. 0 < t" for t
  by unfold_locales (auto simp: rate_plan_def Let_def Suc_le_eq)

lemma writeThrough_relays: "relays 0 c p (writeThrough ob p c)"
  using sends_conn_write [of p c] conn_write_ok(1) [of p c]
  by (auto simp: writeThrough_def relays_def split: prod.splits)

lemma Obfuscator_Write_relays: "relays 0 c p (Obfuscator_Write fuel rnd ob p c)"
  by (simp add: Obfuscator_Write_def writeHTTPSMimic_def writeVideoMimic_def writeRandomBurst_def
      writeConstantRate_def Let_def https.loop_relays video.loop_relays burst.loop_relays
      rate.loop_relays writeThrough_relays split: ObfuscationMode.split)

interpretation obfuscated: stream_writer "Obfuscator_Write fuel rnd" for fuel rnd
proof (rule stream_writerI)
  fix ob p c n err ob' c'
  assume "Obfuscator_Write fuel rnd ob p c = Some (n, err, ob', c')"
  then show "sends c p err c'"
    using Obfuscator_Write_relays [of c p fuel rnd ob] by (simp add: relays_def)
next
  fix ob p c n ob' c'
  assume "Obfuscator_Write fuel rnd ob p c = Some (n, False, ob', c')"
  then show "n = length p"
    using Obfuscator_Write_relays [of c p fuel rnd ob] by (simp add: relays_def)
qed

subsection \<open>Termination\<close>

text \<open>The states an obfuscator can be in.\<close>

definition obfuscator_ok :: "Obfuscator \<Rightarrow> bool" where
  "obfuscator_ok ob \<longleftrightarrow>
     (oc_Mode (ob_cfg ob) = ModeMimicHTTPS \<longrightarrow> ob_phase ob < 3) \<and>
     (oc_Mode (ob_cfg ob) = ModeMimicVideo \<longrightarrow> 0 < ob_segmentSize ob)"

definition stuck_rate :: "Obfuscator \<Rightarrow> bool" where
  "stuck_rate ob \<longleftrightarrow>
     oc_Enabled (ob_cfg ob) \<and> oc_Mode (ob_cfg ob) = ModeConstantRate \<and>
     0 < oc_TargetRate (ob_cfg ob) \<and> oc_TargetRate (ob_cfg ob) < 100"

lemma NewObfuscator_ok: "obfuscator_ok (NewObfuscator rnd cfg)"
  using randomRange_bounds [of rnd 65536 262144 0]
  by (fastforce simp: obfuscator_ok_def NewObfuscator_def Let_def split: ObfuscationMode.splits prod.splits)

lemma NewObfuscator_cfg: "ob_cfg (NewObfuscator rnd cfg) = cfg"
  by (simp add: NewObfuscator_def Let_def split: ObfuscationMode.splits prod.splits)

lemma Obfuscator_Write_total:
  assumes "obfuscator_ok ob" "\<not> stuck_rate ob" "length p \<le> fuel"
  shows "Obfuscator_Write fuel rnd ob p c \<noteq> None"
proof -
  have through: "writeThrough ob p c \<noteq> None"
    by (simp add: writeThrough_def split: prod.splits)
  have rate: "0 < nat (oc_TargetRate (ob_cfg ob)) div 100" if "100 \<le> oc_TargetRate (ob_cfg ob)"
    using that by (simp add: div_greater_zero_iff)
  show ?thesis
    using assms through rate https.loop_total [where s = ob and p = p and fuel = fuel]
      video.loop_total [where s = ob and p = p and fuel = fuel]
      burst.loop_total [where s = ob and p = p and fuel = fuel]
      rate.loop_total [where s = ob and p = p and fuel = fuel]
    by (auto simp: Obfuscator_Write_def writeHTTPSMimic_def writeVideoMimic_def writeRandomBurst_def
        writeConstantRate_def Let_def obfuscator_ok_def stuck_rate_def split: ObfuscationMode.split)
qed

lemma rate_zero_stuck: "chunk_loop fuel (rate_plan 0) adv tot ob (b # p) c = None"
proof (induction fuel arbitrary: tot ob c)
  case (Suc fuel)
  have "rate_plan 0 ob (b # p) = ([], 0, ob)"
    by (simp add: rate_plan_def clip_def)
  moreover obtain n c' where "conn_write [] c = (n, False, c')"
    by (cases "nc_budget c") (auto simp: conn_write_def)
  ultimately show ?case using Suc by simp
qed simp



text \<open>
  a write through a new obfuscator returns, except in constant-rate mode with a target of
  1 to 99 bytes per second: there \<open>TargetRate / 100\<close> is 0, every chunk is empty, and a non-empty
  write never returns, however long it runs.
\<close>

theorem obfuscator_write_returns_iff:
  assumes "p \<noteq> []"
  shows "(\<exists>fuel r. Obfuscator_Write fuel rnd (NewObfuscator rnd cfg) p c = Some r) \<longleftrightarrow>
         \<not> (oc_Enabled cfg \<and> oc_Mode cfg = ModeConstantRate \<and>
            0 < oc_TargetRate cfg \<and> oc_TargetRate cfg < 100)"
proof (cases "stuck_rate (NewObfuscator rnd cfg)")
  case True
  then have "nat (oc_TargetRate cfg) div 100 = 0"
    by (auto simp: stuck_rate_def NewObfuscator_cfg nat_less_iff)
  then have "Obfuscator_Write fuel rnd (NewObfuscator rnd cfg) p c = None" for fuel
    using True assms
    by (cases p) (simp_all add: Obfuscator_Write_def stuck_rate_def NewObfuscator_cfg
        writeConstantRate_def rate_zero_stuck)
  with True show ?thesis
    by (simp add: stuck_rate_def NewObfuscator_cfg)
next
  case False
  then show ?thesis
    using Obfuscator_Write_total [OF NewObfuscator_ok False, of p "length p" rnd c]
    unfolding stuck_rate_def NewObfuscator_cfg by blast
qed

theorem obfuscator_write_returns_iff_witness:
  "\<not> (\<exists>fuel r. Obfuscator_Write fuel (\<lambda>i. i)
        (NewObfuscator (\<lambda>i. i) (DefaultObfuscationConfig\<lparr>oc_Mode := ModeConstantRate, oc_TargetRate := 99\<rparr>))
        [1] \<lparr>nc_writes = [], nc_budget = None\<rparr> = Some r)"
  using obfuscator_write_returns_iff [of "[1]" "\<lambda>i. i"
      "DefaultObfuscationConfig\<lparr>oc_Mode := ModeConstantRate, oc_TargetRate := 99\<rparr>"]
  by (simp add: DefaultObfuscationConfig_def)

end
