(* ===== verification/Shaper.thy ===== *)
theory Shaper
  imports Conn_Writer
begin

text \<open>
  internal/antidpi/shaper.go: traffic shaping. Every write is padded to a multiple of the
  profile's size and cut into packets; nothing on the reading side removes the padding. The
  random fill is the parameter \<open>fill\<close>, the draws come from \<open>rnd\<close>; delays are not modelled.
\<close>

record ShapingProfile =
  sp_MinPacketSize :: nat
  sp_MaxPacketSize :: nat
  sp_MinDelay :: nat
  sp_MaxDelay :: nat
  sp_BurstSize :: nat
  sp_PadToMultiple :: nat

definition DefaultBrowsingProfile :: ShapingProfile where
  "DefaultBrowsingProfile =
     \<lparr>sp_MinPacketSize = 64, sp_MaxPacketSize = 1460, sp_MinDelay = 0, sp_MaxDelay = 5000000,
      sp_BurstSize = 10, sp_PadToMultiple = 64\<rparr>"

definition StreamingProfile :: ShapingProfile where
  "StreamingProfile =
     \<lparr>sp_MinPacketSize = 1000, sp_MaxPacketSize = 1460, sp_MinDelay = 0, sp_MaxDelay = 2000000,
      sp_BurstSize = 50, sp_PadToMultiple = 188\<rparr>"

text \<open>\<open>sc_more\<close> holds the test \<open>offset < len(data)\<close> made after a chunk was sent.\<close>

record ShapedConn =
  sc_profile :: ShapingProfile
  sc_packets :: nat
  sc_rng :: nat
  sc_more :: bool

definition randomInt :: "(nat \<Rightarrow> nat) \<Rightarrow> nat \<Rightarrow> nat \<Rightarrow> nat \<Rightarrow> nat \<times> nat" where
  "randomInt rnd mn mx i = (if mx \<le> mn then (mn, i) else (mn + rnd i mod (mx - mn), Suc i))"

definition padData :: "(nat \<Rightarrow> byte) \<Rightarrow> ShapedConn \<Rightarrow> bytes \<Rightarrow> bytes" where
  "padData fill sc payload =
     (let multiple = sp_PadToMultiple (sc_profile sc) in
      if multiple = 0 then payload
      else
        let remainder = length payload mod multiple in
        if remainder = 0 then payload
        else payload @ map fill [0..<multiple - remainder])"

definition shaped_plan :: "(nat \<Rightarrow> nat) \<Rightarrow> ShapedConn plan" where
  "shaped_plan rnd sc remaining =
     (let (sz, i) = randomInt rnd (sp_MinPacketSize (sc_profile sc)) (sp_MaxPacketSize (sc_profile sc)) (sc_rng sc);
          chunkSize = (if sz > length remaining then length remaining else sz) in
      (take chunkSize remaining, chunkSize,
       sc\<lparr>sc_rng := i, sc_more := chunkSize < length remaining\<rparr>))"

definition shaped_advance :: "(nat \<Rightarrow> nat) \<Rightarrow> nat \<Rightarrow> ShapedConn \<Rightarrow> ShapedConn" where
  "shaped_advance rnd chunkSize sc =
     (let sc1 = sc\<lparr>sc_packets := sc_packets sc + 1\<rparr> in
      if sc_more sc1 then
        (case randomInt rnd (sp_MinDelay (sc_profile sc1)) (sp_MaxDelay (sc_profile sc1)) (sc_rng sc1) of
           (d, i) \<Rightarrow> sc1\<lparr>sc_rng := i\<rparr>)
      else sc1)"

definition writeChunked :: "nat \<Rightarrow> (nat \<Rightarrow> nat) \<Rightarrow> ShapedConn writer" where
  "writeChunked fuel rnd sc payload c =
     chunk_loop fuel (shaped_plan rnd) (shaped_advance rnd) 0 sc payload c"

definition ShapedConn_Write :: "nat \<Rightarrow> (nat \<Rightarrow> nat) \<Rightarrow> (nat \<Rightarrow> byte) \<Rightarrow> ShapedConn writer" where
  "ShapedConn_Write fuel rnd fill sc p c =
     (let padded = padData fill sc p in
      if length padded > sp_MaxPacketSize (sc_profile sc) then writeChunked fuel rnd sc padded c
      else
        let sc1 = (if sc_packets sc > 0 \<and> sp_MaxDelay (sc_profile sc) > 0 then
                     (case randomInt rnd (sp_MinDelay (sc_profile sc)) (sp_MaxDelay (sc_profile sc)) (sc_rng sc) of
                        (d, i) \<Rightarrow> sc\<lparr>sc_rng := i\<rparr>)
                   else sc) in
        case conn_write padded c of
          (n, err, c') \<Rightarrow>
            Some (if n \<ge> length p then length p else n, err,
                  sc1\<lparr>sc_packets := sc_packets sc1 + 1\<rparr>, c'))"

subsection \<open>Properties\<close>

interpretation shaped: live_chunk_plan "shaped_plan rnd" "shaped_advance rnd"
    "\<lambda>sc. 0 < sp_MinPacketSize (sc_profile sc)" for rnd
proof
  fix sc p chunk k sc1
  assume pl: "shaped_plan rnd sc p = (chunk, k, sc1)"
  show "chunk = take k p \<and> k \<le> length p"
    using pl by (auto simp: shaped_plan_def Let_def split: prod.splits)
  assume mn: "0 < sp_MinPacketSize (sc_profile sc)"
  show "1 \<le> k" if "p \<noteq> []"
    using that mn pl by (auto simp: shaped_plan_def randomInt_def Let_def Suc_le_eq split: prod.splits if_splits)
  show "0 < sp_MinPacketSize (sc_profile (shaped_advance rnd k sc1))"
    using mn pl by (auto simp: shaped_plan_def shaped_advance_def Let_def split: prod.splits)
qed

lemma padData_length:
  assumes "0 < sp_PadToMultiple (sc_profile sc)"
  shows "length (padData fill sc p) mod sp_PadToMultiple (sc_profile sc) = 0"
proof (cases "length p mod sp_PadToMultiple (sc_profile sc) = 0")
  case False
  let ?m = "sp_PadToMultiple (sc_profile sc)"
  have "length (padData fill sc p) = length p + (?m - length p mod ?m)"
    using False assms by (simp add: padData_def Let_def)
  also have "\<dots> mod ?m = (length p mod ?m + (?m - length p mod ?m)) mod ?m"
    by (simp add: mod_add_left_eq)
  also have "\<dots> = 0"
    using assms by (simp add: less_imp_le)
  finally show ?thesis .
qed (use assms in \<open>simp add: padData_def Let_def\<close>)

lemma padData_prefix: "\<exists>t. padData fill sc p = p @ t"
  by (simp add: padData_def Let_def)

text \<open>On a connection that accepts everything, exactly the padded data is sent.\<close>

lemma ShapedConn_Write_unlimited:
  assumes "nc_budget c = None" "0 < sp_MinPacketSize (sc_profile sc)"
    and "length (padData fill sc p) \<le> fuel"
  shows "\<exists>sc' c'. ShapedConn_Write fuel rnd fill sc p c =
      Some (if length (padData fill sc p) > sp_MaxPacketSize (sc_profile sc)
            then length (padData fill sc p) else length p, False, sc', c') \<and>
    nc_sent c' = nc_sent c @ padData fill sc p"
proof (cases "length (padData fill sc p) > sp_MaxPacketSize (sc_profile sc)")
  case True
  let ?r = "writeChunked fuel rnd sc (padData fill sc p) c"
  obtain n err sc' c' where r: "?r = Some (n, err, sc', c')"
    using shaped.loop_total [where s = sc and rnd = rnd, OF assms(2,3), of 0 c]
    unfolding writeChunked_def by auto
  have "\<not> err"
    using chunk_loop_unlimited_no_error [OF assms(1) r [unfolded writeChunked_def]] .
  then have "n = length (padData fill sc p)" "nc_sent c' = nc_sent c @ padData fill sc p"
    using shaped.loop_relays [of 0 c "padData fill sc p" fuel rnd sc] r
    by (simp_all add: writeChunked_def relays_def sends_def)
  with True r \<open>\<not> err\<close> show ?thesis
    by (simp add: ShapedConn_Write_def Let_def)
next
  case False
  have "length p \<le> length (padData fill sc p)"
    using padData_prefix [of fill sc p] by auto
  with False show ?thesis
    using assms(1) by (simp add: ShapedConn_Write_def Let_def conn_write_unlimited nc_sent_def)
qed

text \<open>
  a shaped connection corrupts the stream: on a connection that accepts everything, with
  the default profile, a write whose length is not a multiple of 64 delivers the data followed
  by 1 to 63 bytes of fill that no reader removes; when the padded data exceeds one packet, the
  call even reports more bytes than it was given.
\<close>

theorem shaped_write_inserts_padding:
  assumes "nc_budget c = None" "sc_profile sc = DefaultBrowsingProfile" "length p mod 64 \<noteq> 0"
    and "length p + 64 \<le> fuel"
  shows "\<exists>n sc' c' pad. ShapedConn_Write fuel rnd fill sc p c = Some (n, False, sc', c') \<and>
           nc_sent c' = nc_sent c @ p @ pad \<and> pad \<noteq> [] \<and> length pad = 64 - length p mod 64 \<and>
           (length p + length pad > 1460 \<longrightarrow> n > length p)"
proof -
  let ?pad = "map fill [0..<64 - length p mod 64]"
  have pd: "padData fill sc p = p @ ?pad"
    using assms(2,3) by (simp add: padData_def DefaultBrowsingProfile_def)
  have l: "length (padData fill sc p) \<le> fuel"
    using assms(4) unfolding pd by simp
  have ne: "?pad \<noteq> []"
    by simp
  obtain sc' c' where w: "ShapedConn_Write fuel rnd fill sc p c =
      Some (if length (padData fill sc p) > 1460 then length (padData fill sc p) else length p, False, sc', c')"
      "nc_sent c' = nc_sent c @ p @ ?pad"
    using ShapedConn_Write_unlimited [OF assms(1) _ l, of rnd] assms(2) pd
    by (auto simp: DefaultBrowsingProfile_def)
  moreover have "length p + length ?pad > 1460 \<longrightarrow>
      (if length (padData fill sc p) > 1460 then length (padData fill sc p) else length p) > length p"
    using ne unfolding pd by (simp add: less_diff_conv2 del: length_map length_upt)
  ultimately show ?thesis
    using ne by (intro exI conjI) (assumption | simp)+
qed

theorem shaped_write_inserts_padding_witness:
  "\<exists>n sc' c' pad. ShapedConn_Write 100 (\<lambda>i. i) (\<lambda>i. 7)
       \<lparr>sc_profile = DefaultBrowsingProfile, sc_packets = 0, sc_rng = 0, sc_more = False\<rparr> [1, 2, 3]
       \<lparr>nc_writes = [], nc_budget = None\<rparr> = Some (n, False, sc', c') \<and>
     nc_sent c' = [1, 2, 3] @ pad \<and> pad \<noteq> [] \<and> length pad = 61"
  using shaped_write_inserts_padding [of "\<lparr>nc_writes = [], nc_budget = None\<rparr>"
      "\<lparr>sc_profile = DefaultBrowsingProfile, sc_packets = 0, sc_rng = 0, sc_more = False\<rparr>"
      "[1, 2, 3]" 100 "\<lambda>i. i" "\<lambda>i. 7"]
  by (auto simp: nc_sent_def)

end
