(* ===== verification/Tls_Hello.thy ===== *)
theory Tls_Hello
  imports Prelude
begin

text \<open>
  The ClientHello as both sides of the program see it: a record with the fields of RFC 8446 and
  its encoding. The SNI spoofer and the REALITY server parse this layout by hand; their
  correctness is stated against this encoding.
\<close>

record client_hello =
  ch_version :: bytes
  ch_random :: bytes
  ch_session :: bytes
  ch_ciphers :: bytes
  ch_comp :: bytes
  ch_exts :: "(nat \<times> bytes) list"

definition enc_ext :: "nat \<times> bytes \<Rightarrow> bytes" where
  "enc_ext e = len16 (fst e) @ len16 (length (snd e)) @ snd e"

definition enc_exts :: "(nat \<times> bytes) list \<Rightarrow> bytes" where
  "enc_exts es = concat (map enc_ext es)"

text \<open>Everything up to the extensions, without the record and handshake headers.\<close>

definition ch_prefix :: "client_hello \<Rightarrow> bytes" where
  "ch_prefix h =
     ch_version h @ ch_random h @ [byte_of (length (ch_session h))] @ ch_session h @
     len16 (length (ch_ciphers h)) @ ch_ciphers h @ [byte_of (length (ch_comp h))] @ ch_comp h"

definition enc_hello :: "client_hello \<Rightarrow> bytes" where
  "enc_hello h = ch_prefix h @ len16 (length (enc_exts (ch_exts h))) @ enc_exts (ch_exts h)"

definition handshake_msg :: "client_hello \<Rightarrow> bytes" where
  "handshake_msg h =
     [0x01, byte_of (drop_bit 16 (length (enc_hello h)))] @ len16 (length (enc_hello h)) @ enc_hello h"

definition wrapTLSHandshakeRecord :: "bytes \<Rightarrow> bytes" where
  "wrapTLSHandshakeRecord handshake = [0x16, 0x03, 0x01] @ len16 (length handshake) @ handshake"

definition hello_record :: "client_hello \<Rightarrow> bytes" where
  "hello_record h = wrapTLSHandshakeRecord (handshake_msg h)"

text \<open>The field sizes the format can express.\<close>

definition hello_ok :: "client_hello \<Rightarrow> bool" where
  "hello_ok h \<longleftrightarrow>
     length (ch_version h) = 2 \<and> length (ch_random h) = 32 \<and> length (ch_session h) < 256 \<and>
     length (ch_ciphers h) < 65536 \<and> length (ch_comp h) < 256 \<and>
     list_all (\<lambda>(t, d). t < 65536 \<and> length d < 65536) (ch_exts h) \<and>
     length (enc_exts (ch_exts h)) < 65536 \<and> length (handshake_msg h) < 65536"

lemma length_enc_ext [simp]: "length (enc_ext (t, d)) = 4 + length d"
  by (simp add: enc_ext_def)

lemma enc_exts_simps [simp]:
  "enc_exts [] = []" "enc_exts (e # es) = enc_ext e @ enc_exts es"
  "enc_exts (es @ es') = enc_exts es @ enc_exts es'"
  by (simp_all add: enc_exts_def)

lemma length_handshake_msg: "length (handshake_msg h) = 4 + length (enc_hello h)"
  by (simp add: handshake_msg_def)

lemma length_ch_prefix:
  "hello_ok h \<Longrightarrow> length (ch_prefix h) =
     38 + length (ch_session h) + length (ch_ciphers h) + length (ch_comp h)"
  by (simp add: ch_prefix_def hello_ok_def)

text \<open>
  Where the length fields are found, with \<open>r\<close> bytes of headers in front: the positions both
  parsers compute one after the other.
\<close>

definition ext_start :: "client_hello \<Rightarrow> nat" where
  "ext_start h = 40 + length (ch_session h) + length (ch_ciphers h) + length (ch_comp h)"

lemma hello_walk:
  assumes "hello_ok h" "length R = r"
  defines "d \<equiv> R @ enc_hello h"
  shows "byte_at d (r + 34) = (Inr (byte_of (length (ch_session h))) :: 'e go_err + byte)"
    and "u16_at d (r + 35 + length (ch_session h)) = (Inr (length (ch_ciphers h)) :: 'e go_err + nat)"
    and "byte_at d (r + 37 + length (ch_session h) + length (ch_ciphers h)) =
           (Inr (byte_of (length (ch_comp h))) :: 'e go_err + byte)"
    and "u16_at d (r + 38 + length (ch_session h) + length (ch_ciphers h) + length (ch_comp h)) =
           (Inr (length (enc_exts (ch_exts h))) :: 'e go_err + nat)"
    and "length d = r + ext_start h + length (enc_exts (ch_exts h))"
    and "drop (r + ext_start h) d = enc_exts (ch_exts h)"
proof -
  let ?v = "R @ ch_version h @ ch_random h"
  let ?s = "byte_of (length (ch_session h)) # ch_session h"
  let ?c = "len16 (length (ch_ciphers h)) @ ch_ciphers h"
  let ?m = "byte_of (length (ch_comp h)) # ch_comp h"
  let ?x = "len16 (length (enc_exts (ch_exts h))) @ enc_exts (ch_exts h)"
  note d = assms(3) enc_hello_def ch_prefix_def
  note ok = assms(1) [unfolded hello_ok_def]
  have "d = ?v @ byte_of (length (ch_session h)) # (ch_session h @ ?c @ ?m @ ?x)"
    by (simp add: d)
  moreover have "length ?v = r + 34" using ok assms(2) by simp
  ultimately show "byte_at d (r + 34) = (Inr (byte_of (length (ch_session h))) :: 'e go_err + byte)"
    by (metis byte_at_app)
  have "d = (?v @ ?s) @ len16 (length (ch_ciphers h)) @ (ch_ciphers h @ ?m @ ?x)"
    by (simp add: d)
  moreover have "length (?v @ ?s) = r + 35 + length (ch_session h)" using ok assms(2) by simp
  ultimately show "u16_at d (r + 35 + length (ch_session h)) = (Inr (length (ch_ciphers h)) :: 'e go_err + nat)"
    using ok by (metis u16_at_app)
  have "d = (?v @ ?s @ ?c) @ byte_of (length (ch_comp h)) # (ch_comp h @ ?x)"
    by (simp add: d)
  moreover have "length (?v @ ?s @ ?c) = r + 37 + length (ch_session h) + length (ch_ciphers h)"
    using ok assms(2) by simp
  ultimately show "byte_at d (r + 37 + length (ch_session h) + length (ch_ciphers h)) =
      (Inr (byte_of (length (ch_comp h))) :: 'e go_err + byte)"
    by (metis byte_at_app)
  have "d = (?v @ ?s @ ?c @ ?m) @ len16 (length (enc_exts (ch_exts h))) @ enc_exts (ch_exts h)"
    by (simp add: d)
  moreover have "length (?v @ ?s @ ?c @ ?m) =
      r + 38 + length (ch_session h) + length (ch_ciphers h) + length (ch_comp h)"
    using ok assms(2) by simp
  ultimately show "u16_at d (r + 38 + length (ch_session h) + length (ch_ciphers h) + length (ch_comp h)) =
      (Inr (length (enc_exts (ch_exts h))) :: 'e go_err + nat)"
    using ok by (metis u16_at_app)
  have dx: "d = (?v @ ?s @ ?c @ ?m @ len16 (length (enc_exts (ch_exts h)))) @ enc_exts (ch_exts h)"
    by (simp add: d)
  have lx: "length (?v @ ?s @ ?c @ ?m @ len16 (length (enc_exts (ch_exts h)))) = r + ext_start h"
    using ok assms(2) by (simp add: ext_start_def)
  show "length d = r + ext_start h + length (enc_exts (ch_exts h))"
    unfolding dx using lx by simp
  show "drop (r + ext_start h) d = enc_exts (ch_exts h)"
    using dx lx by (metis append_eq_conv_conj)
qed

end
