(* ===== verification/Sni_Spoof.thy ===== *)
theory Sni_Spoof
  imports Tls_Hello Conn_Writer
begin

text \<open>
  internal/antidpi/sni_spoof.go: finding the server-name extension in a ClientHello, replacing
  the host name in place, and the connection wrapper that sends the first record split, replaced
  or doubled. Reads are bounds-checked; a Go panic would be the result \<open>OutOfRange\<close>.
\<close>

subsection \<open>Parsing\<close>

definition isTLSClientHello :: "bytes \<Rightarrow> bool" where
  "isTLSClientHello d \<longleftrightarrow> 6 \<le> length d \<and> d ! 0 = 0x16 \<and> d ! 1 = 0x03 \<and> d ! 5 = 0x01"

text \<open>\<open>Inl (Err ())\<close> is the result -1: no SNI extension.\<close>

function findExt :: "bytes \<Rightarrow> nat \<Rightarrow> nat \<Rightarrow> unit go_err + nat" where
  "findExt d extEnd offset =
     (if offset + 4 < extEnd \<and> offset + 4 < length d then
        andThen (u16_at d offset) (\<lambda>extType.
        andThen (u16_at d (offset + 2)) (\<lambda>extDataLen.
          if extType = 0x0000 then Inr offset
          else findExt d extEnd (offset + (4 + extDataLen))))
      else Inl (Err ()))"
  by pat_completeness auto
termination
  by (relation "measure (\<lambda>(d, extEnd, offset). length d - offset)") auto

declare findExt.simps [simp del]

definition findSNIOffset :: "bytes \<Rightarrow> unit go_err + nat" where
  "findSNIOffset d =
     (if length d < 43 then Inl (Err ())
      else
        let offset1 = 9 + 34 in
        if offset1 \<ge> length d then Inl (Err ())
        else andThen (byte_at d offset1) (\<lambda>sessionIDLen.
          let offset2 = offset1 + (1 + unat sessionIDLen) in
          if offset2 + 2 \<ge> length d then Inl (Err ())
          else andThen (u16_at d offset2) (\<lambda>cipherLen.
            let offset3 = offset2 + (2 + cipherLen) in
            if offset3 \<ge> length d then Inl (Err ())
            else andThen (byte_at d offset3) (\<lambda>compLen.
              let offset4 = offset3 + (1 + unat compLen) in
              if offset4 + 2 \<ge> length d then Inl (Err ())
              else andThen (u16_at d offset4) (\<lambda>extLen.
                let offset5 = offset4 + 2; extEnd = offset5 + extLen in
                findExt d extEnd offset5)))))"

text \<open>\<open>copy(d[pos:], xs)\<close> into a copy of \<open>d\<close>.\<close>

definition copy_into :: "bytes \<Rightarrow> nat \<Rightarrow> bytes \<Rightarrow> bytes" where
  "copy_into d pos xs = take pos d @ take (length d - pos) xs @ drop (pos + length xs) d"

definition fit_host :: "bytes \<Rightarrow> nat \<Rightarrow> bytes" where
  "fit_host newSNI hostLen =
     (if length newSNI < hostLen then newSNI @ replicate (hostLen - length newSNI) 0x2e
      else take hostLen newSNI)"

definition replaceSNI :: "bytes \<Rightarrow> bytes \<Rightarrow> unit go_err + bytes" where
  "replaceSNI d newSNI =
     (case findSNIOffset d of
        Inl OutOfRange \<Rightarrow> Inl OutOfRange
      | Inl (Err _) \<Rightarrow> Inr d
      | Inr sniOffset \<Rightarrow>
          let pos1 = sniOffset + 4 in
          if pos1 + 2 \<ge> length d then Inr d
          else let pos2 = pos1 + 2 in
          if pos2 \<ge> length d then Inr d
          else let pos3 = pos2 + 1 in
          if pos3 + 2 \<ge> length d then Inr d
          else andThen (u16_at d pos3) (\<lambda>hostLen.
            let pos = pos3 + 2 in
            if pos + hostLen > length d then Inr d
            else if length newSNI = hostLen then Inr (copy_into d pos newSNI)
            else Inr (copy_into d pos (fit_host newSNI hostLen))))"

subsection \<open>No read outside the record\<close>

lemma findExt_safe: "findExt d extEnd offset \<noteq> Inl OutOfRange"
proof (induction d extEnd offset rule: findExt.induct)
  case (1 d extEnd offset)
  show ?case
  proof (cases "offset + 4 < extEnd \<and> offset + 4 < length d")
    case True
    then show ?thesis
      using 1 [OF True] by (subst findExt.simps) auto
  next
    case False
    then show ?thesis by (subst findExt.simps) auto
  qed
qed

lemma findExt_found:
  "findExt d extEnd offset = Inr i \<Longrightarrow>
     offset \<le> i \<and> i + 4 < length d \<and> i + 4 < extEnd \<and> d ! i = 0 \<and> d ! (i + 1) = 0"
proof (induction d extEnd offset rule: findExt.induct)
  case (1 d extEnd offset)
  from "1.prems" have lim: "offset + 4 < extEnd \<and> offset + 4 < length d"
    by (subst (asm) findExt.simps) (auto split: if_splits)
  show ?case
  proof (cases "int16 (d ! offset) (d ! (offset + 1)) = 0")
    case True
    then have "unat (d ! offset) = 0" "unat (d ! (offset + 1)) = 0"
      by (simp_all add: int16_eq)
    then have "d ! offset = 0" "d ! (offset + 1) = 0"
      by (simp_all add: unat_eq_zero)
    with True lim "1.prems" show ?thesis
      by (subst (asm) findExt.simps) auto
  next
    case False
    then show ?thesis
      using "1.prems" lim "1.IH" [OF lim]
      by (subst (asm) findExt.simps) force
  qed
qed

lemma findSNIOffset_safe: "findSNIOffset d \<noteq> Inl OutOfRange"
  by (auto simp: findSNIOffset_def Let_def findExt_safe)

lemma findSNIOffset_found:
  "findSNIOffset d = Inr i \<Longrightarrow> 43 \<le> i \<and> i + 4 < length d \<and> d ! i = 0 \<and> d ! (i + 1) = 0"
  by (auto simp: findSNIOffset_def Let_def split: if_splits dest!: findExt_found)

subsection \<open>Finding the extension of a well-formed ClientHello\<close>

lemma findExt_step:
  assumes "d = P @ enc_ext (t, x) @ rest" "length P = offset" "t < 65536" "length x < 65536"
    and "offset + 4 < extEnd" "offset + 4 < length d"
  shows "findExt d extEnd offset =
           (if t = 0 then Inr offset else findExt d extEnd (offset + (4 + length x)))"
proof -
  have "u16_at d offset = Inr t"
    using u16_at_app [OF assms(2,3)] assms(1) by (simp add: enc_ext_def)
  moreover have "d = (P @ len16 t) @ len16 (length x) @ (x @ rest)" "length (P @ len16 t) = offset + 2"
    using assms(1,2) by (simp_all add: enc_ext_def)
  then have "u16_at d (offset + 2) = Inr (length x)"
    using u16_at_app assms(4) by metis
  ultimately show ?thesis
    using assms(5,6) by (subst findExt.simps) (simp add: numeral_eq_Suc)
qed

lemma findExt_encoded:
  "d = P @ enc_exts pre @ enc_ext (0, sni) @ rest \<Longrightarrow> length P = offset \<Longrightarrow>
   list_all (\<lambda>(t, x). t \<noteq> 0 \<and> t < 65536 \<and> length x < 65536) pre \<Longrightarrow>
   0 < length sni \<Longrightarrow> length sni < 65536 \<Longrightarrow>
   offset + length (enc_exts pre) + 4 < extEnd \<Longrightarrow>
   findExt d extEnd offset = Inr (offset + length (enc_exts pre))"
proof (induction pre arbitrary: P offset)
  case Nil
  then show ?case
    using findExt_step [of d P 0 sni rest offset extEnd] by simp
next
  case (Cons e pre)
  obtain t x where e: "e = (t, x)" by fastforce
  have d1: "d = P @ enc_ext (t, x) @ (enc_exts pre @ enc_ext (0, sni) @ rest)"
    using Cons.prems(1) e by simp
  have d2: "d = (P @ enc_ext (t, x)) @ enc_exts pre @ enc_ext (0, sni) @ rest"
    using d1 by simp
  have "findExt d extEnd offset = findExt d extEnd (offset + (4 + length x))"
    using findExt_step [OF d1 Cons.prems(2), of extEnd] Cons.prems(3,5,6) e d1 Cons.prems(2) by simp
  also have "\<dots> = Inr (offset + (4 + length x) + length (enc_exts pre))"
    using Cons.prems(2-6) e by (intro Cons.IH [OF d2]) simp_all
  finally show ?case using e by simp
qed

lemma hello_record_split:
  "\<exists>R. length R = 9 \<and> hello_record h = R @ enc_hello h"
  by (rule exI [of _ "[0x16, 0x03, 0x01] @ len16 (length (handshake_msg h)) @
        [0x01, byte_of (drop_bit 16 (length (enc_hello h)))] @ len16 (length (enc_hello h))"])
    (simp add: hello_record_def wrapTLSHandshakeRecord_def handshake_msg_def)

lemma findSNIOffset_hello:
  assumes ok: "hello_ok h" and ex: "ch_exts h = pre @ (0, sni) # post"
    and pre: "\<forall>(t, x) \<in> set pre. t \<noteq> 0" and sni: "0 < length sni"
  shows "findSNIOffset (hello_record h) = Inr (9 + ext_start h + length (enc_exts pre))"
proof -
  obtain R where R: "length R = 9" "hello_record h = R @ enc_hello h"
    using hello_record_split by blast
  note walk = hello_walk [OF ok R(1), folded R(2)]
  have exts: "enc_exts (ch_exts h) = enc_exts pre @ enc_ext (0, sni) @ enc_exts post"
    by (simp add: ex)
  then have el: "4 + length sni + length (enc_exts pre) \<le> length (enc_exts (ch_exts h))"
    by simp
  have x: "hello_record h = take (9 + ext_start h) (hello_record h) @ enc_exts pre @ enc_ext (0, sni) @ enc_exts post"
    using walk(6) exts by (metis append_take_drop_id)
  have "findExt (hello_record h) (9 + ext_start h + length (enc_exts (ch_exts h))) (9 + ext_start h) =
      Inr (9 + ext_start h + length (enc_exts pre))"
    using ok pre sni el walk(5)
    by (intro findExt_encoded [OF x]) (auto simp: hello_ok_def ex list_all_iff)
  moreover have "enc_exts (ch_exts h) \<noteq> []"
    by (simp add: exts enc_ext_def len16_def)
  ultimately show ?thesis
    using walk(1-5) el sni ok
    by (simp add: findSNIOffset_def Let_def ext_start_def hello_ok_def add_ac)
qed

subsection \<open>Replacing the host name\<close>

definition sni_ext :: "bytes \<Rightarrow> nat \<times> bytes" where
  "sni_ext host = (0, len16 (length host + 3) @ [0x00] @ len16 (length host) @ host)"

definition with_sni :: "client_hello \<Rightarrow> (nat \<times> bytes) list \<Rightarrow> bytes \<Rightarrow> (nat \<times> bytes) list \<Rightarrow> client_hello" where
  "with_sni h pre host post = h\<lparr>ch_exts := pre @ sni_ext host # post\<rparr>"

text \<open>Two such records differ only in the host bytes when the hosts have the same length.\<close>

definition sni_front :: "client_hello \<Rightarrow> (nat \<times> bytes) list \<Rightarrow> nat \<Rightarrow> (nat \<times> bytes) list \<Rightarrow> bytes" where
  "sni_front h pre n post =
     (let e = length (enc_exts pre) + (9 + n) + length (enc_exts post);
          b = length (ch_prefix h) + 2 + e in
      [0x16, 0x03, 0x01] @ len16 (4 + b) @ [0x01, byte_of (drop_bit 16 b)] @ len16 b @
      ch_prefix h @ len16 e @ enc_exts pre @ len16 0 @ len16 (5 + n) @ len16 (n + 3) @ [0x00] @ len16 n)"

lemma hello_record_with_sni:
  "hello_record (with_sni h pre host post) = sni_front h pre (length host) post @ host @ enc_exts post"
proof -
  have p: "ch_prefix (with_sni h pre host post) = ch_prefix h"
    by (simp add: ch_prefix_def with_sni_def)
  have e: "enc_exts (ch_exts (with_sni h pre host post)) =
      enc_exts pre @ len16 0 @ len16 (5 + length host) @ len16 (length host + 3) @ [0x00] @
      len16 (length host) @ host @ enc_exts post"
    by (simp add: with_sni_def sni_ext_def enc_ext_def eval_nat_numeral)
  show ?thesis
    by (simp add: hello_record_def wrapTLSHandshakeRecord_def handshake_msg_def enc_hello_def p e
        sni_front_def Let_def add_ac eval_nat_numeral)
qed

lemma length_sni_front:
  "hello_ok h' \<Longrightarrow> h' = with_sni h pre host post \<Longrightarrow>
     length (sni_front h pre (length host) post) = 9 + ext_start h' + length (enc_exts pre) + 9"
  by (simp add: sni_front_def Let_def ext_start_def with_sni_def ch_prefix_def hello_ok_def)

lemma copy_into_app: "length xs = i \<Longrightarrow> length ys = length zs \<Longrightarrow> copy_into (xs @ ys @ r) i zs = xs @ zs @ r"
  by (auto simp: copy_into_def)

lemma length_fit_host [simp]: "length (fit_host new n) = n"
  by (simp add: fit_host_def)

lemma fit_host_same: "length new = n \<Longrightarrow> fit_host new n = new"
  by (simp add: fit_host_def)

lemma replaceSNI_hello:
  assumes ok: "hello_ok h'" and h': "h' = with_sni h pre host post"
    and pre: "\<forall>(t, x) \<in> set pre. t \<noteq> 0" and host: "0 < length host"
  shows "replaceSNI (hello_record h') new = Inr (hello_record (with_sni h pre (fit_host new (length host)) post))"
proof -
  let ?d = "hello_record h'" and ?o = "9 + ext_start h' + length (enc_exts pre)"
  let ?F = "sni_front h pre (length host) post"
  have exts: "ch_exts h' = pre @ (0, snd (sni_ext host)) # post" "0 < length (snd (sni_ext host))"
    by (simp_all add: h' with_sni_def sni_ext_def)
  have off: "findSNIOffset ?d = Inr ?o"
    by (rule findSNIOffset_hello [OF ok exts(1) pre exts(2)])
  have d: "?d = ?F @ host @ enc_exts post"
    unfolding h' by (rule hello_record_with_sni)
  have lF: "length ?F = ?o + 9"
    using length_sni_front [OF ok h'] by simp
  obtain G where G: "?F = G @ len16 (length host)"
    unfolding sni_front_def Let_def by (metis append.assoc)
  have hl: "length host < 65536"
    using ok by (simp add: hello_ok_def h' with_sni_def sni_ext_def)
  have "u16_at ?d (?o + 7) = Inr (length host)"
    using u16_at_app [of G "?o + 7" "length host" "host @ enc_exts post"] lF hl
    unfolding d G by simp
  moreover have "copy_into ?d (?o + 9) zs = hello_record (with_sni h pre zs post)" if "length zs = length host" for zs
    unfolding d hello_record_with_sni using copy_into_app [OF lF] that by simp
  moreover have "length ?d = ?o + 9 + length host + length (enc_exts post)"
    unfolding d using lF by simp
  ultimately show ?thesis
    using host by (simp add: replaceSNI_def off Let_def fit_host_same add_ac)
qed

lemma replaceSNI_total: "\<exists>r. replaceSNI d new = Inr r \<and> length r = length d"
proof (cases "findSNIOffset d")
  case (Inl e)
  then show ?thesis
    using findSNIOffset_safe [of d] by (cases e) (simp_all add: replaceSNI_def)
next
  case (Inr i)
  have "length (copy_into d pos xs) = length d" if "pos + length xs \<le> length d" for pos xs
    using that by (simp add: copy_into_def)
  with Inr show ?thesis
    by (simp add: replaceSNI_def Let_def)
qed

subsection \<open>The connection wrapper\<close>

datatype SpoofMethod = MethodReplace | MethodSplit | MethodTTL | MethodDouble | MethodAll

record SNISpoofing =
  ss_fakeSNI :: string
  ss_method :: SpoofMethod
  ss_splitPos :: int

text \<open>\<open>None\<close>: the method was not configured.\<close>

definition NewSNISpoofing :: "string \<Rightarrow> SpoofMethod option \<Rightarrow> int \<Rightarrow> SNISpoofing" where
  "NewSNISpoofing fakeSNI method splitPos =
     \<lparr>ss_fakeSNI = (if fakeSNI = [] then ''www.google.com'' else fakeSNI),
      ss_method = (case method of None \<Rightarrow> MethodSplit | Some m \<Rightarrow> m),
      ss_splitPos = splitPos\<rparr>"

text \<open>The state of the wrapper is its \<open>firstWrite\<close> flag; a panic has no result.\<close>

definition writeSplit :: "SNISpoofing \<Rightarrow> bool writer" where
  "writeSplit sp fw p c =
     (case findSNIOffset p of
        Inl OutOfRange \<Rightarrow> None
      | Inl (Err _) \<Rightarrow> (case conn_write p c of (n, err, c') \<Rightarrow> Some (n, err, fw, c'))
      | Inr sniOffset \<Rightarrow>
          if sniOffset = 0 then (case conn_write p c of (n, err, c') \<Rightarrow> Some (n, err, fw, c'))
          else
            let splitAt = (if ss_splitPos sp > 0 \<and> ss_splitPos sp < int (length p)
                           then nat (ss_splitPos sp) else sniOffset) in
            case conn_write (take splitAt p) c of
              (n1, err1, c1) \<Rightarrow>
                if err1 then Some (0, True, fw, c1)
                else case conn_write (drop splitAt p) c1 of
                  (n2, err2, c2) \<Rightarrow>
                    if err2 then Some (splitAt, True, fw, c2)
                    else Some (length p, False, fw, c2))"

definition writeReplace :: "SNISpoofing \<Rightarrow> bool writer" where
  "writeReplace sp fw p c =
     (case replaceSNI p (bytes_of (ss_fakeSNI sp)) of
        Inl _ \<Rightarrow> None
      | Inr modified \<Rightarrow> (case conn_write modified c of (n, err, c') \<Rightarrow> Some (n, err, fw, c')))"

definition writeDouble :: "SNISpoofing \<Rightarrow> bool writer" where
  "writeDouble sp fw p c =
     (case replaceSNI p (bytes_of (ss_fakeSNI sp)) of
        Inl _ \<Rightarrow> None
      | Inr fakeHello \<Rightarrow>
          (case conn_write fakeHello c of
             (n1, err1, c1) \<Rightarrow> (case conn_write p c1 of (n, err, c') \<Rightarrow> Some (n, err, fw, c'))))"

definition sniSpoofConn_Write :: "SNISpoofing \<Rightarrow> bool writer" where
  "sniSpoofConn_Write sp firstWrite p c =
     (if \<not> firstWrite then (case conn_write p c of (n, err, c') \<Rightarrow> Some (n, err, firstWrite, c'))
      else if \<not> isTLSClientHello p then (case conn_write p c of (n, err, c') \<Rightarrow> Some (n, err, False, c'))
      else case ss_method sp of
             MethodReplace \<Rightarrow> writeReplace sp False p c
           | MethodDouble \<Rightarrow> writeDouble sp False p c
           | _ \<Rightarrow> writeSplit sp False p c)"

lemma writeSplit_sends: "writeSplit sp fw p c = Some (n, err, fw', c') \<Longrightarrow> sends c p err c'"
  by (auto simp: writeSplit_def Let_def split: sum.splits go_err.splits prod.splits if_splits
      dest!: sends_conn_write intro: sends_error_part sends_trans)

lemma writeSplit_count: "writeSplit sp fw p c = Some (n, False, fw', c') \<Longrightarrow> n = length p"
  by (auto simp: writeSplit_def Let_def split: sum.splits go_err.splits prod.splits if_splits
      dest: conn_write_ok)

text \<open>Every method that splits keeps the stream; \<open>replace\<close> and \<open>double\<close> change it on purpose.\<close>

interpretation sni_split: stream_writer "sniSpoofConn_Write (NewSNISpoofing fake None splitPos)"
  for fake splitPos
  by (rule stream_writerI)
    (auto simp: sniSpoofConn_Write_def NewSNISpoofing_def sends_conn_write split: if_splits prod.splits
      dest: writeSplit_sends writeSplit_count conn_write_ok)

text \<open>
  on a well-formed ClientHello the spoofer finds exactly the server-name extension: by
  default the record leaves in two writes, the first ending right before that extension, and
  together they are the record.
\<close>

theorem client_hello_split_before_sni:
  assumes "hello_ok (with_sni h pre host post)" "\<forall>(t, x) \<in> set pre. t \<noteq> 0" "0 < length host"
    and "nc_budget c = None"
  shows "\<exists>a b. sniSpoofConn_Write (NewSNISpoofing fake None 0) True (hello_record (with_sni h pre host post)) c =
      Some (length (hello_record (with_sni h pre host post)), False, False, c\<lparr>nc_writes := nc_writes c @ [a, b]\<rparr>) \<and>
    a @ b = hello_record (with_sni h pre host post) \<and>
    b = enc_ext (sni_ext host) @ enc_exts post"
proof -
  let ?h = "with_sni h pre host post"
  let ?d = "hello_record ?h" and ?o = "9 + ext_start ?h + length (enc_exts pre)"
  have exts: "ch_exts ?h = pre @ (0, snd (sni_ext host)) # post" "0 < length (snd (sni_ext host))"
    by (simp_all add: with_sni_def sni_ext_def)
  have off: "findSNIOffset ?d = Inr ?o"
    by (rule findSNIOffset_hello [OF assms(1) exts(1) assms(2) exts(2)])
  obtain R where R: "length R = 9" "?d = R @ enc_hello ?h"
    using hello_record_split by blast
  have "drop (9 + ext_start ?h) ?d = enc_exts pre @ enc_ext (sni_ext host) @ enc_exts post"
    using hello_walk(6) [OF assms(1) R(1)] R(2) by (simp add: with_sni_def)
  then have dr: "drop ?o ?d = enc_ext (sni_ext host) @ enc_exts post"
    by (metis append_eq_conv_conj drop_drop add.commute)
  have "isTLSClientHello ?d"
    by (simp add: isTLSClientHello_def hello_record_def wrapTLSHandshakeRecord_def handshake_msg_def
        len16_def)
  then have "sniSpoofConn_Write (NewSNISpoofing fake None 0) True ?d c =
      Some (length ?d, False, False, c\<lparr>nc_writes := nc_writes c @ [take ?o ?d, drop ?o ?d]\<rparr>)"
    using off assms(4)
    by (simp add: sniSpoofConn_Write_def NewSNISpoofing_def writeSplit_def conn_write_unlimited Let_def)
  moreover have "take ?o ?d @ drop ?o ?d = ?d"
    by (rule append_take_drop_id)
  ultimately show ?thesis
    using dr by metis
qed

text \<open>
  C11: replacing the server name is safe on any input (no read outside the record, same length)
  and correct on a well-formed ClientHello: the result is the ClientHello whose host name is the
  fake one, cut or padded with dots to the length of the original, with every other byte
  unchanged.
\<close>

theorem replaceSNI_correct:
  "(\<exists>r. replaceSNI d new = Inr r \<and> length r = length d) \<and>
   (hello_ok (with_sni h pre host post) \<and> (\<forall>(t, x) \<in> set pre. t \<noteq> 0) \<and> 0 < length host \<longrightarrow>
      replaceSNI (hello_record (with_sni h pre host post)) new =
        Inr (hello_record (with_sni h pre
          (take (length host) (new @ replicate (length host) 0x2e)) post)))"
proof -
  have "fit_host new (length host) = take (length host) (new @ replicate (length host) 0x2e)"
    by (simp add: fit_host_def)
  then show ?thesis
    using replaceSNI_total replaceSNI_hello by metis
qed

definition sample_hello :: client_hello where
  "sample_hello = \<lparr>ch_version = [3, 3], ch_random = replicate 32 7, ch_session = [], ch_ciphers = [0x13, 0x01],
     ch_comp = [0], ch_exts = []\<rparr>"

lemma sample_hello_ok: "hello_ok (with_sni sample_hello [(43, [2, 3, 4])] (bytes_of ''a.io'') [])"
  by (simp add: hello_ok_def sample_hello_def with_sni_def sni_ext_def handshake_msg_def enc_hello_def
      ch_prefix_def)

theorem client_hello_split_before_sni_witness:
  "\<exists>a b. sniSpoofConn_Write (NewSNISpoofing [] None 0) True
        (hello_record (with_sni sample_hello [(43, [2, 3, 4])] (bytes_of ''a.io'') []))
        \<lparr>nc_writes = [], nc_budget = None\<rparr> =
      Some (length (hello_record (with_sni sample_hello [(43, [2, 3, 4])] (bytes_of ''a.io'') [])), False, False,
        \<lparr>nc_writes = [a, b], nc_budget = None\<rparr>) \<and>
    a @ b = hello_record (with_sni sample_hello [(43, [2, 3, 4])] (bytes_of ''a.io'') []) \<and>
    b = enc_ext (sni_ext (bytes_of ''a.io''))"
  using client_hello_split_before_sni [OF sample_hello_ok, of "\<lparr>nc_writes = [], nc_budget = None\<rparr>" "[]"]
  by simp

theorem replaceSNI_correct_witness:
  "replaceSNI (hello_record (with_sni sample_hello [(43, [2, 3, 4])] (bytes_of ''a.io'') [])) (bytes_of ''b'') =
     Inr (hello_record (with_sni sample_hello [(43, [2, 3, 4])] (bytes_of ''b...'') []))"
proof -
  have "take (length (bytes_of ''a.io'')) (bytes_of ''b'' @ replicate (length (bytes_of ''a.io'')) 0x2e) =
      bytes_of ''b...''"
    by (simp add: bytes_of_def byte_of_def)
  then show ?thesis
    using replaceSNI_correct [of "[]" "bytes_of ''b''" sample_hello "[(43, [2, 3, 4])]" "bytes_of ''a.io''" "[]"]
      sample_hello_ok
    by simp
qed

end
