(* ===== verification/Reality_Hello.thy ===== *)
theory Reality_Hello
  imports Tls_Hello Go_Strings
begin

text \<open>
  internal/antidpi/reality_hello.go: extraction of the session ID and the X25519 key share from
  a ClientHello record, and the short-ID helpers. Reads are bounds-checked.
\<close>

definition AuthTokenSize :: nat where "AuthTokenSize = 32"

datatype hello_error =
    RecordTooShort | NotHandshake | IncompleteRecord | NotClientHello | HelloTruncated
  | SessionTruncated | CiphersTruncated | CompressionTruncated | NoExtensions | ExtensionsTruncated
  | KeyShareTooShort | NoX25519 | BadSessionLength nat | MissingKeyShare

subsection \<open>Key share\<close>

function keyShareLoop :: "bytes \<Rightarrow> nat \<Rightarrow> hello_error go_err + bytes" where
  "keyShareLoop extData pos =
     (if pos + 4 \<le> length extData then
        andThen (u16_at extData pos) (\<lambda>group.
        andThen (u16_at extData (pos + 2)) (\<lambda>keyLen.
          let pos1 = pos + 4 in
          if pos1 + keyLen > length extData then Inl (Err NoX25519)
          else andThen (slice_at extData pos1 (pos1 + keyLen)) (\<lambda>key.
            if group = 0x001d \<and> length key = 32 then Inr key
            else keyShareLoop extData (pos1 + keyLen))))
      else Inl (Err NoX25519))"
  by pat_completeness auto
termination
  by (relation "measure (\<lambda>(d, pos). length d - pos)") auto

declare keyShareLoop.simps [simp del]

definition parseKeyShareX25519 :: "bytes \<Rightarrow> hello_error go_err + bytes" where
  "parseKeyShareX25519 extData =
     (if length extData < 2 then Inl (Err KeyShareTooShort) else keyShareLoop extData 2)"

subsection \<open>ClientHello\<close>

text \<open>The loop over the extensions; \<open>eph\<close> is the key found so far (empty: none).\<close>

function extLoop :: "bytes \<Rightarrow> nat \<Rightarrow> nat \<Rightarrow> bytes \<Rightarrow> hello_error go_err + bytes" where
  "extLoop payload extEnd pos eph =
     (if pos + 4 \<le> extEnd then
        andThen (u16_at payload pos) (\<lambda>extType.
        andThen (u16_at payload (pos + 2)) (\<lambda>extLen.
          let pos1 = pos + 4 in
          if pos1 + extLen > extEnd then Inr eph
          else andThen (slice_at payload pos1 (pos1 + extLen)) (\<lambda>extData.
            if extType = 0x0033 then
              (case parseKeyShareX25519 extData of
                 Inr key \<Rightarrow> extLoop payload extEnd (pos1 + extLen) key
               | Inl OutOfRange \<Rightarrow> Inl OutOfRange
               | Inl (Err _) \<Rightarrow> extLoop payload extEnd (pos1 + extLen) eph)
            else extLoop payload extEnd (pos1 + extLen) eph)))
      else Inr eph)"
  by pat_completeness auto
termination
  by (relation "measure (\<lambda>(payload, extEnd, pos, eph). extEnd - pos)") auto

declare extLoop.simps [simp del]

text \<open>Lines 30-99, on the payload of the record.\<close>

definition parseHelloPayload :: "bytes \<Rightarrow> hello_error go_err + bytes \<times> bytes" where
  "parseHelloPayload payload =
    (if length payload < 4 then Inl (Err NotClientHello)
     else andThen (byte_at payload 0) (\<lambda>b0. if b0 \<noteq> 0x01 then Inl (Err NotClientHello)
     else let pos1 = 4 in
     if length payload < pos1 + 2 + 32 + 1 then Inl (Err HelloTruncated)
     else let pos2 = pos1 + 2 + 32 in
     andThen (byte_at payload pos2) (\<lambda>sl. let sessLen = unat sl; pos3 = pos2 + 1 in
     if length payload < pos3 + sessLen then Inl (Err SessionTruncated)
     else andThen (slice_at payload pos3 (pos3 + sessLen)) (\<lambda>sessionID. let pos4 = pos3 + sessLen in
     if length payload < pos4 + 2 then Inl (Err CiphersTruncated)
     else andThen (u16_at payload pos4) (\<lambda>cipherLen. let pos5 = pos4 + (2 + cipherLen) in
     if length payload < pos5 + 1 then Inl (Err CompressionTruncated)
     else andThen (byte_at payload pos5) (\<lambda>cl. let compLen = unat cl; pos6 = pos5 + (1 + compLen) in
     if length payload < pos6 + 2 then Inl (Err NoExtensions)
     else andThen (u16_at payload pos6) (\<lambda>extTotalLen. let pos7 = pos6 + 2; extEnd = pos7 + extTotalLen in
     if extEnd > length payload then Inl (Err ExtensionsTruncated)
     else andThen (extLoop payload extEnd pos7 []) (\<lambda>eph.
     if length sessionID \<noteq> AuthTokenSize then Inl (Err (BadSessionLength (length sessionID)))
     else if length eph \<noteq> 32 then Inl (Err MissingKeyShare)
     else Inr (sessionID, eph)))))))))"

definition parseClientHelloAuth :: "bytes \<Rightarrow> hello_error go_err + bytes \<times> bytes" where
  "parseClientHelloAuth rawData =
    (if length rawData < 5 then Inl (Err RecordTooShort)
     else andThen (byte_at rawData 0) (\<lambda>b0.
     if b0 \<noteq> 0x16 then Inl (Err NotHandshake)
     else andThen (byte_at rawData 3) (\<lambda>b3. andThen (byte_at rawData 4) (\<lambda>b4.
     let recordLen = int16 b3 b4 in
     if recordLen + 5 > length rawData then Inl (Err IncompleteRecord)
     else andThen (slice_at rawData 5 (5 + recordLen)) parseHelloPayload))))"

subsection \<open>Short IDs\<close>

definition hex_digit :: "char \<Rightarrow> nat option" where
  "hex_digit c =
     (let n = (of_char c :: nat) in
      if 48 \<le> n \<and> n \<le> 57 then Some (n - 48)
      else if 97 \<le> n \<and> n \<le> 102 then Some (n - 87)
      else if 65 \<le> n \<and> n \<le> 70 then Some (n - 55)
      else None)"

text \<open>\<open>encoding/hex.DecodeString\<close>.\<close>

fun decodeHex :: "string \<Rightarrow> bytes option" where
  "decodeHex [] = Some []"
| "decodeHex [c] = None"
| "decodeHex (a # b # s) =
     (case hex_digit a of None \<Rightarrow> None
      | Some x \<Rightarrow> (case hex_digit b of None \<Rightarrow> None
        | Some y \<Rightarrow> map_option (\<lambda>r. byte_of (16 * x + y) # r) (decodeHex s)))"

definition decodeHexFlexible :: "string \<Rightarrow> bytes option" where
  "decodeHexFlexible s = (if length s mod 2 = 1 then decodeHex (CHR ''0'' # s) else decodeHex s)"

text \<open>\<open>copy(out, b)\<close> into 8 zero bytes.\<close>

definition pad8 :: "bytes \<Rightarrow> bytes" where
  "pad8 b = take 8 b @ replicate (8 - length b) 0"

definition normalizeShortIDBytes :: "string \<Rightarrow> bytes" where
  "normalizeShortIDBytes shortID =
     (case decodeHexFlexible shortID of
        Some b \<Rightarrow> if length b > 0 then pad8 (if length b > 8 then take 8 b else b)
                  else let s = bytes_of shortID in pad8 (if length s > 8 then take 8 s else s)
      | None \<Rightarrow> let s = bytes_of shortID in pad8 (if length s > 8 then take 8 s else s))"

fun bytesEqual :: "bytes \<Rightarrow> bytes \<Rightarrow> bool" where
  "bytesEqual a b =
     (if length a \<noteq> length b then False else list_all (\<lambda>i. a ! i = b ! i) [0..<length a])"

lemma bytesEqual_iff [simp]: "bytesEqual a b \<longleftrightarrow> a = b"
  by (auto simp: list_all_iff intro: nth_equalityI)

declare bytesEqual.simps [simp del]

lemma length_pad8 [simp]: "length (pad8 b) = 8"
  by (simp add: pad8_def)

lemma length_normalizeShortIDBytes [simp]: "length (normalizeShortIDBytes s) = 8"
  by (simp add: normalizeShortIDBytes_def Let_def split: option.split)

subsection \<open>No read outside the record\<close>

lemma keyShareLoop_safe: "keyShareLoop d pos \<noteq> Inl OutOfRange"
proof (induction d pos rule: keyShareLoop.induct)
  case (1 d pos)
  then show ?case
    by (subst keyShareLoop.simps) (auto simp: Let_def)
qed

lemma parseKeyShareX25519_safe: "parseKeyShareX25519 d \<noteq> Inl OutOfRange"
  by (simp add: parseKeyShareX25519_def keyShareLoop_safe)

lemma extLoop_safe: "extEnd \<le> length payload \<Longrightarrow> extLoop payload extEnd pos eph \<noteq> Inl OutOfRange"
proof (induction payload extEnd pos eph rule: extLoop.induct)
  case (1 payload extEnd pos eph)
  then show ?case
    using parseKeyShareX25519_safe
    by (subst extLoop.simps) (auto simp: Let_def split: sum.splits go_err.splits)
qed

lemma andThen_safe:
  "r \<noteq> Inl OutOfRange \<Longrightarrow> (\<And>x. r = Inr x \<Longrightarrow> f x \<noteq> Inl OutOfRange) \<Longrightarrow> andThen r f \<noteq> Inl OutOfRange"
  by (cases r) auto

lemma extLoop_andThen_safe:
  "extEnd \<le> length payload \<Longrightarrow> (\<And>x. f x \<noteq> Inl OutOfRange) \<Longrightarrow>
     andThen (extLoop payload extEnd pos eph) f \<noteq> Inl OutOfRange"
  using extLoop_safe by (intro andThen_safe) auto

lemma parseHelloPayload_safe: "parseHelloPayload payload \<noteq> Inl OutOfRange"
  unfolding parseHelloPayload_def Let_def
  by (auto intro!: andThen_safe simp: byte_at_def u16_at_def slice_at_def extLoop_andThen_safe)

lemma parseClientHelloAuth_safe: "parseClientHelloAuth d \<noteq> Inl OutOfRange"
  unfolding parseClientHelloAuth_def Let_def
  by (auto intro!: andThen_safe simp: byte_at_def slice_at_def parseHelloPayload_safe)

subsection \<open>Well-formed ClientHellos\<close>

text \<open>Key shares have the layout of extensions: group, length, key.\<close>

definition key_share_ext :: "(nat \<times> bytes) list \<Rightarrow> nat \<times> bytes" where
  "key_share_ext shares = (0x0033, len16 (length (enc_exts shares)) @ enc_exts shares)"

definition is_x25519 :: "nat \<times> bytes \<Rightarrow> bool" where
  "is_x25519 s \<longleftrightarrow> fst s = 0x001d \<and> length (snd s) = 32"

lemma is_x25519_pair [simp]: "is_x25519 (g, k) \<longleftrightarrow> g = 0x001d \<and> length k = 32"
  by (simp add: is_x25519_def)

definition exts_sized :: "(nat \<times> bytes) list \<Rightarrow> bool" where
  "exts_sized es \<longleftrightarrow> list_all (\<lambda>(t, x). t < 65536 \<and> length x < 65536) es"

lemma exts_sized_simps [simp]:
  "exts_sized []" "exts_sized ((t, x) # es) \<longleftrightarrow> t < 65536 \<and> length x < 65536 \<and> exts_sized es"
  "exts_sized (es @ es') \<longleftrightarrow> exts_sized es \<and> exts_sized es'"
  by (simp_all add: exts_sized_def)

text \<open>Reading one encoded element at the position where it starts.\<close>

lemma read_ext:
  assumes "d = P @ enc_ext (t, x) @ rest" "length P = pos" "t < 65536" "length x < 65536"
  shows "u16_at d pos = Inr t" "u16_at d (pos + 2) = Inr (length x)"
    "slice_at d (pos + 4) (pos + 4 + length x) = Inr x" "pos + 4 + length x \<le> length d"
proof -
  show "u16_at d pos = Inr t"
    using u16_at_app [OF assms(2,3)] assms(1) by (simp add: enc_ext_def)
  have "d = (P @ len16 t) @ len16 (length x) @ (x @ rest)" "length (P @ len16 t) = pos + 2"
    using assms(1,2) by (simp_all add: enc_ext_def)
  then show "u16_at d (pos + 2) = Inr (length x)"
    using u16_at_app assms(4) by metis
  have "d = (P @ len16 t @ len16 (length x)) @ x @ rest" "length (P @ len16 t @ len16 (length x)) = pos + 4"
    using assms(1,2) by (simp_all add: enc_ext_def)
  then show "slice_at d (pos + 4) (pos + 4 + length x) = Inr x"
    using slice_at_app by metis
  show "pos + 4 + length x \<le> length d"
    using assms(1,2) by simp
qed

lemma keyShareLoop_enc:
  "d = P @ enc_exts shares \<Longrightarrow> length P = pos \<Longrightarrow> exts_sized shares \<Longrightarrow>
   keyShareLoop d pos =
     (case find is_x25519 shares of Some s \<Rightarrow> Inr (snd s) | None \<Rightarrow> Inl (Err NoX25519))"
proof (induction shares arbitrary: P pos)
  case Nil
  then show ?case by (subst keyShareLoop.simps) simp
next
  case (Cons s shares)
  obtain g k where s: "s = (g, k)" by fastforce
  have d1: "d = P @ enc_ext (g, k) @ enc_exts shares" using Cons.prems(1) s by simp
  then have d2: "d = (P @ enc_ext (g, k)) @ enc_exts shares" by simp
  have sz: "g < 65536" "length k < 65536" "exts_sized shares" using Cons.prems(3) s by simp_all
  note rd = read_ext [OF d1 Cons.prems(2) sz(1,2)]
  have "keyShareLoop d pos =
      (if g = 0x001d \<and> length k = 32 then Inr k else keyShareLoop d (pos + 4 + length k))"
    using rd(4) by (subst keyShareLoop.simps)
      (simp add: rd(1-3) [simplified] Let_def not_less del: u16_at_safe slice_at_safe andThen_Inr_iff split del: if_split)
  also have "keyShareLoop d (pos + 4 + length k) =
      (case find is_x25519 shares of Some s \<Rightarrow> Inr (snd s) | None \<Rightarrow> Inl (Err NoX25519))"
    using Cons.IH [OF d2 _ sz(3)] Cons.prems(2) by (simp add: add.assoc)
  finally show ?case by (simp add: s)
qed

lemma parseKeyShare_enc:
  "exts_sized shares \<Longrightarrow> length (enc_exts shares) < 65536 \<Longrightarrow>
   parseKeyShareX25519 (snd (key_share_ext shares)) =
     (case find is_x25519 shares of Some s \<Rightarrow> Inr (snd s) | None \<Rightarrow> Inl (Err NoX25519))"
  using keyShareLoop_enc [OF refl, of "len16 (length (enc_exts shares))" 2 shares]
  by (simp add: parseKeyShareX25519_def key_share_ext_def)

definition pick_share :: "nat \<times> bytes \<Rightarrow> bytes \<Rightarrow> bytes" where
  "pick_share e eph =
     (if fst e = 0x0033 then case parseKeyShareX25519 (snd e) of Inr key \<Rightarrow> key | Inl _ \<Rightarrow> eph else eph)"

lemma extLoop_enc:
  "d = P @ enc_exts exts @ rest \<Longrightarrow> length P = pos \<Longrightarrow> exts_sized exts \<Longrightarrow>
   extEnd = pos + length (enc_exts exts) \<Longrightarrow>
   extLoop d extEnd pos eph = Inr (fold pick_share exts eph)"
proof (induction exts arbitrary: P pos eph)
  case Nil
  then show ?case by (subst extLoop.simps) simp
next
  case (Cons e exts)
  obtain t x where e: "e = (t, x)" by fastforce
  have d1: "d = P @ enc_ext (t, x) @ (enc_exts exts @ rest)" using Cons.prems(1) e by simp
  then have d2: "d = (P @ enc_ext (t, x)) @ enc_exts exts @ rest" by simp
  have sz: "t < 65536" "length x < 65536" "exts_sized exts" using Cons.prems(3) e by simp_all
  note rd = read_ext [OF d1 Cons.prems(2) sz(1,2)]
  have lim: "pos + 4 + length x \<le> extEnd" using Cons.prems(4) e by simp
  have "extLoop d extEnd pos eph = extLoop d extEnd (pos + 4 + length x) (pick_share (t, x) eph)"
    using rd(4) lim parseKeyShareX25519_safe [of x]
    by (subst extLoop.simps)
      (auto simp: pick_share_def rd(1-3) [simplified] Let_def simp del: u16_at_safe slice_at_safe
        split: sum.split go_err.split)
  also have "\<dots> = Inr (fold pick_share exts (pick_share (t, x) eph))"
    using Cons.IH [OF d2 _ sz(3)] Cons.prems(2,4) e by (simp add: add.assoc)
  finally show ?case by (simp add: e)
qed

lemma fold_pick_none: "\<forall>e \<in> set es. fst e \<noteq> 0x0033 \<Longrightarrow> fold pick_share es eph = eph"
  by (induction es arbitrary: eph) (auto simp: pick_share_def)

text \<open>The result of the parser on a well-formed hello, all cases.\<close>

definition hello_auth :: "client_hello \<Rightarrow> hello_error go_err + bytes \<times> bytes" where
  "hello_auth h =
     (let eph = fold pick_share (ch_exts h) [] in
      if length (ch_session h) \<noteq> AuthTokenSize then Inl (Err (BadSessionLength (length (ch_session h))))
      else if length eph \<noteq> 32 then Inl (Err MissingKeyShare)
      else Inr (ch_session h, eph))"

lemma parseHelloPayload_enc:
  assumes ok: "hello_ok h"
  shows "parseHelloPayload (handshake_msg h) = hello_auth h"
proof -
  let ?R = "[0x01, byte_of (drop_bit 16 (length (enc_hello h)))] @ len16 (length (enc_hello h))"
  let ?p = "handshake_msg h"
  have p: "?p = ?R @ enc_hello h" by (simp add: handshake_msg_def)
  have R: "length ?R = 4" by simp
  note walk = hello_walk [OF ok R, folded p]
  note fields = hello_walk(1-4) [where 'e = hello_error, OF ok R, folded p]
  have b0: "byte_at ?p 0 = (Inr 0x01 :: hello_error go_err + byte)"
    by (simp add: handshake_msg_def byte_at_def)
  have "?p = (?R @ ch_version h @ ch_random h @ [byte_of (length (ch_session h))]) @ ch_session h @
      (len16 (length (ch_ciphers h)) @ ch_ciphers h @ [byte_of (length (ch_comp h))] @ ch_comp h @
       len16 (length (enc_exts (ch_exts h))) @ enc_exts (ch_exts h))"
    by (simp add: p enc_hello_def ch_prefix_def)
  then have sid: "slice_at ?p 39 (39 + length (ch_session h)) = (Inr (ch_session h) :: hello_error go_err + bytes)"
    using slice_at_app [of "?R @ ch_version h @ ch_random h @ [byte_of (length (ch_session h))]" 39
        "ch_session h" "length (ch_session h)"] ok
    by (simp add: hello_ok_def)
  have px: "?p = take (4 + ext_start h) ?p @ enc_exts (ch_exts h) @ []"
    using walk(6) by (metis append_take_drop_id append_Nil2)
  have ext: "extLoop ?p (4 + ext_start h + length (enc_exts (ch_exts h))) (4 + ext_start h) [] =
      Inr (fold pick_share (ch_exts h) [])"
    using ok walk(5) by (intro extLoop_enc [OF px]) (auto simp: hello_ok_def exts_sized_def)
  show ?thesis
    using fields walk(5) sid b0 ext ok
    by (simp add: parseHelloPayload_def Let_def hello_auth_def ext_start_def hello_ok_def add_ac
        del: u16_at_safe slice_at_safe byte_at_safe andThen_Inr_iff split del: if_split)
qed

lemma parseClientHelloAuth_enc:
  assumes "hello_ok h"
  shows "parseClientHelloAuth (hello_record h) = hello_auth h"
proof -
  let ?m = "handshake_msg h"
  have n: "length ?m mod 65536 = length ?m" using assms(1) by (simp add: hello_ok_def)
  have r: "hello_record h = [0x16, 0x03, 0x01, byte_of (drop_bit 8 (length ?m)), byte_of (length ?m)] @ ?m"
    by (simp add: hello_record_def wrapTLSHandshakeRecord_def len16_def)
  have "slice_at (hello_record h) 5 (5 + length ?m) = (Inr ?m :: hello_error go_err + bytes)"
    unfolding r using slice_at_app [of _ 5 ?m "length ?m" "[]"] by simp
  then show ?thesis
    using parseHelloPayload_enc [OF assms] n
    by (simp add: parseClientHelloAuth_def r int16_len16 byte_at_def)
qed

lemma fold_pick_key:
  assumes "exts = pre @ key_share_ext shares # post" "\<forall>e \<in> set post. fst e \<noteq> 0x0033"
    and "exts_sized shares" "length (enc_exts shares) < 65536" "find is_x25519 shares = Some (g, key)"
  shows "fold pick_share exts [] = key"
proof -
  have "pick_share (key_share_ext shares) e = key" for e
    using parseKeyShare_enc [OF assms(3,4)] assms(5) by (simp add: pick_share_def key_share_ext_def)
  then show ?thesis
    using assms(1,2) by (simp add: fold_pick_none)
qed

end
