(* ===== verification/Reality_Auth.thy ===== *)
theory Reality_Auth
  imports Reality_Hello
begin

text \<open>
  internal/antidpi/reality_auth.go: the authentication token carried in the session ID, its
  verification and the replay cache. X25519 and HMAC-SHA256 are library code: \<open>pub\<close> and \<open>dh\<close>
  (public key and shared secret, \<open>None\<close> when ECDH fails) and \<open>hmac\<close> are parameters, and
  \<open>crypto_ok\<close> states what their documentation promises.
\<close>

subsection \<open>Tokens\<close>

record AuthToken =
  at_Token :: bytes
  at_ShortID :: bytes
  at_Timestamp :: "32 word"
  at_Padding :: bytes

definition token_ok :: "AuthToken \<Rightarrow> bool" where
  "token_ok t \<longleftrightarrow> length (at_Token t) = 16 \<and> length (at_ShortID t) = 8 \<and> length (at_Padding t) = 4"

definition crypto_ok :: "('k \<Rightarrow> bytes) \<Rightarrow> ('k \<Rightarrow> bytes \<Rightarrow> bytes option) \<Rightarrow> (bytes \<Rightarrow> bytes \<Rightarrow> bytes) \<Rightarrow> bool" where
  "crypto_ok pub dh hmac \<longleftrightarrow>
     (\<forall>k. length (pub k) = 32) \<and> (\<forall>a b. dh a (pub b) = dh b (pub a)) \<and>
     (\<forall>s m. length (hmac s m) = 32)"

definition trimNull :: "bytes \<Rightarrow> bytes" where
  "trimNull b = rev (dropWhile (\<lambda>x. x = 0) (rev b))"

definition auth_label :: bytes where
  "auth_label = bytes_of ''iPShadowT-REALITY-v1''"

definition authMAC :: "(bytes \<Rightarrow> bytes \<Rightarrow> bytes) \<Rightarrow> bytes \<Rightarrow> 32 word \<Rightarrow> bytes \<Rightarrow> bytes" where
  "authMAC hmac secret ts shortIDBytes =
     take 16 (hmac secret (auth_label @ putUint32 ts @ trimNull shortIDBytes))"

text \<open>\<open>eph\<close> is the generated ephemeral key, \<open>now\<close> the clock in seconds, \<open>padding\<close> the random bytes.\<close>

definition BuildAuthToken ::
  "('k \<Rightarrow> bytes \<Rightarrow> bytes option) \<Rightarrow> (bytes \<Rightarrow> bytes \<Rightarrow> bytes) \<Rightarrow> 'k \<Rightarrow> bytes \<Rightarrow> string \<Rightarrow> int \<Rightarrow> bytes \<Rightarrow>
     AuthToken option" where
  "BuildAuthToken dh hmac eph serverPublicKey shortID unix padding =
     (case dh eph serverPublicKey of
        None \<Rightarrow> None
      | Some sharedSecret \<Rightarrow>
          (let now = (word_of_int unix :: 32 word);
               shortIDBytes = normalizeShortIDBytes shortID in
           Some \<lparr>at_Token = authMAC hmac sharedSecret now shortIDBytes,
                 at_ShortID = normalizeShortIDBytes shortID,
                 at_Timestamp = now, at_Padding = padding\<rparr>))"

definition SerializeAuthToken :: "AuthToken \<Rightarrow> bytes" where
  "SerializeAuthToken t = at_Token t @ at_ShortID t @ putUint32 (at_Timestamp t) @ at_Padding t"

text \<open>Lines 106-110: the parsed token; the padding is not looked at.\<close>

definition parseToken :: "bytes \<Rightarrow> AuthToken" where
  "parseToken tb =
     \<lparr>at_Token = take 16 tb, at_ShortID = take 8 (drop 16 tb),
      at_Timestamp = getUint32 (tb ! 24) (tb ! 25) (tb ! 26) (tb ! 27), at_Padding = replicate 4 0\<rparr>"

text \<open>Lines 125-142: the first allowed short ID with the same bytes.\<close>

definition matchShortID :: "string list \<Rightarrow> bytes \<Rightarrow> string option" where
  "matchShortID allowed sid =
     find (\<lambda>a. a \<noteq> [] \<and> bytesEqual (trimNull sid) (trimNull (normalizeShortIDBytes a))) allowed"

definition fresh_timestamp :: "int \<Rightarrow> int \<Rightarrow> 32 word \<Rightarrow> bool" where
  "fresh_timestamp unix timeWindow ts \<longleftrightarrow>
     (let now = (word_of_int unix :: 32 word);
          window = (if timeWindow \<le> 0 then 120 else timeWindow);
          diff = uint now - uint ts in
      (if diff < 0 then - diff else diff) \<le> window)"

text \<open>The short ID of the client when the token is valid.\<close>

definition VerifyAuthToken ::
  "('k \<Rightarrow> bytes \<Rightarrow> bytes option) \<Rightarrow> (bytes \<Rightarrow> bytes \<Rightarrow> bytes) \<Rightarrow> bytes \<Rightarrow> bytes \<Rightarrow> 'k \<Rightarrow> string list \<Rightarrow>
     int \<Rightarrow> int \<Rightarrow> string option" where
  "VerifyAuthToken dh hmac tokenBytes ephPub serverPrivateKey allowed unix timeWindow =
     (if length tokenBytes \<noteq> AuthTokenSize then None
      else if length ephPub \<noteq> 32 then None
      else case dh serverPrivateKey ephPub of
        None \<Rightarrow> None
      | Some sharedSecret \<Rightarrow>
          (let token = parseToken tokenBytes in
           if \<not> fresh_timestamp unix timeWindow (at_Timestamp token) then None
           else case matchShortID allowed (at_ShortID token) of
             None \<Rightarrow> None
           | Some shortID \<Rightarrow>
               if at_Token token \<noteq> authMAC hmac sharedSecret (at_Timestamp token) (at_ShortID token) then None
               else Some shortID))"

subsection \<open>Replay cache\<close>

record ReplayProtection =
  rp_seen :: "(bytes \<times> time) list"
  rp_window :: time
  rp_maxSize :: nat

definition NewReplayProtection :: "time \<Rightarrow> ReplayProtection" where
  "NewReplayProtection window = \<lparr>rp_seen = [], rp_window = window, rp_maxSize = 10000\<rparr>"

definition rp_cleanup :: "time \<Rightarrow> ReplayProtection \<Rightarrow> ReplayProtection" where
  "rp_cleanup now rp =
     (let cutoff = now - rp_window rp in
      rp\<lparr>rp_seen := filter (\<lambda>(k, t). \<not> t < cutoff) (rp_seen rp)\<rparr>)"

definition rp_Check :: "time \<Rightarrow> bytes \<Rightarrow> ReplayProtection \<Rightarrow> bool \<times> ReplayProtection" where
  "rp_Check now key rp =
     (if key \<in> fst ` set (rp_seen rp) then (False, rp)
      else
        let rp1 = rp\<lparr>rp_seen := (key, now) # rp_seen rp\<rparr> in
        (True, if length (rp_seen rp1) > rp_maxSize rp1 then rp_cleanup now rp1 else rp1))"

subsection \<open>Lemmas\<close>

lemma length_authMAC: "crypto_ok pub dh hmac \<Longrightarrow> length (authMAC hmac s ts sid) = 16"
  by (simp add: authMAC_def crypto_ok_def)

lemma length_Serialize: "token_ok t \<Longrightarrow> length (SerializeAuthToken t) = 32"
  by (simp add: token_ok_def SerializeAuthToken_def)

lemma getUint32_tail:
  assumes "length xs = i"
  shows "getUint32 ((xs @ putUint32 w @ r) ! i) ((xs @ putUint32 w @ r) ! (i + 1))
           ((xs @ putUint32 w @ r) ! (i + 2)) ((xs @ putUint32 w @ r) ! (i + 3)) = w"
  using assms by (simp add: nth_append putUint32_def getUint32_put)

lemma parse_Serialize:
  assumes "token_ok t"
  shows "parseToken (SerializeAuthToken t) = t\<lparr>at_Padding := replicate 4 0\<rparr>"
proof -
  have "SerializeAuthToken t = (at_Token t @ at_ShortID t) @ putUint32 (at_Timestamp t) @ at_Padding t"
    by (simp add: SerializeAuthToken_def)
  moreover have "length (at_Token t @ at_ShortID t) = 24" using assms by (simp add: token_ok_def)
  ultimately have "getUint32 (SerializeAuthToken t ! 24) (SerializeAuthToken t ! 25)
      (SerializeAuthToken t ! 26) (SerializeAuthToken t ! 27) = at_Timestamp t"
    using getUint32_tail [of "at_Token t @ at_ShortID t" 24 "at_Timestamp t" "at_Padding t"] by simp
  then show ?thesis
    using assms by (simp add: parseToken_def token_ok_def SerializeAuthToken_def)
qed

lemma parseToken_padding:
  assumes "length pre = 28"
  shows "parseToken (pre @ p) = parseToken (pre @ q)"
  using assms by (simp add: parseToken_def nth_append)

lemma BuildAuthToken_ok:
  "crypto_ok pub dh hmac \<Longrightarrow> length padding = 4 \<Longrightarrow>
     BuildAuthToken dh hmac eph spub sid unix padding = Some t \<Longrightarrow> token_ok t"
  by (auto simp: BuildAuthToken_def token_ok_def length_authMAC Let_def split: option.splits)

lemma matchShortID_self:
  assumes "shortID \<in> set allowed" "shortID \<noteq> []"
  shows "\<exists>s. matchShortID allowed (normalizeShortIDBytes shortID) = Some s"
proof (cases "matchShortID allowed (normalizeShortIDBytes shortID)")
  case None
  then show ?thesis
    using assms unfolding matchShortID_def find_None_iff by (metis bytesEqual_iff)
qed simp

lemma Verify_Build:
  assumes c: "crypto_ok pub dh hmac" and pad: "length padding = 4"
    and b: "BuildAuthToken dh hmac eph (pub server) shortID t1 padding = Some token"
    and sid: "shortID \<in> set allowed" "shortID \<noteq> []"
    and fresh: "fresh_timestamp t2 window (word_of_int t1)"
  shows "VerifyAuthToken dh hmac (SerializeAuthToken token) (pub eph) server allowed t2 window =
           matchShortID allowed (normalizeShortIDBytes shortID)"
proof -
  have ok: "token_ok token" by (rule BuildAuthToken_ok [OF c pad b])
  obtain secret where s: "dh eph (pub server) = Some secret"
    using b by (auto simp: BuildAuthToken_def split: option.splits)
  then have s': "dh server (pub eph) = Some secret"
    using c by (simp add: crypto_ok_def)
  have t: "at_Token token = authMAC hmac secret (word_of_int t1) (normalizeShortIDBytes shortID)"
      "at_ShortID token = normalizeShortIDBytes shortID" "at_Timestamp token = word_of_int t1"
    using b s by (auto simp: BuildAuthToken_def Let_def)
  show ?thesis
    using c fresh s' length_Serialize [OF ok] matchShortID_self [OF sid]
    by (auto simp: VerifyAuthToken_def parse_Serialize [OF ok] t Let_def AuthTokenSize_def crypto_ok_def)
qed

text \<open>What a successful verification establishes.\<close>

lemma Verify_sound:
  assumes "VerifyAuthToken dh hmac tb ephPub server allowed unix window = Some shortID"
  shows "length tb = 32 \<and> fresh_timestamp unix window (at_Timestamp (parseToken tb)) \<and>
         shortID \<in> set allowed \<and> shortID \<noteq> [] \<and>
         trimNull (at_ShortID (parseToken tb)) = trimNull (normalizeShortIDBytes shortID) \<and>
         (\<exists>secret. dh server ephPub = Some secret \<and>
            at_Token (parseToken tb) = authMAC hmac secret (at_Timestamp (parseToken tb)) (at_ShortID (parseToken tb)))"
proof -
  have m: "shortID \<in> set allowed \<and> shortID \<noteq> [] \<and> trimNull s = trimNull (normalizeShortIDBytes shortID)"
    if "matchShortID allowed s = Some shortID" for s
    using that by (auto simp: matchShortID_def find_Some_iff)
  show ?thesis
    using assms m
    by (auto simp: VerifyAuthToken_def Let_def AuthTokenSize_def split: if_splits option.splits)
qed

lemma Verify_padding:
  "length pre = 28 \<Longrightarrow> length p = 4 \<Longrightarrow> length q = 4 \<Longrightarrow>
     VerifyAuthToken dh hmac (pre @ p) ephPub server allowed unix window =
     VerifyAuthToken dh hmac (pre @ q) ephPub server allowed unix window"
  by (simp add: VerifyAuthToken_def AuthTokenSize_def parseToken_padding [of pre p q]
      cong: option.case_cong)

subsection \<open>The replay cache remembers\<close>


lemma rp_Check_True:
  "rp_Check now key rp = (True, rp') \<Longrightarrow> 0 \<le> rp_window rp \<Longrightarrow> (key, now) \<in> set (rp_seen rp')"
  by (auto simp: rp_Check_def rp_cleanup_def Let_def split: if_splits)

lemma rp_Check_window: "rp_window (snd (rp_Check now key rp)) = rp_window rp"
  by (simp add: rp_Check_def rp_cleanup_def Let_def)

lemma rp_Check_keeps:
  assumes "(k, t) \<in> set (rp_seen rp)" "now - rp_window rp \<le> t"
  shows "(k, t) \<in> set (rp_seen (snd (rp_Check now key rp)))"
  using assms by (auto simp: rp_Check_def rp_cleanup_def Let_def)

fun rp_run :: "(time \<times> bytes) list \<Rightarrow> ReplayProtection \<Rightarrow> ReplayProtection" where
  "rp_run [] rp = rp"
| "rp_run ((now, key) # es) rp = rp_run es (snd (rp_Check now key rp))"

lemma rp_run_window: "rp_window (rp_run es rp) = rp_window rp"
  by (induction es rp rule: rp_run.induct) (simp_all add: rp_Check_window)

lemma rp_run_keeps:
  "(k, t) \<in> set (rp_seen rp) \<Longrightarrow> \<forall>(now, key) \<in> set es. now \<le> t + rp_window rp \<Longrightarrow>
     (k, t) \<in> set (rp_seen (rp_run es rp))"
proof (induction es rp rule: rp_run.induct)
  case (2 now key es rp)
  then show ?case
    by (simp add: rp_Check_keeps rp_Check_window)
qed simp

end
