(* ===== verification/Reality_Server.thy ===== *)
theory Reality_Server
  imports Reality_Auth
begin

text \<open>
  internal/antidpi/reality.go: the REALITY server's handling of one connection (read the
  ClientHello record, check replay, verify the token, acknowledge or fall back) and the client
  side of the exchange. uTLS builds the ClientHello on the client: \<open>client_hello_for\<close> is an arbitrary
  ClientHello \<open>spec\<close> in which the client has set the session ID and the X25519 key share.
\<close>

definition RealityAuthOK :: bytes where "RealityAuthOK = bytes_of ''REALITYOK\<newline>''"

record RealityServer =
  rs_ShortIDs :: "string list"
  rs_replay :: ReplayProtection

definition NewRealityServer :: "string list \<Rightarrow> RealityServer" where
  "NewRealityServer shortIDs =
     \<lparr>rs_ShortIDs = shortIDs, rs_replay = NewReplayProtection (2 * minute)\<rparr>"

text \<open>
  \<open>readClientHelloRecord\<close>: the record and the rest of the stream, or the bytes handed to the
  fallback on an error. A read that ends early leaves its buffer zero beyond the bytes received.
\<close>

definition readClientHelloRecord :: "bytes \<Rightarrow> bytes + bytes \<times> bytes" where
  "readClientHelloRecord conn =
     (case readFull 5 conn of
        Inl _ \<Rightarrow> Inl (conn @ replicate (5 - length conn) 0)
      | Inr (header, r1) \<Rightarrow>
          if header ! 0 \<noteq> 0x16 then Inl header
          else
            let recordLen = int16 (header ! 3) (header ! 4) in
            if recordLen = 0 \<or> recordLen > 16384 then Inl header
            else case readFull recordLen r1 of
                   Inl _ \<Rightarrow> Inl (header @ r1 @ replicate (recordLen - length r1) 0)
                 | Inr (rec, r2) \<Rightarrow> Inr (header @ rec, r2))"

text \<open>\<open>now\<close> is the clock in nanoseconds; \<open>Unix()\<close> is its value in seconds.\<close>

definition verifyClientHello ::
  "('k \<Rightarrow> bytes \<Rightarrow> bytes option) \<Rightarrow> (bytes \<Rightarrow> bytes \<Rightarrow> bytes) \<Rightarrow> 'k \<Rightarrow> time \<Rightarrow> bytes \<Rightarrow> RealityServer \<Rightarrow>
     bool \<times> RealityServer" where
  "verifyClientHello dh hmac privateKey now rawData rs =
     (case parseClientHelloAuth rawData of
        Inl _ \<Rightarrow> (False, rs)
      | Inr (sessionID, ephPub) \<Rightarrow>
          if length sessionID \<noteq> AuthTokenSize then (False, rs)
          else case rp_Check now sessionID (rs_replay rs) of
            (fresh, rp) \<Rightarrow>
              let rs1 = rs\<lparr>rs_replay := rp\<rparr> in
              if \<not> fresh then (False, rs1)
              else (VerifyAuthToken dh hmac sessionID ephPub privateKey (rs_ShortIDs rs1) (now div second) 120 \<noteq> None,
                    rs1))"

datatype reality_outcome = Fallback bytes | AckFailed | Authenticated bytes

text \<open>
  \<open>HandleConnection\<close>: \<open>ack\<close> says whether writing the acknowledgement succeeds. \<open>Fallback d\<close> is
  the proxying of \<open>d\<close> to the decoy, \<open>Authenticated r\<close> the tunnel over the rest of the stream.
\<close>

definition HandleConnection ::
  "('k \<Rightarrow> bytes \<Rightarrow> bytes option) \<Rightarrow> (bytes \<Rightarrow> bytes \<Rightarrow> bytes) \<Rightarrow> 'k \<Rightarrow> bool \<Rightarrow> time \<Rightarrow> bytes \<Rightarrow> RealityServer \<Rightarrow>
     reality_outcome \<times> RealityServer" where
  "HandleConnection dh hmac privateKey ack now conn rs =
     (case readClientHelloRecord conn of
        Inl rawData \<Rightarrow> (Fallback rawData, rs)
      | Inr (rawData, rest) \<Rightarrow>
          (case verifyClientHello dh hmac privateKey now rawData rs of
             (False, rs1) \<Rightarrow> (Fallback rawData, rs1)
           | (True, rs1) \<Rightarrow> if ack then (Authenticated rest, rs1) else (AckFailed, rs1)))"

text \<open>\<open>Connect\<close> after the ClientHello was sent: the answer must be the acknowledgement.\<close>

definition Connect_accepts :: "bytes \<Rightarrow> bool" where
  "Connect_accepts response =
     (case readFull (length RealityAuthOK) response of Inl _ \<Rightarrow> False | Inr (resp, _) \<Rightarrow> resp = RealityAuthOK)"

text \<open>
  The ClientHello the client sends: the session ID is the serialised token, and the X25519 share
  is the ephemeral key, in a hello whose other fields are those of the browser preset \<open>spec\<close>.
\<close>

definition client_hello_for :: "client_hello \<Rightarrow> (nat \<times> bytes) list \<Rightarrow> bytes \<Rightarrow> bytes \<Rightarrow> (nat \<times> bytes) list \<Rightarrow> client_hello" where
  "client_hello_for spec pre token ephPub post =
     spec\<lparr>ch_session := token, ch_exts := pre @ key_share_ext [(0x001d, ephPub)] # post\<rparr>"

subsection \<open>Lemmas\<close>

lemma readClientHelloRecord_hello:
  assumes "length m \<le> 16384" "0 < length m"
  shows "readClientHelloRecord (wrapTLSHandshakeRecord m @ rest) = Inr (wrapTLSHandshakeRecord m, rest)"
proof -
  let ?h = "[0x16, 0x03, 0x01] @ len16 (length m)"
  have w: "wrapTLSHandshakeRecord m @ rest = ?h @ (m @ rest)"
    by (simp add: wrapTLSHandshakeRecord_def)
  have "readFull 5 (?h @ (m @ rest)) = Inr (?h, m @ rest)"
    by (rule readFull_append) simp
  moreover have "int16 (?h ! 3) (?h ! 4) = length m"
    using assms by (simp add: len16_def int16_len16)
  ultimately show ?thesis
    unfolding w readClientHelloRecord_def
    using assms readFull_append [of m "length m" rest] by (simp add: Let_def wrapTLSHandshakeRecord_def)
qed

lemma verify_accepts:
  assumes "parseClientHelloAuth raw = Inr (sid, ephPub)" "length sid = AuthTokenSize"
    and "sid \<notin> fst ` set (rp_seen (rs_replay rs))"
    and "VerifyAuthToken dh hmac sid ephPub privateKey (rs_ShortIDs rs) (now div second) 120 \<noteq> None"
  shows "fst (verifyClientHello dh hmac privateKey now raw rs)"
  using assms by (simp add: verifyClientHello_def rp_Check_def Let_def)

lemma verify_replay_rejected:
  assumes "parseClientHelloAuth raw = Inr (sid, ephPub)" "sid \<in> fst ` set (rp_seen (rs_replay rs))"
  shows "fst (verifyClientHello dh hmac privateKey now raw rs) = False"
  using assms by (simp add: verifyClientHello_def rp_Check_def)

text \<open>The replay cache after a connection: unchanged, or one more check.\<close>

lemma verifyClientHello_state:
  "snd (verifyClientHello dh hmac k now raw rs) =
     (case parseClientHelloAuth raw of
        Inl _ \<Rightarrow> rs
      | Inr (sid, _) \<Rightarrow>
          if length sid \<noteq> AuthTokenSize then rs
          else rs\<lparr>rs_replay := snd (rp_Check now sid (rs_replay rs))\<rparr>)"
  by (simp add: verifyClientHello_def Let_def split: sum.split prod.split)

lemma HandleConnection_state:
  "snd (HandleConnection dh hmac k ack now conn rs) =
     (case readClientHelloRecord conn of
        Inl _ \<Rightarrow> rs | Inr (raw, _) \<Rightarrow> snd (verifyClientHello dh hmac k now raw rs))"
  by (simp add: HandleConnection_def split: sum.split prod.split bool.split)

lemma HandleConnection_replay:
  "snd (HandleConnection dh hmac k ack now conn rs) = rs \<or>
   (\<exists>key. snd (HandleConnection dh hmac k ack now conn rs) = rs\<lparr>rs_replay := snd (rp_Check now key (rs_replay rs))\<rparr>)"
  unfolding HandleConnection_state verifyClientHello_state by (auto split: sum.split prod.split)

lemma HandleConnection_keeps:
  assumes "(key, t) \<in> set (rp_seen (rs_replay rs))" "now \<le> t + rp_window (rs_replay rs)"
  shows "(key, t) \<in> set (rp_seen (rs_replay (snd (HandleConnection dh hmac k ack now conn rs)))) \<and>
         rp_window (rs_replay (snd (HandleConnection dh hmac k ack now conn rs))) = rp_window (rs_replay rs)"
  using HandleConnection_replay [of dh hmac k ack now conn rs] rp_Check_keeps [of key t "rs_replay rs" now]
    rp_Check_window [of now _ "rs_replay rs"] assms
  by auto

text \<open>A sequence of connections, each with its clock, acknowledgement result and input.\<close>

fun reality_run ::
  "('k \<Rightarrow> bytes \<Rightarrow> bytes option) \<Rightarrow> (bytes \<Rightarrow> bytes \<Rightarrow> bytes) \<Rightarrow> 'k \<Rightarrow> (time \<times> bool \<times> bytes) list \<Rightarrow>
     RealityServer \<Rightarrow> RealityServer" where
  "reality_run dh hmac k [] rs = rs"
| "reality_run dh hmac k ((now, ack, conn) # es) rs =
     reality_run dh hmac k es (snd (HandleConnection dh hmac k ack now conn rs))"

lemma reality_run_keeps:
  "(key, t) \<in> set (rp_seen (rs_replay rs)) \<Longrightarrow>
   \<forall>(now, ack, conn) \<in> set es. now \<le> t + rp_window (rs_replay rs) \<Longrightarrow>
   (key, t) \<in> set (rp_seen (rs_replay (reality_run dh hmac k es rs)))"
proof (induction dh hmac k es rs rule: reality_run.induct)
  case (2 dh hmac k now ack conn es rs)
  then show ?case
    using HandleConnection_keeps [of key t rs now dh hmac k ack conn] by simp
qed simp

lemma authenticated_inv:
  assumes "HandleConnection dh hmac k ack now conn rs = (Authenticated rest, rs')"
  shows "\<exists>raw sid ephPub. readClientHelloRecord conn = Inr (raw, rest) \<and>
     parseClientHelloAuth raw = Inr (sid, ephPub) \<and> length sid = AuthTokenSize \<and>
     rp_Check now sid (rs_replay rs) = (True, rs_replay rs') \<and> rs_ShortIDs rs' = rs_ShortIDs rs \<and>
     VerifyAuthToken dh hmac sid ephPub k (rs_ShortIDs rs) (now div second) 120 \<noteq> None"
  using assms
  by (auto simp: HandleConnection_def verifyClientHello_def Let_def
      split: sum.splits prod.splits bool.splits if_splits)

lemma client_hello_for_parse:
  assumes "h = client_hello_for spec pre token ephPub post" "hello_ok h" "length token = 32" "length ephPub = 32"
    and "\<forall>e \<in> set post. fst e \<noteq> 0x0033"
  shows "parseClientHelloAuth (hello_record h) = Inr (token, ephPub)"
proof -
  have "fold pick_share (ch_exts h) [] = ephPub"
    using assms(1,4,5) by (intro fold_pick_key [where shares = "[(0x001d, ephPub)]" and g = "0x001d"])
      (auto simp: client_hello_for_def)
  moreover have "ch_session h = token" using assms(1) by (simp add: client_hello_for_def)
  ultimately show ?thesis
    using parseClientHelloAuth_enc [OF assms(2)] assms(3,4) by (simp add: hello_auth_def AuthTokenSize_def)
qed

lemma handshake_msg_nonempty: "0 < length (handshake_msg h)"
  by (simp add: handshake_msg_def)

lemma HandleConnection_accepts:
  assumes "length (handshake_msg h) \<le> 16384" "fst (verifyClientHello dh hmac k now (hello_record h) rs)"
  shows "fst (HandleConnection dh hmac k True now (hello_record h @ rest) rs) = Authenticated rest"
proof -
  have "readClientHelloRecord (hello_record h @ rest) = Inr (hello_record h, rest)"
    unfolding hello_record_def using readClientHelloRecord_hello [OF assms(1) handshake_msg_nonempty] .
  with assms(2) show ?thesis
    by (cases "verifyClientHello dh hmac k now (hello_record h) rs") (simp add: HandleConnection_def)
qed

lemma verifyClientHello_genuine:
  assumes c: "crypto_ok pub dh hmac" "length padding = 4"
    and b: "BuildAuthToken dh hmac eph (pub server) shortID t1 padding = Some token"
    and sid: "shortID \<in> set (rs_ShortIDs rs)" "shortID \<noteq> []"
    and h: "h = client_hello_for spec pre (SerializeAuthToken token) (pub eph) post" "hello_ok h"
    and post: "\<forall>e \<in> set post. fst e \<noteq> 0x0033"
    and new: "SerializeAuthToken token \<notin> fst ` set (rp_seen (rs_replay rs))"
    and fresh: "fresh_timestamp (now div second) 120 (word_of_int t1)"
  shows "fst (verifyClientHello dh hmac server now (hello_record h) rs)"
proof -
  let ?sid = "SerializeAuthToken token"
  have len: "length ?sid = 32" "length (pub eph) = 32"
    using c(1) length_Serialize [OF BuildAuthToken_ok [OF c b]] by (simp_all add: crypto_ok_def)
  have parse: "parseClientHelloAuth (hello_record h) = Inr (?sid, pub eph)"
    by (rule client_hello_for_parse [OF h len post])
  have "VerifyAuthToken dh hmac ?sid (pub eph) server (rs_ShortIDs rs) (now div second) 120 \<noteq> None"
    using Verify_Build [OF c b sid fresh] matchShortID_self [OF sid] by simp
  then show ?thesis
    using verify_accepts [OF parse _ new] len by (simp add: AuthTokenSize_def)
qed


text \<open>
  C1: who is let in is who should be: an authenticated connection sent a complete ClientHello
  whose 32-byte session ID was not in the replay cache, whose timestamp is within 120 seconds of
  the server's clock, whose short ID is one of the configured ones, and whose MAC is the HMAC of
  exactly that timestamp and short ID under the X25519 secret shared with the hello's key.
\<close>

theorem reality_authenticated_sound:
  assumes "HandleConnection dh hmac server ack now conn rs = (Authenticated rest, rs')"
  shows "\<exists>raw sid ephPub shortID secret.
     readClientHelloRecord conn = Inr (raw, rest) \<and> parseClientHelloAuth raw = Inr (sid, ephPub) \<and>
     length sid = 32 \<and> sid \<notin> fst ` set (rp_seen (rs_replay rs)) \<and>
     \<bar>uint (word_of_int (now div second) :: 32 word) - uint (at_Timestamp (parseToken sid))\<bar> \<le> 120 \<and>
     shortID \<in> set (rs_ShortIDs rs) \<and>
     trimNull (at_ShortID (parseToken sid)) = trimNull (normalizeShortIDBytes shortID) \<and>
     dh server ephPub = Some secret \<and>
     take 16 sid = take 16 (hmac secret (bytes_of ''iPShadowT-REALITY-v1'' @
        putUint32 (at_Timestamp (parseToken sid)) @ trimNull (at_ShortID (parseToken sid))))"
proof -
  obtain raw sid ephPub where a: "readClientHelloRecord conn = Inr (raw, rest)"
      "parseClientHelloAuth raw = Inr (sid, ephPub)" "length sid = AuthTokenSize"
      "rp_Check now sid (rs_replay rs) = (True, rs_replay rs')"
      "VerifyAuthToken dh hmac sid ephPub server (rs_ShortIDs rs) (now div second) 120 \<noteq> None"
    using authenticated_inv [OF assms] by blast
  then obtain shortID where v: "VerifyAuthToken dh hmac sid ephPub server (rs_ShortIDs rs) (now div second) 120 = Some shortID"
    by auto
  have "sid \<notin> fst ` set (rp_seen (rs_replay rs))"
    using a(4) by (auto simp: rp_Check_def split: if_splits)
  moreover have "\<bar>uint (word_of_int (now div second) :: 32 word) - uint (at_Timestamp (parseToken sid))\<bar> \<le> 120"
    using Verify_sound [OF v] by (auto simp: fresh_timestamp_def Let_def split: if_splits)
  moreover have "at_Token (parseToken sid) = take 16 sid"
    by (simp add: parseToken_def)
  ultimately show ?thesis
    using Verify_sound [OF v] a(1-3)
    by (auto simp: AuthTokenSize_def authMAC_def auth_label_def)
qed


text \<open>
  replay protection is bypassed by changing the four padding bytes of the session ID: they
  are not covered by the MAC but are part of the replay key, so a recorded ClientHello with other
  padding is authenticated again, at once, by the server that just accepted the original.
\<close>

theorem reality_padding_replay_accepted:
  assumes "hello_ok h" "ch_session h = token @ p" "length token = 28" "length p = 4" "length q = 4"
    and "length (handshake_msg h) \<le> 16384"
    and "HandleConnection dh hmac server True now (hello_record h @ rest) rs = (Authenticated rest, rs')"
    and "token @ q \<notin> fst ` set (rp_seen (rs_replay rs'))"
  shows "fst (HandleConnection dh hmac server True now
            (hello_record (h\<lparr>ch_session := token @ q\<rparr>) @ rest) rs') = Authenticated rest"
proof -
  let ?h = "h\<lparr>ch_session := token @ q\<rparr>"
  have enc: "length (enc_hello ?h) = length (enc_hello h)"
    using assms(2,4,5) by (simp add: enc_hello_def ch_prefix_def)
  then have hm: "length (handshake_msg ?h) = length (handshake_msg h)"
    by (simp add: length_handshake_msg)
  then have ok: "hello_ok ?h"
    using assms(1-5) by (simp add: hello_ok_def)
  have rd: "readClientHelloRecord (hello_record h @ rest) = Inr (hello_record h, rest)"
    unfolding hello_record_def using readClientHelloRecord_hello [OF assms(6) handshake_msg_nonempty] .
  obtain sid ephPub where a: "parseClientHelloAuth (hello_record h) = Inr (sid, ephPub)"
      "rs_ShortIDs rs' = rs_ShortIDs rs"
      "VerifyAuthToken dh hmac sid ephPub server (rs_ShortIDs rs) (now div second) 120 \<noteq> None"
    using authenticated_inv [OF assms(7)] rd by auto
  have eph: "length (fold pick_share (ch_exts h) []) = 32 \<and> sid = token @ p \<and> ephPub = fold pick_share (ch_exts h) []"
    using a(1) assms(2) unfolding parseClientHelloAuth_enc [OF assms(1)]
    by (auto simp: hello_auth_def Let_def split: if_splits)
  have "parseClientHelloAuth (hello_record ?h) = Inr (token @ q, ephPub)"
    using parseClientHelloAuth_enc [OF ok] eph assms(3,5) by (simp add: hello_auth_def AuthTokenSize_def)
  moreover have "VerifyAuthToken dh hmac (token @ q) ephPub server (rs_ShortIDs rs') (now div second) 120 \<noteq> None"
    using a(2,3) eph Verify_padding [OF assms(3,4,5)] by metis
  ultimately have "fst (verifyClientHello dh hmac server now (hello_record ?h) rs')"
    using assms(3,5,8) by (intro verify_accepts) (auto simp: AuthTokenSize_def)
  then show ?thesis
    using hm assms(6) by (intro HandleConnection_accepts) simp_all
qed

subsection \<open>A concrete exchange\<close>

text \<open>Functions that meet \<open>crypto_ok\<close>: keys are bytes, the secret is their XOR.\<close>

definition xor_pub :: "byte \<Rightarrow> bytes" where "xor_pub k = replicate 32 k"
definition xor_dh :: "byte \<Rightarrow> bytes \<Rightarrow> bytes option" where "xor_dh k p = Some (map (\<lambda>x. k XOR x) p)"
definition sum_hmac :: "bytes \<Rightarrow> bytes \<Rightarrow> bytes" where "sum_hmac s m = replicate 32 (sum_list (s @ m))"

lemma xor_crypto_ok: "crypto_ok xor_pub xor_dh sum_hmac"
  by (simp add: crypto_ok_def xor_pub_def xor_dh_def sum_hmac_def ac_simps)

definition demo_spec :: client_hello where
  "demo_spec = \<lparr>ch_version = [3, 3], ch_random = replicate 32 7, ch_session = [], ch_ciphers = [0x13, 0x01],
     ch_comp = [0], ch_exts = []\<rparr>"

definition demo_token :: "bytes \<Rightarrow> AuthToken" where
  "demo_token padding =
     \<lparr>at_Token = authMAC sum_hmac (replicate 32 (5 XOR 9)) (word_of_int 1000) (normalizeShortIDBytes ''ab''),
      at_ShortID = normalizeShortIDBytes ''ab'', at_Timestamp = word_of_int 1000, at_Padding = padding\<rparr>"

definition demo_hello :: client_hello where
  "demo_hello = client_hello_for demo_spec [] (SerializeAuthToken (demo_token [1, 2, 3, 4])) (xor_pub 5) []"

lemma demo_build: "BuildAuthToken xor_dh sum_hmac 5 (xor_pub 9) ''ab'' 1000 [1, 2, 3, 4] = Some (demo_token [1, 2, 3, 4])"
  by (simp add: BuildAuthToken_def xor_dh_def xor_pub_def demo_token_def)

lemma demo_token_length: "length (SerializeAuthToken (demo_token [1, 2, 3, 4])) = 32"
  by (rule length_Serialize) (rule BuildAuthToken_ok [OF xor_crypto_ok _ demo_build], simp)

lemma demo_hello_size: "length (handshake_msg demo_hello) = 121"
  using demo_token_length
  by (simp add: demo_hello_def client_hello_for_def demo_spec_def handshake_msg_def enc_hello_def
      ch_prefix_def key_share_ext_def xor_pub_def)

lemma demo_hello_ok: "hello_ok demo_hello"
  using demo_hello_size demo_token_length
  by (simp add: hello_ok_def) (simp add: demo_hello_def client_hello_for_def demo_spec_def key_share_ext_def xor_pub_def)

definition demo_server :: RealityServer where
  "demo_server = NewRealityServer [''ab'']"

lemma demo_authenticates:
  "fst (HandleConnection xor_dh sum_hmac 9 True (1000 * second) (hello_record demo_hello @ [42]) demo_server) =
     Authenticated [42]"
  using demo_hello_size
  by (intro HandleConnection_accepts
      verifyClientHello_genuine [OF xor_crypto_ok _ demo_build _ _ demo_hello_def demo_hello_ok])
    (simp_all add: demo_server_def NewRealityServer_def NewReplayProtection_def second_def
      fresh_timestamp_def Let_def)

lemma demo_step:
  obtains rs' where "HandleConnection xor_dh sum_hmac 9 True (1000 * second) (hello_record demo_hello @ [42]) demo_server =
     (Authenticated [42], rs')"
  using demo_authenticates by (metis prod.collapse)


lemma demo_read: "readClientHelloRecord (hello_record demo_hello @ rest) = Inr (hello_record demo_hello, rest)"
  unfolding hello_record_def
  using readClientHelloRecord_hello [OF _ handshake_msg_nonempty, of demo_hello rest] demo_hello_size by simp

lemma demo_parse:
  "parseClientHelloAuth (hello_record demo_hello) = Inr (SerializeAuthToken (demo_token [1, 2, 3, 4]), xor_pub 5)"
  by (rule client_hello_for_parse [OF demo_hello_def demo_hello_ok demo_token_length])
    (simp_all add: xor_pub_def)

lemma demo_cache:
  assumes "HandleConnection xor_dh sum_hmac 9 True (1000 * second) (hello_record demo_hello @ [42]) demo_server =
     (Authenticated [42], rs')"
  shows "fst ` set (rp_seen (rs_replay rs')) = {SerializeAuthToken (demo_token [1, 2, 3, 4])}"
proof -
  have "rp_Check (1000 * second) (SerializeAuthToken (demo_token [1, 2, 3, 4])) (rs_replay demo_server) =
      (True, rs_replay rs')"
    using authenticated_inv [OF assms] demo_read [of "[42]"] demo_parse by auto
  then have "rs_replay rs' = \<lparr>rp_seen = [(SerializeAuthToken (demo_token [1, 2, 3, 4]), 1000 * second)],
      rp_window = 2 * minute, rp_maxSize = 10000\<rparr>"
    by (simp add: demo_server_def NewRealityServer_def NewReplayProtection_def rp_Check_def)
  then show ?thesis by simp
qed

theorem reality_authenticated_sound_witness:
  "\<exists>raw sid ephPub shortID secret.
     readClientHelloRecord (hello_record demo_hello @ [42]) = Inr (raw, [42]) \<and>
     parseClientHelloAuth raw = Inr (sid, ephPub) \<and>
     shortID \<in> set [''ab''] \<and> xor_dh 9 ephPub = Some secret"
proof -
  obtain rs' where r: "HandleConnection xor_dh sum_hmac 9 True (1000 * second) (hello_record demo_hello @ [42]) demo_server =
     (Authenticated [42], rs')" by (rule demo_step)
  show ?thesis
    using reality_authenticated_sound [OF r] by (auto simp: demo_server_def NewRealityServer_def)
qed


theorem reality_padding_replay_accepted_witness:
  "fst (HandleConnection xor_dh sum_hmac 9 True (1000 * second)
      (hello_record (demo_hello\<lparr>ch_session := take 28 (ch_session demo_hello) @ [9, 9, 9, 9]\<rparr>) @ [42])
      (snd (HandleConnection xor_dh sum_hmac 9 True (1000 * second) (hello_record demo_hello @ [42]) demo_server))) =
   Authenticated [42]"
proof -
  let ?t = "take 28 (ch_session demo_hello)"
  have cs: "ch_session demo_hello = SerializeAuthToken (demo_token [1, 2, 3, 4])"
    by (simp add: demo_hello_def client_hello_for_def)
  have tok: "token_ok (demo_token [1, 2, 3, 4])"
    by (rule BuildAuthToken_ok [OF xor_crypto_ok _ demo_build]) simp
  have split: "ch_session demo_hello = ?t @ [1, 2, 3, 4]"
    using tok unfolding cs by (simp add: SerializeAuthToken_def token_ok_def) (simp add: demo_token_def)
  obtain rs' where r: "HandleConnection xor_dh sum_hmac 9 True (1000 * second) (hello_record demo_hello @ [42]) demo_server =
     (Authenticated [42], rs')" by (rule demo_step)
  have "length ?t = 28" using demo_token_length cs by simp
  moreover have "?t @ [9, 9, 9, 9] \<notin> fst ` set (rp_seen (rs_replay rs'))"
  proof -
    have "?t @ [9, 9, 9, 9] \<noteq> ?t @ [1, 2, 3, 4 :: byte]" by simp
    then show ?thesis using demo_cache [OF r] split cs by (metis singletonD)
  qed
  ultimately show ?thesis
    using reality_padding_replay_accepted [OF demo_hello_ok split _ _ _ _ r, of "[9, 9, 9, 9]"] demo_hello_size r
    by simp
qed

end
