(* ===== verification/Path_Select.thy ===== *)
theory Path_Select
  imports Go_Strings "HOL-Library.Multiset"
begin

text \<open>
  The data of core/failover.go, the sort that orders the paths at start-up and the three
  strategies that select the next path. The sort is proved to order the paths by priority; the
  strategies are three interpretations of the locale \<open>path_selector\<close>, the contract the failover
  manager relies on.
\<close>

subsection \<open>Types\<close>

datatype FailoverStrategy = StrategyPriority | StrategyRoundRobin | StrategyLatency | StrategyOther

datatype PathState = PathHealthy | PathDegraded | PathUnhealthy | PathDisabled

record PathConfig =
  pc_Name :: string
  pc_RemoteAddr :: string
  pc_Transport :: string
  pc_Priority :: int
  pc_Weight :: int

record PathInfo =
  pi_Config :: PathConfig
  pi_State :: PathState
  pi_Latency :: time
  pi_LastCheck :: time
  pi_LastError :: "string option"
  pi_FailCount :: int
  pi_SuccessCount :: int

record FailoverConfig =
  fc_Strategy :: FailoverStrategy
  fc_HealthInterval :: time
  fc_FailThreshold :: int
  fc_RecoverAfter :: time
  fc_MaxRetries :: int

datatype fo_event = EvAllUnhealthy | EvPathChanged string string | EvSwitch string string bool
  | EvAsyncSwitch string string

datatype fo_error = PathNotFound string | SwitchFailed

record Failover =
  fo_cfg :: FailoverConfig
  fo_paths :: "PathInfo list"
  fo_active :: nat
  fo_trace :: "fo_event list"

type_synonym callback = "Failover \<Rightarrow> PathConfig \<Rightarrow> PathConfig \<Rightarrow> bool"

definition DefaultFailoverConfig :: FailoverConfig where
  "DefaultFailoverConfig =
     \<lparr>fc_Strategy = StrategyPriority, fc_HealthInterval = 10 * second, fc_FailThreshold = 3,
      fc_RecoverAfter = 30 * second, fc_MaxRetries = 2\<rparr>"

abbreviation prio :: "PathInfo \<Rightarrow> int" where
  "prio p \<equiv> pc_Priority (pi_Config p)"

definition usable :: "PathInfo \<Rightarrow> bool" where
  "usable p \<longleftrightarrow> \<not> (pi_State p = PathUnhealthy \<or> pi_State p = PathDisabled)"

subsection \<open>Sorting\<close>

text \<open>The two nested loops of \<open>sortPathsByPriority\<close>.\<close>

definition swap :: "'a list \<Rightarrow> nat \<Rightarrow> nat \<Rightarrow> 'a list" where
  "swap xs i j = xs[i := xs ! j, j := xs ! i]"

definition sort_inner :: "nat \<Rightarrow> nat \<Rightarrow> PathInfo list \<Rightarrow> PathInfo list" where
  "sort_inner i j paths = (if prio (paths ! j) < prio (paths ! i) then swap paths i j else paths)"

definition sortPathsByPriority :: "PathInfo list \<Rightarrow> PathInfo list" where
  "sortPathsByPriority paths =
     fold (\<lambda>i ps. fold (sort_inner i) [i + 1..<length paths] ps) [0..<length paths - 1] paths"

definition NewFailover :: "time \<Rightarrow> PathConfig list \<Rightarrow> FailoverConfig \<Rightarrow> Failover" where
  "NewFailover now paths cfg =
     \<lparr>fo_cfg = cfg,
      fo_paths = sortPathsByPriority
        (map (\<lambda>p. \<lparr>pi_Config = p, pi_State = PathHealthy, pi_Latency = 0, pi_LastCheck = now,
                   pi_LastError = None, pi_FailCount = 0, pi_SuccessCount = 0\<rparr>) paths),
      fo_active = 0, fo_trace = []\<rparr>"

subsection \<open>Selection\<close>

text \<open>The range loops, as folds over the indexed paths; \<open>None\<close> is the result -1.\<close>

definition selectByPriority :: "PathInfo list \<Rightarrow> nat \<Rightarrow> nat option" where
  "selectByPriority paths excludeIdx =
     snd (fold (\<lambda>(i, p) (bestPriority, bestIdx).
            if i = excludeIdx then (bestPriority, bestIdx)
            else if pi_State p = PathUnhealthy \<or> pi_State p = PathDisabled then (bestPriority, bestIdx)
            else if prio p < bestPriority then (prio p, Some i)
            else (bestPriority, bestIdx))
          (enumerate 0 paths) (max_int, None))"

definition selectRoundRobin :: "PathInfo list \<Rightarrow> nat \<Rightarrow> nat option" where
  "selectRoundRobin paths excludeIdx =
     find (\<lambda>idx. pi_State (paths ! idx) \<noteq> PathUnhealthy \<and> pi_State (paths ! idx) \<noteq> PathDisabled)
       (map (\<lambda>i. (excludeIdx + i) mod length paths) [1..<length paths])"

definition selectByLatency :: "PathInfo list \<Rightarrow> nat \<Rightarrow> nat option" where
  "selectByLatency paths excludeIdx =
     snd (fold (\<lambda>(i, p) (bestLatency, bestIdx).
            if i = excludeIdx then (bestLatency, bestIdx)
            else if pi_State p = PathUnhealthy \<or> pi_State p = PathDisabled then (bestLatency, bestIdx)
            else if bestIdx = None \<or> pi_Latency p < bestLatency then (pi_Latency p, Some i)
            else (bestLatency, bestIdx))
          (enumerate 0 paths) (0, None))"

definition selectNextPath :: "FailoverConfig \<Rightarrow> PathInfo list \<Rightarrow> nat \<Rightarrow> nat option" where
  "selectNextPath cfg paths excludeIdx =
     (case fc_Strategy cfg of
        StrategyPriority \<Rightarrow> selectByPriority paths excludeIdx
      | StrategyRoundRobin \<Rightarrow> selectRoundRobin paths excludeIdx
      | StrategyLatency \<Rightarrow> selectByLatency paths excludeIdx
      | StrategyOther \<Rightarrow> selectByPriority paths excludeIdx)"

subsection \<open>The sort is correct\<close>

lemma length_swap [simp]: "length (swap xs i j) = length xs"
  by (simp add: swap_def)

lemma mset_swap_nth: "i < length xs \<Longrightarrow> j < length xs \<Longrightarrow> mset (swap xs i j) = mset xs"
  by (simp add: swap_def mset_swap)

lemma nth_swap:
  "i < length xs \<Longrightarrow> j < length xs \<Longrightarrow> k < length xs \<Longrightarrow>
     swap xs i j ! k = (if k = j then xs ! i else if k = i then xs ! j else xs ! k)"
  by (simp add: swap_def nth_list_update)

text \<open>
  \<open>sorted_to i m ps\<close>: positions below \<open>i\<close> hold their final elements, and position \<open>i\<close> is minimal
  among the positions up to \<open>m\<close>.
\<close>

definition sorted_to :: "nat \<Rightarrow> nat \<Rightarrow> PathInfo list \<Rightarrow> bool" where
  "sorted_to i m ps \<longleftrightarrow>
     (\<forall>a b. a < i \<longrightarrow> a < b \<longrightarrow> b < length ps \<longrightarrow> prio (ps ! a) \<le> prio (ps ! b)) \<and>
     (\<forall>k. i < k \<longrightarrow> k < m \<longrightarrow> prio (ps ! i) \<le> prio (ps ! k))"

lemma sort_inner_step:
  assumes "sorted_to i j ps" "i < j" "j < length ps"
  shows "sorted_to i (Suc j) (sort_inner i j ps)"
    and "mset (sort_inner i j ps) = mset ps" "length (sort_inner i j ps) = length ps"
  using assms
  by (auto simp: sort_inner_def mset_swap_nth sorted_to_def nth_swap less_Suc_eq intro: order.trans less_imp_le)

lemma sort_inner_loop:
  "sorted_to i (i + 1) ps \<Longrightarrow> i < length ps \<Longrightarrow> i + 1 + d \<le> length ps \<Longrightarrow>
     sorted_to i (i + 1 + d) (fold (sort_inner i) [i + 1..<i + 1 + d] ps) \<and>
     mset (fold (sort_inner i) [i + 1..<i + 1 + d] ps) = mset ps \<and>
     length (fold (sort_inner i) [i + 1..<i + 1 + d] ps) = length ps"
proof (induction d)
  case (Suc d)
  then have ih: "sorted_to i (i + 1 + d) (fold (sort_inner i) [i + 1..<i + 1 + d] ps)"
      "mset (fold (sort_inner i) [i + 1..<i + 1 + d] ps) = mset ps"
      "length (fold (sort_inner i) [i + 1..<i + 1 + d] ps) = length ps"
    by auto
  then show ?case
    using sort_inner_step [OF ih(1)] Suc.prems(3) by simp
qed simp

lemma sort_outer_loop:
  "k \<le> length ps - 1 \<Longrightarrow>
   sorted_to k (k + 1) (fold (\<lambda>i ps'. fold (sort_inner i) [i + 1..<length ps] ps') [0..<k] ps) \<and>
   mset (fold (\<lambda>i ps'. fold (sort_inner i) [i + 1..<length ps] ps') [0..<k] ps) = mset ps \<and>
   length (fold (\<lambda>i ps'. fold (sort_inner i) [i + 1..<length ps] ps') [0..<k] ps) = length ps"
proof (induction k)
  case 0
  then show ?case by (simp add: sorted_to_def)
next
  case (Suc k)
  let ?q = "fold (\<lambda>i ps'. fold (sort_inner i) [i + 1..<length ps] ps') [0..<k] ps"
  let ?r = "fold (sort_inner k) [k + 1..<length ps] ?q"
  have q: "sorted_to k (k + 1) ?q" "mset ?q = mset ps" "length ?q = length ps"
    using Suc by auto
  have e: "k + 1 + (length ps - (k + 1)) = length ps" "k < length ?q"
    using Suc.prems q(3) by auto
  have r: "sorted_to k (length ps) ?r" "mset ?r = mset ps" "length ?r = length ps"
    using sort_inner_loop [OF q(1) e(2), of "length ps - (k + 1)"] unfolding e(1) q(2,3) by blast+
  have "sorted_to (Suc k) (Suc k + 1) ?r"
    using r(1,3) unfolding sorted_to_def by (auto simp: less_Suc_eq)
  with r show ?case by simp
qed

lemma sort_correct:
  "mset (sortPathsByPriority ps) = mset ps"
  "\<lbrakk>a < b; b < length ps\<rbrakk> \<Longrightarrow> prio (sortPathsByPriority ps ! a) \<le> prio (sortPathsByPriority ps ! b)"
  "length (sortPathsByPriority ps) = length ps"
  using sort_outer_loop [of "length ps - 1" ps]
  by (auto simp: sortPathsByPriority_def sorted_to_def)

subsection \<open>The interface of a selection strategy\<close>

text \<open>The paths a switch away from \<open>ex\<close> may take.\<close>

definition candidates :: "PathInfo list \<Rightarrow> nat \<Rightarrow> nat set" where
  "candidates ps ex = {i. i < length ps \<and> i \<noteq> ex \<and> usable (ps ! i)}"

lemma finite_candidates [simp]: "finite (candidates ps ex)"
  by (simp add: candidates_def)

text \<open>
  What \<open>doFailover\<close> relies on: a selected path is a candidate, and some path is selected whenever
  there is a candidate whose priority is below the largest integer.
\<close>

locale path_selector =
  fixes sel :: "PathInfo list \<Rightarrow> nat \<Rightarrow> nat option"
  assumes sel_sound: "ex < length ps \<Longrightarrow> sel ps ex = Some i \<Longrightarrow> i \<in> candidates ps ex"
    and sel_complete: "ex < length ps \<Longrightarrow> sel ps ex = None \<Longrightarrow> j \<in> candidates ps ex \<Longrightarrow>
      max_int \<le> prio (ps ! j)"
begin

lemma sel_decreases:
  assumes "ex < length ps" "ps' = ps[ex := p]" "\<not> usable p" "sel ps' ex = Some i"
  shows "card (candidates ps' i) < card (candidates ps ex)"
proof (rule psubset_card_mono)
  have i: "i \<in> candidates ps' ex"
    using assms sel_sound by simp
  have "candidates ps' i \<subseteq> candidates ps ex"
    using assms(1,2,3) by (auto simp: candidates_def nth_list_update split: if_splits)
  moreover have "i \<in> candidates ps ex" "i \<notin> candidates ps' i"
    using i assms(1,2) by (auto simp: candidates_def)
  ultimately show "candidates ps' i \<subset> candidates ps ex"
    by blast
qed simp

lemma sel_none_iff:
  assumes "ex < length ps" "\<forall>j < length ps. prio (ps ! j) < max_int"
  shows "sel ps ex = None \<longleftrightarrow> candidates ps ex = {}"
proof
  assume "sel ps ex = None"
  then show "candidates ps ex = {}"
    using sel_complete [OF assms(1)] assms(2) by (fastforce simp: candidates_def)
next
  assume "candidates ps ex = {}"
  then show "sel ps ex = None"
    using sel_sound [OF assms(1)] by fastforce
qed

end

subsection \<open>The strategies implement it\<close>

lemma candidates_snoc:
  "j \<in> candidates (ps @ [p]) ex \<longleftrightarrow>
     j \<in> candidates ps ex \<or> (j = length ps \<and> j \<noteq> ex \<and> usable p)"
  by (auto simp: candidates_def nth_append less_Suc_eq)

lemma candidates_less: "j \<in> candidates ps ex \<Longrightarrow> j < length ps"
  by (simp add: candidates_def)

text \<open>One scan that keeps the best candidate so far, for both the priority and the latency loop.\<close>

definition scan :: "(PathInfo \<Rightarrow> int) \<Rightarrow> bool \<Rightarrow> int \<Rightarrow> PathInfo list \<Rightarrow> nat \<Rightarrow> int \<times> nat option" where
  "scan key any b0 ps ex =
     fold (\<lambda>(i, p) (best, idx).
        if i \<noteq> ex \<and> usable p \<and> (any \<and> idx = None \<or> key p < best) then (key p, Some i) else (best, idx))
      (enumerate 0 ps) (b0, None)"

lemma scan_snoc:
  "scan key any b0 (ps @ [p]) ex =
     (case scan key any b0 ps ex of (best, idx) \<Rightarrow>
        if length ps \<noteq> ex \<and> usable p \<and> (any \<and> idx = None \<or> key p < best)
        then (key p, Some (length ps)) else (best, idx))"
  by (simp add: scan_def enumerate_append_eq)

lemma scan_best:
  assumes "scan key any b0 ps ex = (best, idx)"
  shows "(idx = None \<longrightarrow> best = b0 \<and> (\<forall>j \<in> candidates ps ex. \<not> any \<and> b0 \<le> key (ps ! j))) \<and>
    (\<forall>i. idx = Some i \<longrightarrow> i \<in> candidates ps ex \<and> best = key (ps ! i) \<and>
       (\<forall>j \<in> candidates ps ex. best \<le> key (ps ! j) \<and> (j < i \<longrightarrow> best < key (ps ! j))))"
  using assms
proof (induction ps arbitrary: best idx rule: rev_induct)
  case Nil
  then show ?case by (auto simp: scan_def candidates_def)
next
  case (snoc p ps)
  obtain best' idx' where s: "scan key any b0 ps ex = (best', idx')"
    by fastforce
  have old: "j \<in> candidates ps ex \<Longrightarrow> (ps @ [p]) ! j = ps ! j" "j \<in> candidates ps ex \<Longrightarrow> j < length ps" for j
    by (simp_all add: candidates_less nth_append)
  show ?case
  proof (cases "length ps \<noteq> ex \<and> usable p \<and> (any \<and> idx' = None \<or> key p < best')")
    case True
    then have "best = key p \<and> idx = Some (length ps)"
      using snoc.prems by (auto simp: s scan_snoc)
    moreover have "key p < key (ps ! j)" if "j \<in> candidates ps ex" for j
      using True snoc.IH [OF s] that by (cases idx') force+
    ultimately show ?thesis
      using True by (auto simp: candidates_snoc old less_imp_le)
  next
    case False
    then have "best = best'" "idx = idx'"
      using snoc.prems by (auto simp: s scan_snoc split: if_splits)
    then show ?thesis
      using False snoc.IH [OF s] old by (cases idx') (auto simp: candidates_snoc dest: candidates_less)
  qed
qed

lemma scan_none: "snd (scan key any b0 ps ex) = None \<Longrightarrow> j \<in> candidates ps ex \<Longrightarrow> \<not> any \<and> b0 \<le> key (ps ! j)"
  using scan_best [of key any b0 ps ex] by (metis prod.collapse)

lemma scan_some:
  "snd (scan key any b0 ps ex) = Some i \<Longrightarrow>
     i \<in> candidates ps ex \<and>
     (\<forall>j \<in> candidates ps ex. key (ps ! i) \<le> key (ps ! j) \<and> (j < i \<longrightarrow> key (ps ! i) < key (ps ! j)))"
  using scan_best [of key any b0 ps ex] by (metis prod.collapse)

lemma selectByPriority_scan: "selectByPriority ps ex = snd (scan prio False max_int ps ex)"
  unfolding selectByPriority_def scan_def usable_def
  by (rule arg_cong [where f = snd], rule fold_cong) (auto split: prod.splits)

lemma selectByLatency_scan: "selectByLatency ps ex = snd (scan pi_Latency True 0 ps ex)"
  unfolding selectByLatency_def scan_def usable_def
  by (rule arg_cong [where f = snd], rule fold_cong) (auto split: prod.splits)

lemma selectByPriority_best:
  assumes "selectByPriority ps ex = Some i" "j \<in> candidates ps ex"
  shows "prio (ps ! i) \<le> prio (ps ! j)" "j < i \<Longrightarrow> prio (ps ! i) < prio (ps ! j)"
  using scan_some assms unfolding selectByPriority_scan by blast+

lemma selectByLatency_best:
  assumes "selectByLatency ps ex = Some i" "j \<in> candidates ps ex"
  shows "pi_Latency (ps ! i) \<le> pi_Latency (ps ! j)"
  using scan_some assms unfolding selectByLatency_scan by blast

interpretation by_priority: path_selector selectByPriority
  by unfold_locales (auto simp: selectByPriority_scan dest: scan_some scan_none)

interpretation by_latency: path_selector selectByLatency
  by unfold_locales (auto simp: selectByLatency_scan dest: scan_some scan_none)

text \<open>The round robin visits every index but the excluded one.\<close>

lemma round_robin_indices:
  fixes ex n :: nat
  assumes "ex < n"
  shows "(\<lambda>i. (ex + i) mod n) ` {1..<n} = {0..<n} - {ex}"
proof (intro equalityI subsetI)
  fix j assume "j \<in> (\<lambda>i. (ex + i) mod n) ` {1..<n}"
  then obtain i where i: "j = (ex + i) mod n" "1 \<le> i" "i < n"
    by auto
  then show "j \<in> {0..<n} - {ex}"
    using assms by (cases "ex + i < n") (auto simp: mod_if)
next
  fix j assume j: "j \<in> {0..<n} - {ex}"
  define i where "i = (if ex < j then j - ex else n - ex + j)"
  have "j = (ex + i) mod n" "i \<in> {1..<n}"
    using assms j by (auto simp: i_def mod_if)
  then show "j \<in> (\<lambda>i. (ex + i) mod n) ` {1..<n}"
    by blast
qed

lemma find_SomeD: "find P xs = Some x \<Longrightarrow> x \<in> set xs \<and> P x"
  by (induction xs) (auto split: if_splits)

lemma selectRoundRobin_find:
  "selectRoundRobin ps ex = find (\<lambda>i. usable (ps ! i)) (map (\<lambda>i. (ex + i) mod length ps) [1..<length ps])"
  by (simp add: selectRoundRobin_def usable_def)

interpretation by_round_robin: path_selector selectRoundRobin
proof
  fix ex i j :: nat and ps :: "PathInfo list"
  assume ex: "ex < length ps"
  have set: "set (map (\<lambda>i. (ex + i) mod length ps) [1..<length ps]) = {0..<length ps} - {ex}"
    using round_robin_indices [OF ex] by simp
  show "i \<in> candidates ps ex" if "selectRoundRobin ps ex = Some i"
    using find_SomeD [OF that [unfolded selectRoundRobin_find]] unfolding set candidates_def by simp
  show "max_int \<le> prio (ps ! j)" if none: "selectRoundRobin ps ex = None" and j: "j \<in> candidates ps ex"
  proof -
    have "j \<in> set (map (\<lambda>i. (ex + i) mod length ps) [1..<length ps])" "usable (ps ! j)"
      using j unfolding set candidates_def by auto
    then show ?thesis
      using none unfolding selectRoundRobin_find find_None_iff by blast
  qed
qed

interpretation next_path: path_selector "selectNextPath cfg" for cfg
proof
  fix ex i j :: nat and ps :: "PathInfo list"
  assume ex: "ex < length ps"
  show "i \<in> candidates ps ex" if "selectNextPath cfg ps ex = Some i"
    using that by_priority.sel_sound [OF ex] by_latency.sel_sound [OF ex] by_round_robin.sel_sound [OF ex]
    by (cases "fc_Strategy cfg") (simp_all add: selectNextPath_def)
  show "max_int \<le> prio (ps ! j)" if "selectNextPath cfg ps ex = None" "j \<in> candidates ps ex"
    using that by_priority.sel_complete [OF ex _ that(2)] by_latency.sel_complete [OF ex _ that(2)]
      by_round_robin.sel_complete [OF ex _ that(2)]
    by (cases "fc_Strategy cfg") (simp_all add: selectNextPath_def)
qed

end
