(* ===== verification/Failover.thy ===== *)
theory Failover
  imports State_Machine Path_Select "HOL-Library.Sublist"
begin

text \<open>
  core/failover.go: the failover manager. Its state is the array of paths and the active index;
  every operation of the source is a function on it. The switch callback is the parameter \<open>cb\<close>,
  which may depend on the state and says whether the new connection was established; the time of
  a call is its argument. Emitted events and callback invocations are recorded in a trace.
\<close>

subsection \<open>Operations\<close>

text \<open>
  An index outside the array is a panic, the result \<open>None\<close>. The clock is read as \<open>clock n\<close>, where
  \<open>n\<close> is the number of recorded events, so that time may pass between the attempts of one failover.
\<close>

definition nth_opt :: "'a list \<Rightarrow> nat \<Rightarrow> 'a option" where
  "nth_opt xs i = (if i < length xs then Some (xs ! i) else None)"

definition emit :: "fo_event \<Rightarrow> Failover \<Rightarrow> Failover" where
  "emit ev f = f\<lparr>fo_trace := fo_trace f @ [ev]\<rparr>"

definition path_name :: "Failover \<Rightarrow> nat \<Rightarrow> string" where
  "path_name f i = pc_Name (pi_Config (fo_paths f ! i))"

definition markUnhealthy :: "time \<Rightarrow> nat \<Rightarrow> Failover \<Rightarrow> Failover" where
  "markUnhealthy now i f =
     f\<lparr>fo_paths := (fo_paths f)[i := (fo_paths f ! i)\<lparr>pi_State := PathUnhealthy, pi_LastCheck := now\<rparr>]\<rparr>"

definition switchTo :: "callback \<Rightarrow> nat \<Rightarrow> nat \<Rightarrow> Failover \<Rightarrow> Failover \<times> bool" where
  "switchTo cb i j f =
     (let fromPath = pi_Config (fo_paths f ! i); toPath = pi_Config (fo_paths f ! j);
          f1 = emit (EvPathChanged (pc_Name fromPath) (pc_Name toPath)) (f\<lparr>fo_active := j\<rparr>);
          ok = cb f1 fromPath toPath
      in (emit (EvSwitch (pc_Name fromPath) (pc_Name toPath) ok) f1, ok))"

lemma fo_fields [simp]:
  "fo_cfg (markUnhealthy now i f) = fo_cfg f" "fo_active (markUnhealthy now i f) = fo_active f"
  "fo_trace (markUnhealthy now i f) = fo_trace f"
  "fo_paths (emit ev f) = fo_paths f" "fo_cfg (emit ev f) = fo_cfg f" "fo_active (emit ev f) = fo_active f"
  "fo_trace (emit ev f) = fo_trace f @ [ev]"
  "length (fo_paths (markUnhealthy now i f)) = length (fo_paths f)"
  by (simp_all add: markUnhealthy_def emit_def)

lemma switchTo_fields [simp]:
  "fo_cfg (fst (switchTo cb i j f)) = fo_cfg f" "fo_paths (fst (switchTo cb i j f)) = fo_paths f"
  "fo_active (fst (switchTo cb i j f)) = j"
  by (simp_all add: switchTo_def Let_def)

function doFailover ::
  "callback \<Rightarrow> (nat \<Rightarrow> time) \<Rightarrow> Failover \<Rightarrow> nat \<Rightarrow> (Failover \<times> bool) option" where
  "doFailover cb clock f failedIdx =
     (if length (fo_paths f) \<le> failedIdx then None
      else let f1 = markUnhealthy (clock (length (fo_trace f))) failedIdx f in
        case selectNextPath (fo_cfg f1) (fo_paths f1) failedIdx of
          None \<Rightarrow> Some (emit EvAllUnhealthy f1, False)
        | Some nextIdx \<Rightarrow>
            (case switchTo cb failedIdx nextIdx f1 of
               (f2, ok) \<Rightarrow> if ok then Some (f2, True) else doFailover cb clock f2 nextIdx))"
  by pat_completeness auto
termination
proof (relation "measure (\<lambda>(cb, clock, f, i). card (candidates (fo_paths f) i))", goal_cases)
  case (2 cb clock f failedIdx f1 nextIdx f2 ok)
  have "fo_paths f2 = fo_paths f1"
    using 2(4) by (metis fst_conv switchTo_fields(2))
  moreover have "fo_paths f1 = (fo_paths f)[failedIdx :=
      (fo_paths f ! failedIdx)\<lparr>pi_State := PathUnhealthy, pi_LastCheck := clock (length (fo_trace f))\<rparr>]"
    using 2(2) by (simp add: markUnhealthy_def)
  ultimately show ?case
    using next_path.sel_decreases [of failedIdx "fo_paths f" "fo_paths f1" _ "fo_cfg f1" nextIdx] 2(1,3)
    by (simp add: usable_def)
qed simp

declare doFailover.simps [simp del]

definition ReportFailure ::
  "callback \<Rightarrow> (nat \<Rightarrow> time) \<Rightarrow> string \<Rightarrow> Failover \<Rightarrow> (Failover \<times> bool) option" where
  "ReportFailure cb clock err f =
     (let idx = fo_active f in
      if length (fo_paths f) \<le> idx then Some (f, False)
      else
        let p = fo_paths f ! idx;
            p' = p\<lparr>pi_FailCount := pi_FailCount p + 1, pi_LastError := Some err, pi_SuccessCount := 0\<rparr>;
            f1 = f\<lparr>fo_paths := (fo_paths f)[idx := p']\<rparr>
        in if fc_FailThreshold (fo_cfg f) \<le> pi_FailCount p'
           then doFailover cb clock f1 idx
           else Some (f1, False))"

definition ReportSuccess :: "Failover \<Rightarrow> Failover" where
  "ReportSuccess f =
     (let idx = fo_active f in
      if idx < length (fo_paths f)
      then let p = fo_paths f ! idx in
        f\<lparr>fo_paths := (fo_paths f)[idx :=
            p\<lparr>pi_SuccessCount := pi_SuccessCount p + 1, pi_FailCount := 0, pi_State := PathHealthy\<rparr>]\<rparr>
      else f)"

text \<open>\<open>checkPaths\<close>: the loop over the indices carries the array and \<open>bestRecoveredIdx\<close>.\<close>

definition recovers :: "FailoverConfig \<Rightarrow> time \<Rightarrow> PathInfo \<Rightarrow> bool" where
  "recovers cfg now p \<longleftrightarrow> pi_State p \<noteq> PathDisabled \<and> pi_State p = PathUnhealthy \<and>
     fc_RecoverAfter cfg \<le> now - pi_LastCheck p"

definition recovered :: "time \<Rightarrow> PathInfo \<Rightarrow> PathInfo" where
  "recovered now p = p\<lparr>pi_State := PathDegraded, pi_FailCount := 0, pi_LastCheck := now\<rparr>"

fun checkLoop :: "FailoverConfig \<Rightarrow> time \<Rightarrow> nat \<Rightarrow> nat list \<Rightarrow> PathInfo list \<times> nat option \<Rightarrow>
    (PathInfo list \<times> nat option) option" where
  "checkLoop cfg now activeIdx [] s = Some s"
| "checkLoop cfg now activeIdx (i # is) (ps, bestRecoveredIdx) =
     (if recovers cfg now (ps ! i)
      then let ps' = ps[i := recovered now (ps ! i)] in
        (case nth_opt ps' activeIdx of
           None \<Rightarrow> None
         | Some a \<Rightarrow> checkLoop cfg now activeIdx is
             (ps', if prio (ps' ! i) < prio a then Some i else bestRecoveredIdx))
      else checkLoop cfg now activeIdx is (ps, bestRecoveredIdx))"

definition checkPaths :: "time \<Rightarrow> Failover \<Rightarrow> Failover option" where
  "checkPaths now f =
     (case checkLoop (fo_cfg f) now (fo_active f) [0..<length (fo_paths f)] (fo_paths f, None) of
        None \<Rightarrow> None
      | Some (ps, best) \<Rightarrow>
          let f1 = f\<lparr>fo_paths := ps\<rparr> in
          (case best of
             Some j \<Rightarrow>
               if fc_Strategy (fo_cfg f) = StrategyPriority
               then (case nth_opt ps (fo_active f) of
                   None \<Rightarrow> None
                 | Some a \<Rightarrow>
                     Some (emit (EvAsyncSwitch (pc_Name (pi_Config a)) (path_name f1 j))
                            (emit (EvPathChanged (pc_Name (pi_Config a)) (path_name f1 j))
                              (f1\<lparr>fo_active := j\<rparr>))))
               else Some f1
           | None \<Rightarrow> Some f1))"

definition named_index :: "string \<Rightarrow> PathInfo list \<Rightarrow> nat option" where
  "named_index name ps = find (\<lambda>i. pc_Name (pi_Config (ps ! i)) = name) [0..<length ps]"

definition ForceSwitch :: "callback \<Rightarrow> string \<Rightarrow> Failover \<Rightarrow> (Failover \<times> fo_error option) option" where
  "ForceSwitch cb pathName f =
     (case named_index pathName (fo_paths f) of
        None \<Rightarrow> Some (f, Some (PathNotFound pathName))
      | Some targetIdx \<Rightarrow>
          if targetIdx = fo_active f then Some (f, None)
          else if length (fo_paths f) \<le> fo_active f then None
          else (case switchTo cb (fo_active f) targetIdx f of
                  (f1, ok) \<Rightarrow> Some (f1, if ok then None else Some SwitchFailed)))"

definition DisablePath :: "string \<Rightarrow> Failover \<Rightarrow> Failover" where
  "DisablePath pathName f =
     (case named_index pathName (fo_paths f) of
        None \<Rightarrow> f
      | Some i \<Rightarrow> f\<lparr>fo_paths := (fo_paths f)[i := (fo_paths f ! i)\<lparr>pi_State := PathDisabled\<rparr>]\<rparr>)"

definition EnablePath :: "time \<Rightarrow> string \<Rightarrow> Failover \<Rightarrow> Failover" where
  "EnablePath now pathName f =
     (case named_index pathName (fo_paths f) of
        None \<Rightarrow> f
      | Some i \<Rightarrow> f\<lparr>fo_paths := (fo_paths f)[i := (fo_paths f ! i)
          \<lparr>pi_State := PathDegraded, pi_FailCount := 0, pi_LastCheck := now\<rparr>]\<rparr>)"

definition ActivePath :: "Failover \<Rightarrow> PathConfig" where
  "ActivePath f =
     (if fo_active f < length (fo_paths f) then pi_Config (fo_paths f ! fo_active f)
      else \<lparr>pc_Name = [], pc_RemoteAddr = [], pc_Transport = [], pc_Priority = 0, pc_Weight = 0\<rparr>)"

subsection \<open>One failover\<close>

definition name_at :: "PathInfo list \<Rightarrow> nat \<Rightarrow> string" where
  "name_at ps i = pc_Name (pi_Config (ps ! i))"

text \<open>
  The contract of a failover away from path \<open>x\<close>: the configurations are untouched, \<open>x\<close> is unhealthy,
  only paths that were usable change, each of them after a failed switch; on success the last
  switch succeeded and leads to a usable path, on failure nothing usable is left.
\<close>

definition failover_contract :: "Failover \<Rightarrow> nat \<Rightarrow> Failover \<Rightarrow> bool \<Rightarrow> bool" where
  "failover_contract f x f' r \<longleftrightarrow>
     fo_cfg f' = fo_cfg f \<and>
     map pi_Config (fo_paths f') = map pi_Config (fo_paths f) \<and>
     pi_State (fo_paths f' ! x) = PathUnhealthy \<and>
     prefix (fo_trace f) (fo_trace f') \<and>
     (\<forall>j < length (fo_paths f). j \<noteq> x \<longrightarrow> fo_paths f' ! j \<noteq> fo_paths f ! j \<longrightarrow>
        usable (fo_paths f ! j) \<and> pi_State (fo_paths f' ! j) = PathUnhealthy \<and>
        (\<exists>a. EvSwitch a (name_at (fo_paths f) j) False \<in> set (fo_trace f'))) \<and>
     (if r then fo_active f' \<in> candidates (fo_paths f') x \<and>
        (\<exists>a. last (fo_trace f') = EvSwitch a (name_at (fo_paths f) (fo_active f')) True)
      else last (fo_trace f') = EvAllUnhealthy \<and>
        (fo_active f' = fo_active f \<or> fo_active f' < length (fo_paths f)) \<and>
        (\<forall>j < length (fo_paths f). usable (fo_paths f' ! j) \<longrightarrow> max_int \<le> prio (fo_paths f ! j)))"

lemma nth_prio: "map pi_Config ps = map pi_Config qs \<Longrightarrow> j < length qs \<Longrightarrow> pi_Config (ps ! j) = pi_Config (qs ! j)"
  by (metis length_map nth_map)

lemma markUnhealthy_nth:
  "i < length (fo_paths f) \<Longrightarrow> fo_paths (markUnhealthy now i f) ! j =
     (if j = i then (fo_paths f ! i)\<lparr>pi_State := PathUnhealthy, pi_LastCheck := now\<rparr> else fo_paths f ! j)"
  by (simp add: markUnhealthy_def nth_list_update)

lemma map_update_same: "g y = g (xs ! i) \<Longrightarrow> map g (xs[i := y]) = map g xs"
  by (cases "i < length xs") (simp_all add: map_update list_update_same_conv list_update_beyond)

lemma markUnhealthy_configs [simp]:
  "map pi_Config (fo_paths (markUnhealthy now i f)) = map pi_Config (fo_paths f)"
  by (simp add: markUnhealthy_def map_update_same)

lemma contract_success:
  assumes "x < length (fo_paths f)" "f1 = markUnhealthy now x f" "n \<in> candidates (fo_paths f1) x"
    "switchTo cb x n f1 = (f2, True)"
  shows "failover_contract f x f2 True"
proof -
  have f2: "f2 = fst (switchTo cb x n f1)"
    using assms(4) by simp
  have "last (fo_trace f2) = EvSwitch (name_at (fo_paths f1) x) (name_at (fo_paths f1) n) True"
    "prefix (fo_trace f) (fo_trace f2)"
    using assms(2,4) by (auto simp: switchTo_def Let_def name_at_def)
  moreover have "name_at (fo_paths f1) n = name_at (fo_paths f) n"
    using assms(1,2) by (simp add: name_at_def markUnhealthy_nth)
  ultimately show ?thesis
    using assms(1,2,3) f2 by (simp add: failover_contract_def markUnhealthy_nth)
qed

lemma contract_exhausted:
  assumes "x < length (fo_paths f)" "f1 = markUnhealthy now x f"
    "\<And>j. j \<in> candidates (fo_paths f1) x \<Longrightarrow> max_int \<le> prio (fo_paths f1 ! j)"
  shows "failover_contract f x (emit EvAllUnhealthy f1) False"
  using assms by (auto simp: failover_contract_def markUnhealthy_nth candidates_def usable_def)

lemma contract_retry:
  assumes "x < length (fo_paths f)" "f1 = markUnhealthy now x f" "n \<in> candidates (fo_paths f1) x"
    "switchTo cb x n f1 = (f2, False)" "failover_contract f2 n f3 r"
  shows "failover_contract f x f3 r"
proof -
  have p2: "fo_paths f2 = fo_paths f1" "fo_cfg f2 = fo_cfg f1" "fo_active f2 = n"
    using assms(4) switchTo_fields [of cb x n f1] by auto
  have tr: "fo_trace f2 = fo_trace f @
      [EvPathChanged (name_at (fo_paths f1) x) (name_at (fo_paths f1) n),
       EvSwitch (name_at (fo_paths f1) x) (name_at (fo_paths f1) n) False]"
    using assms(2,4) by (auto simp: switchTo_def Let_def name_at_def)
  have n: "n < length (fo_paths f)" "n \<noteq> x" "usable (fo_paths f ! n)" "fo_paths f1 ! n = fo_paths f ! n"
    using assms(1-3) by (auto simp: candidates_def markUnhealthy_nth)
  have x: "fo_paths f3 ! x = fo_paths f1 ! x" "pi_State (fo_paths f1 ! x) = PathUnhealthy"
    using assms(1,2,5) n(2) p2 by (auto simp: failover_contract_def markUnhealthy_nth usable_def)
  have names: "name_at (fo_paths f1) j = name_at (fo_paths f) j" for j
    using assms(1,2) by (simp add: name_at_def markUnhealthy_nth)
  have cfgs: "map pi_Config (fo_paths f3) = map pi_Config (fo_paths f)" "length (fo_paths f3) = length (fo_paths f)"
    "fo_cfg f3 = fo_cfg f" "prefix (fo_trace f2) (fo_trace f3)" "prefix (fo_trace f) (fo_trace f3)"
    using assms(2,5) p2 tr by (auto simp: failover_contract_def prefix_def dest: map_eq_imp_length_eq)
  have changed: "usable (fo_paths f ! j) \<and> pi_State (fo_paths f3 ! j) = PathUnhealthy \<and>
      (\<exists>a. EvSwitch a (name_at (fo_paths f) j) False \<in> set (fo_trace f3))"
    if "j < length (fo_paths f)" "j \<noteq> x" "fo_paths f3 ! j \<noteq> fo_paths f ! j" for j
  proof (cases "j = n")
    case True
    have "EvSwitch (name_at (fo_paths f) x) (name_at (fo_paths f) n) False \<in> set (fo_trace f3)"
      using cfgs(4) tr set_mono_prefix names by fastforce
    then show ?thesis
      using True n assms(5) by (auto simp: failover_contract_def)
  next
    case False
    then show ?thesis
      using that assms(1,2,5) p2 names by (auto simp: failover_contract_def markUnhealthy_nth)
  qed
  have outcome: "if r then fo_active f3 \<in> candidates (fo_paths f3) n \<and>
        (\<exists>a. last (fo_trace f3) = EvSwitch a (name_at (fo_paths f) (fo_active f3)) True)
      else last (fo_trace f3) = EvAllUnhealthy \<and>
        (fo_active f3 = n \<or> fo_active f3 < length (fo_paths f)) \<and>
        (\<forall>j < length (fo_paths f). usable (fo_paths f3 ! j) \<longrightarrow> max_int \<le> prio (fo_paths f1 ! j))"
    using assms(2,5) p2 names by (auto simp: failover_contract_def)
  have "prio (fo_paths f1 ! j) = prio (fo_paths f ! j)" for j
    using assms(1,2) by (simp add: markUnhealthy_nth)
  moreover have "fo_active f3 \<in> candidates (fo_paths f3) x" if "fo_active f3 \<in> candidates (fo_paths f3) n"
    using that x by (auto simp: candidates_def usable_def)
  ultimately show ?thesis
    using outcome cfgs changed x n(1) unfolding failover_contract_def by (cases r) auto
qed

lemma doFailover_contract:
  "x < length (fo_paths f) \<Longrightarrow> \<exists>f' r. doFailover cb clock f x = Some (f', r) \<and> failover_contract f x f' r"
proof (induction cb clock f x rule: doFailover.induct)
  case (1 cb clock f x)
  define f1 where "f1 = markUnhealthy (clock (length (fo_trace f))) x f"
  have x: "x < length (fo_paths f1)"
    using 1(2) by (simp add: f1_def)
  show ?case
  proof (cases "selectNextPath (fo_cfg f1) (fo_paths f1) x")
    case None
    then have "doFailover cb clock f x = Some (emit EvAllUnhealthy f1, False)"
      using 1(2) by (subst doFailover.simps) (simp add: f1_def Let_def)
    then show ?thesis
      using contract_exhausted [OF 1(2) f1_def] next_path.sel_complete [OF x None] by blast
  next
    case (Some n)
    obtain f2 ok where sw: "switchTo cb x n f1 = (f2, ok)"
      by fastforce
    have n: "n \<in> candidates (fo_paths f1) x"
      using next_path.sel_sound [OF x Some] .
    have eq: "doFailover cb clock f x = (if ok then Some (f2, True) else doFailover cb clock f2 n)"
      using 1(2) Some sw by (subst doFailover.simps) (simp add: f1_def Let_def)
    have "n < length (fo_paths f2)"
      using n sw switchTo_fields(2) [of cb x n f1] by (simp add: candidates_def)
    then show ?thesis
      using 1(1) [OF _ f1_def Some sw [symmetric]] 1(2) sw eq
        contract_success [OF 1(2) f1_def n] contract_retry [OF 1(2) f1_def n]
      by (cases ok) auto
  qed
qed

subsection \<open>The configured paths and the invariant\<close>

definition fo_inv :: "PathConfig list \<Rightarrow> Failover \<Rightarrow> bool" where
  "fo_inv cfgs f \<longleftrightarrow>
     mset (map pi_Config (fo_paths f)) = mset cfgs \<and>
     sorted (map prio (fo_paths f)) \<and>
     fo_active f < length (fo_paths f)"

lemma fo_inv_configs:
  assumes "fo_inv cfgs f" "map pi_Config (fo_paths f') = map pi_Config (fo_paths f)"
    "fo_active f' < length (fo_paths f)"
  shows "fo_inv cfgs f'"
proof -
  have "map prio (fo_paths f') = map prio (fo_paths f)"
    using arg_cong [OF assms(2), of "map pc_Priority"] by (simp add: comp_def)
  moreover have "length (fo_paths f') = length (fo_paths f)"
    using assms(2) by (rule map_eq_imp_length_eq)
  ultimately show ?thesis
    using assms unfolding fo_inv_def by simp
qed

lemma NewFailover_inv:
  assumes "paths \<noteq> []"
  shows "fo_inv paths (NewFailover now paths cfg)"
proof -
  let ?ps = "map (\<lambda>p. \<lparr>pi_Config = p, pi_State = PathHealthy, pi_Latency = 0, pi_LastCheck = now,
      pi_LastError = None, pi_FailCount = 0, pi_SuccessCount = 0\<rparr>) paths"
  have "map pi_Config ?ps = paths"
    by (simp add: comp_def)
  moreover have "mset (map pi_Config (sortPathsByPriority ?ps)) = mset (map pi_Config ?ps)"
    by (simp only: mset_map sort_correct(1))
  ultimately have "mset (map pi_Config (sortPathsByPriority ?ps)) = mset paths"
    by (simp only:)
  moreover have "sorted (map prio (sortPathsByPriority ?ps))"
    by (simp add: sorted_iff_nth_mono_less sort_correct)
  ultimately show ?thesis
    using assms by (simp add: fo_inv_def NewFailover_def sort_correct(3))
qed

lemma failover_contract_inv:
  "fo_inv cfgs f \<Longrightarrow> failover_contract f x f' r \<Longrightarrow> fo_inv cfgs f'"
  by (rule fo_inv_configs [of cfgs f])
    (auto simp: failover_contract_def candidates_def fo_inv_def dest: map_eq_imp_length_eq split: if_splits)

lemma ReportFailure_total:
  assumes "fo_inv cfgs f"
  shows "\<exists>f' r. ReportFailure cb clock err f = Some (f', r) \<and> fo_inv cfgs f'"
proof -
  let ?p = "(fo_paths f ! fo_active f)\<lparr>pi_FailCount := pi_FailCount (fo_paths f ! fo_active f) + 1,
      pi_LastError := Some err, pi_SuccessCount := 0\<rparr>"
  let ?f1 = "f\<lparr>fo_paths := (fo_paths f)[fo_active f := ?p]\<rparr>"
  have a: "fo_active f < length (fo_paths f)"
    using assms by (simp add: fo_inv_def)
  have inv1: "fo_inv cfgs ?f1"
    using assms a by (auto intro!: fo_inv_configs [of cfgs f] map_update_same)
  have eq: "ReportFailure cb clock err f =
      (if fc_FailThreshold (fo_cfg f) \<le> pi_FailCount ?p then doFailover cb clock ?f1 (fo_active f)
       else Some (?f1, False))"
    using a by (simp add: ReportFailure_def Let_def)
  show ?thesis
    using doFailover_contract [of "fo_active f" ?f1 cb clock] a inv1 failover_contract_inv [OF inv1]
    unfolding eq by fastforce
qed

lemma ReportSuccess_inv: "fo_inv cfgs f \<Longrightarrow> fo_inv cfgs (ReportSuccess f)"
  by (rule fo_inv_configs [of cfgs f])
    (auto simp: ReportSuccess_def Let_def fo_inv_def intro!: map_update_same)

lemma named_index_less: "named_index name ps = Some i \<Longrightarrow> i < length ps"
  by (auto simp: named_index_def dest!: find_SomeD)

lemma DisablePath_inv: "fo_inv cfgs f \<Longrightarrow> fo_inv cfgs (DisablePath name f)"
  by (rule fo_inv_configs [of cfgs f])
    (auto simp: DisablePath_def fo_inv_def split: option.splits intro!: map_update_same)

lemma EnablePath_inv: "fo_inv cfgs f \<Longrightarrow> fo_inv cfgs (EnablePath now name f)"
  by (rule fo_inv_configs [of cfgs f])
    (auto simp: EnablePath_def fo_inv_def split: option.splits intro!: map_update_same)

lemma ForceSwitch_total:
  assumes "fo_inv cfgs f"
  shows "\<exists>f' e. ForceSwitch cb name f = Some (f', e) \<and> fo_inv cfgs f'"
proof (cases "named_index name (fo_paths f)")
  case None
  then show ?thesis
    using assms by (simp add: ForceSwitch_def)
next
  case (Some i)
  obtain f1 ok where sw: "switchTo cb (fo_active f) i f = (f1, ok)"
    by fastforce
  have "fo_inv cfgs (fst (switchTo cb (fo_active f) i f))"
    by (rule fo_inv_configs [OF assms]) (simp_all add: named_index_less [OF Some])
  moreover have "fo_active f < length (fo_paths f)"
    using assms by (simp add: fo_inv_def)
  ultimately show ?thesis
    using assms Some sw by (simp add: ForceSwitch_def)
qed

subsection \<open>Recovery\<close>

definition recovered_all :: "FailoverConfig \<Rightarrow> time \<Rightarrow> PathInfo list \<Rightarrow> PathInfo list" where
  "recovered_all cfg now ps = map (\<lambda>p. if recovers cfg now p then recovered now p else p) ps"

lemma recovered_config [simp]: "pi_Config (recovered now p) = pi_Config p"
  by (simp add: recovered_def)

lemma recovered_all_configs [simp]:
  "map pi_Config (recovered_all cfg now ps) = map pi_Config ps" "length (recovered_all cfg now ps) = length ps"
  by (simp_all add: recovered_all_def)

text \<open>
  The loop recovers every unhealthy path whose time has come, and remembers the last index whose
  path is preferred to the active one.
\<close>

definition better_recovered :: "FailoverConfig \<Rightarrow> time \<Rightarrow> nat \<Rightarrow> PathInfo list \<Rightarrow> nat list" where
  "better_recovered cfg now a ps =
     filter (\<lambda>i. recovers cfg now (ps ! i) \<and> prio (ps ! i) < prio (ps ! a)) [0..<length ps]"

definition last_opt :: "'a list \<Rightarrow> 'a option" where
  "last_opt xs = (if xs = [] then None else Some (last xs))"

lemma sorted_last_Max: "sorted xs \<Longrightarrow> xs \<noteq> [] \<Longrightarrow> last xs = Max (set xs)"
  by (induction xs) (auto simp: max_def dest: last_in_set)

lemma checkLoop_prefix:
  assumes "a < length ps" "k \<le> length ps"
  shows "checkLoop cfg now a [k..<length ps]
      (recovered_all cfg now (take k ps) @ drop k ps,
       last_opt (filter (\<lambda>i. recovers cfg now (ps ! i) \<and> prio (ps ! i) < prio (ps ! a)) [0..<k])) =
    Some (recovered_all cfg now ps, last_opt (better_recovered cfg now a ps))"
  using assms(2)
proof (induction k rule: inc_induct)
  case base
  then show ?case by (simp add: better_recovered_def)
next
  case (step k)
  let ?qs = "recovered_all cfg now (take k ps) @ drop k ps"
  have k: "?qs ! k = ps ! k" "[k..<length ps] = k # [Suc k..<length ps]"
    using step by (simp_all add: nth_append upt_conv_Cons)
  have upd: "?qs[k := x] = recovered_all cfg now (take k ps) @ x # drop (Suc k) ps" for x
    using step by (simp add: list_update_append flip: Cons_nth_drop_Suc)
  have take: "recovered_all cfg now (take (Suc k) ps) @ drop (Suc k) ps =
      (if recovers cfg now (ps ! k) then ?qs[k := recovered now (ps ! k)] else ?qs)"
    unfolding upd using step by (simp add: take_Suc_conv_app_nth recovered_all_def Cons_nth_drop_Suc)
  have cfg: "prio ((?qs[k := recovered now (ps ! k)]) ! i) = prio (ps ! i)" if "i < length ps" for i
    using that step by (auto simp: nth_list_update nth_append recovered_all_def)
  show ?case
    using step.IH step.hyps assms(1) cfg [OF assms(1)] cfg [of k]
    unfolding k take
    by (auto simp: k(1) nth_opt_def last_opt_def Let_def)
qed

lemma checkLoop_all:
  "a < length ps \<Longrightarrow> checkLoop cfg now a [0..<length ps] (ps, None) =
     Some (recovered_all cfg now ps, last_opt (better_recovered cfg now a ps))"
  using checkLoop_prefix [of a ps 0 cfg now] by (simp add: recovered_all_def last_opt_def)

lemma checkPaths_total:
  assumes "fo_inv cfgs f"
  shows "\<exists>f'. checkPaths now f = Some f' \<and> fo_inv cfgs f'"
proof -
  have a: "fo_active f < length (fo_paths f)"
    using assms by (simp add: fo_inv_def)
  let ?b = "better_recovered (fo_cfg f) now (fo_active f) (fo_paths f)"
  have "last ?b < length (fo_paths f)" if "?b \<noteq> []"
    using last_in_set [OF that] by (simp add: better_recovered_def)
  then show ?thesis
    using a assms
    by (auto simp: checkPaths_def checkLoop_all [OF a] last_opt_def nth_opt_def Let_def
        intro!: fo_inv_configs [of cfgs f])
qed

subsection \<open>The failover manager as a transition system\<close>

text \<open>
  The callers of the manager (the engine, the health loop, the API) invoke the operations in any
  order; the callback, the clock and the reported errors are those of the environment.
\<close>

inductive fo_step :: "Failover \<Rightarrow> Failover \<Rightarrow> bool" where
  step_failure: "ReportFailure cb clock err f = Some (f', r) \<Longrightarrow> fo_step f f'"
| step_success: "fo_step f (ReportSuccess f)"
| step_check: "checkPaths now f = Some f' \<Longrightarrow> fo_step f f'"
| step_force: "ForceSwitch cb name f = Some (f', e) \<Longrightarrow> fo_step f f'"
| step_disable: "fo_step f (DisablePath name f)"
| step_enable: "fo_step f (EnablePath now name f)"

definition fo_init :: "PathConfig list \<Rightarrow> Failover \<Rightarrow> bool" where
  "fo_init cfgs f \<longleftrightarrow> cfgs \<noteq> [] \<and> (\<exists>now cfg. f = NewFailover now cfgs cfg)"

lemma fo_step_inv: "fo_step f f' \<Longrightarrow> fo_inv cfgs f \<Longrightarrow> fo_inv cfgs f'"
proof (induction rule: fo_step.induct)
  case (step_failure cb clock err f f' r)
  then show ?case
    using ReportFailure_total [of cfgs f cb clock err] by auto
next
  case (step_check now f f')
  then show ?case
    using checkPaths_total [of cfgs f now] by auto
next
  case (step_force cb name f f' e)
  then show ?case
    using ForceSwitch_total [of cfgs f cb name] by auto
qed (auto intro: ReportSuccess_inv DisablePath_inv EnablePath_inv)

interpretation failover_system: inductive_invariant "fo_init cfgs" fo_step "fo_inv cfgs" for cfgs
  by unfold_locales (auto simp: fo_init_def intro: NewFailover_inv fo_step_inv)

subsection \<open>Properties\<close>

text \<open>
  C2: Whatever sequence of operations the engine, the health loop and the API perform on a
  failover manager created with at least one path, the configured paths stay exactly the given
  ones, ordered by priority, the active index names one of them, and no further operation
  panics: failure reports, health checks and forced switches all return.
\<close>

theorem failover_reachable_safe:
  assumes "reachable (fo_init cfgs) fo_step f"
  shows "mset (map pi_Config (fo_paths f)) = mset cfgs \<and> sorted (map prio (fo_paths f)) \<and>
    fo_active f < length (fo_paths f) \<and> ActivePath f \<in> set cfgs \<and>
    ReportFailure cb clock err f \<noteq> None \<and> checkPaths now f \<noteq> None \<and> ForceSwitch cb name f \<noteq> None"
proof -
  have inv: "fo_inv cfgs f"
    using failover_system.reachable_inv [OF assms] .
  then have "pi_Config (fo_paths f ! fo_active f) \<in> set (map pi_Config (fo_paths f))"
    "set (map pi_Config (fo_paths f)) = set cfgs"
    by (auto simp: fo_inv_def simp del: mset_map set_map dest: mset_eq_setD)
      (simp add: fo_inv_def)
  then show ?thesis
    using inv ReportFailure_total [OF inv, of cb clock err] checkPaths_total [OF inv, of now]
      ForceSwitch_total [OF inv, of cb name]
    by (auto simp: fo_inv_def ActivePath_def)
qed

definition sample_path :: "string \<Rightarrow> int \<Rightarrow> PathConfig" where
  "sample_path name p = \<lparr>pc_Name = name, pc_RemoteAddr = [], pc_Transport = [], pc_Priority = p, pc_Weight = 1\<rparr>"

theorem failover_reachable_safe_witness:
  "fo_active (ReportSuccess (NewFailover 0 [sample_path ''b'' 2, sample_path ''a'' 1] DefaultFailoverConfig)) < 2"
proof -
  let ?cfgs = "[sample_path ''b'' 2, sample_path ''a'' 1]"
  have "reachable (fo_init ?cfgs) fo_step (ReportSuccess (NewFailover 0 ?cfgs DefaultFailoverConfig))"
    by (intro reach_step [where step = fo_step, OF _ step_success] reach_init) (auto simp: fo_init_def)
  from failover_reachable_safe [OF this]
  have "fo_active (ReportSuccess (NewFailover 0 ?cfgs DefaultFailoverConfig)) <
      length (fo_paths (ReportSuccess (NewFailover 0 ?cfgs DefaultFailoverConfig)))"
    by blast
  then show ?thesis
    by (simp add: ReportSuccess_def NewFailover_def Let_def sort_correct)
qed

text \<open>
  C7: When the failure count of the active path reaches the threshold, the failover terminates.
  It reports success exactly with a usable path active, different from the failed one, whose
  switch callback succeeded. It reports failure only after every path that was usable has been
  tried with a failing callback, leaving every path unusable. Paths that were disabled or unhealthy
  are never tried, and the failed path is marked unhealthy.
\<close>

theorem failover_outcome:
  assumes "fo_active f < length (fo_paths f)"
    and "fc_FailThreshold (fo_cfg f) \<le> pi_FailCount (fo_paths f ! fo_active f) + 1"
    and "\<forall>p \<in> set (fo_paths f). prio p < max_int"
  shows "\<exists>f' r. ReportFailure cb clock err f = Some (f', r) \<and>
    pi_State (fo_paths f' ! fo_active f) = PathUnhealthy \<and>
    (r \<longrightarrow> fo_active f' \<noteq> fo_active f \<and> usable (fo_paths f' ! fo_active f') \<and>
       (\<exists>a. last (fo_trace f') = EvSwitch a (name_at (fo_paths f) (fo_active f')) True)) \<and>
    (\<not> r \<longrightarrow> (\<forall>j < length (fo_paths f). \<not> usable (fo_paths f' ! j)) \<and>
       (\<forall>j \<in> candidates (fo_paths f) (fo_active f).
          \<exists>a. EvSwitch a (name_at (fo_paths f) j) False \<in> set (fo_trace f'))) \<and>
    (\<forall>j < length (fo_paths f). j \<noteq> fo_active f \<longrightarrow> \<not> usable (fo_paths f ! j) \<longrightarrow>
       fo_paths f' ! j = fo_paths f ! j)"
proof -
  let ?x = "fo_active f"
  let ?p = "(fo_paths f ! ?x)\<lparr>pi_FailCount := pi_FailCount (fo_paths f ! ?x) + 1,
      pi_LastError := Some err, pi_SuccessCount := 0\<rparr>"
  let ?f1 = "f\<lparr>fo_paths := (fo_paths f)[?x := ?p]\<rparr>"
  have eq: "ReportFailure cb clock err f = doFailover cb clock ?f1 ?x"
    using assms(1,2) by (simp add: ReportFailure_def Let_def)
  obtain f' r where f': "doFailover cb clock ?f1 ?x = Some (f', r)" "failover_contract ?f1 ?x f' r"
    using doFailover_contract [of ?x ?f1 cb clock] assms(1) by auto
  have prios: "prio (fo_paths f ! j) < max_int" if "j < length (fo_paths f)" for j
    using assms(3) that by simp
  have names: "name_at ((fo_paths f)[?x := ?p]) j = name_at (fo_paths f) j" for j
    using assms(1) by (simp add: name_at_def nth_list_update)
  have other: "(fo_paths f)[?x := ?p] ! j = fo_paths f ! j" if "j \<noteq> ?x" for j
    using that by simp
  have prio1: "prio ((fo_paths f)[?x := ?p] ! j) = prio (fo_paths f ! j)" for j
    using assms(1) by (simp add: nth_list_update)
  have left: "\<not> usable (fo_paths f' ! j)" if "\<not> r" "j < length (fo_paths f)" for j
    using f'(2) that prios [OF that(2)] prio1 by (fastforce simp: failover_contract_def)
  have tried: "\<exists>a. EvSwitch a (name_at (fo_paths f) j) False \<in> set (fo_trace f')"
    if "\<not> r" "j \<in> candidates (fo_paths f) ?x" for j
  proof -
    have "j < length (fo_paths f)" "j \<noteq> ?x" "fo_paths f' ! j \<noteq> fo_paths f ! j"
      using that(2) left [OF that(1), of j] by (auto simp: candidates_def)
    then show ?thesis
      using f'(2) names other by (simp add: failover_contract_def)
  qed
  show ?thesis
    using f' left tried names other unfolding eq failover_contract_def
    by (intro exI [of _ f'] exI [of _ r]) (auto simp: candidates_def)
qed

definition sample_info :: "string \<Rightarrow> int \<Rightarrow> PathState \<Rightarrow> PathInfo" where
  "sample_info name p st = \<lparr>pi_Config = sample_path name p, pi_State = st, pi_Latency = 0, pi_LastCheck = 0,
     pi_LastError = None, pi_FailCount = 2, pi_SuccessCount = 0\<rparr>"

definition sample_failover :: "PathInfo list \<Rightarrow> nat \<Rightarrow> Failover" where
  "sample_failover ps a = \<lparr>fo_cfg = DefaultFailoverConfig, fo_paths = ps, fo_active = a, fo_trace = []\<rparr>"

theorem failover_outcome_witness:
  "\<exists>f' r. ReportFailure (\<lambda>_ _ to. pc_Name to = ''c'') (\<lambda>_. 5) ''timeout''
     (sample_failover [sample_info ''a'' 1 PathHealthy, sample_info ''b'' 2 PathDisabled,
        sample_info ''c'' 3 PathHealthy] 0) = Some (f', r) \<and>
     pi_State (fo_paths f' ! 0) = PathUnhealthy \<and>
     fo_paths f' ! 1 = sample_info ''b'' 2 PathDisabled"
  using failover_outcome [of "sample_failover [sample_info ''a'' 1 PathHealthy,
      sample_info ''b'' 2 PathDisabled, sample_info ''c'' 3 PathHealthy] 0"
      "\<lambda>_ _ to. pc_Name to = ''c''" "\<lambda>_. 5" "''timeout''"]
  by (fastforce simp: sample_failover_def sample_info_def sample_path_def usable_def
      DefaultFailoverConfig_def max_int_def)

text \<open>
  With the priority strategy, the path a failover selects has the smallest priority number of
  all usable paths other than the failed one, and it is the first such path; a new manager starts
  on a path with the smallest priority number.
\<close>

theorem priority_selection_optimal:
  "(fc_Strategy cfg = StrategyPriority \<longrightarrow> ex < length ps \<longrightarrow> selectNextPath cfg ps ex = Some i \<longrightarrow>
      i < length ps \<and> i \<noteq> ex \<and> usable (ps ! i) \<and>
      (\<forall>j < length ps. j \<noteq> ex \<longrightarrow> usable (ps ! j) \<longrightarrow>
         prio (ps ! i) \<le> prio (ps ! j) \<and> (j < i \<longrightarrow> prio (ps ! i) < prio (ps ! j)))) \<and>
   (p \<in> set paths \<longrightarrow> pc_Priority (ActivePath (NewFailover now paths cfg)) \<le> pc_Priority p)"
proof (intro conjI impI)
  assume a: "fc_Strategy cfg = StrategyPriority" "ex < length ps" "selectNextPath cfg ps ex = Some i"
  have i: "i \<in> candidates ps ex"
    using next_path.sel_sound [OF a(2,3)] .
  have sel: "selectByPriority ps ex = Some i"
    using a(1,3) by (simp add: selectNextPath_def)
  show "i < length ps" "i \<noteq> ex" "usable (ps ! i)"
    using i by (auto simp: candidates_def)
  show "\<forall>j < length ps. j \<noteq> ex \<longrightarrow> usable (ps ! j) \<longrightarrow>
      prio (ps ! i) \<le> prio (ps ! j) \<and> (j < i \<longrightarrow> prio (ps ! i) < prio (ps ! j))"
    using selectByPriority_best [OF sel] by (simp add: candidates_def)
next
  assume p: "p \<in> set paths"
  let ?f = "NewFailover now paths cfg"
  have inv: "fo_inv paths ?f"
    using p by (intro NewFailover_inv) auto
  have "set (map pi_Config (fo_paths ?f)) = set paths"
    using inv unfolding fo_inv_def by (blast dest: mset_eq_setD)
  then have "p \<in> set (map pi_Config (fo_paths ?f))"
    using p by simp
  then obtain j where j: "j < length (fo_paths ?f)" "pi_Config (fo_paths ?f ! j) = p"
    by (auto simp: in_set_conv_nth)
  moreover have "fo_active ?f = 0"
    by (simp add: NewFailover_def)
  moreover have "prio (fo_paths ?f ! 0) \<le> prio (fo_paths ?f ! j)"
  proof -
    have "0 < length (fo_paths ?f)"
      using j(1) by linarith
    then show ?thesis
      using inv j(1) sorted_nth_mono [of "map prio (fo_paths ?f)" 0 j] by (simp add: fo_inv_def)
  qed
  ultimately show "pc_Priority (ActivePath ?f) \<le> pc_Priority p"
    by (auto simp: ActivePath_def)
qed

theorem priority_selection_optimal_witness:
  "pc_Priority (ActivePath (NewFailover 0 [sample_path ''b'' 2, sample_path ''a'' 1] DefaultFailoverConfig)) \<le> 1 \<and>
   prio (sample_info ''c'' 3 PathDegraded) \<le> prio (sample_info ''d'' 4 PathHealthy)"
proof -
  let ?ps = "[sample_info ''a'' 1 PathUnhealthy, sample_info ''b'' 2 PathDisabled,
      sample_info ''c'' 3 PathDegraded, sample_info ''d'' 4 PathHealthy]"
  have sel: "selectNextPath DefaultFailoverConfig ?ps 0 = Some 2"
    by (simp add: selectNextPath_def selectByPriority_def DefaultFailoverConfig_def sample_info_def
        sample_path_def max_int_def)
  have strat: "fc_Strategy DefaultFailoverConfig = StrategyPriority" "0 < length ?ps"
    by (simp_all add: DefaultFailoverConfig_def)
  have "\<forall>j < length ?ps. j \<noteq> 0 \<longrightarrow> usable (?ps ! j) \<longrightarrow> prio (?ps ! 2) \<le> prio (?ps ! j)"
    using priority_selection_optimal [of DefaultFailoverConfig 0 ?ps 2] sel strat by blast
  then have "prio (?ps ! 2) \<le> prio (?ps ! 3)"
    by (auto simp: sample_info_def usable_def dest!: spec [of _ "3::nat"])
  moreover have "pc_Priority (ActivePath (NewFailover 0 [sample_path ''b'' 2, sample_path ''a'' 1]
      DefaultFailoverConfig)) \<le> pc_Priority (sample_path ''a'' 1)"
    using priority_selection_optimal [of DefaultFailoverConfig 0 "[]" 0 "sample_path ''a'' 1"] by simp
  ultimately show ?thesis
    by (simp add: sample_path_def)
qed

text \<open>
  A health check puts every unhealthy path whose recovery time has passed back into the degraded
  state and leaves the others alone. Under the priority strategy it then switches to the last,
  that is the least preferred, of the recovered paths that beat the active one, not to the best
  of them.
\<close>

theorem recovery_switches_to_last:
  assumes "fo_inv cfgs f"
  shows "\<exists>f'. checkPaths now f = Some f' \<and>
    fo_paths f' = map (\<lambda>p. if recovers (fo_cfg f) now p then recovered now p else p) (fo_paths f) \<and>
    (let R = {i. i < length (fo_paths f) \<and> recovers (fo_cfg f) now (fo_paths f ! i) \<and>
                 prio (fo_paths f ! i) < prio (fo_paths f ! fo_active f)}
     in if R \<noteq> {} \<and> fc_Strategy (fo_cfg f) = StrategyPriority
        then fo_active f' = Max R \<and> (\<forall>i \<in> R. prio (fo_paths f ! i) \<le> prio (fo_paths f ! fo_active f'))
        else fo_active f' = fo_active f)"
proof -
  have a: "fo_active f < length (fo_paths f)"
    using assms by (simp add: fo_inv_def)
  let ?b = "better_recovered (fo_cfg f) now (fo_active f) (fo_paths f)"
  define R where "R = {i. i < length (fo_paths f) \<and> recovers (fo_cfg f) now (fo_paths f ! i) \<and>
      prio (fo_paths f ! i) < prio (fo_paths f ! fo_active f)}"
  have b: "set ?b = R" "sorted ?b"
    by (auto simp: better_recovered_def R_def sorted_wrt_filter)
  then have last: "?b \<noteq> [] \<Longrightarrow> last ?b = Max R"
    using sorted_last_Max by blast
  have R: "finite R" "?b = [] \<longleftrightarrow> R = {}"
    using b(1) by auto
  have "prio (fo_paths f ! i) \<le> prio (fo_paths f ! Max R)" if "i \<in> R" for i
  proof -
    have "Max R \<in> R" "i \<le> Max R"
      using R(1) that by (auto intro: Max_in)
    then show ?thesis
      using assms sorted_nth_mono [of "map prio (fo_paths f)" i "Max R"] by (simp add: fo_inv_def R_def)
  qed
  then show ?thesis
    unfolding R_def [symmetric] Let_def
    using a R(2) last
    by (auto simp: checkPaths_def checkLoop_all [OF a] last_opt_def nth_opt_def Let_def recovered_all_def)
qed

theorem recovery_switches_to_last_witness:
  "fo_inv [sample_path ''a'' 1, sample_path ''b'' 2, sample_path ''c'' 3]
     (sample_failover [sample_info ''a'' 1 PathUnhealthy, sample_info ''b'' 2 PathUnhealthy,
        sample_info ''c'' 3 PathHealthy] 2) \<and>
   (\<exists>f'. checkPaths (60 * second) (sample_failover [sample_info ''a'' 1 PathUnhealthy,
        sample_info ''b'' 2 PathUnhealthy, sample_info ''c'' 3 PathHealthy] 2) = Some f' \<and> fo_active f' = 1)"
proof -
  let ?f = "sample_failover [sample_info ''a'' 1 PathUnhealthy, sample_info ''b'' 2 PathUnhealthy,
      sample_info ''c'' 3 PathHealthy] 2"
  let ?cs = "[sample_path ''a'' 1, sample_path ''b'' 2, sample_path ''c'' 3]"
  have inv: "fo_inv ?cs ?f"
    by (simp add: fo_inv_def sample_failover_def sample_info_def sample_path_def)
  have R: "{i. i < length (fo_paths ?f) \<and> recovers (fo_cfg ?f) (60 * second) (fo_paths ?f ! i) \<and>
      prio (fo_paths ?f ! i) < prio (fo_paths ?f ! fo_active ?f)} = {0, 1}"
    by (auto simp: sample_failover_def sample_info_def sample_path_def recovers_def DefaultFailoverConfig_def
        second_def less_Suc_eq numeral_3_eq_3)
  show ?thesis
    using inv recovery_switches_to_last [OF inv, of "60 * second"] unfolding R
    by (auto simp: sample_failover_def DefaultFailoverConfig_def)
qed

end
