(* ===== verification/Security.thy ===== *)
theory Security
  imports Go_Net State_Machine
begin

text \<open>
  internal/security/security.go: access lists, certificate pins, brute-force protection and the
  audit log of the server. The two address maps only ever hold the value true, so they are the
  sets of their keys; SHA-256 is the parameter \<open>sha256\<close>, whose result is printed as hexadecimal.
\<close>

record AuditEntry =
  ae_Timestamp :: time
  ae_Event :: string
  ae_Source :: string
  ae_UserID :: string
  ae_Details :: string
  ae_Success :: bool

record loginAttempts =
  la_count :: int
  la_lastAttempt :: time

record Manager =
  sm_ipWhitelist :: "string set"
  sm_ipBlacklist :: "string set"
  sm_auditLog :: "AuditEntry list"
  sm_certPins :: "string list"
  sm_failedLogins :: "string \<rightharpoonup> loginAttempts"

definition NewManager :: Manager where
  "NewManager = \<lparr>sm_ipWhitelist = {}, sm_ipBlacklist = {}, sm_auditLog = [], sm_certPins = [],
     sm_failedLogins = Map.empty\<rparr>"

subsection \<open>Access lists\<close>

definition AddToWhitelist :: "string \<Rightarrow> Manager \<Rightarrow> Manager" where
  "AddToWhitelist ip m = m\<lparr>sm_ipWhitelist := insert ip (sm_ipWhitelist m)\<rparr>"

definition AddToBlacklist :: "string \<Rightarrow> Manager \<Rightarrow> Manager" where
  "AddToBlacklist ip m = m\<lparr>sm_ipBlacklist := insert ip (sm_ipBlacklist m)\<rparr>"

definition host_of :: "string \<Rightarrow> string" where
  "host_of addr =
     (let host = (case SplitHostPort addr of Inr (h, _) \<Rightarrow> h | Inl _ \<Rightarrow> [])
      in if host = [] then addr else host)"

definition IsAllowed :: "string \<Rightarrow> Manager \<Rightarrow> bool" where
  "IsAllowed addr m =
     (let host = host_of addr in
      if sm_ipBlacklist m \<noteq> {} \<and> host \<in> sm_ipBlacklist m then False
      else if sm_ipWhitelist m \<noteq> {} then host \<in> sm_ipWhitelist m
      else True)"

subsection \<open>Certificate pins\<close>

definition AddCertPin :: "string \<Rightarrow> Manager \<Rightarrow> Manager" where
  "AddCertPin sha256Hash m = m\<lparr>sm_certPins := sm_certPins m @ [sha256Hash]\<rparr>"


definition hex_encode :: "bytes \<Rightarrow> string" where
  "hex_encode bs = concat (map (\<lambda>b. [digit (unat b div 16), digit (unat b mod 16)]) bs)"

definition VerifyCertPin :: "(bytes \<Rightarrow> bytes) \<Rightarrow> bytes \<Rightarrow> Manager \<Rightarrow> bool" where
  "VerifyCertPin sha256 certDER m =
     (if sm_certPins m = [] then True
      else (let certHash = hex_encode (sha256 certDER) in list_ex (\<lambda>pin. certHash = pin) (sm_certPins m)))"

subsection \<open>Audit log\<close>

definition Audit ::
  "time \<Rightarrow> string \<Rightarrow> string \<Rightarrow> string \<Rightarrow> string \<Rightarrow> bool \<Rightarrow> Manager \<Rightarrow> Manager" where
  "Audit now event source userID details success m =
     (let entry = \<lparr>ae_Timestamp = now, ae_Event = event, ae_Source = source, ae_UserID = userID,
                   ae_Details = details, ae_Success = success\<rparr>;
          l = sm_auditLog m @ [entry]
      in m\<lparr>sm_auditLog := (if 10000 < length l then drop (length l - 10000) l else l)\<rparr>)"

definition GetAuditLog :: "int \<Rightarrow> Manager \<Rightarrow> AuditEntry list" where
  "GetAuditLog limit m =
     (let n = int (length (sm_auditLog m));
          lim = (if limit \<le> 0 \<or> n < limit then n else limit)
      in drop (nat (n - lim)) (sm_auditLog m))"

subsection \<open>Brute-force protection\<close>

definition RecordFailedLogin :: "time \<Rightarrow> string \<Rightarrow> Manager \<Rightarrow> Manager \<times> bool" where
  "RecordFailedLogin now ip m =
     (let attempts = (case sm_failedLogins m ip of None \<Rightarrow> \<lparr>la_count = 0, la_lastAttempt = 0\<rparr> | Some a \<Rightarrow> a);
          attempts' = \<lparr>la_count = la_count attempts + 1, la_lastAttempt = now\<rparr>;
          m1 = m\<lparr>sm_failedLogins := (sm_failedLogins m)(ip \<mapsto> attempts')\<rparr>
      in if 5 \<le> la_count attempts'
         then (Audit now ''brute_force_blocked'' ip []
                 (''Blocked after '' @ itoa (nat (la_count attempts')) @ '' failed attempts'') False
                 (AddToBlacklist ip m1), True)
         else (m1, False))"

definition ResetFailedLogins :: "string \<Rightarrow> Manager \<Rightarrow> Manager" where
  "ResetFailedLogins ip m = m\<lparr>sm_failedLogins := (sm_failedLogins m)(ip := None)\<rparr>"

definition expired_block :: "time \<Rightarrow> loginAttempts \<Rightarrow> bool" where
  "expired_block now a \<longleftrightarrow> 30 * minute < now - la_lastAttempt a"

definition CleanupExpiredBlocks :: "time \<Rightarrow> Manager \<Rightarrow> Manager" where
  "CleanupExpiredBlocks now m =
     m\<lparr>sm_failedLogins := (\<lambda>ip. case sm_failedLogins m ip of
           None \<Rightarrow> None | Some a \<Rightarrow> if expired_block now a then None else Some a),
       sm_ipBlacklist := {ip \<in> sm_ipBlacklist m.
           case sm_failedLogins m ip of None \<Rightarrow> True | Some a \<Rightarrow> \<not> expired_block now a}\<rparr>"

subsection \<open>Facts\<close>

lemma host_of_TCPAddr: "IP_String ip \<noteq> [] \<Longrightarrow> host_of (TCPAddr_String ip port) = IP_String ip"
  by (simp add: host_of_def SplitHostPort_TCPAddr)

lemma IP_String_nonempty: "IP_String ip \<noteq> []"
  using ipv6_string_colon [of ip] by (auto simp: IP_String_def ipv4_string_def)

lemma RecordFailedLogin_simps:
  "sm_failedLogins (fst (RecordFailedLogin now ip m)) = (sm_failedLogins m)(ip \<mapsto>
     \<lparr>la_count = (case sm_failedLogins m ip of None \<Rightarrow> 0 | Some a \<Rightarrow> la_count a) + 1, la_lastAttempt = now\<rparr>)"
  "sm_ipBlacklist (fst (RecordFailedLogin now ip m)) =
     (if 5 \<le> (case sm_failedLogins m ip of None \<Rightarrow> 0 | Some a \<Rightarrow> la_count a) + 1
      then insert ip (sm_ipBlacklist m) else sm_ipBlacklist m)"
  "sm_ipWhitelist (fst (RecordFailedLogin now ip m)) = sm_ipWhitelist m"
  "snd (RecordFailedLogin now ip m) \<longleftrightarrow> 5 \<le> (case sm_failedLogins m ip of None \<Rightarrow> 0 | Some a \<Rightarrow> la_count a) + 1"
  by (auto simp: RecordFailedLogin_def Audit_def AddToBlacklist_def Let_def split: option.splits)

lemma length_Audit: "length (sm_auditLog m) \<le> 10000 \<Longrightarrow> length (sm_auditLog (Audit now e s u d ok m)) \<le> 10000"
  by (simp add: Audit_def Let_def)

lemma Audit_simps [simp]:
  "sm_ipBlacklist (Audit now e s u d ok m) = sm_ipBlacklist m"
  "sm_ipWhitelist (Audit now e s u d ok m) = sm_ipWhitelist m"
  "sm_failedLogins (Audit now e s u d ok m) = sm_failedLogins m"
  by (simp_all add: Audit_def Let_def)

lemma ResetFailedLogins_simps [simp]:
  "sm_ipBlacklist (ResetFailedLogins ip m) = sm_ipBlacklist m"
  "sm_ipWhitelist (ResetFailedLogins ip m) = sm_ipWhitelist m"
  by (simp_all add: ResetFailedLogins_def)

subsection \<open>The manager as a transition system\<close>

inductive sec_step :: "Manager \<Rightarrow> Manager \<Rightarrow> bool" where
  "sec_step m (AddToWhitelist ip m)"
| "sec_step m (AddToBlacklist ip m)"
| "sec_step m (AddCertPin h m)"
| "sec_step m (Audit now e s u d ok m)"
| "sec_step m (fst (RecordFailedLogin now ip m))"
| "sec_step m (ResetFailedLogins ip m)"
| "sec_step m (CleanupExpiredBlocks now m)"

definition sec_inv :: "Manager \<Rightarrow> bool" where
  "sec_inv m \<longleftrightarrow> length (sm_auditLog m) \<le> 10000 \<and>
     (\<forall>ip a. sm_failedLogins m ip = Some a \<longrightarrow> 1 \<le> la_count a \<and> (5 \<le> la_count a \<longrightarrow> ip \<in> sm_ipBlacklist m))"

lemma sec_step_inv:
  assumes "sec_step m m'" "sec_inv m"
  shows "sec_inv m'"
  using assms
proof cases
  case (5 now ip)
  have "length (sm_auditLog (fst (RecordFailedLogin now ip m))) \<le> 10000"
    using assms(2) by (auto simp: RecordFailedLogin_def AddToBlacklist_def sec_inv_def Let_def intro!: length_Audit)
  moreover have "0 \<le> (case sm_failedLogins m ip of None \<Rightarrow> 0 | Some a \<Rightarrow> la_count a)"
    using assms(2) by (force simp: sec_inv_def split: option.splits)
  ultimately show ?thesis
    using assms(2) unfolding 5 sec_inv_def RecordFailedLogin_simps
    by (auto split: option.splits if_splits)
qed (auto simp: sec_inv_def AddToWhitelist_def AddToBlacklist_def AddCertPin_def ResetFailedLogins_def
    CleanupExpiredBlocks_def length_Audit split: option.splits if_splits)

interpretation security_system: inductive_invariant "\<lambda>m. m = NewManager" sec_step sec_inv
proof
  show "sec_inv m'" if "sec_inv m" "sec_step m m'" for m m'
    using sec_step_inv [OF that(2,1)] .
qed (simp add: NewManager_def sec_inv_def)



definition fail_times :: "string \<Rightarrow> time list \<Rightarrow> Manager \<Rightarrow> Manager" where
  "fail_times ip ts m = foldl (\<lambda>m t. fst (RecordFailedLogin t ip m)) m ts"

lemma fail_times_snoc: "fail_times ip (ts @ [t]) m = fst (RecordFailedLogin t ip (fail_times ip ts m))"
  by (simp add: fail_times_def)

lemma fail_times_state:
  assumes "sm_failedLogins m ip = None" "ip \<notin> sm_ipBlacklist m"
  shows "(case sm_failedLogins (fail_times ip ts m) ip of None \<Rightarrow> 0 | Some a \<Rightarrow> la_count a) = int (length ts) \<and>
    (ip \<in> sm_ipBlacklist (fail_times ip ts m) \<longleftrightarrow> 5 \<le> length ts) \<and>
    (\<forall>ip'. ip' \<noteq> ip \<longrightarrow> ip' \<in> sm_ipBlacklist (fail_times ip ts m) \<longleftrightarrow> ip' \<in> sm_ipBlacklist m) \<and>
    sm_ipWhitelist (fail_times ip ts m) = sm_ipWhitelist m"
proof (induction ts rule: rev_induct)
  case Nil
  then show ?case using assms by (simp add: fail_times_def)
next
  case (snoc t ts)
  then show ?case
    by (auto simp: fail_times_snoc RecordFailedLogin_simps)
qed

text \<open>
  Failures of one address without a success in between block exactly that address, from the
  fifth failure on, however far apart in time the failures are: the documented window of five
  minutes plays no role.
\<close>

theorem fifth_failure_blocks:
  assumes "sm_failedLogins m ip = None" "ip \<notin> sm_ipBlacklist m" "IsAllowed addr m"
  shows "IsAllowed addr (fail_times ip ts m) \<longleftrightarrow> length ts < 5 \<or> host_of addr \<noteq> ip"
  using fail_times_state [OF assms(1,2), of ts] assms(3)
  by (cases "host_of addr = ip") (auto simp: IsAllowed_def Let_def split: if_splits)

theorem fifth_failure_blocks_witness:
  "\<not> IsAllowed ''h:1'' (fail_times ''h'' [0, 100 * minute, 200 * minute, 300 * minute, 400 * minute] NewManager)"
proof -
  have "host_of ''h:1'' = ''h''" "IsAllowed ''h:1'' NewManager"
    by (simp_all add: host_of_def SplitHostPort_def lastIndexByte_def colon_def open_bracket_def
        close_bracket_def IsAllowed_def NewManager_def)
  then show ?thesis
    using fifth_failure_blocks [of NewManager "''h''" "''h:1''" "[0, 100 * minute, 200 * minute, 300 * minute, 400 * minute]"]
    by (simp add: NewManager_def)
qed

end
