(* ===== verification/Plugin.thy ===== *)
theory Plugin
  imports Prelude
begin

text \<open>
  internal/plugin/plugin.go: the plugin registry. A plugin is a value with the optional
  capabilities the registry tests for by type assertion; connections and errors are arbitrary
  types \<open>'c\<close> and \<open>'e\<close>. Maps are partial functions, and where the code ranges over a map the
  order of the iteration is a parameter.
\<close>

record ('c, 'e) Plugin =
  pl_Name :: string
  pl_Version :: string
  pl_Transport :: bool
  pl_Authenticate :: "('c \<Rightarrow> bytes \<Rightarrow> 'e + string \<times> bool) option"
  pl_OnConnect :: "('c \<Rightarrow> 'e + 'c) option"
  pl_Start :: "'e option"
  pl_Stop :: "'e option"

datatype Hook = HookPreConnect | HookPostConnect | HookPreDisconnect | HookOnData | HookOnError

record ('c, 'e) HookContext =
  hc_Hook :: Hook
  hc_Connection :: "'c option"
  hc_Data :: bytes
  hc_UserID :: string
  hc_Error :: "'e option"

text \<open>A handler gets a pointer to the context: it returns the context as it left it.\<close>

type_synonym ('c, 'e) HookHandler = "('c, 'e) HookContext \<Rightarrow> ('c, 'e) HookContext \<times> 'e option"

record ('c, 'e) Registry =
  rg_plugins :: "string \<rightharpoonup> ('c, 'e) Plugin"
  rg_transports :: "string \<rightharpoonup> ('c, 'e) Plugin"
  rg_auth :: "('c, 'e) Plugin list"
  rg_filters :: "('c, 'e) Plugin list"
  rg_hooks :: "Hook \<Rightarrow> ('c, 'e) HookHandler list"

datatype 'e plugin_error = AlreadyRegistered string | PluginNotFound string | FilterFailed string 'e
  | StartFailed string 'e

definition NewRegistry :: "('c, 'e) Registry" where
  "NewRegistry = \<lparr>rg_plugins = Map.empty, rg_transports = Map.empty, rg_auth = [], rg_filters = [],
     rg_hooks = (\<lambda>_. [])\<rparr>"

definition Register :: "('c, 'e) Plugin \<Rightarrow> ('c, 'e) Registry \<Rightarrow> 'e plugin_error + ('c, 'e) Registry" where
  "Register p r =
     (let name = pl_Name p in
      case rg_plugins r name of
        Some _ \<Rightarrow> Inl (AlreadyRegistered name)
      | None \<Rightarrow>
          let r1 = r\<lparr>rg_plugins := (rg_plugins r)(name \<mapsto> p)\<rparr>;
              r2 = (if pl_Transport p then r1\<lparr>rg_transports := (rg_transports r1)(name \<mapsto> p)\<rparr> else r1);
              r3 = (if pl_Authenticate p \<noteq> None then r2\<lparr>rg_auth := rg_auth r2 @ [p]\<rparr> else r2)
          in Inr (if pl_OnConnect p \<noteq> None then r3\<lparr>rg_filters := rg_filters r3 @ [p]\<rparr> else r3))"

text \<open>The error of the plugin's own \<open>Stop\<close> is ignored.\<close>

definition Unregister :: "string \<Rightarrow> ('c, 'e) Registry \<Rightarrow> 'e plugin_error + ('c, 'e) Registry" where
  "Unregister name r =
     (case rg_plugins r name of
        None \<Rightarrow> Inl (PluginNotFound name)
      | Some p \<Rightarrow> Inr (r\<lparr>rg_plugins := (rg_plugins r)(name := None),
                         rg_transports := (rg_transports r)(name := None)\<rparr>))"

definition GetTransport :: "string \<Rightarrow> ('c, 'e) Registry \<Rightarrow> ('c, 'e) Plugin option" where
  "GetTransport name r = rg_transports r name"

definition GetPlugin :: "string \<Rightarrow> ('c, 'e) Registry \<Rightarrow> ('c, 'e) Plugin option" where
  "GetPlugin name r = rg_plugins r name"

datatype PluginType = TransportType | AuthType | FilterType | GenericType

definition plugin_type :: "('c, 'e) Plugin \<Rightarrow> PluginType" where
  "plugin_type p =
     (if pl_Transport p then TransportType
      else if pl_Authenticate p \<noteq> None then AuthType
      else if pl_OnConnect p \<noteq> None then FilterType
      else GenericType)"

definition ListPlugins :: "string list \<Rightarrow> ('c, 'e) Registry \<Rightarrow> (string \<times> string \<times> PluginType) list" where
  "ListPlugins order r =
     map (\<lambda>p. (pl_Name p, pl_Version p, plugin_type p)) (List.map_filter (rg_plugins r) order)"

definition OnHook :: "Hook \<Rightarrow> ('c, 'e) HookHandler \<Rightarrow> ('c, 'e) Registry \<Rightarrow> ('c, 'e) Registry" where
  "OnHook hook handler r = r\<lparr>rg_hooks := (rg_hooks r)(hook := rg_hooks r hook @ [handler])\<rparr>"

primrec run_handlers :: "('c, 'e) HookHandler list \<Rightarrow> ('c, 'e) HookContext \<Rightarrow> ('c, 'e) HookContext \<times> 'e option" where
  "run_handlers [] ctx = (ctx, None)"
| "run_handlers (h # hs) ctx =
     (case h ctx of (ctx', Some e) \<Rightarrow> (ctx', Some e) | (ctx', None) \<Rightarrow> run_handlers hs ctx')"

definition FireHook :: "('c, 'e) HookContext \<Rightarrow> ('c, 'e) Registry \<Rightarrow> ('c, 'e) HookContext \<times> 'e option" where
  "FireHook ctx r = run_handlers (rg_hooks r (hc_Hook ctx)) ctx"

fun filter_loop :: "('c, 'e) Plugin list \<Rightarrow> 'c \<Rightarrow> 'e plugin_error + 'c" where
  "filter_loop [] conn = Inr conn"
| "filter_loop (f # fs) conn =
     (case pl_OnConnect f of
        None \<Rightarrow> filter_loop fs conn
      | Some onConnect \<Rightarrow>
          (case onConnect conn of
             Inl e \<Rightarrow> Inl (FilterFailed (pl_Name f) e)
           | Inr conn' \<Rightarrow> filter_loop fs conn'))"

definition RunFilters :: "'c \<Rightarrow> ('c, 'e) Registry \<Rightarrow> 'e plugin_error + 'c" where
  "RunFilters conn r = filter_loop (rg_filters r) conn"

fun auth_loop :: "('c, 'e) Plugin list \<Rightarrow> 'c \<Rightarrow> bytes \<Rightarrow> 'e + (string \<times> bool) option" where
  "auth_loop [] conn d = Inr None"
| "auth_loop (a # as) conn d =
     (case pl_Authenticate a of
        None \<Rightarrow> auth_loop as conn d
      | Some authenticate \<Rightarrow>
          (case authenticate conn d of
             Inl e \<Rightarrow> Inl e
           | Inr (userID, ok) \<Rightarrow> if ok then Inr (Some (userID, True)) else auth_loop as conn d))"

definition Authenticate :: "'c \<Rightarrow> bytes \<Rightarrow> ('c, 'e) Registry \<Rightarrow> 'e + string \<times> bool" where
  "Authenticate conn d r =
     (case auth_loop (rg_auth r) conn d of
        Inl e \<Rightarrow> Inl e
      | Inr (Some res) \<Rightarrow> Inr res
      | Inr None \<Rightarrow> if rg_auth r = [] then Inr ([], True) else Inr ([], False))"

text \<open>The result of \<open>StartAll\<close> is the error, if any, and the names that were started.\<close>

fun start_loop :: "string list \<Rightarrow> ('c, 'e) Registry \<Rightarrow> 'e plugin_error option \<times> string list" where
  "start_loop [] r = (None, [])"
| "start_loop (n # ns) r =
     (case rg_plugins r n of
        None \<Rightarrow> start_loop ns r
      | Some p \<Rightarrow>
          (case pl_Start p of
             Some e \<Rightarrow> (Some (StartFailed n e), [])
           | None \<Rightarrow> (case start_loop ns r of (res, started) \<Rightarrow> (res, n # started))))"

definition StartAll :: "string list \<Rightarrow> ('c, 'e) Registry \<Rightarrow> 'e plugin_error option \<times> string list" where
  "StartAll order r = start_loop order r"

text \<open>\<open>StopAll\<close> stops every plugin and only logs the errors: the names whose stop failed.\<close>

definition StopAll :: "string list \<Rightarrow> ('c, 'e) Registry \<Rightarrow> string list" where
  "StopAll order r = filter (\<lambda>n. case rg_plugins r n of None \<Rightarrow> False | Some p \<Rightarrow> pl_Stop p \<noteq> None) order"

subsection \<open>Facts\<close>

lemma filter_loop_append:
  "filter_loop (fs @ gs) conn = andThen (filter_loop fs conn) (filter_loop gs)"
  by (induction fs conn rule: filter_loop.induct) (auto split: option.splits sum.splits)

lemma Register_filters:
  "Register p r = Inr r' \<Longrightarrow> rg_filters r' = rg_filters r @ (if pl_OnConnect p = None then [] else [p])"
  by (auto simp: Register_def Let_def split: option.splits if_splits)

lemma Register_auth:
  "Register p r = Inr r' \<Longrightarrow> rg_auth r' = rg_auth r @ (if pl_Authenticate p = None then [] else [p])"
  by (auto simp: Register_def Let_def split: option.splits if_splits)

lemma Register_plugins:
  "Register p r = Inr r' \<Longrightarrow> rg_plugins r (pl_Name p) = None \<and> rg_plugins r' = (rg_plugins r)(pl_Name p \<mapsto> p) \<and>
     rg_transports r' = (if pl_Transport p then (rg_transports r)(pl_Name p \<mapsto> p) else rg_transports r)"
  by (auto simp: Register_def Let_def split: option.splits if_splits)

lemma RunFilters_Register:
  "Register p r = Inr r' \<Longrightarrow> RunFilters conn r' =
     (case pl_OnConnect p of None \<Rightarrow> RunFilters conn r
      | Some f \<Rightarrow> andThen (RunFilters conn r) (\<lambda>c. map_sum (FilterFailed (pl_Name p)) id (f c)))"
  by (cases "filter_loop (rg_filters r) conn")
    (auto simp: RunFilters_def Register_filters filter_loop_append split: option.splits sum.splits)

text \<open>
  Registering a filter plugin appends its filter to the connection pipeline; unregistering it
  removes it from the lookups but leaves its filter and its authenticator in place, so that
  registering a replacement under the same name makes connections pass through both filters.
\<close>

theorem unregistered_filter_stays:
  assumes "Register p r = Inr r1" "Unregister (pl_Name p) r1 = Inr r2"
    and "Register q r2 = Inr r3" "pl_Name q = pl_Name p"
    and "pl_OnConnect p = Some f" "pl_OnConnect q = Some g"
  shows "GetPlugin (pl_Name p) r2 = None \<and> GetTransport (pl_Name p) r2 = None \<and>
    RunFilters conn r2 = RunFilters conn r1 \<and> Authenticate conn d r2 = Authenticate conn d r1 \<and>
    RunFilters conn r3 =
      andThen (RunFilters conn r) (\<lambda>c. andThen (map_sum (FilterFailed (pl_Name p)) id (f c))
        (\<lambda>c'. map_sum (FilterFailed (pl_Name p)) id (g c')))"
proof -
  have r2: "r2 = r1\<lparr>rg_plugins := (rg_plugins r1)(pl_Name p := None),
      rg_transports := (rg_transports r1)(pl_Name p := None)\<rparr>"
    using assms(2) by (auto simp: Unregister_def split: option.splits)
  have same: "RunFilters conn r2 = RunFilters conn r1" "Authenticate conn d r2 = Authenticate conn d r1"
    by (simp_all add: r2 RunFilters_def Authenticate_def)
  show ?thesis
    using same RunFilters_Register [OF assms(1), of conn] RunFilters_Register [OF assms(3), of conn] assms(4-6)
    by (auto simp: r2 GetPlugin_def GetTransport_def andThen_assoc)
qed

definition add_filter :: "string \<Rightarrow> nat \<Rightarrow> (nat, unit) Plugin" where
  "add_filter name k = \<lparr>pl_Name = name, pl_Version = ''1'', pl_Transport = False, pl_Authenticate = None,
     pl_OnConnect = Some (\<lambda>c. Inr (c + k)), pl_Start = None, pl_Stop = None\<rparr>"

theorem unregistered_filter_stays_witness:
  "\<exists>r1 r2 r3. Register (add_filter ''f'' 1) NewRegistry = Inr r1 \<and> Unregister ''f'' r1 = Inr r2 \<and>
     Register (add_filter ''f'' 10) r2 = Inr r3 \<and> RunFilters 0 r3 = Inr 11"
proof -
  obtain r1 where r1: "Register (add_filter ''f'' 1) NewRegistry = Inr r1"
    by (simp add: Register_def NewRegistry_def add_filter_def)
  then obtain r2 where r2: "Unregister ''f'' r1 = Inr r2"
    using Register_plugins [OF r1] by (auto simp: Unregister_def add_filter_def)
  then have "rg_plugins r2 ''f'' = None"
    by (auto simp: Unregister_def split: option.splits)
  then obtain r3 where r3: "Register (add_filter ''f'' 10) r2 = Inr r3"
    by (simp add: Register_def add_filter_def Let_def)
  have "RunFilters 0 r3 = Inr 11"
    using unregistered_filter_stays [OF r1 _ r3, of "\<lambda>c. Inr (c + 1)" "\<lambda>c. Inr (c + 10)" 0 "[]"] r2
    by (simp add: add_filter_def RunFilters_def NewRegistry_def)
  then show ?thesis
    using r1 r2 r3 by blast
qed

end
