(* ===== verification/Server_Conn.thy ===== *)
theory Server_Conn
  imports Security Plugin Aead Dest_Header
begin

text \<open>
  internal/server/server.go and internal/client/client.go: the authentication handshake of both
  sides and the server's handling of one connection (access lists, handshake, brute-force
  protection, plugin filters, then the stream). The peer's bytes are the input of the connection
  after its reads; a rate-limited connection carries the same bytes.
\<close>

subsection \<open>The handshake\<close>

definition hello_msg :: bytes where "hello_msg = bytes_of ''iPShadowT-HELLO''"
definition ok_msg :: bytes where "ok_msg = bytes_of ''iPShadowT-OK''"

datatype 'w hs_error = HsRead aead_error | HsInvalidHello | HsWrite "'w frame_write_error" | HsRejected bytes

text \<open>The result is the error or the rest of the input, and the bytes written.\<close>

definition server_handshake ::
  "seal \<Rightarrow> unseal \<Rightarrow> bytes option \<Rightarrow> (bytes \<Rightarrow> 'w option) \<Rightarrow> bytes \<Rightarrow> ('w hs_error + bytes) \<times> bytes" where
  "server_handshake seal unseal rnd w inp =
     (case ReadEncryptedFrame unseal inp of
        Inl e \<Rightarrow> (Inl (HsRead e), [])
      | Inr (hello, rest) \<Rightarrow>
          if hello \<noteq> hello_msg then (Inl HsInvalidHello, [])
          else (case WriteEncryptedFrame seal rnd w ok_msg of
                  (Some e, out) \<Rightarrow> (Inl (HsWrite e), out)
                | (None, out) \<Rightarrow> (Inr rest, out)))"

text \<open>
  The client writes first and then reads: \<open>client_hello\<close> is what it sends, \<open>client_finish\<close> what it
  makes of the answer.
\<close>

definition client_hello_out ::
  "seal \<Rightarrow> bytes option \<Rightarrow> (bytes \<Rightarrow> 'w option) \<Rightarrow> 'w hs_error option \<times> bytes" where
  "client_hello_out seal rnd w =
     (case WriteEncryptedFrame seal rnd w hello_msg of
        (Some e, out) \<Rightarrow> (Some (HsWrite e), out) | (None, out) \<Rightarrow> (None, out))"

definition client_finish :: "unseal \<Rightarrow> bytes \<Rightarrow> 'w hs_error + bytes" where
  "client_finish unseal inp =
     (case ReadEncryptedFrame unseal inp of
        Inl e \<Rightarrow> Inl (HsRead e)
      | Inr (resp, rest) \<Rightarrow> if resp \<noteq> ok_msg then Inl (HsRejected resp) else Inr rest)"

lemma short_msgs:
  "length hello_msg = 15" "length ok_msg = 12"
  by (simp_all add: hello_msg_def ok_msg_def bytes_of_def)

lemma client_hello_out_ok:
  "(\<And>b. w b = None) \<Longrightarrow> client_hello_out seal (Some n) w = (None, encFrame seal n hello_msg)"
  by (simp add: client_hello_out_def WriteEncryptedFrame_ok short_msgs aead_sizes)

lemma server_handshake_hello:
  assumes "aead_ok seal unseal" "length n = NonceSize" "\<And>b. w b = None"
  shows "server_handshake seal unseal (Some m) w (encFrame seal n hello_msg @ rest) =
    (Inr rest, encFrame seal m ok_msg)"
  using assms
  by (simp add: server_handshake_def ReadEncryptedFrame_encFrame WriteEncryptedFrame_ok short_msgs aead_sizes)

lemma client_finish_ok:
  assumes "aead_ok seal unseal" "length m = NonceSize"
  shows "client_finish unseal (encFrame seal m ok_msg @ rest) = Inr rest"
  using assms by (simp add: client_finish_def ReadEncryptedFrame_encFrame short_msgs aead_sizes)

subsection \<open>One connection\<close>

record 'e Server =
  sv_security :: Manager
  sv_plugins :: "(bytes, 'e) Registry"
  sv_muxEnabled :: bool
  sv_TotalConnections :: int
  sv_ActiveConnections :: int
  sv_FailedConnections :: int

text \<open>
  In multiplexed mode the connection is handed to a smux session, which is library code: the
  outcome keeps the bytes the session starts from.
\<close>

datatype ('w, 'e) conn_outcome =
    ConnRejected
  | ConnHandshakeFailed "'w hs_error" bool
  | ConnFiltered "'e plugin_error"
  | ConnStream stream_outcome
  | ConnMux bytes

definition handleConnection ::
  "seal \<Rightarrow> unseal \<Rightarrow> bytes option \<Rightarrow> (bytes \<Rightarrow> 'w option) \<Rightarrow> (string \<Rightarrow> bool) \<Rightarrow> time \<Rightarrow>
   string \<Rightarrow> bytes \<Rightarrow> 'e Server \<Rightarrow> ('w, 'e) conn_outcome \<times> 'e Server" where
  "handleConnection seal unseal rnd w dial now remoteAddr inp s =
     (if \<not> IsAllowed remoteAddr (sv_security s)
      then (ConnRejected, s\<lparr>sv_security := Audit now ''connection_rejected'' remoteAddr [] ''IP blacklisted'' False
              (sv_security s)\<rparr>)
      else
        let s1 = s\<lparr>sv_TotalConnections := sv_TotalConnections s + 1,
                   sv_ActiveConnections := sv_ActiveConnections s + 1\<rparr>;
            deferred = (\<lambda>t. t\<lparr>sv_ActiveConnections := sv_ActiveConnections t - 1\<rparr>)
        in case fst (server_handshake seal unseal rnd w inp) of
             Inl e \<Rightarrow>
               (case RecordFailedLogin now remoteAddr (sv_security s1) of
                  (sec, blocked) \<Rightarrow>
                    (ConnHandshakeFailed e blocked,
                     deferred (s1\<lparr>sv_FailedConnections := sv_FailedConnections s1 + 1, sv_security := sec\<rparr>)))
           | Inr rest \<Rightarrow>
               let s2 = s1\<lparr>sv_security := Audit now ''connection_accepted'' remoteAddr [] ''Handshake OK'' True
                             (ResetFailedLogins remoteAddr (sv_security s1))\<rparr>
               in case RunFilters rest (sv_plugins s2) of
                    Inl e \<Rightarrow> (ConnFiltered e, deferred s2)
                  | Inr filtered \<Rightarrow>
                      if \<not> sv_muxEnabled s2
                      then (ConnStream (handleStream dial filtered), deferred s2)
                      else (ConnMux filtered, deferred s2))"

text \<open>A sequence of connections, one after the other.\<close>

record 'w conn_event =
  ce_rnd :: "bytes option"
  ce_write :: "bytes \<Rightarrow> 'w option"
  ce_now :: time
  ce_addr :: string
  ce_input :: bytes

primrec serve :: "seal \<Rightarrow> unseal \<Rightarrow> (string \<Rightarrow> bool) \<Rightarrow> 'w conn_event list \<Rightarrow> 'e Server \<Rightarrow>
    ('w, 'e) conn_outcome list \<times> 'e Server" where
  "serve seal unseal dial [] s = ([], s)"
| "serve seal unseal dial (c # cs) s =
     (case handleConnection seal unseal (ce_rnd c) (ce_write c) dial (ce_now c) (ce_addr c) (ce_input c) s of
        (out, s') \<Rightarrow> (case serve seal unseal dial cs s' of (outs, s'') \<Rightarrow> (out # outs, s'')))"

subsection \<open>Facts\<close>

lemma handleConnection_rejected_iff:
  "fst (handleConnection seal unseal rnd w dial now addr inp s) = ConnRejected \<longleftrightarrow> \<not> IsAllowed addr (sv_security s)"
  by (auto simp: handleConnection_def Let_def split: sum.splits prod.splits if_splits)

lemma handleConnection_active:
  "sv_ActiveConnections (snd (handleConnection seal unseal rnd w dial now addr inp s)) = sv_ActiveConnections s"
  by (auto simp: handleConnection_def Let_def split: sum.splits prod.splits if_splits)

lemma handleConnection_lists:
  "sm_ipWhitelist (sv_security (snd (handleConnection seal unseal rnd w dial now addr inp s))) =
     sm_ipWhitelist (sv_security s)"
  "sm_ipBlacklist (sv_security (snd (handleConnection seal unseal rnd w dial now addr inp s))) \<subseteq>
     insert addr (sm_ipBlacklist (sv_security s))"
  using RecordFailedLogin_simps(2,3) [of now addr "sv_security s"]
  by (auto simp: handleConnection_def Let_def split: sum.splits prod.splits if_splits)

text \<open>
  \<open>only_ports s\<close>: there is no whitelist and every blacklisted entry is a full socket address.
\<close>

definition only_ports :: "'e Server \<Rightarrow> bool" where
  "only_ports s \<longleftrightarrow> sm_ipWhitelist (sv_security s) = {} \<and>
     sm_ipBlacklist (sv_security s) \<subseteq> {a. \<exists>ip port. a = TCPAddr_String ip port}"

lemma only_ports_allows: "only_ports s \<Longrightarrow> IsAllowed (TCPAddr_String ip port) (sv_security s)"
  using IP_String_neq_TCPAddr
  by (fastforce simp: only_ports_def IsAllowed_def host_of_TCPAddr IP_String_nonempty Let_def)

lemma only_ports_step:
  "only_ports s \<Longrightarrow> only_ports (snd (handleConnection seal unseal rnd w dial now (TCPAddr_String ip port) inp s))"
  using handleConnection_lists [of seal unseal rnd w dial now "TCPAddr_String ip port" inp s]
  unfolding only_ports_def by blast

subsection \<open>Properties\<close>

text \<open>
  C5: A client and a server with the same key complete the handshake: the server answers the
  client's hello with a frame the client accepts, the failure record of the address is cleared,
  and, with no filter plugin and multiplexing off, the bytes the client sends after its hello are
  handled as a stream: the destination header names the target and the rest is relayed to it.
\<close>

theorem authenticated_stream_end_to_end:
  fixes w :: "bytes \<Rightarrow> 'w option"
  assumes "aead_ok seal unseal" "length n = NonceSize" "length m = NonceSize" "\<And>b. w b = None"
    and "IsAllowed addr (sv_security s)" "rg_filters (sv_plugins s) = []" "\<not> sv_muxEnabled s" "valid_dest dest"
    and "client_hello_out seal (Some n) w = (e, hello)"
    and "handleConnection seal unseal (Some m) w dial now addr (hello @ destHeader dest @ data) s = (out, s')"
    and "server_handshake seal unseal (Some m) w (hello @ destHeader dest @ data) = (r, answer)"
  shows "e = None \<and> client_finish unseal (answer @ back) = (Inr back :: 'w hs_error + bytes) \<and>
    out = ConnStream (if dial dest then StreamRelayed dest data else StreamDialFailed dest) \<and>
    sm_failedLogins (sv_security s') addr = None \<and> sv_ActiveConnections s' = sv_ActiveConnections s \<and>
    sv_FailedConnections s' = sv_FailedConnections s"
proof -
  have h: "e = None" "hello = encFrame seal n hello_msg"
    using assms(9) client_hello_out_ok [of w seal n] assms(4) by auto
  have sh: "server_handshake seal unseal (Some m) w (hello @ destHeader dest @ data) =
      (Inr (destHeader dest @ data), encFrame seal m ok_msg)"
    unfolding h(2) by (rule server_handshake_hello [OF assms(1,2,4)])
  then have "client_finish unseal (answer @ back) = (Inr back :: 'w hs_error + bytes)"
    using assms(11) client_finish_ok [OF assms(1,3)] by auto
  moreover have "out = ConnStream (if dial dest then StreamRelayed dest data else StreamDialFailed dest) \<and>
      sm_failedLogins (sv_security s') addr = None \<and> sv_FailedConnections s' = sv_FailedConnections s"
    using assms(5-8,10) sh
    by (auto simp: handleConnection_def Let_def RunFilters_def handleStream_destHeader ResetFailedLogins_def)
  moreover have "sv_ActiveConnections s' = sv_ActiveConnections s"
    using handleConnection_active [of seal unseal "Some m" w dial now addr "hello @ destHeader dest @ data" s]
      assms(10) by simp
  ultimately show ?thesis
    using h(1) by blast
qed

definition sample_server :: "unit Server" where
  "sample_server = \<lparr>sv_security = NewManager, sv_plugins = NewRegistry, sv_muxEnabled = False,
     sv_TotalConnections = 0, sv_ActiveConnections = 0, sv_FailedConnections = 0\<rparr>"

theorem authenticated_stream_end_to_end_witness:
  "aead_ok plain_seal plain_unseal \<and>
   fst (handleConnection plain_seal plain_unseal (Some (replicate 24 1)) (\<lambda>_. None :: unit option) (\<lambda>_. True) 0 ''1.2.3.4:5''
     (snd (client_hello_out plain_seal (Some (replicate 24 0)) (\<lambda>_. None :: unit option)) @ destHeader ''a:1'' @ [7])
     sample_server) = ConnStream (StreamRelayed ''a:1'' [7])"
proof -
  let ?w = "\<lambda>_. None :: unit option"
  obtain e hello where h: "client_hello_out plain_seal (Some (replicate 24 0)) ?w = (e, hello)"
    by fastforce
  obtain out s' where c: "handleConnection plain_seal plain_unseal (Some (replicate 24 1)) ?w (\<lambda>_. True) 0 ''1.2.3.4:5''
      (hello @ destHeader ''a:1'' @ [7]) sample_server = (out, s')"
    by fastforce
  obtain r answer where a: "server_handshake plain_seal plain_unseal (Some (replicate 24 1)) ?w
      (hello @ destHeader ''a:1'' @ [7]) = (r, answer)"
    by fastforce
  have "IsAllowed ''1.2.3.4:5'' (sv_security sample_server)" "rg_filters (sv_plugins sample_server) = []"
    "\<not> sv_muxEnabled sample_server" "valid_dest ''a:1''"
    by (simp_all add: sample_server_def NewManager_def NewRegistry_def IsAllowed_def Let_def valid_dest_def MaxDestLen_def)
  from authenticated_stream_end_to_end [OF plain_aead_ok _ _ _ this h c a, of "[]"]
  have "out = ConnStream (StreamRelayed ''a:1'' [7])"
    by (simp add: aead_sizes)
  then show ?thesis
    using h c plain_aead_ok by simp
qed



text \<open>
  The brute-force protection has no effect on real connections: failures are recorded under
  the socket address, with its port, while the access check looks up the bare IP address. From
  a server with empty lists, no sequence of connections, however many fail, is ever rejected.
\<close>

theorem brute_force_never_blocks:
  assumes "sm_ipWhitelist (sv_security s) = {}" "sm_ipBlacklist (sv_security s) = {}"
    and "\<forall>c \<in> set cs. \<exists>ip port. ce_addr c = TCPAddr_String ip port"
  shows "ConnRejected \<notin> set (fst (serve seal unseal dial cs s))"
proof -
  have "only_ports s"
    using assms(1,2) by (simp add: only_ports_def)
  then show ?thesis
    using assms(3)
  proof (induction cs arbitrary: s)
    case (Cons c cs)
    then obtain ip port where a: "ce_addr c = TCPAddr_String ip port"
      by auto
    obtain out s' where h: "handleConnection seal unseal (ce_rnd c) (ce_write c) dial (ce_now c)
        (TCPAddr_String ip port) (ce_input c) s = (out, s')"
      by fastforce
    have "out \<noteq> ConnRejected"
      using handleConnection_rejected_iff [of seal unseal "ce_rnd c" "ce_write c" dial "ce_now c"
          "TCPAddr_String ip port" "ce_input c" s] only_ports_allows [OF Cons.prems(1), of ip port] h by simp
    moreover have "only_ports s'"
      using only_ports_step [OF Cons.prems(1), of seal unseal "ce_rnd c" "ce_write c" dial "ce_now c" ip port
          "ce_input c"] h by simp
    ultimately show ?case
      using Cons.IH [of s'] Cons.prems(2) a h by (auto split: prod.splits)
  qed simp
qed

definition bad_conn :: "nat \<Rightarrow> unit conn_event" where
  "bad_conn p = \<lparr>ce_rnd = None, ce_write = (\<lambda>_. None), ce_now = 0,
     ce_addr = TCPAddr_String [10, 0, 0, 1] p, ce_input = []\<rparr>"

theorem brute_force_never_blocks_witness:
  "ConnRejected \<notin> set (fst (serve plain_seal plain_unseal (\<lambda>_. True) (map bad_conn [1..<1000]) sample_server))"
  by (rule brute_force_never_blocks) (auto simp: sample_server_def NewManager_def bad_conn_def)

end
