(* ===== verification/Go_Arith.thy ===== *)
theory Go_Arith
  imports Go_Strings
begin

text \<open>
  Go's remainder and slice indexing on 64-bit integers, and the idiom of every round-robin loop of
  the program: \<open>xs[int(counter.Add(1)-1) % len(xs)]\<close>. The remainder truncates towards zero, so a
  counter that has wrapped around gives a negative index, a panic like a division by zero.
\<close>

datatype go_panic = DivideByZero | IndexOutOfRange | CloseOfClosed

definition go_rem :: "int \<Rightarrow> int \<Rightarrow> go_panic + int" where
  "go_rem a n = (if n = 0 then Inl DivideByZero else Inr (if a < 0 then - ((- a) mod \<bar>n\<bar>) else a mod \<bar>n\<bar>))"

definition go_index :: "'a list \<Rightarrow> int \<Rightarrow> go_panic + 'a" where
  "go_index xs i = (if 0 \<le> i \<and> nat i < length xs then Inr (xs ! nat i) else Inl IndexOutOfRange)"

definition rr_index :: "'a list \<Rightarrow> int \<Rightarrow> go_panic + 'a" where
  "rr_index xs v = andThen (go_rem v (int (length xs))) (go_index xs)"

text \<open>\<open>counter.Add(1)-1\<close>: the new counter and the old value.\<close>

definition fetch_inc :: "int \<Rightarrow> int \<times> int" where
  "fetch_inc c = (let c' = wrap64 (c + 1) in (c', wrap64 (c' - 1)))"

lemma wrap64_small: "0 \<le> x \<Longrightarrow> x \<le> max_int \<Longrightarrow> wrap64 x = x"
  by (rule wrap64_id) (auto simp: max_int_def)

lemma fetch_inc_ok: "0 \<le> c \<Longrightarrow> c < max_int \<Longrightarrow> fetch_inc c = (c + 1, c)"
  by (simp add: fetch_inc_def wrap64_small Let_def)

lemma go_rem_nonneg: "0 \<le> a \<Longrightarrow> 0 < n \<Longrightarrow> go_rem a n = Inr (a mod n)"
  by (simp add: go_rem_def)

lemma go_index_ok: "i < length xs \<Longrightarrow> go_index xs (int i) = Inr (xs ! i)"
  by (simp add: go_index_def)

lemma rr_index_ok:
  assumes "0 \<le> v" "xs \<noteq> []"
  shows "rr_index xs v = Inr (xs ! (nat v mod length xs))"
proof -
  have "v mod int (length xs) = int (nat v mod length xs)"
    using assms(1) by (simp add: zmod_int)
  then show ?thesis
    using assms by (simp add: rr_index_def go_rem_nonneg go_index_ok)
qed

lemma rr_index_in: "rr_index xs v = Inr x \<Longrightarrow> x \<in> set xs"
  by (auto simp: rr_index_def go_index_def split: if_splits)

lemma rr_index_panics:
  assumes "v < 0" "(- v) mod int (length xs) \<noteq> 0"
  shows "\<exists>p. rr_index xs v = Inl p"
proof (cases "xs = []")
  case False
  then have "0 < (- v) mod int (length xs)"
    using assms(2) by (simp add: order_less_le)
  then show ?thesis
    using assms(1) False by (simp add: rr_index_def go_rem_def go_index_def)
qed (simp add: rr_index_def go_rem_def)

text \<open>Consecutive values of a counter visit every index.\<close>

lemma set_consecutive_mod:
  assumes "0 < n"
  shows "set (map (\<lambda>i. (c + i) mod n) [0..<n]) = {0..<n :: nat}"
proof (intro equalityI subsetI)
  fix j assume j: "j \<in> {0..<n}"
  have "c + (j + (n - c mod n)) = j + n * (c div n + 1)"
    using mult_div_mod_eq [of n c] mod_less_divisor [OF assms, of c]
    unfolding distrib_left mult_1_right by linarith
  then have "(c + (j + (n - c mod n))) mod n = j"
    using j by (simp only: mod_mult_self2) simp
  then have "(c + (j + (n - c mod n)) mod n) mod n = j"
    by (simp only: mod_add_right_eq)
  then show "j \<in> set (map (\<lambda>i. (c + i) mod n) [0..<n])"
    using assms by (auto intro!: image_eqI [of _ _ "(j + (n - c mod n)) mod n"])
qed (use assms in auto)

end
