(* ===== verification/Load_Balancer.thy ===== *)
theory Load_Balancer
  imports Go_Arith "HOL-Library.Multiset"
begin

text \<open>
  internal/loadbalancer/balancer.go: the backend selection strategies and the health check. The
  slice of backends only grows, so a pointer to a backend is its index. The shared counter and the
  hash are 64-bit integers with Go's wrap-around; a division by zero or a negative index is a panic.
\<close>

datatype Strategy = RoundRobin | LeastConn | Weighted | IPHash | Fastest | OtherStrategy

record Backend =
  be_Address :: string
  be_Weight :: int
  be_Healthy :: bool
  be_Connections :: int
  be_Latency :: int
  be_FailCount :: int

record Balancer =
  lb_backends :: "Backend list"
  lb_strategy :: Strategy
  lb_current :: int

datatype lb_error = NoHealthyBackends | LbPanic go_panic

definition NewBalancer :: "Strategy \<Rightarrow> Balancer" where
  "NewBalancer strategy = \<lparr>lb_backends = [], lb_strategy = strategy, lb_current = 0\<rparr>"

definition AddBackend :: "string \<Rightarrow> int \<Rightarrow> Balancer \<Rightarrow> Balancer" where
  "AddBackend address weight b =
     b\<lparr>lb_backends := lb_backends b @ [\<lparr>be_Address = address, be_Weight = weight, be_Healthy = True,
         be_Connections = 0, be_Latency = 0, be_FailCount = 0\<rparr>]\<rparr>"

definition getHealthy :: "Balancer \<Rightarrow> nat list" where
  "getHealthy b = filter (\<lambda>i. be_Healthy (lb_backends b ! i)) [0..<length (lb_backends b)]"

definition roundRobin :: "nat list \<Rightarrow> Balancer \<Rightarrow> Balancer \<times> (lb_error + nat option)" where
  "roundRobin ps b =
     (case fetch_inc (lb_current b) of (c, v) \<Rightarrow> (b\<lparr>lb_current := c\<rparr>, map_sum LbPanic Some (rr_index ps v)))"

definition minimal_scan :: "(Backend \<Rightarrow> int) \<Rightarrow> Balancer \<Rightarrow> nat list \<Rightarrow> int \<times> nat option" where
  "minimal_scan key b ps =
     fold (\<lambda>p (best, res). if key (lb_backends b ! p) < best then (key (lb_backends b ! p), Some p) else (best, res))
       ps (max_int, None)"

definition minimal :: "(Backend \<Rightarrow> int) \<Rightarrow> Balancer \<Rightarrow> nat list \<Rightarrow> nat option" where
  "minimal key b ps = snd (minimal_scan key b ps)"

definition leastConn :: "nat list \<Rightarrow> Balancer \<Rightarrow> nat option" where
  "leastConn ps b = minimal be_Connections b ps"

definition fastest :: "nat list \<Rightarrow> Balancer \<Rightarrow> nat option" where
  "fastest ps b = minimal be_Latency b ps"

fun weightedLoop :: "int \<Rightarrow> (nat \<times> int) list \<Rightarrow> nat option" where
  "weightedLoop idx [] = None"
| "weightedLoop idx ((p, w) # rest) =
     (let idx' = wrap64 (idx - w) in if idx' < 0 then Some p else weightedLoop idx' rest)"

definition weighted :: "nat list \<Rightarrow> Balancer \<Rightarrow> Balancer \<times> (lb_error + nat option)" where
  "weighted ps b =
     (let pws = map (\<lambda>p. (p, be_Weight (lb_backends b ! p))) ps;
          totalWeight = foldl (\<lambda>t (p, w). wrap64 (t + w)) 0 pws
      in case fetch_inc (lb_current b) of
           (c, v) \<Rightarrow>
             (b\<lparr>lb_current := c\<rparr>, map_sum LbPanic Some (andThen (go_rem v totalWeight) (\<lambda>idx.
                case weightedLoop idx pws of Some p \<Rightarrow> Inr p | None \<Rightarrow> go_index ps 0))))"

text \<open>The client address is given as its runes.\<close>

definition ip_hash :: "int list \<Rightarrow> int" where
  "ip_hash runes =
     (let h = foldl (\<lambda>h c. wrap64 (wrap64 (h * 31) + c)) 0 runes in if h < 0 then wrap64 (- h) else h)"

definition ipHash :: "int list \<Rightarrow> nat list \<Rightarrow> lb_error + nat option" where
  "ipHash runes ps = map_sum LbPanic Some (rr_index ps (ip_hash runes))"

definition GetBackend :: "int list \<Rightarrow> Balancer \<Rightarrow> Balancer \<times> (lb_error + nat option)" where
  "GetBackend clientIP b =
     (let healthy = getHealthy b in
      if healthy = [] then (b, Inl NoHealthyBackends)
      else case lb_strategy b of
             RoundRobin \<Rightarrow> roundRobin healthy b
           | LeastConn \<Rightarrow> (b, Inr (leastConn healthy b))
           | Weighted \<Rightarrow> weighted healthy b
           | IPHash \<Rightarrow> (b, ipHash clientIP healthy)
           | Fastest \<Rightarrow> (b, Inr (fastest healthy b))
           | OtherStrategy \<Rightarrow> roundRobin healthy b)"

text \<open>
  The health check dials every backend in turn: \<open>dial\<close> gives for an address the latency in
  microseconds, or nothing when the dial failed.
\<close>

definition check_one :: "(string \<Rightarrow> int option) \<Rightarrow> Backend \<Rightarrow> Backend" where
  "check_one dial be =
     (case dial (be_Address be) of
        None \<Rightarrow> be\<lparr>be_Healthy := False, be_FailCount := be_FailCount be + 1\<rparr>
      | Some latency \<Rightarrow> be\<lparr>be_Healthy := True, be_Latency := latency, be_FailCount := 0\<rparr>)"

definition checkHealth :: "(string \<Rightarrow> int option) \<Rightarrow> Balancer \<Rightarrow> Balancer" where
  "checkHealth dial b = b\<lparr>lb_backends := map (check_one dial) (lb_backends b)\<rparr>"

subsection \<open>Arithmetic\<close>


lemma roundRobin_ok:
  assumes "0 \<le> lb_current b" "lb_current b < max_int" "ps \<noteq> []"
  shows "roundRobin ps b = (b\<lparr>lb_current := lb_current b + 1\<rparr>,
    Inr (Some (ps ! (nat (lb_current b) mod length ps))))"
  using assms by (simp add: roundRobin_def fetch_inc_ok rr_index_ok)

subsection \<open>Weighted selection\<close>

definition wsum :: "(nat \<times> int) list \<Rightarrow> int" where
  "wsum pws = sum_list (map snd pws)"

lemma wsum_simps [simp]: "wsum [] = 0" "wsum ((p, w) # r) = w + wsum r"
  by (simp_all add: wsum_def)

lemma wsum_nonneg: "\<forall>pw \<in> set pws. 0 < snd pw \<Longrightarrow> 0 \<le> wsum pws"
  unfolding wsum_def by (intro sum_list_nonneg) (auto intro: less_imp_le)

lemma total_weight:
  "\<forall>pw \<in> set pws. 0 < snd pw \<Longrightarrow> 0 \<le> t \<Longrightarrow> t + wsum pws \<le> max_int \<Longrightarrow>
     foldl (\<lambda>t (p, w). wrap64 (t + w)) t pws = t + wsum pws"
proof (induction pws arbitrary: t)
  case (Cons pw pws)
  obtain p w where pw: "pw = (p, w)" by fastforce
  have "wrap64 (t + w) = t + w"
    using Cons.prems wsum_nonneg [of pws] pw by (intro wrap64_small) auto
  then show ?case
    using Cons.IH [of "t + w"] Cons.prems pw by simp
qed simp

lemma weightedLoop_step:
  assumes "0 \<le> v" "v \<le> max_int" "0 < w" "w \<le> max_int"
  shows "weightedLoop v ((p, w) # r) = (if v < w then Some p else weightedLoop (v - w) r)"
proof -
  have "wrap64 (v - w) = v - w"
    using assms by (intro wrap64_id) (auto simp: max_int_def)
  then show ?thesis by simp
qed

lemma weightedLoop_in:
  "\<forall>pw \<in> set pws. 0 < snd pw \<Longrightarrow> wsum pws \<le> max_int \<Longrightarrow> 0 \<le> v \<Longrightarrow> v < wsum pws \<Longrightarrow>
     \<exists>p \<in> fst ` set pws. weightedLoop v pws = Some p"
proof (induction pws arbitrary: v)
  case (Cons pw pws)
  obtain p w where pw: "pw = (p, w)" by fastforce
  have "0 \<le> wsum pws"
    using Cons.prems wsum_nonneg by simp
  then have "weightedLoop v ((p, w) # pws) = (if v < w then Some p else weightedLoop (v - w) pws)"
    using Cons.prems pw by (intro weightedLoop_step) auto
  then show ?case
    using Cons.IH [of "v - w"] Cons.prems pw by auto
qed simp

text \<open>Over one full cycle every backend is picked as often as its weight says.\<close>

lemma weightedLoop_count:
  "\<forall>pw \<in> set pws. 0 < snd pw \<Longrightarrow> wsum pws \<le> max_int \<Longrightarrow> distinct (map fst pws) \<Longrightarrow> (p, w) \<in> set pws \<Longrightarrow>
     length (filter (\<lambda>v. weightedLoop (int v) pws = Some p) [0..<nat (wsum pws)]) = nat w"
proof (induction pws)
  case (Cons pw pws)
  obtain q u where pw: "pw = (q, u)" by fastforce
  let ?W = "nat (wsum pws)"
  have nn: "0 \<le> wsum pws" "0 < u" "nat (wsum (pw # pws)) = nat u + ?W" "u \<le> max_int"
    using Cons.prems(1,2) wsum_nonneg [of pws] pw by auto
  have loop: "weightedLoop (int v) (pw # pws) = (if int v < u then Some q else weightedLoop (int v - u) pws)"
    if "v < nat u + ?W" for v
    unfolding pw using that Cons.prems(2) nn pw by (intro weightedLoop_step) auto
  have split: "[0..<nat u + ?W] = [0..<nat u] @ map (\<lambda>v. v + nat u) [0..<?W]"
    by (simp add: map_add_upt upt_add_eq_append [of 0 "nat u"] add.commute)
  have a: "filter (\<lambda>v. weightedLoop (int v) (pw # pws) = Some p) [0..<nat u] = (if p = q then [0..<nat u] else [])"
    using loop by (auto simp: filter_id_conv filter_empty_conv)
  have b: "filter (\<lambda>v. weightedLoop (int v) (pw # pws) = Some p) (map (\<lambda>v. v + nat u) [0..<?W]) =
      map (\<lambda>v. v + nat u) (filter (\<lambda>v. weightedLoop (int v) pws = Some p) [0..<?W])"
  proof -
    have "weightedLoop (int (v + nat u)) (pw # pws) = weightedLoop (int v) pws" if "v < ?W" for v
      using loop [of "v + nat u"] that nn by simp
    then show ?thesis
      by (auto simp: filter_map comp_def simp del: of_nat_add intro!: arg_cong [where f = "map _"] filter_cong)
  qed
  show ?case
  proof (cases "p = q")
    case True
    then have p: "p \<notin> fst ` set pws"
      using Cons.prems(3) pw by simp
    then have "(p, w) \<notin> set pws"
      by (metis fst_conv image_eqI)
    then have "w = u"
      using Cons.prems(4) pw True by simp
    have "weightedLoop (int v) pws \<noteq> Some p" if "v < ?W" for v
    proof -
      have pre: "\<forall>pw \<in> set pws. 0 < snd pw" "wsum pws \<le> max_int" "int v < wsum pws"
        using Cons.prems(1,2) nn that pw by auto
      show ?thesis
        using weightedLoop_in [OF pre(1,2) _ pre(3)] p by (metis of_nat_0_le_iff option.inject)
    qed
    then have "filter (\<lambda>v. weightedLoop (int v) pws = Some p) [0..<?W] = []"
      by (simp add: filter_empty_conv)
    then show ?thesis
      unfolding nn(3) split filter_append a b using True \<open>w = u\<close> by simp
  next
    case False
    then show ?thesis
      unfolding nn(3) split filter_append a b using Cons.IH Cons.prems pw nn by auto
  qed
qed simp

subsection \<open>Runs of calls\<close>

primrec picks :: "nat \<Rightarrow> int list \<Rightarrow> Balancer \<Rightarrow> (lb_error + nat option) list" where
  "picks 0 ip b = []"
| "picks (Suc n) ip b = (case GetBackend ip b of (b', r) \<Rightarrow> r # picks n ip b')"

lemma getHealthy_current [simp]: "getHealthy (b\<lparr>lb_current := c\<rparr>) = getHealthy b"
  by (simp add: getHealthy_def)

lemma distinct_getHealthy: "distinct (getHealthy b)"
  by (simp add: getHealthy_def)

lemma picks_counter:
  assumes "\<And>c. 0 \<le> c \<Longrightarrow> c < max_int \<Longrightarrow>
      GetBackend ip (b\<lparr>lb_current := c\<rparr>) = (b\<lparr>lb_current := c + 1\<rparr>, f c)"
    and "0 \<le> c" "c + int n \<le> max_int"
  shows "picks n ip (b\<lparr>lb_current := c\<rparr>) = map (\<lambda>i. f (c + int i)) [0..<n]"
  using assms(2,3)
proof (induction n arbitrary: c)
  case (Suc n)
  have "picks (Suc n) ip (b\<lparr>lb_current := c\<rparr>) = f c # picks n ip (b\<lparr>lb_current := c + 1\<rparr>)"
    using assms(1) [of c] Suc.prems by simp
  also have "\<dots> = f c # map (\<lambda>i. f (c + 1 + int i)) [0..<n]"
    using Suc.IH [of "c + 1"] Suc.prems by simp
  also have "\<dots> = map (\<lambda>i. f (c + int i)) [0..<Suc n]"
    by (simp add: upt_conv_Cons map_Suc_upt [symmetric] comp_def ac_simps del: upt_Suc)
  finally show ?case .
qed simp

text \<open>\<open>n\<close> consecutive numbers have all the remainders modulo \<open>n\<close>.\<close>

lemma mset_consecutive_mod:
  assumes "0 < n"
  shows "mset (map (\<lambda>i. (c + i) mod n) [0..<n]) = mset [0..<n :: nat]"
proof -
  have "distinct (map (\<lambda>i. (c + i) mod n) [0..<n])"
    by (rule card_distinct) (simp only: set_consecutive_mod [OF assms] card_atLeastLessThan length_map length_upt)
  then show ?thesis
    using set_eq_iff_mset_eq_distinct [of "map (\<lambda>i. (c + i) mod n) [0..<n]" "[0..<n]"]
      set_consecutive_mod [OF assms, of c]
    by (simp only: distinct_upt set_upt simp_thms)
qed

lemma count_consecutive_mod:
  assumes "0 < n"
  shows "length (filter P (map (\<lambda>i. (c + i) mod n) [0..<n])) = length (filter P [0..<n])"
proof -
  have "mset (filter P (map (\<lambda>i. (c + i) mod n) [0..<n])) = mset (filter P [0..<n])"
    by (simp only: mset_filter mset_consecutive_mod [OF assms])
  then show ?thesis by (rule mset_eq_length)
qed

subsection \<open>Properties\<close>

definition weights :: "Balancer \<Rightarrow> (nat \<times> int) list" where
  "weights b = map (\<lambda>p. (p, be_Weight (lb_backends b ! p))) (getHealthy b)"

lemma weighted_ok:
  assumes "0 \<le> lb_current b" "lb_current b < max_int" "getHealthy b \<noteq> []"
    and "\<forall>pw \<in> set (weights b). 0 < snd pw" "wsum (weights b) \<le> max_int"
  shows "\<exists>p \<in> set (getHealthy b). weightedLoop (lb_current b mod wsum (weights b)) (weights b) = Some p \<and>
    weighted (getHealthy b) b = (b\<lparr>lb_current := lb_current b + 1\<rparr>, Inr (Some p))"
proof -
  obtain pw r where w: "weights b = pw # r"
    using assms(3) by (cases "weights b") (auto simp: weights_def)
  have pos: "0 < wsum (weights b)"
    using assms(4) wsum_nonneg [of r] unfolding w by (cases pw) simp
  have fst: "fst ` set (weights b) = set (getHealthy b)"
    by (simp add: weights_def image_image)
  obtain p where p: "p \<in> set (getHealthy b)" "weightedLoop (lb_current b mod wsum (weights b)) (weights b) = Some p"
    using weightedLoop_in [OF assms(4,5), of "lb_current b mod wsum (weights b)"] pos fst by auto
  have "weighted (getHealthy b) b = (b\<lparr>lb_current := lb_current b + 1\<rparr>, Inr (Some p))"
    using total_weight [OF assms(4), of 0] assms pos p(2)
    by (simp add: weighted_def Let_def fetch_inc_ok go_rem_nonneg flip: weights_def)
  then show ?thesis using p by blast
qed

lemma minimal_best:
  "minimal_scan key b ps = (best, res) \<Longrightarrow> (\<forall>p \<in> set ps. best \<le> key (lb_backends b ! p)) \<and>
     (case res of None \<Rightarrow> best = max_int | Some q \<Rightarrow> q \<in> set ps \<and> best = key (lb_backends b ! q))"
proof (induction ps arbitrary: best res rule: rev_induct)
  case (snoc p ps)
  obtain best' res' where s: "minimal_scan key b ps = (best', res')"
    by fastforce
  have "(best, res) = (if key (lb_backends b ! p) < best' then (key (lb_backends b ! p), Some p) else (best', res'))"
    using snoc.prems s by (simp add: minimal_scan_def)
  then show ?case
    using snoc.IH [OF s] by (auto split: if_splits option.splits)
qed (auto simp: minimal_scan_def)

lemma minimal_some:
  assumes "ps \<noteq> []" "\<forall>p \<in> set ps. key (lb_backends b ! p) < max_int"
  shows "\<exists>q \<in> set ps. minimal key b ps = Some q \<and> (\<forall>p \<in> set ps. key (lb_backends b ! q) \<le> key (lb_backends b ! p))"
proof -
  obtain best res where f: "minimal_scan key b ps = (best, res)"
    by fastforce
  obtain p where p: "p \<in> set ps" "key (lb_backends b ! p) < max_int"
    using assms by (cases ps) auto
  have "res \<noteq> None"
    using minimal_best [OF f] p by (cases res) auto
  then show ?thesis
    using minimal_best [OF f] by (auto simp: minimal_def f)
qed

definition lb_ok :: "int list \<Rightarrow> Balancer \<Rightarrow> bool" where
  "lb_ok ip b \<longleftrightarrow> 0 \<le> lb_current b \<and> lb_current b < max_int \<and>
     (\<forall>be \<in> set (lb_backends b). be_Connections be < max_int \<and> be_Latency be < max_int) \<and>
     (lb_strategy b = Weighted \<longrightarrow> (\<forall>pw \<in> set (weights b). 0 < snd pw) \<and> wsum (weights b) \<le> max_int) \<and>
     (lb_strategy b = IPHash \<longrightarrow> 0 \<le> ip_hash ip)"

lemma getHealthy_nth: "p \<in> set (getHealthy b) \<longleftrightarrow> p < length (lb_backends b) \<and> be_Healthy (lb_backends b ! p)"
  by (auto simp: getHealthy_def)

lemma ipHash_ok: "0 \<le> ip_hash ip \<Longrightarrow> ps \<noteq> [] \<Longrightarrow> \<exists>q \<in> set ps. ipHash ip ps = Inr (Some q)"
  by (auto simp: ipHash_def rr_index_ok intro!: nth_mem)


definition sample_balancer :: "Strategy \<Rightarrow> Balancer" where
  "sample_balancer s = AddBackend ''b'' 2 (AddBackend ''a'' 1 (NewBalancer s))"

lemma sample_healthy: "getHealthy (sample_balancer s) = [0, 1]"
  by (simp add: getHealthy_def sample_balancer_def AddBackend_def NewBalancer_def)

lemma sample_weights: "weights (sample_balancer s) = [(0, 1), (1, 2)]"
  by (simp add: weights_def sample_healthy) (simp add: sample_balancer_def AddBackend_def NewBalancer_def)


lemma distinct_filter_one: "distinct xs \<Longrightarrow> p \<in> set xs \<Longrightarrow> length (filter (\<lambda>x. x = p) xs) = 1"
  by (induction xs) (auto simp: filter_empty_conv)

text \<open>
  C8: The counter-driven strategies are fair. From any counter value, as many consecutive
  selections as there are healthy backends give each of them exactly one turn under round robin;
  as many as the total weight give each healthy backend exactly its weight in turns under the
  weighted strategy.
\<close>

theorem balancer_fair:
  assumes "0 \<le> lb_current b" "getHealthy b \<noteq> []" "p \<in> set (getHealthy b)"
  shows "(lb_strategy b = RoundRobin \<longrightarrow> lb_current b + int (length (getHealthy b)) \<le> max_int \<longrightarrow>
      length (filter (\<lambda>r. r = Inr (Some p)) (picks (length (getHealthy b)) ip b)) = 1) \<and>
    (lb_strategy b = Weighted \<longrightarrow> (\<forall>pw \<in> set (weights b). 0 < snd pw) \<longrightarrow>
      lb_current b + wsum (weights b) \<le> max_int \<longrightarrow>
      length (filter (\<lambda>r. r = Inr (Some p)) (picks (nat (wsum (weights b))) ip b)) =
        nat (be_Weight (lb_backends b ! p)))"
proof (intro conjI impI)
  let ?h = "getHealthy b" and ?c = "lb_current b"
  have b: "b = b\<lparr>lb_current := ?c\<rparr>" by simp
  assume rr: "lb_strategy b = RoundRobin" and room: "?c + int (length ?h) \<le> max_int"
  have one: "GetBackend ip (b\<lparr>lb_current := c\<rparr>) =
      (b\<lparr>lb_current := c + 1\<rparr>, Inr (Some (?h ! (nat c mod length ?h))))" if "0 \<le> c" "c < max_int" for c
    using roundRobin_ok [of "b\<lparr>lb_current := c\<rparr>" ?h] that assms(2) rr by (simp add: GetBackend_def Let_def)
  have "picks (length ?h) ip b = map (\<lambda>i. Inr (Some (?h ! (nat (?c + int i) mod length ?h)))) [0..<length ?h]"
    using picks_counter [OF one assms(1) room] by simp
  also have "\<dots> = map (\<lambda>v. Inr (Some (?h ! v))) (map (\<lambda>i. (nat ?c + i) mod length ?h) [0..<length ?h])"
    using assms(1) by (simp add: nat_add_distrib)
  finally have "length (filter (\<lambda>r. r = Inr (Some p)) (picks (length ?h) ip b)) =
      length (filter (\<lambda>v. ?h ! v = p) (map (\<lambda>i. (nat ?c + i) mod length ?h) [0..<length ?h]))"
    by (simp add: filter_map comp_def)
  also have "\<dots> = length (filter (\<lambda>v. ?h ! v = p) [0..<length ?h])"
    using count_consecutive_mod [of "length ?h"] assms(2) by simp
  also have "\<dots> = length (filter (\<lambda>x. x = p) (map ((!) ?h) [0..<length ?h]))"
    by (simp add: filter_map comp_def)
  also have "\<dots> = 1"
    using assms(3) distinct_getHealthy [of b] by (simp add: map_nth distinct_filter_one)
  finally show "length (filter (\<lambda>r. r = Inr (Some p)) (picks (length ?h) ip b)) = 1" .
next
  let ?w = "weights b" and ?c = "lb_current b"
  let ?W = "nat (wsum ?w)"
  assume st: "lb_strategy b = Weighted" and pos: "\<forall>pw \<in> set ?w. 0 < snd pw"
    and room: "?c + wsum ?w \<le> max_int"
  have nn: "0 \<le> wsum ?w" "wsum ?w \<le> max_int"
    using wsum_nonneg [OF pos] room assms(1) by auto
  have pw: "(p, be_Weight (lb_backends b ! p)) \<in> set ?w" "distinct (map fst ?w)"
    using assms(3) distinct_getHealthy [of b] by (auto simp: weights_def comp_def)
  have Wpos: "0 < ?W"
    using weightedLoop_count [OF pos nn(2) pw(2,1)] pos pw(1) by (cases "?W") auto
  have wc [simp]: "weights (b\<lparr>lb_current := c\<rparr>) = ?w" for c
    by (simp add: weights_def)
  have one: "GetBackend ip (b\<lparr>lb_current := c\<rparr>) =
      (b\<lparr>lb_current := c + 1\<rparr>, Inr (weightedLoop (c mod wsum ?w) ?w))" if "0 \<le> c" "c < max_int" for c
    using weighted_ok [of "b\<lparr>lb_current := c\<rparr>"] that assms(2) st pos nn(2)
    by (auto simp: GetBackend_def Let_def)
  have "picks ?W ip b = map (\<lambda>i. Inr (weightedLoop ((?c + int i) mod wsum ?w) ?w)) [0..<?W]"
    using picks_counter [OF one assms(1), of ?W] room nn by simp
  also have "\<dots> = map (\<lambda>v. Inr (weightedLoop (int v) ?w)) (map (\<lambda>i. (nat ?c + i) mod ?W) [0..<?W])"
    using assms(1) nn by (simp add: zmod_int)
  finally have "length (filter (\<lambda>r. r = Inr (Some p)) (picks ?W ip b)) =
      length (filter (\<lambda>v. weightedLoop (int v) ?w = Some p) (map (\<lambda>i. (nat ?c + i) mod ?W) [0..<?W]))"
    by (simp add: filter_map comp_def)
  then show "length (filter (\<lambda>r. r = Inr (Some p)) (picks ?W ip b)) = nat (be_Weight (lb_backends b ! p))"
    unfolding count_consecutive_mod [OF Wpos] weightedLoop_count [OF pos nn(2) pw(2,1)] .
qed

theorem balancer_fair_witness:
  "length (filter (\<lambda>r. r = Inr (Some 1)) (picks 3 [] (sample_balancer Weighted))) = 2 \<and>
   length (filter (\<lambda>r. r = Inr (Some 1)) (picks 2 [] (sample_balancer RoundRobin))) = 1"
proof -
  have b: "lb_current (sample_balancer s) = 0" "lb_strategy (sample_balancer s) = s"
    "be_Weight (lb_backends (sample_balancer s) ! 1) = 2" for s
    by (simp_all add: sample_balancer_def AddBackend_def NewBalancer_def)
  have "length (filter (\<lambda>r. r = Inr (Some 1)) (picks (nat (wsum (weights (sample_balancer Weighted)))) []
      (sample_balancer Weighted))) = nat (be_Weight (lb_backends (sample_balancer Weighted) ! 1))"
    using balancer_fair [of "sample_balancer Weighted" 1 "[]"]
    by (simp add: b sample_healthy sample_weights max_int_def)
  moreover have "length (filter (\<lambda>r. r = Inr (Some 1)) (picks (length (getHealthy (sample_balancer RoundRobin))) []
      (sample_balancer RoundRobin))) = 1"
    using balancer_fair [of "sample_balancer RoundRobin" 1 "[]"]
    by (simp add: b sample_healthy max_int_def)
  moreover have "nat (wsum (weights (sample_balancer Weighted))) = 3"
    "length (getHealthy (sample_balancer RoundRobin)) = 2"
    by (simp_all add: sample_weights sample_healthy)
  ultimately show ?thesis
    unfolding b(3) by simp
qed

text \<open>Backends added with weight zero make the weighted strategy divide by zero.\<close>

lemma weighted_zero_panics:
  assumes "getHealthy b \<noteq> []" "lb_strategy b = Weighted" "\<forall>pw \<in> set (weights b). snd pw = 0"
  shows "snd (GetBackend ip b) = Inl (LbPanic DivideByZero)"
proof -
  have "foldl (\<lambda>t (p, w). wrap64 (t + w)) 0 pws = 0" if "\<forall>pw \<in> set pws. snd pw = 0" for pws :: "(nat \<times> int) list"
    using that by (induction pws) (auto simp: wrap64_def)
  then show ?thesis
    using assms by (simp add: GetBackend_def weighted_def Let_def go_rem_def split: prod.splits flip: weights_def)
qed

end
