(* ===== verification/Adaptive_Pool.thy ===== *)
theory Adaptive_Pool
  imports State_Machine Prelude "HOL-Library.Multiset"
begin

text \<open>
  internal/pool/adaptive_pool.go: the adaptive connection pool. The operations run concurrently
  and share atomic counters and a buffered channel, so the pool is a transition system whose steps
  are the single atomic actions of the code; a goroutine inside an operation is a task that
  remembers where it is. The sequential definitions of the operations, one per function of the
  source, are proved to be runs of that system. Connections are numbers; the factory's answer is
  the environment's choice, with a connection that is new to the pool.
\<close>

type_synonym conn = nat

record Pool =
  po_conns :: "conn list"
  po_minSize :: nat
  po_maxSize :: nat
  po_currentSize :: int
  po_activeConns :: int
  po_totalDials :: int
  po_totalErrors :: int
  po_closed :: bool

record PoolConfig =
  pcf_MinSize :: int
  pcf_MaxSize :: int
  pcf_WarmupCount :: int

definition DefaultPoolConfig :: PoolConfig where
  "DefaultPoolConfig = \<lparr>pcf_MinSize = 4, pcf_MaxSize = 32, pcf_WarmupCount = 0\<rparr>"

text \<open>The pool and its warm-up count. The thresholds are parameters of \<open>adjustSize\<close>.\<close>

definition NewAdaptivePool :: "PoolConfig \<Rightarrow> Pool \<times> nat" where
  "NewAdaptivePool cfg =
     (let mn = (if pcf_MinSize cfg \<le> 0 then 4 else pcf_MinSize cfg);
          mx = (if pcf_MaxSize cfg \<le> 0 then 32 else pcf_MaxSize cfg);
          mx' = (if mx < mn then mn else mx);
          wu = (if pcf_WarmupCount cfg \<le> 0 then mn else pcf_WarmupCount cfg)
      in (\<lparr>po_conns = [], po_minSize = nat mn, po_maxSize = nat mx', po_currentSize = 0, po_activeConns = 0,
           po_totalDials = 0, po_totalErrors = 0, po_closed = False\<rparr>, nat wu))"

subsection \<open>The operations, run without interruption\<close>

datatype get_result = GotConn conn | GotNil | DialFailed | Exhausted

text \<open>
  \<open>Get\<close> with the factory's answer \<open>dial\<close>; when the pool is at its maximum and stays empty, the
  wait times out. A receive from the closed, drained channel yields a nil connection.
\<close>

definition Get :: "conn option \<Rightarrow> Pool \<Rightarrow> Pool \<times> get_result" where
  "Get dial p =
     (case po_conns p of
        c # cs \<Rightarrow> (p\<lparr>po_conns := cs, po_activeConns := po_activeConns p + 1\<rparr>, GotConn c)
      | [] \<Rightarrow>
          if po_closed p then (p\<lparr>po_activeConns := po_activeConns p + 1\<rparr>, GotNil)
          else if po_currentSize p < int (po_maxSize p)
          then (case dial of
                  None \<Rightarrow> (p\<lparr>po_totalErrors := po_totalErrors p + 1\<rparr>, DialFailed)
                | Some c \<Rightarrow> (p\<lparr>po_totalDials := po_totalDials p + 1, po_currentSize := po_currentSize p + 1,
                              po_activeConns := po_activeConns p + 1\<rparr>, GotConn c))
          else (p, Exhausted))"

text \<open>A send on the channel: a panic (no result) when it is closed.\<close>

definition offer :: "conn \<Rightarrow> Pool \<Rightarrow> Pool option" where
  "offer c p =
     (if po_closed p then None
      else if length (po_conns p) < po_maxSize p then Some (p\<lparr>po_conns := po_conns p @ [c]\<rparr>)
      else Some (p\<lparr>po_currentSize := po_currentSize p - 1\<rparr>))"

definition put :: "conn \<Rightarrow> Pool \<Rightarrow> Pool option" where
  "put c p = offer c (p\<lparr>po_activeConns := po_activeConns p - 1\<rparr>)"

definition discard :: "conn \<Rightarrow> Pool \<Rightarrow> Pool" where
  "discard c p = p\<lparr>po_activeConns := po_activeConns p - 1, po_currentSize := po_currentSize p - 1\<rparr>"

text \<open>One warm-up or scale-up goroutine.\<close>

definition warm :: "conn option \<Rightarrow> Pool \<Rightarrow> Pool option" where
  "warm dial p =
     (case dial of
        None \<Rightarrow> Some (p\<lparr>po_totalErrors := po_totalErrors p + 1\<rparr>)
      | Some c \<Rightarrow> offer c (p\<lparr>po_totalDials := po_totalDials p + 1, po_currentSize := po_currentSize p + 1\<rparr>))"

text \<open>
  The decision of \<open>adjustSize\<close>: how many goroutines to start and how many connections to remove.
  \<open>up\<close> and \<open>down\<close> are the comparisons of the usage ratio with the two thresholds.
\<close>

definition adjust_plan :: "(int \<Rightarrow> int \<Rightarrow> bool) \<Rightarrow> (int \<Rightarrow> int \<Rightarrow> bool) \<Rightarrow> int \<Rightarrow> int \<Rightarrow> Pool \<Rightarrow> nat \<times> nat" where
  "adjust_plan up down current active p =
     (if current = 0 then (0, 0)
      else (if up active current \<and> current < int (po_maxSize p)
            then nat (min (current div 2 + 1) (int (po_maxSize p) - current)) else 0,
            if down active current \<and> int (po_minSize p) < current
            then nat (min ((current - int (po_minSize p)) div 2 + 1) (current - int (po_minSize p))) else 0))"

text \<open>The removal loop; the \<open>break\<close> inside its select leaves only the select.\<close>

primrec shrink :: "nat \<Rightarrow> Pool \<Rightarrow> Pool" where
  "shrink 0 p = p"
| "shrink (Suc n) p =
     shrink n (case po_conns p of
         [] \<Rightarrow> p | c # cs \<Rightarrow> p\<lparr>po_conns := cs, po_currentSize := po_currentSize p - 1\<rparr>)"

definition adjustSize :: "(int \<Rightarrow> int \<Rightarrow> bool) \<Rightarrow> (int \<Rightarrow> int \<Rightarrow> bool) \<Rightarrow> Pool \<Rightarrow> Pool \<times> nat" where
  "adjustSize up down p =
     (case adjust_plan up down (po_currentSize p) (po_activeConns p) p of
        (toAdd, toRemove) \<Rightarrow> (shrink toRemove p, toAdd))"

definition Close :: "Pool \<Rightarrow> Pool" where
  "Close p = p\<lparr>po_closed := True, po_conns := []\<rparr>"

text \<open>The wrapper's \<open>Close\<close> and \<open>MarkBad\<close> act on the first call only.\<close>

definition pooledConn_Close :: "conn \<Rightarrow> bool \<Rightarrow> Pool \<Rightarrow> (Pool \<times> bool) option" where
  "pooledConn_Close c closed p = (if closed then Some (p, True) else map_option (\<lambda>p'. (p', True)) (put c p))"

definition MarkBad :: "conn \<Rightarrow> bool \<Rightarrow> Pool \<Rightarrow> Pool \<times> bool" where
  "MarkBad c closed p = (if closed then (p, True) else (discard c p, True))"

subsection \<open>The concurrent pool\<close>

text \<open>Where a goroutine is inside its operation.\<close>

datatype task =
    GetTry                 \<comment> \<open>before the first select of Get\<close>
  | GetDecide              \<comment> \<open>before the comparison with maxSize\<close>
  | GetDial                \<comment> \<open>before the factory call\<close>
  | GetDialed conn         \<comment> \<open>before currentSize.Add(1)\<close>
  | GetWait                \<comment> \<open>in the second select\<close>
  | GetHave conn           \<comment> \<open>before activeConns.Add(1)\<close>
  | WarmDial
  | WarmDialed conn        \<comment> \<open>before currentSize.Add(1)\<close>
  | Offer conn             \<comment> \<open>before the send with default, of put and of a warm-up\<close>
  | Drop conn              \<comment> \<open>closed the connection, before currentSize.Add(-1)\<close>
  | Adjust
  | AdjustRead int         \<comment> \<open>has loaded currentSize\<close>
  | Shrink nat
  | ShrinkDrop conn nat

record Sys =
  sy_pool :: Pool
  sy_held :: "conn multiset"
  sy_tasks :: "task multiset"

fun owned :: "task \<Rightarrow> conn multiset" where
  "owned (GetDialed c) = {#c#}"
| "owned (GetHave c) = {#c#}"
| "owned (WarmDialed c) = {#c#}"
| "owned (Offer c) = {#c#}"
| "owned (Drop c) = {#c#}"
| "owned (ShrinkDrop c n) = {#c#}"
| "owned _ = {#}"

text \<open>Does \<open>currentSize\<close> include the connection of this task?\<close>

fun counted :: "task \<Rightarrow> int" where
  "counted (GetHave c) = 1"
| "counted (Offer c) = 1"
| "counted (Drop c) = 1"
| "counted (ShrinkDrop c n) = 1"
| "counted _ = 0"

definition all_conns :: "Sys \<Rightarrow> conn multiset" where
  "all_conns s = mset (po_conns (sy_pool s)) + sy_held s + \<Sum>\<^sub># (image_mset owned (sy_tasks s))"

inductive pool_step :: "(int \<Rightarrow> int \<Rightarrow> bool) \<Rightarrow> (int \<Rightarrow> int \<Rightarrow> bool) \<Rightarrow> Sys \<Rightarrow> Sys \<Rightarrow> bool" for up down where
  call_get: "pool_step up down s (s\<lparr>sy_tasks := add_mset GetTry (sy_tasks s)\<rparr>)"
| get_recv: "sy_tasks s = add_mset GetTry M \<Longrightarrow> po_conns (sy_pool s) = c # cs \<Longrightarrow>
    pool_step up down s (s\<lparr>sy_tasks := add_mset (GetHave c) M, sy_pool := (sy_pool s)\<lparr>po_conns := cs\<rparr>\<rparr>)"
| get_empty: "sy_tasks s = add_mset GetTry M \<Longrightarrow> po_conns (sy_pool s) = [] \<Longrightarrow>
    pool_step up down s (s\<lparr>sy_tasks := add_mset GetDecide M\<rparr>)"
| get_room: "sy_tasks s = add_mset GetDecide M \<Longrightarrow> po_currentSize (sy_pool s) < int (po_maxSize (sy_pool s)) \<Longrightarrow>
    pool_step up down s (s\<lparr>sy_tasks := add_mset GetDial M\<rparr>)"
| get_full: "sy_tasks s = add_mset GetDecide M \<Longrightarrow> \<not> po_currentSize (sy_pool s) < int (po_maxSize (sy_pool s)) \<Longrightarrow>
    pool_step up down s (s\<lparr>sy_tasks := add_mset GetWait M\<rparr>)"
| get_dial_err: "sy_tasks s = add_mset GetDial M \<Longrightarrow>
    pool_step up down s (s\<lparr>sy_tasks := M,
      sy_pool := (sy_pool s)\<lparr>po_totalErrors := po_totalErrors (sy_pool s) + 1\<rparr>\<rparr>)"
| get_dialed: "sy_tasks s = add_mset GetDial M \<Longrightarrow> c \<notin># all_conns s \<Longrightarrow>
    pool_step up down s (s\<lparr>sy_tasks := add_mset (GetDialed c) M,
      sy_pool := (sy_pool s)\<lparr>po_totalDials := po_totalDials (sy_pool s) + 1\<rparr>\<rparr>)"
| get_count: "sy_tasks s = add_mset (GetDialed c) M \<Longrightarrow>
    pool_step up down s (s\<lparr>sy_tasks := add_mset (GetHave c) M,
      sy_pool := (sy_pool s)\<lparr>po_currentSize := po_currentSize (sy_pool s) + 1\<rparr>\<rparr>)"
| get_active: "sy_tasks s = add_mset (GetHave c) M \<Longrightarrow>
    pool_step up down s (s\<lparr>sy_tasks := M, sy_held := add_mset c (sy_held s),
      sy_pool := (sy_pool s)\<lparr>po_activeConns := po_activeConns (sy_pool s) + 1\<rparr>\<rparr>)"
| wait_recv: "sy_tasks s = add_mset GetWait M \<Longrightarrow> po_conns (sy_pool s) = c # cs \<Longrightarrow>
    pool_step up down s (s\<lparr>sy_tasks := add_mset (GetHave c) M, sy_pool := (sy_pool s)\<lparr>po_conns := cs\<rparr>\<rparr>)"
| wait_timeout: "sy_tasks s = add_mset GetWait M \<Longrightarrow> pool_step up down s (s\<lparr>sy_tasks := M\<rparr>)"
| conn_close: "sy_held s = add_mset c H \<Longrightarrow>
    pool_step up down s (s\<lparr>sy_held := H, sy_tasks := add_mset (Offer c) (sy_tasks s),
      sy_pool := (sy_pool s)\<lparr>po_activeConns := po_activeConns (sy_pool s) - 1\<rparr>\<rparr>)"
| conn_bad: "sy_held s = add_mset c H \<Longrightarrow>
    pool_step up down s (s\<lparr>sy_held := H, sy_tasks := add_mset (Drop c) (sy_tasks s),
      sy_pool := (sy_pool s)\<lparr>po_activeConns := po_activeConns (sy_pool s) - 1\<rparr>\<rparr>)"
| offer_send: "sy_tasks s = add_mset (Offer c) M \<Longrightarrow> length (po_conns (sy_pool s)) < po_maxSize (sy_pool s) \<Longrightarrow>
    pool_step up down s (s\<lparr>sy_tasks := M, sy_pool := (sy_pool s)\<lparr>po_conns := po_conns (sy_pool s) @ [c]\<rparr>\<rparr>)"
| offer_full: "sy_tasks s = add_mset (Offer c) M \<Longrightarrow> \<not> length (po_conns (sy_pool s)) < po_maxSize (sy_pool s) \<Longrightarrow>
    pool_step up down s (s\<lparr>sy_tasks := add_mset (Drop c) M\<rparr>)"
| drop_count: "sy_tasks s = add_mset (Drop c) M \<Longrightarrow>
    pool_step up down s (s\<lparr>sy_tasks := M,
      sy_pool := (sy_pool s)\<lparr>po_currentSize := po_currentSize (sy_pool s) - 1\<rparr>\<rparr>)"
| warm_err: "sy_tasks s = add_mset WarmDial M \<Longrightarrow>
    pool_step up down s (s\<lparr>sy_tasks := M,
      sy_pool := (sy_pool s)\<lparr>po_totalErrors := po_totalErrors (sy_pool s) + 1\<rparr>\<rparr>)"
| warm_dialed: "sy_tasks s = add_mset WarmDial M \<Longrightarrow> c \<notin># all_conns s \<Longrightarrow>
    pool_step up down s (s\<lparr>sy_tasks := add_mset (WarmDialed c) M,
      sy_pool := (sy_pool s)\<lparr>po_totalDials := po_totalDials (sy_pool s) + 1\<rparr>\<rparr>)"
| warm_count: "sy_tasks s = add_mset (WarmDialed c) M \<Longrightarrow>
    pool_step up down s (s\<lparr>sy_tasks := add_mset (Offer c) M,
      sy_pool := (sy_pool s)\<lparr>po_currentSize := po_currentSize (sy_pool s) + 1\<rparr>\<rparr>)"
| tick: "pool_step up down s (s\<lparr>sy_tasks := add_mset Adjust (sy_tasks s)\<rparr>)"
| adjust_read: "sy_tasks s = add_mset Adjust M \<Longrightarrow>
    pool_step up down s (s\<lparr>sy_tasks := add_mset (AdjustRead (po_currentSize (sy_pool s))) M\<rparr>)"
| adjust_go: "sy_tasks s = add_mset (AdjustRead current) M \<Longrightarrow>
    adjust_plan up down current (po_activeConns (sy_pool s)) (sy_pool s) = (toAdd, toRemove) \<Longrightarrow>
    pool_step up down s (s\<lparr>sy_tasks := add_mset (Shrink toRemove) (M + replicate_mset toAdd WarmDial)\<rparr>)"
| shrink_recv: "sy_tasks s = add_mset (Shrink (Suc n)) M \<Longrightarrow> po_conns (sy_pool s) = c # cs \<Longrightarrow>
    pool_step up down s (s\<lparr>sy_tasks := add_mset (ShrinkDrop c n) M, sy_pool := (sy_pool s)\<lparr>po_conns := cs\<rparr>\<rparr>)"
| shrink_none: "sy_tasks s = add_mset (Shrink (Suc n)) M \<Longrightarrow> po_conns (sy_pool s) = [] \<Longrightarrow>
    pool_step up down s (s\<lparr>sy_tasks := add_mset (Shrink n) M\<rparr>)"
| shrink_drop: "sy_tasks s = add_mset (ShrinkDrop c n) M \<Longrightarrow>
    pool_step up down s (s\<lparr>sy_tasks := add_mset (Shrink n) M,
      sy_pool := (sy_pool s)\<lparr>po_currentSize := po_currentSize (sy_pool s) - 1\<rparr>\<rparr>)"
| shrink_done: "sy_tasks s = add_mset (Shrink 0) M \<Longrightarrow> pool_step up down s (s\<lparr>sy_tasks := M\<rparr>)"

text \<open>\<open>Start\<close>: one warm-up goroutine per requested connection.\<close>

definition Start :: "PoolConfig \<Rightarrow> Sys" where
  "Start cfg =
     (case NewAdaptivePool cfg of
        (p, warmupCount) \<Rightarrow> \<lparr>sy_pool = p, sy_held = {#}, sy_tasks = replicate_mset warmupCount WarmDial\<rparr>)"

subsection \<open>The invariant\<close>

lemma sum_replicate_zero [simp]:
  "\<Sum>\<^sub># (replicate_mset n {#}) = {#}" "\<Sum>\<^sub># (replicate_mset n (0 :: int)) = 0"
  by (induction n) simp_all

lemma pool_step_conns:
  assumes "pool_step up down s s'"
  shows "(\<forall>c. count (all_conns s') c \<le> count (all_conns s) c) \<or>
    (\<exists>c. c \<notin># all_conns s \<and> all_conns s' = add_mset c (all_conns s))"
  using assms
proof cases
  case (get_dialed M c)
  then have "c \<notin># all_conns s \<and> all_conns s' = add_mset c (all_conns s)"
    by (simp add: all_conns_def)
  then show ?thesis by blast
next
  case (warm_dialed M c)
  then have "c \<notin># all_conns s \<and> all_conns s' = add_mset c (all_conns s)"
    by (simp add: all_conns_def)
  then show ?thesis by blast
qed (rule disjI1, simp add: all_conns_def)+

lemma unique_conns_step:
  assumes "pool_step up down s s'" "\<forall>c. count (all_conns s) c \<le> 1"
  shows "\<forall>c. count (all_conns s') c \<le> 1"
  using pool_step_conns [OF assms(1)]
proof
  assume "\<forall>c. count (all_conns s') c \<le> count (all_conns s) c"
  then show ?thesis
    using assms(2) order.trans by blast
next
  assume "\<exists>c. c \<notin># all_conns s \<and> all_conns s' = add_mset c (all_conns s)"
  then show ?thesis
    using assms(2) by (auto simp: not_in_iff)
qed

definition pool_counts :: "Sys \<Rightarrow> bool" where
  "pool_counts s \<longleftrightarrow>
     po_currentSize (sy_pool s) =
       int (length (po_conns (sy_pool s))) + int (size (sy_held s)) + \<Sum>\<^sub># (image_mset counted (sy_tasks s)) \<and>
     po_activeConns (sy_pool s) = int (size (sy_held s)) \<and>
     length (po_conns (sy_pool s)) \<le> po_maxSize (sy_pool s) \<and>
     0 < po_minSize (sy_pool s) \<and> po_minSize (sy_pool s) \<le> po_maxSize (sy_pool s)"

lemma pool_counts_step:
  assumes "pool_step up down s s'" "pool_counts s"
  shows "pool_counts s'"
  using assms by cases (auto simp: pool_counts_def)

definition pool_inv :: "Sys \<Rightarrow> bool" where
  "pool_inv s \<longleftrightarrow> pool_counts s \<and> (\<forall>c. count (all_conns s) c \<le> 1)"

lemma Start_inv: "pool_inv (Start cfg)"
  by (auto simp: pool_inv_def pool_counts_def Start_def NewAdaptivePool_def all_conns_def Let_def)

interpretation pool_system: inductive_invariant "\<lambda>s. s = Start cfg" "pool_step up down" pool_inv for cfg up down
proof
  show "pool_inv s'" if "pool_inv s" "pool_step up down s s'" for s s'
    using that pool_counts_step [OF that(2)] unique_conns_step [OF that(2)] by (simp add: pool_inv_def)
qed (simp add: Start_inv)

subsection \<open>The sequential operations are runs of the system\<close>

abbreviation sys :: "Pool \<Rightarrow> conn multiset \<Rightarrow> task multiset \<Rightarrow> Sys" where
  "sys p H T \<equiv> \<lparr>sy_pool = p, sy_held = H, sy_tasks = T\<rparr>"

lemmas run_cons = steps_more [where step = "pool_step up down" for up down]
lemmas run_nil = steps_refl [where step = "pool_step up down" for up down]

lemma Get_recv_run:
  assumes "po_conns p = c # cs"
  shows "steps (pool_step up down) (sys p H T) (sys (fst (Get dial p)) (add_mset c H) T)"
proof -
  have 1: "pool_step up down (sys p H T) (sys p H (add_mset GetTry T))"
    using call_get [of up down "sys p H T"] by simp
  have 2: "pool_step up down (sys p H (add_mset GetTry T)) (sys (p\<lparr>po_conns := cs\<rparr>) H (add_mset (GetHave c) T))"
    using get_recv [of "sys p H (add_mset GetTry T)" T c cs up down] assms by simp
  have 3: "pool_step up down (sys (p\<lparr>po_conns := cs\<rparr>) H (add_mset (GetHave c) T))
      (sys (fst (Get dial p)) (add_mset c H) T)"
    using get_active [of "sys (p\<lparr>po_conns := cs\<rparr>) H (add_mset (GetHave c) T)" c T up down] assms by (simp add: Get_def)
  show ?thesis
    by (rule run_cons [OF 1 run_cons [OF 2 run_cons [OF 3 run_nil]]])
qed

lemma Get_empty_run:
  assumes "po_conns p = []" "po_currentSize p < int (po_maxSize p)"
  shows "steps (pool_step up down) (sys p H T) (sys p H (add_mset GetDial T))"
proof -
  have 1: "pool_step up down (sys p H T) (sys p H (add_mset GetTry T))"
    using call_get [of up down "sys p H T"] by simp
  have 2: "pool_step up down (sys p H (add_mset GetTry T)) (sys p H (add_mset GetDecide T))"
    using get_empty [of "sys p H (add_mset GetTry T)" T up down] assms by simp
  have 3: "pool_step up down (sys p H (add_mset GetDecide T)) (sys p H (add_mset GetDial T))"
    using get_room [of "sys p H (add_mset GetDecide T)" T up down] assms by simp
  show ?thesis
    by (rule run_cons [OF 1 run_cons [OF 2 run_cons [OF 3 run_nil]]])
qed

text \<open>What a dial that has been decided on does, whatever happened to the pool meanwhile.\<close>

definition dialed :: "conn \<Rightarrow> Pool \<Rightarrow> Pool" where
  "dialed c p = p\<lparr>po_totalDials := po_totalDials p + 1, po_currentSize := po_currentSize p + 1,
     po_activeConns := po_activeConns p + 1\<rparr>"

lemma GetDial_run:
  assumes "c \<notin># all_conns (sys p H (add_mset GetDial T))"
  shows "steps (pool_step up down) (sys p H (add_mset GetDial T)) (sys (dialed c p) (add_mset c H) T)"
proof -
  let ?p1 = "p\<lparr>po_totalDials := po_totalDials p + 1\<rparr>"
  let ?p2 = "?p1\<lparr>po_currentSize := po_currentSize p + 1\<rparr>"
  have 1: "pool_step up down (sys p H (add_mset GetDial T)) (sys ?p1 H (add_mset (GetDialed c) T))"
    using get_dialed [of "sys p H (add_mset GetDial T)" T c up down] assms by simp
  have 2: "pool_step up down (sys ?p1 H (add_mset (GetDialed c) T)) (sys ?p2 H (add_mset (GetHave c) T))"
    using get_count [of "sys ?p1 H (add_mset (GetDialed c) T)" c T up down] by simp
  have 3: "pool_step up down (sys ?p2 H (add_mset (GetHave c) T)) (sys (dialed c p) (add_mset c H) T)"
    using get_active [of "sys ?p2 H (add_mset (GetHave c) T)" c T up down] by (simp add: dialed_def)
  show ?thesis
    by (rule run_cons [OF 1 run_cons [OF 2 run_cons [OF 3 run_nil]]])
qed

lemma Get_dial_run:
  assumes "po_conns p = []" "po_currentSize p < int (po_maxSize p)" "c \<notin># all_conns (sys p H T)" "\<not> po_closed p"
  shows "steps (pool_step up down) (sys p H T) (sys (fst (Get (Some c) p)) (add_mset c H) T)"
proof -
  have "c \<notin># all_conns (sys p H (add_mset GetDial T))"
    using assms(3) by (simp add: all_conns_def)
  then show ?thesis
    using steps_trans [OF Get_empty_run [OF assms(1,2)] GetDial_run] assms(1,2,4)
    by (simp add: Get_def dialed_def)
qed

lemma put_run:
  assumes "put c p = Some p'"
  shows "steps (pool_step up down) (sys p (add_mset c H) T) (sys p' H T)"
proof -
  let ?p1 = "p\<lparr>po_activeConns := po_activeConns p - 1\<rparr>"
  have 1: "pool_step up down (sys p (add_mset c H) T) (sys ?p1 H (add_mset (Offer c) T))"
    using conn_close [of "sys p (add_mset c H) T" c H up down] by simp
  show ?thesis
  proof (cases "length (po_conns p) < po_maxSize p")
    case True
    then have 2: "pool_step up down (sys ?p1 H (add_mset (Offer c) T)) (sys p' H T)"
      using offer_send [of "sys ?p1 H (add_mset (Offer c) T)" c T up down] assms
      by (simp add: put_def offer_def split: if_splits)
    show ?thesis
      by (rule run_cons [OF 1 run_cons [OF 2 run_nil]])
  next
    case False
    then have 2: "pool_step up down (sys ?p1 H (add_mset (Offer c) T)) (sys ?p1 H (add_mset (Drop c) T))"
      using offer_full [of "sys ?p1 H (add_mset (Offer c) T)" c T up down] by simp
    have 3: "pool_step up down (sys ?p1 H (add_mset (Drop c) T)) (sys p' H T)"
      using drop_count [of "sys ?p1 H (add_mset (Drop c) T)" c T up down] assms False
      by (simp add: put_def offer_def split: if_splits)
    show ?thesis
      by (rule run_cons [OF 1 run_cons [OF 2 run_cons [OF 3 run_nil]]])
  qed
qed

lemma discard_run: "steps (pool_step up down) (sys p (add_mset c H) T) (sys (discard c p) H T)"
proof -
  let ?p1 = "p\<lparr>po_activeConns := po_activeConns p - 1\<rparr>"
  have 1: "pool_step up down (sys p (add_mset c H) T) (sys ?p1 H (add_mset (Drop c) T))"
    using conn_bad [of "sys p (add_mset c H) T" c H up down] by simp
  have 2: "pool_step up down (sys ?p1 H (add_mset (Drop c) T)) (sys (discard c p) H T)"
    using drop_count [of "sys ?p1 H (add_mset (Drop c) T)" c T up down] by (simp add: discard_def)
  show ?thesis
    by (rule run_cons [OF 1 run_cons [OF 2 run_nil]])
qed

subsection \<open>Properties\<close>

lemma counted_nonneg: "0 \<le> \<Sum>\<^sub># (image_mset counted T)"
proof (induction T)
  case (add t T)
  then show ?case by (cases t) auto
qed simp



lemma failed_warmups:
  "\<exists>p'. steps (pool_step up down) (sys p H (replicate_mset n WarmDial)) (sys p' H {#}) \<and>
     po_conns p' = po_conns p \<and> po_currentSize p' = po_currentSize p \<and> po_maxSize p' = po_maxSize p \<and>
     po_activeConns p' = po_activeConns p"
proof (induction n arbitrary: p)
  case 0
  then show ?case by (intro exI [of _ p]) (simp add: run_nil)
next
  case (Suc n)
  let ?p = "p\<lparr>po_totalErrors := po_totalErrors p + 1\<rparr>"
  have 1: "pool_step up down (sys p H (replicate_mset (Suc n) WarmDial)) (sys ?p H (replicate_mset n WarmDial))"
    using warm_err [of "sys p H (replicate_mset (Suc n) WarmDial)" "replicate_mset n WarmDial" up down] by simp
  obtain p' where "steps (pool_step up down) (sys ?p H (replicate_mset n WarmDial)) (sys p' H {#})"
    "po_conns p' = po_conns ?p" "po_currentSize p' = po_currentSize ?p" "po_maxSize p' = po_maxSize ?p"
    "po_activeConns p' = po_activeConns ?p"
    using Suc.IH [of ?p] by blast
  then show ?case
    using run_cons [OF 1] by (intro exI [of _ p']) simp
qed

lemma concurrent_gets:
  assumes "po_conns p = []" "po_currentSize p < int (po_maxSize p)"
  shows "steps (pool_step up down) (sys p H T) (sys p H (T + replicate_mset n GetDial))"
proof (induction n)
  case 0
  then show ?case by (simp add: run_nil)
next
  case (Suc n)
  then show ?case
    using steps_trans [OF Suc.IH Get_empty_run [OF assms]] by simp
qed

lemma concurrent_dials:
  assumes "po_conns p = []" "\<forall>c \<in># H. c < k"
  shows "\<exists>p' H'. steps (pool_step up down) (sys p H (replicate_mset n GetDial)) (sys p' H' {#}) \<and>
    po_currentSize p' = po_currentSize p + int n \<and> po_maxSize p' = po_maxSize p \<and> size H' = size H + n"
  using assms
proof (induction n arbitrary: p H k)
  case 0
  then show ?case by (intro exI [of _ p] exI [of _ H]) (simp add: run_nil)
next
  case (Suc n)
  have "k \<notin># all_conns (sys p H (add_mset GetDial (replicate_mset n GetDial)))"
    using Suc.prems by (auto simp: all_conns_def)
  then have run: "steps (pool_step up down) (sys p H (replicate_mset (Suc n) GetDial))
      (sys (dialed k p) (add_mset k H) (replicate_mset n GetDial))"
    using GetDial_run by simp
  have "po_conns (dialed k p) = []" "\<forall>c \<in># add_mset k H. c < Suc k"
    using Suc.prems by (auto simp: dialed_def)
  then obtain p' H' where "steps (pool_step up down) (sys (dialed k p) (add_mset k H) (replicate_mset n GetDial)) (sys p' H' {#})"
    "po_currentSize p' = po_currentSize (dialed k p) + int n" "po_maxSize p' = po_maxSize (dialed k p)"
    "size H' = size (add_mset k H) + n"
    using Suc.IH [of "dialed k p" "add_mset k H" "Suc k"] by blast
  then show ?case
    using steps_trans [OF run] by (intro exI [of _ p'] exI [of _ H']) (auto simp: dialed_def)
qed

text \<open>
  The maximum is not a bound: the comparison with it and the increment of the size are separate
  steps, so any number of callers that find the pool empty at the same time all dial. For every
  configuration and every \<open>n\<close> a run without any other activity ends with \<open>n\<close> connections handed out.
\<close>

theorem pool_maximum_not_enforced:
  "\<exists>s. reachable (\<lambda>s. s = Start cfg) (pool_step up down) s \<and> sy_tasks s = {#} \<and>
     po_currentSize (sy_pool s) = int n \<and> size (sy_held s) = n \<and>
     po_maxSize (sy_pool s) = po_maxSize (fst (NewAdaptivePool cfg))"
proof -
  obtain p w where pw: "NewAdaptivePool cfg = (p, w)"
    by fastforce
  have p: "po_conns p = []" "po_currentSize p = 0" "0 < po_maxSize p"
    using pw by (auto simp: NewAdaptivePool_def Let_def split: if_splits)
  obtain p1 where r1: "steps (pool_step up down) (Start cfg) (sys p1 {#} {#})"
    "po_conns p1 = []" "po_currentSize p1 = 0" "po_maxSize p1 = po_maxSize p"
    using failed_warmups [of up down p "{#}" w] p pw by (auto simp: Start_def)
  have r2: "steps (pool_step up down) (sys p1 {#} {#}) (sys p1 {#} (replicate_mset n GetDial))"
    using concurrent_gets [of p1 up down "{#}" "{#}" n] r1 p by simp
  obtain p2 H where r3: "steps (pool_step up down) (sys p1 {#} (replicate_mset n GetDial)) (sys p2 H {#})"
    "po_currentSize p2 = int n" "po_maxSize p2 = po_maxSize p" "size H = n"
    using concurrent_dials [of p1 "{#}" 0 up down n] r1 by auto
  have "reachable (\<lambda>s. s = Start cfg) (pool_step up down) (sys p2 H {#})"
    using reachable_steps [OF reach_init steps_trans [OF steps_trans [OF r1(1) r2] r3(1)]] by simp
  then show ?thesis
    using r3 pw by (intro exI [of _ "sys p2 H {#}"]) simp
qed

text \<open>One caller at a time never takes the pool above its maximum.\<close>

lemma Get_respects_maximum:
  "po_currentSize p \<le> int (po_maxSize p) \<Longrightarrow> po_currentSize (fst (Get dial p)) \<le> int (po_maxSize p)"
  by (auto simp: Get_def split: list.splits option.splits)

text \<open>Returning a connection after the pool was closed sends on a closed channel.\<close>

lemma put_after_close_panics: "put c (Close p) = None"
  by (simp add: put_def offer_def Close_def)

end
