(* ===== verification/Transport_Frames.thy ===== *)
theory Transport_Frames
  imports Framing Conn_Writer
begin

text \<open>
  The framed transports: internal/transport/grpc.go (gRPC data frames and the relay loops around
  them) and internal/transport/faketcp.go (datagrams over TCP with a two-byte length). The
  FakeTCP connection keeps the rest of a message in a buffer between reads; it is proved to refine
  a queue of messages.
\<close>

subsection \<open>gRPC frames\<close>

definition makeGRPCFrame :: "bytes \<Rightarrow> bytes" where
  "makeGRPCFrame d = 0 # len32 (length d) @ d"

datatype grpc_error = GRPCRead io_error | GRPCTooLarge nat

definition readGRPCFrame :: "bytes \<Rightarrow> grpc_error + bytes \<times> bytes" where
  "readGRPCFrame r =
     andThen (map_sum GRPCRead id (readFull 5 r)) (\<lambda>(header, r1).
       let len = int32 (header ! 1) (header ! 2) (header ! 3) (header ! 4) in
       if len > 4 * 1024 * 1024 then Inl (GRPCTooLarge len)
       else if len = 0 then Inr ([], r1)
       else map_sum GRPCRead id (readFull len r1))"

text \<open>
  The relay loops: the uploader frames every non-empty read of its pipe, the downloader delivers
  the data of every frame until the first error.
\<close>

definition grpcUpload :: "bytes list \<Rightarrow> bytes" where
  "grpcUpload reads = concat (map makeGRPCFrame (filter (\<lambda>b. 0 < length b) reads))"

function grpcDownload :: "bytes \<Rightarrow> bytes list" where
  "grpcDownload body =
     (case readGRPCFrame body of Inl _ \<Rightarrow> [] | Inr (d, rest) \<Rightarrow> d # grpcDownload rest)"
  by pat_completeness auto
termination
proof (relation "measure length", goal_cases)
  case (2 body p d rest)
  then obtain h r1 where "readFull 5 body = Inr (h, r1)" "length rest \<le> length r1"
    by (auto simp: readGRPCFrame_def readFull_def Let_def split: if_splits)
  then show ?case
    by (simp add: readFull_Inr_iff)
qed simp

declare grpcDownload.simps [simp del]

lemma readGRPCFrame_frame:
  assumes "length d \<le> 4 * 1024 * 1024"
  shows "readGRPCFrame (makeGRPCFrame d @ rest) = Inr (d, rest)"
proof -
  have h: "readFull 5 (makeGRPCFrame d @ rest) = Inr (0 # len32 (length d), d @ rest)"
    using readFull_append [of "0 # len32 (length d)" 5 "d @ rest"] by (simp add: makeGRPCFrame_def)
  have "length d mod 2 ^ 32 = length d"
    using assms by simp
  then have l: "int32 ((0 # len32 (length d)) ! 1) ((0 # len32 (length d)) ! 2) ((0 # len32 (length d)) ! 3)
      ((0 # len32 (length d)) ! 4) = length d"
    using int32_len32 [of "length d"] by (simp add: len32_def)
  show ?thesis
    unfolding readGRPCFrame_def h
    using assms l readFull_append [of d "length d" rest] by (simp add: Let_def)
qed

interpretation grpc_codec: frame_codec makeGRPCFrame readGRPCFrame "\<lambda>d. length d \<le> 4 * 1024 * 1024"
  by unfold_locales (simp_all add: readGRPCFrame_frame, simp add: makeGRPCFrame_def)

lemma grpcDownload_frame:
  "length d \<le> 4 * 1024 * 1024 \<Longrightarrow> grpcDownload (makeGRPCFrame d @ rest) = d # grpcDownload rest"
  by (subst grpcDownload.simps) (simp add: readGRPCFrame_frame)

lemma grpcDownload_Nil [simp]: "grpcDownload [] = []"
  by (subst grpcDownload.simps) (simp add: readGRPCFrame_def readFull_def)

lemma grpcDownload_cut:
  assumes "k < length (makeGRPCFrame d)" "d \<noteq> []" "length d \<le> 4 * 1024 * 1024"
  shows "grpcDownload (take k (makeGRPCFrame d)) = []"
proof (cases "k < 5")
  case True
  then have "readFull 5 (take k (makeGRPCFrame d)) = Inl EOF \<or> readFull 5 (take k (makeGRPCFrame d)) = Inl UnexpectedEOF"
    by (auto simp: readFull_def)
  then show ?thesis
    by (subst grpcDownload.simps) (auto simp: readGRPCFrame_def)
next
  case False
  then have t: "take k (makeGRPCFrame d) = (0 # len32 (length d)) @ take (k - 5) d"
    by (simp add: makeGRPCFrame_def take_Cons')
  have h: "readFull 5 (take k (makeGRPCFrame d)) = Inr (0 # len32 (length d), take (k - 5) d)"
    unfolding t by (rule readFull_append) simp
  have "length d mod 2 ^ 32 = length d"
    using assms by simp
  then have l: "int32 ((0 # len32 (length d)) ! 1) ((0 # len32 (length d)) ! 2) ((0 # len32 (length d)) ! 3)
      ((0 # len32 (length d)) ! 4) = length d"
    using int32_len32 [of "length d"] by (simp add: len32_def)
  have short: "length (take (k - 5) d) < length d"
    using assms(1) False by (simp add: makeGRPCFrame_def)
  then obtain e where "readFull (length d) (take (k - 5) d) = Inl e"
    using readFull_short by blast
  then have "readGRPCFrame (take k (makeGRPCFrame d)) = Inl (GRPCRead e)"
    unfolding readGRPCFrame_def h using l assms by (simp add: Let_def)
  then show ?thesis
    by (subst grpcDownload.simps) simp
qed

lemma grpcDownload_stream:
  "list_all (\<lambda>d. d \<noteq> [] \<and> length d \<le> 4 * 1024 * 1024) ds \<Longrightarrow>
     \<exists>n. grpcDownload (take k (concat (map makeGRPCFrame ds))) = take n ds \<and>
       (length (concat (map makeGRPCFrame ds)) \<le> k \<longrightarrow> n = length ds)"
proof (induction ds arbitrary: k)
  case (Cons d ds)
  have d: "d \<noteq> []" "length d \<le> 4 * 1024 * 1024"
    using Cons.prems by auto
  show ?case
  proof (cases "k < length (makeGRPCFrame d)")
    case True
    then show ?thesis
      using grpcDownload_cut [OF True d] by (intro exI [of _ 0]) auto
  next
    case False
    obtain n where n: "grpcDownload (take (k - length (makeGRPCFrame d)) (concat (map makeGRPCFrame ds))) = take n ds"
      "length (concat (map makeGRPCFrame ds)) \<le> k - length (makeGRPCFrame d) \<longrightarrow> n = length ds"
      using Cons.IH [of "k - length (makeGRPCFrame d)"] Cons.prems by auto
    have "take k (concat (map makeGRPCFrame (d # ds))) =
        makeGRPCFrame d @ take (k - length (makeGRPCFrame d)) (concat (map makeGRPCFrame ds))"
      using False by simp
    then have "grpcDownload (take k (concat (map makeGRPCFrame (d # ds)))) = take (Suc n) (d # ds)"
      using grpcDownload_frame [OF d(2)] n(1) by simp
    then show ?thesis
      using n(2) by (intro exI [of _ "Suc n"]) auto
  qed
qed auto

text \<open>
  Whatever the peer reads from its side of the tunnel in pieces of at most 32768 bytes comes
  out of the gRPC download loop as the same pieces, empty ones left out; if the HTTP body is cut
  at any byte, the loop delivers the pieces that arrived completely and nothing else.
\<close>

theorem grpc_relay_preserves_stream:
  assumes "\<forall>b \<in> set reads. length b \<le> 32768"
  shows "grpcDownload (grpcUpload reads) = filter (\<lambda>b. 0 < length b) reads \<and>
    (\<exists>n. grpcDownload (take k (grpcUpload reads)) = take n (filter (\<lambda>b. 0 < length b) reads))"
proof -
  let ?ds = "filter (\<lambda>b. 0 < length b) reads"
  have ok: "list_all (\<lambda>d. d \<noteq> [] \<and> length d \<le> 4 * 1024 * 1024) ?ds"
    using assms by (auto simp: list_all_iff)
  obtain n where "grpcDownload (take (length (grpcUpload reads)) (grpcUpload reads)) = take n ?ds" "n = length ?ds"
    using grpcDownload_stream [OF ok, of "length (grpcUpload reads)"] unfolding grpcUpload_def by auto
  then have "grpcDownload (grpcUpload reads) = ?ds"
    by simp
  moreover obtain m where "grpcDownload (take k (grpcUpload reads)) = take m ?ds"
    using grpcDownload_stream [OF ok, of k] unfolding grpcUpload_def by auto
  ultimately show ?thesis
    by blast
qed

theorem grpc_relay_preserves_stream_witness:
  "grpcDownload (grpcUpload [[1, 2], [], [3]]) = [[1, 2], [3]]"
  using grpc_relay_preserves_stream [of "[[1, 2], [], [3]]" 0] by simp

subsection \<open>FakeTCP connections\<close>

text \<open>
  The incoming bytes are \<open>ft_input\<close>; \<open>ft_readBuf\<close> is the backing array of the read buffer, of
  which \<open>readBuf[readPos:readLen]\<close> is still to be returned.
\<close>

record fakeTCPConn =
  ft_input :: bytes
  ft_readBuf :: bytes
  ft_readPos :: nat
  ft_readLen :: nat
  ft_bytesSent :: int
  ft_bytesRecv :: int

datatype ft_error = PayloadTooLarge nat | ConnError | ShortWrite

definition fakeFrame :: "bytes \<Rightarrow> bytes" where
  "fakeFrame p = putUint16 (word_of_nat (length p)) @ p"

definition FakeTCP_Write :: "bytes \<Rightarrow> fakeTCPConn \<Rightarrow> net_conn \<Rightarrow> (ft_error + nat) \<times> fakeTCPConn \<times> net_conn" where
  "FakeTCP_Write p c conn =
     (if length p > 65535 then (Inl (PayloadTooLarge (length p)), c, conn)
      else let buf = fakeFrame p in
        case conn_write buf conn of
          (n, err, conn') \<Rightarrow>
            if err then (Inl ConnError, c, conn')
            else if n < length buf then (Inl ShortWrite, c, conn')
            else (Inr (length p), c\<lparr>ft_bytesSent := ft_bytesSent c + int (length p)\<rparr>, conn'))"

definition FakeTCP_Read :: "nat \<Rightarrow> fakeTCPConn \<Rightarrow> (io_error + bytes) \<times> fakeTCPConn" where
  "FakeTCP_Read k c =
     (if ft_readPos c < ft_readLen c
      then let d = take k (take (ft_readLen c - ft_readPos c) (drop (ft_readPos c) (ft_readBuf c)))
           in (Inr d, c\<lparr>ft_readPos := ft_readPos c + length d\<rparr>)
      else case readFull 2 (ft_input c) of
        Inl e \<Rightarrow> (Inl e, c\<lparr>ft_input := []\<rparr>)
      | Inr (header, r1) \<Rightarrow>
          let payloadLen = unat (getUint16 (header ! 0) (header ! 1)) in
          if payloadLen = 0 then (Inr [], c\<lparr>ft_input := r1\<rparr>)
          else let buf = (if length (ft_readBuf c) < payloadLen then replicate payloadLen 0 else ft_readBuf c) in
            case readFull payloadLen r1 of
              Inl e \<Rightarrow> (Inl e, c\<lparr>ft_input := [], ft_readBuf := overwrite buf r1\<rparr>)
            | Inr (payload, r2) \<Rightarrow>
                let d = take k payload in
                (Inr d, c\<lparr>ft_input := r2, ft_readBuf := overwrite buf payload, ft_readLen := payloadLen,
                          ft_readPos := length d, ft_bytesRecv := ft_bytesRecv c + int (length d)\<rparr>))"

primrec FakeTCP_writes :: "bytes list \<Rightarrow> fakeTCPConn \<Rightarrow> net_conn \<Rightarrow> fakeTCPConn \<times> net_conn" where
  "FakeTCP_writes [] c conn = (c, conn)"
| "FakeTCP_writes (p # ps) c conn = (case FakeTCP_Write p c conn of (r, c', conn') \<Rightarrow> FakeTCP_writes ps c' conn')"

primrec FakeTCP_reads :: "nat list \<Rightarrow> fakeTCPConn \<Rightarrow> (io_error + bytes) list" where
  "FakeTCP_reads [] c = []"
| "FakeTCP_reads (k # ks) c = (case FakeTCP_Read k c of (r, c') \<Rightarrow> r # FakeTCP_reads ks c')"

text \<open>
  The specification: a queue of messages, of which the first may be partly read. A read returns
  bytes of one message only.
\<close>

type_synonym msg_queue = "bytes \<times> bytes list"

fun queue_read :: "nat \<Rightarrow> msg_queue \<Rightarrow> (io_error + bytes) \<times> msg_queue" where
  "queue_read k ([], []) = (Inl EOF, ([], []))"
| "queue_read k ([], m # ms) = (Inr (take k m), (drop k m, ms))"
| "queue_read k (b # bs, ms) = (Inr (take k (b # bs)), (drop k (b # bs), ms))"

primrec queue_reads :: "nat list \<Rightarrow> msg_queue \<Rightarrow> (io_error + bytes) list" where
  "queue_reads [] q = []"
| "queue_reads (k # ks) q = (case queue_read k q of (r, q') \<Rightarrow> r # queue_reads ks q')"

definition ft_rel :: "fakeTCPConn \<Rightarrow> msg_queue \<Rightarrow> bool" where
  "ft_rel c q \<longleftrightarrow>
     fst q = take (ft_readLen c - ft_readPos c) (drop (ft_readPos c) (ft_readBuf c)) \<and>
     ft_readPos c \<le> ft_readLen c \<and> ft_readLen c \<le> length (ft_readBuf c) \<and>
     ft_input c = concat (map fakeFrame (snd q)) \<and> (\<forall>m \<in> set (snd q). length m \<le> 65535)"

lemma unat_word16: "n \<le> 65535 \<Longrightarrow> unat (word_of_nat n :: 16 word) = n"
  by (simp add: unat_of_nat)

lemma fakeFrame_header:
  assumes "length m \<le> 65535"
  shows "readFull 2 (fakeFrame m @ rest) = Inr (putUint16 (word_of_nat (length m)), m @ rest)"
    and "unat (getUint16 (putUint16 (word_of_nat (length m)) ! 0) (putUint16 (word_of_nat (length m)) ! 1)) = length m"
proof -
  show "readFull 2 (fakeFrame m @ rest) = Inr (putUint16 (word_of_nat (length m)), m @ rest)"
    by (simp add: fakeFrame_def readFull_append)
  show "unat (getUint16 (putUint16 (word_of_nat (length m)) ! 0) (putUint16 (word_of_nat (length m)) ! 1)) = length m"
    using assms by (simp add: putUint16_def getUint16_put unat_word16)
qed

text \<open>One read of the connection is one read of the queue it represents.\<close>

lemma FakeTCP_Read_refines:
  assumes "ft_rel c q"
  shows "fst (FakeTCP_Read k c) = fst (queue_read k q)"
    and "ft_rel (snd (FakeTCP_Read k c)) (snd (queue_read k q))"
proof -
  obtain cur ms where q: "q = (cur, ms)" by fastforce
  have rel: "cur = take (ft_readLen c - ft_readPos c) (drop (ft_readPos c) (ft_readBuf c))"
    "ft_readPos c \<le> ft_readLen c" "ft_readLen c \<le> length (ft_readBuf c)"
    "ft_input c = concat (map fakeFrame ms)" "\<forall>m \<in> set ms. length m \<le> 65535"
    using assms by (auto simp: ft_rel_def q)
  have len: "length cur = ft_readLen c - ft_readPos c"
    using rel by simp
  have "fst (FakeTCP_Read k c) = fst (queue_read k q) \<and> ft_rel (snd (FakeTCP_Read k c)) (snd (queue_read k q))"
  proof (cases cur)
    case (Cons b bs)
    then have "ft_readPos c < ft_readLen c"
      using len by simp
    moreover have "drop k cur = take (ft_readLen c - (ft_readPos c + length (take k cur)))
        (drop (ft_readPos c + length (take k cur)) (ft_readBuf c))"
      using rel(1) len by (cases "k \<le> length cur") (auto simp: drop_take ac_simps)
    moreover have "queue_read k q = (Inr (take k cur), (drop k cur, ms))"
      using Cons by (simp add: q)
    ultimately show ?thesis
      using rel(2-5) len by (auto simp: FakeTCP_Read_def Let_def ft_rel_def simp flip: rel(1))
  next
    case Nil
    then have pos: "\<not> ft_readPos c < ft_readLen c"
      using len by simp
    show ?thesis
    proof (cases ms)
      case Nil': Nil
      then show ?thesis
        using rel Nil pos by (simp add: FakeTCP_Read_def readFull_def q ft_rel_def)
    next
      case (Cons m ms')
      have m: "length m \<le> 65535" "ft_input c = fakeFrame m @ concat (map fakeFrame ms')"
        using rel Cons by auto
      note h = fakeFrame_header(1) [OF m(1), of "concat (map fakeFrame ms')"] fakeFrame_header(2) [OF m(1)]
      show ?thesis
        using rel Nil Cons pos m(2) h readFull_append [of m "length m" "concat (map fakeFrame ms')"]
        by (auto simp: FakeTCP_Read_def Let_def q ft_rel_def overwrite_def min_def)
    qed
  qed
  then show "fst (FakeTCP_Read k c) = fst (queue_read k q)" "ft_rel (snd (FakeTCP_Read k c)) (snd (queue_read k q))"
    by auto
qed

lemma FakeTCP_reads_refine: "ft_rel c q \<Longrightarrow> FakeTCP_reads ks c = queue_reads ks q"
proof (induction ks arbitrary: c q)
  case (Cons k ks)
  then show ?case
    using FakeTCP_Read_refines [OF Cons.prems, of k]
    by (cases "FakeTCP_Read k c"; cases "queue_read k q") auto
qed simp

lemma FakeTCP_writes_sent:
  assumes "nc_budget conn = None" "\<forall>p \<in> set ps. length p \<le> 65535"
  shows "nc_sent (snd (FakeTCP_writes ps c conn)) = nc_sent conn @ concat (map fakeFrame ps)"
  using assms
proof (induction ps arbitrary: c conn)
  case (Cons p ps)
  then show ?case
    by (simp add: FakeTCP_Write_def conn_write_def Let_def nc_sent_def)
qed simp

definition new_fakeTCP :: "bytes \<Rightarrow> fakeTCPConn" where
  "new_fakeTCP inp = \<lparr>ft_input = inp, ft_readBuf = [], ft_readPos = 0, ft_readLen = 0, ft_bytesSent = 0, ft_bytesRecv = 0\<rparr>"

text \<open>
  C34: A FakeTCP connection implements a queue of messages. What the sender wrote as messages of at
  most 65535 bytes is read by the peer, for every sequence of buffer sizes, exactly as reads of
  the message queue: each read returns bytes of a single message, in order, a message that does
  not fit is continued by the next read, and the end of the stream comes after the last message.
\<close>

theorem faketcp_refines_message_queue:
  assumes "nc_budget conn = None" "nc_sent conn = []" "\<forall>m \<in> set msgs. length m \<le> 65535"
  shows "FakeTCP_reads ks (new_fakeTCP (nc_sent (snd (FakeTCP_writes msgs c conn)))) = queue_reads ks ([], msgs)"
proof (rule FakeTCP_reads_refine)
  show "ft_rel (new_fakeTCP (nc_sent (snd (FakeTCP_writes msgs c conn)))) ([], msgs)"
    using FakeTCP_writes_sent [OF assms(1,3), of c] assms(2,3) by (simp add: ft_rel_def new_fakeTCP_def)
qed

theorem faketcp_refines_message_queue_witness:
  "FakeTCP_reads [2, 10, 10, 10] (new_fakeTCP (nc_sent (snd (FakeTCP_writes [[1, 2, 3], [4]] (new_fakeTCP [])
      \<lparr>nc_writes = [], nc_budget = None\<rparr>)))) = [Inr [1, 2], Inr [3], Inr [4], Inl EOF]"
  using faketcp_refines_message_queue [of "\<lparr>nc_writes = [], nc_budget = None\<rparr>" "[[1, 2, 3], [4]]"]
  by (simp add: nc_sent_def)

text \<open>The receive counter misses what later reads of a message return.\<close>

lemma faketcp_recv_undercount:
  "ft_bytesRecv (snd (FakeTCP_Read 1 (snd (FakeTCP_Read 1 (new_fakeTCP (fakeFrame [7, 8])))))) = 1"
  using fakeFrame_header(1) [of "[7, 8]" "[]"] fakeFrame_header(2) [of "[7, 8]"] readFull_append [of "[7, 8]" "Suc (Suc 0)" "[]"]
  by (simp add: FakeTCP_Read_def new_fakeTCP_def overwrite_def Let_def)

end
