(* ===== verification/Dns.thy ===== *)
theory Dns
  imports Go_Strings
begin

text \<open>
  internal/dns/resolver.go and internal/stealth/dns_tunnel.go: building DNS queries and parsing
  DNS responses by hand, the DNS-over-HTTPS resolver with its cache, and the packets of the DNS
  tunnel. Responses are read by index, so a read outside the packet is the panic \<open>OutOfRange\<close>.
  Host names are byte strings; the runes of valid UTF-8 text are split at dots like its bytes.
\<close>

subsection \<open>Queries\<close>

definition add_label :: "char \<Rightarrow> string list \<times> string \<Rightarrow> string list \<times> string" where
  "add_label c s =
     (case s of (labels, current) \<Rightarrow>
        if c = CHR ''.'' then (if current \<noteq> [] then (labels @ [current], []) else (labels, current))
        else (labels, current @ [c]))"

definition splitHostname :: "string \<Rightarrow> string list" where
  "splitHostname hostname =
     (case fold add_label hostname ([], []) of
        (labels, current) \<Rightarrow> if current \<noteq> [] then labels @ [current] else labels)"

definition enc_label :: "string \<Rightarrow> bytes" where
  "enc_label label = byte_of (length label) # bytes_of label"

definition buildDNSQuery :: "string \<Rightarrow> nat \<Rightarrow> bytes" where
  "buildDNSQuery hostname qtype =
     [0xAB, 0xCD] @ [0x01, 0x00] @ [0x00, 0x01] @ [0x00, 0x00, 0x00, 0x00, 0x00, 0x00] @
     concat (map enc_label (splitHostname hostname)) @ [0x00] @ len16 qtype @ [0x00, 0x01]"

subsection \<open>Responses\<close>

datatype dns_error = ResponseTooShort

text \<open>Skipping the question's name, and the name of an answer that does not start with a pointer.\<close>

function skipQName :: "bytes \<Rightarrow> nat \<Rightarrow> nat" where
  "skipQName d offset =
     (if offset < length d then
        let len = unat (d ! offset) in
        if len = 0 then offset + 1
        else if 192 \<le> len then offset + 2
        else skipQName d (offset + len + 1)
      else offset)"
  by pat_completeness auto
termination
  by (relation "measure (\<lambda>(d, offset). length d - offset)") auto

function skipName :: "bytes \<Rightarrow> nat \<Rightarrow> nat" where
  "skipName d offset =
     (if offset < length d then
        let len = unat (d ! offset) in
        if len = 0 then offset + 1 else skipName d (offset + len + 1)
      else offset)"
  by pat_completeness auto
termination
  by (relation "measure (\<lambda>(d, offset). length d - offset)") auto

declare skipQName.simps [simp del] skipName.simps [simp del]

text \<open>\<open>net.IPv4\<close> returns the 16-byte form.\<close>

definition IPv4 :: "bytes \<Rightarrow> bytes" where
  "IPv4 b = replicate 10 0 @ [0xff, 0xff] @ b"

primrec parseAnswers :: "bytes \<Rightarrow> nat \<Rightarrow> nat \<Rightarrow> bytes list \<Rightarrow> dns_error go_err + bytes list" where
  "parseAnswers d 0 offset ips = Inr ips"
| "parseAnswers d (Suc n) offset ips =
     (if length d \<le> offset then Inr ips
      else
        let offset1 = (if 192 \<le> unat (d ! offset) then offset + 2 else skipName d offset) in
        if length d < offset1 + 10 then Inr ips
        else andThen (u16_at d offset1) (\<lambda>rtype.
          andThen (u16_at d (offset1 + 8)) (\<lambda>rdlength.
            let offset2 = offset1 + 10 in
            if length d < offset2 + rdlength then Inr ips
            else if rtype = 1 \<and> rdlength = 4
            then andThen (slice_at d offset2 (offset2 + 4)) (\<lambda>ip.
                   parseAnswers d n (offset2 + rdlength) (ips @ [IPv4 ip]))
            else if rtype = 28 \<and> rdlength = 16
            then andThen (slice_at d offset2 (offset2 + 16)) (\<lambda>ip.
                   parseAnswers d n (offset2 + rdlength) (ips @ [ip]))
            else parseAnswers d n (offset2 + rdlength) ips)))"

definition parseDNSResponse :: "bytes \<Rightarrow> dns_error go_err + bytes list" where
  "parseDNSResponse d =
     (if length d < 12 then Inl (Err ResponseTooShort)
      else andThen (u16_at d 6) (\<lambda>answerCount.
        if answerCount = 0 then Inr []
        else parseAnswers d answerCount (skipQName d 12 + 4) []))"

subsection \<open>The resolver\<close>

record CacheEntry =
  ce_IPs :: "bytes list"
  ce_ExpiresAt :: time

record Resolver =
  re_servers :: "string list"
  re_cache :: "string \<rightharpoonup> CacheEntry"

definition DefaultDoHServers :: "string list" where
  "DefaultDoHServers = [''https://1.1.1.1/dns-query'', ''https://8.8.8.8/dns-query'', ''https://9.9.9.9/dns-query'',
     ''https://208.67.222.222/dns-query'', ''https://185.228.168.168/dns-query'']"

definition NewResolver :: "string list \<Rightarrow> Resolver" where
  "NewResolver servers = \<lparr>re_servers = (if servers = [] then DefaultDoHServers else servers), re_cache = Map.empty\<rparr>"

text \<open>
  The HTTPS exchange is the parameter \<open>http\<close>: for a server and a query it fails, or gives a status
  code and a body.
\<close>

datatype 'e doh_error = HTTPError 'e | BadStatus nat | ParseError "dns_error go_err"

definition queryDoH :: "(string \<Rightarrow> bytes \<Rightarrow> 'e + nat \<times> bytes) \<Rightarrow> string \<Rightarrow> string \<Rightarrow> 'e doh_error + bytes list" where
  "queryDoH http serverURL hostname =
     andThen (map_sum HTTPError id (http serverURL (buildDNSQuery hostname 1))) (\<lambda>(status, body).
       if status \<noteq> 200 then Inl (BadStatus status) else map_sum ParseError id (parseDNSResponse body))"

fun tryServers :: "(string \<Rightarrow> bytes \<Rightarrow> 'e + nat \<times> bytes) \<Rightarrow> string \<Rightarrow> string list \<Rightarrow> 'e doh_error option \<Rightarrow>
    'e doh_error option + bytes list" where
  "tryServers http hostname [] lastErr = Inl lastErr"
| "tryServers http hostname (server # servers) lastErr =
     (case queryDoH http server hostname of
        Inl e \<Rightarrow> tryServers http hostname servers (Some e)
      | Inr ips \<Rightarrow> if ips \<noteq> [] then Inr ips else tryServers http hostname servers lastErr)"

definition Resolve :: "(string \<Rightarrow> bytes \<Rightarrow> 'e + nat \<times> bytes) \<Rightarrow> time \<Rightarrow> string \<Rightarrow> Resolver \<Rightarrow>
    ('e doh_error option + bytes list) \<times> Resolver" where
  "Resolve http now hostname r =
     (case re_cache r hostname of
        Some entry \<Rightarrow>
          if now < ce_ExpiresAt entry then (Inr (ce_IPs entry), r)
          else (let r1 = r\<lparr>re_cache := (re_cache r)(hostname := None)\<rparr> in
                case tryServers http hostname (re_servers r1) None of
                  Inl e \<Rightarrow> (Inl e, r1)
                | Inr ips \<Rightarrow> (Inr ips, r1\<lparr>re_cache := (re_cache r1)(hostname \<mapsto>
                    \<lparr>ce_IPs = ips, ce_ExpiresAt = now + 5 * minute\<rparr>)\<rparr>))
      | None \<Rightarrow>
          (case tryServers http hostname (re_servers r) None of
             Inl e \<Rightarrow> (Inl e, r)
           | Inr ips \<Rightarrow> (Inr ips, r\<lparr>re_cache := (re_cache r)(hostname \<mapsto>
               \<lparr>ce_IPs = ips, ce_ExpiresAt = now + 5 * minute\<rparr>)\<rparr>)))"

subsection \<open>The DNS tunnel\<close>

partial_function (option) splitIntoLabels :: "string \<Rightarrow> nat \<Rightarrow> string list option" where
  "splitIntoLabels s maxLen =
     (if s = [] then Some []
      else let en = (if maxLen > length s then length s else maxLen) in
        Option.bind (splitIntoLabels (drop en s) maxLen) (\<lambda>labels. Some (take en s # labels)))"

definition buildDNSQueryPacket :: "string \<Rightarrow> nat \<Rightarrow> bytes" where
  "buildDNSQueryPacket name qtype =
     [0x12, 0x34] @ [0x01, 0x00] @ [0x00, 0x01] @ [0x00, 0x00, 0x00, 0x00, 0x00, 0x00] @
     concat (map enc_label (split_on CHR ''.'' name)) @ [0x00] @ len16 qtype @ [0x00, 0x01]"

datatype txt_error = TxtTooShort | NoAnswerSection | TruncatedAnswer | RDataOverflow | EmptyTXT

function skipTXTQuestion :: "bytes \<Rightarrow> nat \<Rightarrow> nat" where
  "skipTXTQuestion d offset =
     (if offset < length d \<and> d ! offset \<noteq> 0 then
        if 192 \<le> unat (d ! offset) then offset + 2
        else skipTXTQuestion d (offset + unat (d ! offset) + 1)
      else offset)"
  by pat_completeness auto
termination
  by (relation "measure (\<lambda>(d, offset). length d - offset)") auto

declare skipTXTQuestion.simps [simp del]

definition parseTXTResponse :: "bytes \<Rightarrow> txt_error go_err + bytes" where
  "parseTXTResponse d =
     (if length d < 12 then Inl (Err TxtTooShort)
      else
        let o1 = skipTXTQuestion d 12;
            o2 = (if o1 < length d \<and> d ! o1 = 0 then o1 + 1 else o1);
            o3 = o2 + 4
        in if length d \<le> o3 then Inl (Err NoAnswerSection)
           else
             let o4 = (if 192 \<le> unat (d ! o3) then o3 + 2 else o3); o5 = o4 + 8
             in if length d < o5 + 2 then Inl (Err TruncatedAnswer)
                else andThen (u16_at d o5) (\<lambda>rdLen.
                  let o6 = o5 + 2 in
                  if length d < o6 + rdLen then Inl (Err RDataOverflow)
                  else if 1 < rdLen
                  then andThen (byte_at d o6) (\<lambda>txtLen.
                         if o6 + 1 + unat txtLen \<le> length d
                         then slice_at d (o6 + 1) (o6 + 1 + unat txtLen)
                         else Inl (Err EmptyTXT))
                  else Inl (Err EmptyTXT)))"

subsection \<open>Names\<close>

lemma fold_add_label:
  "fold add_label s (ls, cur) =
     (ls @ filter (\<lambda>l. l \<noteq> []) (butlast (split_on CHR ''.'' (cur @ s))), last (split_on CHR ''.'' (cur @ s)))"
  if "CHR ''.'' \<notin> set cur" for ls cur
  using that
proof (induction s arbitrary: ls cur)
  case Nil
  then show ?case by (simp add: split_on_free)
next
  case (Cons c s)
  show ?case
  proof (cases "c = CHR ''.''")
    case True
    then show ?thesis
      using Cons.IH [of "[]"] Cons.prems
      by (cases "cur = []") (simp_all add: add_label_def split_on_append)
  next
    case False
    then show ?thesis
      using Cons.IH [of "cur @ [c]"] Cons.prems by (simp add: add_label_def)
  qed
qed

text \<open>The labels are the non-empty parts between the dots.\<close>

lemma splitHostname_eq: "splitHostname s = filter (\<lambda>l. l \<noteq> []) (split_on CHR ''.'' s)"
proof -
  have "split_on CHR ''.'' s = butlast (split_on CHR ''.'' s) @ [last (split_on CHR ''.'' s)]"
    by simp
  then have "filter (\<lambda>l. l \<noteq> []) (split_on CHR ''.'' s) = filter (\<lambda>l. l \<noteq> []) (butlast (split_on CHR ''.'' s)) @
      filter (\<lambda>l. l \<noteq> []) [last (split_on CHR ''.'' s)]"
    by (metis filter_append)
  then show ?thesis
    using fold_add_label [of "[]" s "[]"] by (auto simp: splitHostname_def)
qed

lemma length_enc_label [simp]: "length (enc_label l) = Suc (length l)"
  by (simp add: enc_label_def bytes_of_def)


lemma skipQName_labels:
  assumes "\<forall>l \<in> set ls. 1 \<le> length l \<and> length l < 192"
  shows "skipQName (pre @ concat (map enc_label ls) @ 0 # post) (length pre) =
    length pre + length (concat (map enc_label ls)) + 1"
  using assms
proof (induction ls arbitrary: pre)
  case Nil
  then show ?case by (subst skipQName.simps) simp
next
  case (Cons l ls)
  let ?d = "pre @ concat (map enc_label (l # ls)) @ 0 # post"
  have at: "?d ! length pre = byte_of (length l)" "length pre < length ?d"
    by (simp_all add: enc_label_def)
  then have "skipQName ?d (length pre) = skipQName ?d (length pre + length l + 1)"
    using Cons.prems by (subst skipQName.simps) (auto simp: Let_def)
  also have "\<dots> = length pre + length (concat (map enc_label (l # ls))) + 1"
    using Cons.IH [of "pre @ enc_label l"] Cons.prems by simp
  finally show ?case .
qed

lemma splitIntoLabels_total:
  assumes "0 < maxLen"
  shows "\<exists>ls. splitIntoLabels s maxLen = Some ls \<and> concat ls = s \<and> (\<forall>l \<in> set ls. l \<noteq> [] \<and> length l \<le> maxLen)"
proof (induction "length s" arbitrary: s rule: less_induct)
  case less
  show ?case
  proof (cases "s = []")
    case True
    then show ?thesis by (subst splitIntoLabels.simps) simp
  next
    case False
    let ?en = "if maxLen > length s then length s else maxLen"
    have en: "0 < ?en" "?en \<le> length s" "?en \<le> maxLen"
      using False assms by auto
    then obtain ls where ls: "splitIntoLabels (drop ?en s) maxLen = Some ls" "concat ls = drop ?en s"
      "\<forall>l \<in> set ls. l \<noteq> [] \<and> length l \<le> maxLen"
      using less.hyps [of "drop ?en s"] False by auto
    have "splitIntoLabels s maxLen = Some (take ?en s # ls)"
      using False ls(1) by (subst splitIntoLabels.simps) (simp add: Let_def)
    then show ?thesis
      using ls en False by auto
  qed
qed

subsection \<open>The parsers never read outside the packet\<close>

lemma parseAnswers_safe: "parseAnswers d n offset ips \<noteq> Inl OutOfRange"
proof (induction n arbitrary: offset ips)
  case (Suc n)
  let ?o = "if 192 \<le> unat (d ! offset) then offset + 2 else skipName d offset"
  show ?case
  proof (cases "length d \<le> offset \<or> length d < ?o + 10")
    case True
    then show ?thesis by (auto simp: Let_def)
  next
    case False
    then show ?thesis
      using Suc.IH by (simp add: Let_def del: slice_at_safe) (simp add: slice_at_def)
  qed
qed simp

lemma parseTXTResponse_safe: "parseTXTResponse d \<noteq> Inl OutOfRange"
  by (simp add: parseTXTResponse_def Let_def)

subsection \<open>Well-formed responses\<close>

text \<open>
  A resource record as a name server sends it: a pointer to the question's name, type, six bytes of
  class and time to live, and the data.
\<close>

record dns_record =
  dr_type :: nat
  dr_fixed :: bytes
  dr_data :: bytes

definition record_ok :: "dns_record \<Rightarrow> bool" where
  "record_ok a \<longleftrightarrow> dr_type a < 65536 \<and> length (dr_fixed a) = 6 \<and> length (dr_data a) < 65536"

definition enc_record :: "dns_record \<Rightarrow> bytes" where
  "enc_record a = [0xC0, 0x0C] @ len16 (dr_type a) @ dr_fixed a @ len16 (length (dr_data a)) @ dr_data a"

definition record_ips :: "dns_record \<Rightarrow> bytes list" where
  "record_ips a =
     (if dr_type a = 1 \<and> length (dr_data a) = 4 then [IPv4 (dr_data a)]
      else if dr_type a = 28 \<and> length (dr_data a) = 16 then [dr_data a] else [])"

definition dns_reply :: "string \<Rightarrow> dns_record list \<Rightarrow> bytes" where
  "dns_reply host answers =
     [0xAB, 0xCD, 0x81, 0x80, 0x00, 0x01] @ len16 (length answers) @ [0x00, 0x00, 0x00, 0x00] @
     drop 12 (buildDNSQuery host 1) @ concat (map enc_record answers)"

lemma parse_record:
  assumes "record_ok a"
  shows "parseAnswers (pre @ enc_record a @ post) (Suc n) (length pre) ips =
    parseAnswers (pre @ enc_record a @ post) n (length (pre @ enc_record a)) (ips @ record_ips a)"
proof -
  let ?d = "pre @ enc_record a @ post"
  let ?o = "length pre + 2"
  have d1: "?d = (pre @ [0xC0, 0x0C]) @ len16 (dr_type a) @ (dr_fixed a @ len16 (length (dr_data a)) @ dr_data a @ post)"
    by (simp add: enc_record_def)
  have d2: "?d = (pre @ [0xC0, 0x0C] @ len16 (dr_type a) @ dr_fixed a) @ len16 (length (dr_data a)) @ (dr_data a @ post)"
    by (simp add: enc_record_def)
  have d3: "?d = (pre @ [0xC0, 0x0C] @ len16 (dr_type a) @ dr_fixed a @ len16 (length (dr_data a))) @ dr_data a @ post"
    by (simp add: enc_record_def)
  have ok: "dr_type a < 65536" "length (dr_fixed a) = 6" "length (dr_data a) < 65536"
    using assms by (auto simp: record_ok_def)
  have len: "length ?d = length pre + 12 + length (dr_data a) + length post" "\<not> length ?d \<le> length pre"
    "length (pre @ enc_record a) = length pre + 12 + length (dr_data a)"
    using ok by (simp_all add: enc_record_def)
  have ptr: "192 \<le> unat (?d ! length pre)"
    by (simp add: enc_record_def)
  have type: "u16_at ?d ?o = (Inr (dr_type a) :: dns_error go_err + nat)"
    unfolding d1 using ok by (intro u16_at_app) auto
  have rd: "u16_at ?d (?o + 8) = (Inr (length (dr_data a)) :: dns_error go_err + nat)"
    unfolding d2 using ok by (intro u16_at_app) auto
  have slice: "slice_at ?d (?o + 10) (?o + 10 + length (dr_data a)) = (Inr (dr_data a) :: dns_error go_err + bytes)"
    unfolding d3 using ok by (intro slice_at_app) auto
  have off: "?o + 10 + length (dr_data a) = length (pre @ enc_record a)"
    using len(3) by simp
  show ?thesis
    using len ptr type rd slice unfolding off [symmetric]
    by (auto simp: record_ips_def Let_def simp del: u16_at_safe slice_at_safe)
qed

lemma parse_records:
  assumes "list_all record_ok as"
  shows "parseAnswers (pre @ concat (map enc_record as)) (length as) (length pre) ips =
    Inr (ips @ concat (map record_ips as))"
  using assms
proof (induction as arbitrary: pre ips)
  case (Cons a as)
  have "parseAnswers (pre @ concat (map enc_record (a # as))) (length (a # as)) (length pre) ips =
      parseAnswers ((pre @ enc_record a) @ concat (map enc_record as)) (length as) (length (pre @ enc_record a))
        (ips @ record_ips a)"
    using parse_record [of a pre "concat (map enc_record as)" "length as" ips] Cons.prems by simp
  then show ?case
    using Cons.IH [of "pre @ enc_record a" "ips @ record_ips a"] Cons.prems by simp
qed simp



text \<open>A resolved name is answered from the cache for five minutes, whatever the servers say.\<close>

lemma Resolve_cached:
  assumes "Resolve http now host r = (Inr ips, r')" "re_cache r host = None" "now' < now + 5 * minute"
  shows "Resolve http' now' host r' = (Inr ips, r')"
  using assms by (auto simp: Resolve_def split: sum.splits)

end
