(* ===== verification/Config.thy ===== *)
theory Config
  imports Path_Select
begin

text \<open>
  internal/config/config.go: the configuration records, the defaults applied after parsing and
  the validation. The TOML parser is a third-party library: it is the parameter \<open>toml\<close> of \<open>Load\<close>, as
  is the content of the file.
\<close>

subsection \<open>Records\<close>

record MuxConfig =
  mx_Enabled :: bool
  mx_Concurrency :: int
  mx_FrameSize :: int
  mx_RecvBuffer :: int
  mx_StreamBuffer :: int
  mx_MaxStreams :: int

record PoolSettings =
  ps_Size :: int
  ps_MaxIdle :: int
  ps_IdleTimeout :: int

record HeartbeatConfig =
  hb_Enabled :: bool
  hb_Interval :: int
  hb_Timeout :: int

record PerformanceConfig =
  pf_Nodelay :: bool
  pf_KeepAlive :: int
  pf_SendBuffer :: int
  pf_RecvBuffer :: int
  pf_BufferProfile :: string
  pf_Workers :: int
  pf_KernelTuning :: bool

record AntiDPIConfig =
  ad_Enabled :: bool
  ad_UTLSFingerprint :: string
  ad_Fragment :: bool
  ad_FragmentSize :: string
  ad_Padding :: bool
  ad_PaddingSize :: string
  ad_TrafficShape :: bool
  ad_SNISpoof :: bool
  ad_SNISpoofDomain :: string
  ad_SNISpoofMethod :: string
  ad_DomainFront :: bool
  ad_FrontDomain :: string
  ad_RealHost :: string

record ForwardConfig =
  fw_Name :: string
  fw_Type :: string
  fw_Listen :: string
  fw_Remote :: string

record RealityConfig =
  rl_ServerName :: string
  rl_ShortID :: string
  rl_PublicKey :: string
  rl_PrivateKey :: string
  rl_Dest :: string

record ListenConfig =
  lc_Enabled :: bool
  lc_Listen :: string

record Config =
  cf_Mode :: string
  cf_LogLevel :: string
  cf_Transport :: string
  cf_BindAddr :: string
  cf_RemoteAddr :: string
  cf_Password :: string
  cf_TLSCert :: string
  cf_TLSKey :: string
  cf_LogFormat :: string
  cf_Metrics :: ListenConfig
  cf_Mux :: MuxConfig
  cf_Pool :: PoolSettings
  cf_Heartbeat :: HeartbeatConfig
  cf_Performance :: PerformanceConfig
  cf_AntiDPI :: AntiDPIConfig
  cf_Forwards :: "ForwardConfig list"
  cf_Paths :: "PathConfig list"
  cf_Reality :: RealityConfig

subsection \<open>Defaults\<close>

text \<open>\<open>if x == zero { x = d }\<close>.\<close>

definition default_int :: "int \<Rightarrow> int \<Rightarrow> int" where
  "default_int d x = (if x = 0 then d else x)"

definition default_str :: "string \<Rightarrow> string \<Rightarrow> string" where
  "default_str d x = (if x = [] then d else x)"

definition muxDefaults :: "MuxConfig \<Rightarrow> MuxConfig" where
  "muxDefaults m = m\<lparr>mx_Concurrency := default_int 8 (mx_Concurrency m), mx_FrameSize := default_int 32768 (mx_FrameSize m),
     mx_RecvBuffer := default_int 4194304 (mx_RecvBuffer m), mx_StreamBuffer := default_int 2097152 (mx_StreamBuffer m),
     mx_MaxStreams := default_int 1024 (mx_MaxStreams m)\<rparr>"

definition performanceDefaults :: "PerformanceConfig \<Rightarrow> PerformanceConfig" where
  "performanceDefaults p = p\<lparr>pf_KeepAlive := default_int 15 (pf_KeepAlive p),
     pf_BufferProfile := default_str ''balanced'' (pf_BufferProfile p), pf_Workers := default_int 4 (pf_Workers p)\<rparr>"

text \<open>The sizes of a buffer profile: send, receive, mux receive, mux stream.\<close>

definition profile_sizes :: "string \<Rightarrow> (int \<times> int \<times> int \<times> int) option" where
  "profile_sizes profile =
     (if profile = ''upload_boost'' then Some (16777216, 16777216, 16777216, 8388608)
      else if profile = ''high_throughput'' then Some (67108864, 67108864, 67108864, 16777216)
      else if profile = ''low_cpu'' then Some (4194304, 4194304, 4194304, 2097152)
      else None)"

definition applyBufferProfile :: "Config \<Rightarrow> Config" where
  "applyBufferProfile cfg =
     (case profile_sizes (pf_BufferProfile (cf_Performance cfg)) of
        None \<Rightarrow> cfg
      | Some (sendBuf, recvBuf, muxRecv, muxStream) \<Rightarrow>
          let p = cf_Performance cfg; m = cf_Mux cfg in
          cfg\<lparr>cf_Performance := p\<lparr>pf_SendBuffer := default_int sendBuf (pf_SendBuffer p),
                                 pf_RecvBuffer := default_int recvBuf (pf_RecvBuffer p)\<rparr>,
              cf_Mux := m\<lparr>mx_RecvBuffer := (if mx_RecvBuffer m = 0 \<or> mx_RecvBuffer m = 4194304 then muxRecv else mx_RecvBuffer m),
                          mx_StreamBuffer := (if mx_StreamBuffer m = 0 \<or> mx_StreamBuffer m = 2097152 then muxStream
                                              else mx_StreamBuffer m)\<rparr>\<rparr>)"

definition applyUploadDefaults :: "Config \<Rightarrow> Config" where
  "applyUploadDefaults cfg =
     (if pf_BufferProfile (cf_Performance cfg) = ''low_cpu'' then cfg
      else
        let p = cf_Performance cfg; m = cf_Mux cfg;
            p1 = p\<lparr>pf_SendBuffer := default_int 16777216 (pf_SendBuffer p),
                   pf_RecvBuffer := default_int 16777216 (pf_RecvBuffer p)\<rparr>;
            m1 = m\<lparr>mx_RecvBuffer := (if mx_RecvBuffer m \<le> 4194304 then 16777216 else mx_RecvBuffer m),
                   mx_StreamBuffer := (if mx_StreamBuffer m \<le> 2097152 then 8388608 else mx_StreamBuffer m),
                   mx_FrameSize := (if mx_FrameSize m \<le> 32768 then 65535 else mx_FrameSize m)\<rparr>;
            client = (cf_Mode cfg = ''client'');
            boosted = (cf_Mode cfg = ''server'' \<and> pf_BufferProfile p = ''upload_boost'')
        in cfg\<lparr>cf_Performance := (if client then p1\<lparr>pf_Nodelay := True\<rparr> else p1),
               cf_Mux := (if client \<or> boosted then m1\<lparr>mx_Enabled := False\<rparr> else m1)\<rparr>)"

definition basicDefaults :: "Config \<Rightarrow> Config" where
  "basicDefaults cfg =
     (let po = cf_Pool cfg; hb = cf_Heartbeat cfg; ad = cf_AntiDPI cfg; me = cf_Metrics cfg in
      cfg\<lparr>cf_LogLevel := default_str ''info'' (cf_LogLevel cfg),
          cf_Transport := default_str ''tcpmux'' (cf_Transport cfg),
          cf_Mux := muxDefaults (cf_Mux cfg),
          cf_Pool := po\<lparr>ps_Size := default_int 8 (ps_Size po), ps_MaxIdle := default_int 4 (ps_MaxIdle po),
                        ps_IdleTimeout := default_int 90 (ps_IdleTimeout po)\<rparr>,
          cf_Heartbeat := hb\<lparr>hb_Interval := default_int 20 (hb_Interval hb), hb_Timeout := default_int 40 (hb_Timeout hb)\<rparr>,
          cf_Performance := performanceDefaults (cf_Performance cfg),
          cf_AntiDPI := ad\<lparr>ad_UTLSFingerprint := default_str ''chrome'' (ad_UTLSFingerprint ad),
                           ad_FragmentSize := default_str ''50-100'' (ad_FragmentSize ad),
                           ad_PaddingSize := default_str ''16-256'' (ad_PaddingSize ad)\<rparr>,
          cf_LogFormat := default_str ''text'' (cf_LogFormat cfg),
          cf_Metrics := me\<lparr>lc_Listen := default_str ''127.0.0.1:9091'' (lc_Listen me),
                           lc_Enabled := (if cf_Mode cfg = ''server'' \<and> \<not> lc_Enabled me then True else lc_Enabled me)\<rparr>\<rparr>)"

definition applyDefaults :: "Config \<Rightarrow> Config" where
  "applyDefaults cfg = applyUploadDefaults (applyBufferProfile (basicDefaults cfg))"

subsection \<open>Validation\<close>

datatype config_error =
    InvalidMode string | BindAddrRequired | RemoteAddrRequired | PasswordRequired
  | InvalidTransport string | InvalidLogFormat string
  | ForwardListenRequired nat | ForwardRemoteRequired nat | ForwardUnsupported nat string
  | RealityPrivateKey | RealityDest | RealityPublicKey | RealityShortID | TLSPairRequired

definition validTransports :: "string list" where
  "validTransports = [''tcpmux'', ''wsmux'', ''reality'', ''h2mux'', ''shadowtls'', ''grpc'', ''quic'', ''kcp'',
     ''reverse'', ''faketcp'']"

definition forwardTypes :: "string list" where
  "forwardTypes = [''tcp'', ''udp'', ''socks5'', ''http'', ''wireguard'', ''wg'', '''']"

definition checkForward :: "nat \<Rightarrow> ForwardConfig \<Rightarrow> config_error option" where
  "checkForward i fwd =
     (if fw_Listen fwd = [] then Some (ForwardListenRequired i)
      else if fw_Type fwd = ''tcp'' \<and> fw_Remote fwd = [] then Some (ForwardRemoteRequired i)
      else if fw_Type fwd \<notin> set forwardTypes then Some (ForwardUnsupported i (fw_Type fwd))
      else None)"

fun checkForwards :: "nat \<Rightarrow> ForwardConfig list \<Rightarrow> config_error option" where
  "checkForwards i [] = None"
| "checkForwards i (f # fs) = (case checkForward i f of Some e \<Rightarrow> Some e | None \<Rightarrow> checkForwards (i + 1) fs)"

definition checkReality :: "Config \<Rightarrow> config_error option" where
  "checkReality cfg =
     (if cf_Transport cfg \<noteq> ''reality'' then None
      else if cf_Mode cfg = ''server'' \<and> rl_PrivateKey (cf_Reality cfg) = [] then Some RealityPrivateKey
      else if cf_Mode cfg = ''server'' \<and> rl_Dest (cf_Reality cfg) = [] then Some RealityDest
      else if cf_Mode cfg = ''client'' \<and> rl_PublicKey (cf_Reality cfg) = [] then Some RealityPublicKey
      else if cf_Mode cfg = ''client'' \<and> rl_ShortID (cf_Reality cfg) = [] then Some RealityShortID
      else None)"

definition validate :: "Config \<Rightarrow> config_error option" where
  "validate cfg =
     (if cf_Mode cfg \<noteq> ''server'' \<and> cf_Mode cfg \<noteq> ''client'' then Some (InvalidMode (cf_Mode cfg))
      else if cf_Mode cfg = ''server'' \<and> cf_BindAddr cfg = [] then Some BindAddrRequired
      else if cf_Mode cfg = ''client'' \<and> cf_RemoteAddr cfg = [] \<and> length (cf_Paths cfg) = 0 then Some RemoteAddrRequired
      else if cf_Password cfg = [] then Some PasswordRequired
      else if cf_Transport cfg \<notin> set validTransports then Some (InvalidTransport (cf_Transport cfg))
      else if cf_LogFormat cfg \<noteq> ''text'' \<and> cf_LogFormat cfg \<noteq> ''json'' then Some (InvalidLogFormat (cf_LogFormat cfg))
      else case checkForwards 0 (cf_Forwards cfg) of
             Some e \<Rightarrow> Some e
           | None \<Rightarrow>
               (case checkReality cfg of
                  Some e \<Rightarrow> Some e
                | None \<Rightarrow>
                    if (cf_TLSCert cfg \<noteq> [] \<or> cf_TLSKey cfg \<noteq> []) \<and> (cf_TLSCert cfg = [] \<or> cf_TLSKey cfg = [])
                    then Some TLSPairRequired else None))"

datatype 'e load_error = ReadFailed | TomlFailed 'e | Invalid config_error

definition Load :: "(bytes \<Rightarrow> 'e + Config) \<Rightarrow> bytes option \<Rightarrow> 'e load_error + Config" where
  "Load toml file =
     (case file of
        None \<Rightarrow> Inl ReadFailed
      | Some content \<Rightarrow>
          andThen (map_sum TomlFailed id (toml content)) (\<lambda>cfg0.
            let cfg = applyDefaults cfg0 in
            case validate cfg of Some e \<Rightarrow> Inl (Invalid e) | None \<Rightarrow> Inr cfg))"

subsection \<open>Defaults are stable\<close>

lemma default_simps [simp]:
  "default_int d x = 0 \<longleftrightarrow> x = 0 \<and> d = 0" "default_str s t = [] \<longleftrightarrow> t = [] \<and> s = []"
  "x \<noteq> 0 \<Longrightarrow> default_int d x = x" "t \<noteq> [] \<Longrightarrow> default_str s t = t"
  by (auto simp: default_int_def default_str_def)

text \<open>A configuration in which every defaulted field is set.\<close>

definition filled :: "Config \<Rightarrow> bool" where
  "filled c \<longleftrightarrow>
     cf_LogLevel c \<noteq> [] \<and> cf_Transport c \<noteq> [] \<and> cf_LogFormat c \<noteq> [] \<and>
     lc_Listen (cf_Metrics c) \<noteq> [] \<and> (cf_Mode c = ''server'' \<longrightarrow> lc_Enabled (cf_Metrics c)) \<and>
     mx_Concurrency (cf_Mux c) \<noteq> 0 \<and> mx_FrameSize (cf_Mux c) \<noteq> 0 \<and> mx_RecvBuffer (cf_Mux c) \<noteq> 0 \<and>
     mx_StreamBuffer (cf_Mux c) \<noteq> 0 \<and> mx_MaxStreams (cf_Mux c) \<noteq> 0 \<and>
     ps_Size (cf_Pool c) \<noteq> 0 \<and> ps_MaxIdle (cf_Pool c) \<noteq> 0 \<and> ps_IdleTimeout (cf_Pool c) \<noteq> 0 \<and>
     hb_Interval (cf_Heartbeat c) \<noteq> 0 \<and> hb_Timeout (cf_Heartbeat c) \<noteq> 0 \<and>
     pf_KeepAlive (cf_Performance c) \<noteq> 0 \<and> pf_BufferProfile (cf_Performance c) \<noteq> [] \<and> pf_Workers (cf_Performance c) \<noteq> 0 \<and>
     ad_UTLSFingerprint (cf_AntiDPI c) \<noteq> [] \<and> ad_FragmentSize (cf_AntiDPI c) \<noteq> [] \<and> ad_PaddingSize (cf_AntiDPI c) \<noteq> []"

text \<open>A configuration whose buffers are those the profile and the upload defaults settle on.\<close>

definition tuned :: "Config \<Rightarrow> bool" where
  "tuned c \<longleftrightarrow>
     pf_SendBuffer (cf_Performance c) \<noteq> 0 \<and> pf_RecvBuffer (cf_Performance c) \<noteq> 0 \<and>
     (if pf_BufferProfile (cf_Performance c) = ''low_cpu'' then True
      else 4194304 < mx_RecvBuffer (cf_Mux c) \<and> 2097152 < mx_StreamBuffer (cf_Mux c) \<and> 32768 < mx_FrameSize (cf_Mux c) \<and>
        (cf_Mode c = ''client'' \<longrightarrow> \<not> mx_Enabled (cf_Mux c) \<and> pf_Nodelay (cf_Performance c)) \<and>
        (cf_Mode c = ''server'' \<and> pf_BufferProfile (cf_Performance c) = ''upload_boost'' \<longrightarrow> \<not> mx_Enabled (cf_Mux c)))"

lemma basicDefaults_filled: "filled (basicDefaults c)"
  by (simp add: filled_def basicDefaults_def muxDefaults_def performanceDefaults_def Let_def)

lemma basicDefaults_id: "filled c \<Longrightarrow> basicDefaults c = c"
  by (simp add: filled_def basicDefaults_def muxDefaults_def performanceDefaults_def Let_def)

lemma profile_sizes_cases:
  obtains "profile_sizes p = None" "p \<noteq> ''low_cpu''"
  | s r mr ms where "profile_sizes p = Some (s, r, mr, ms)" "s \<noteq> 0" "r \<noteq> 0" "mr \<noteq> 0" "ms \<noteq> 0"
      "p \<noteq> ''low_cpu'' \<longrightarrow> 4194304 < mr \<and> 2097152 < ms" "p = ''low_cpu'' \<longrightarrow> mr = 4194304 \<and> ms = 2097152"
  by (cases "p = ''upload_boost''"; cases "p = ''high_throughput''"; cases "p = ''low_cpu''")
    (auto simp: profile_sizes_def)

lemma applyBufferProfile_filled: "filled c \<Longrightarrow> filled (applyBufferProfile c)"
  by (rule profile_sizes_cases [of "pf_BufferProfile (cf_Performance c)"])
    (auto simp: filled_def applyBufferProfile_def Let_def)

lemma applyUploadDefaults_filled: "filled c \<Longrightarrow> filled (applyUploadDefaults c)"
  by (auto simp: filled_def applyUploadDefaults_def Let_def)

lemma profile_low_cpu:
  "pf_BufferProfile (cf_Performance (applyBufferProfile c)) = ''low_cpu'' \<Longrightarrow>
     pf_SendBuffer (cf_Performance (applyBufferProfile c)) \<noteq> 0 \<and> pf_RecvBuffer (cf_Performance (applyBufferProfile c)) \<noteq> 0"
  by (rule profile_sizes_cases [of "pf_BufferProfile (cf_Performance c)"])
    (simp_all add: applyBufferProfile_def Let_def)

lemma upload_tuned:
  assumes "pf_BufferProfile (cf_Performance c) = ''low_cpu'' \<Longrightarrow>
    pf_SendBuffer (cf_Performance c) \<noteq> 0 \<and> pf_RecvBuffer (cf_Performance c) \<noteq> 0"
  shows "tuned (applyUploadDefaults c)"
proof (cases "pf_BufferProfile (cf_Performance c) = ''low_cpu''")
  case True
  then show ?thesis using assms by (simp add: tuned_def applyUploadDefaults_def)
next
  case False
  then show ?thesis by (simp add: tuned_def applyUploadDefaults_def Let_def)
qed

lemma applyDefaults_tuned: "tuned (applyDefaults c)"
  unfolding applyDefaults_def by (intro upload_tuned profile_low_cpu)

lemma tuned_profile_id:
  assumes "tuned c" "filled c"
  shows "applyBufferProfile c = c"
  by (rule profile_sizes_cases [of "pf_BufferProfile (cf_Performance c)"])
    (use assms in \<open>auto simp: tuned_def filled_def applyBufferProfile_def Let_def\<close>)

lemma flag_update_id:
  "\<not> mx_Enabled m \<Longrightarrow> m\<lparr>mx_Enabled := False\<rparr> = m" "pf_Nodelay p \<Longrightarrow> p\<lparr>pf_Nodelay := True\<rparr> = p"
  by (cases m, simp) (cases p, simp)

lemma tuned_upload_id:
  assumes "tuned c"
  shows "applyUploadDefaults c = c"
proof (cases "pf_BufferProfile (cf_Performance c) = ''low_cpu''")
  case True
  then show ?thesis by (simp add: applyUploadDefaults_def)
next
  case False
  then have t: "pf_SendBuffer (cf_Performance c) \<noteq> 0" "pf_RecvBuffer (cf_Performance c) \<noteq> 0"
    "\<not> mx_RecvBuffer (cf_Mux c) \<le> 4194304" "\<not> mx_StreamBuffer (cf_Mux c) \<le> 2097152" "\<not> mx_FrameSize (cf_Mux c) \<le> 32768"
    using assms by (simp_all add: tuned_def)
  have client: "cf_Mode c = ''client'' \<Longrightarrow> \<not> mx_Enabled (cf_Mux c) \<and> pf_Nodelay (cf_Performance c)"
    and boosted: "cf_Mode c = ''server'' \<and> pf_BufferProfile (cf_Performance c) = ''upload_boost'' \<Longrightarrow> \<not> mx_Enabled (cf_Mux c)"
    using assms False by (simp_all add: tuned_def)
  consider "cf_Mode c = ''client''"
    | "cf_Mode c \<noteq> ''client''" "cf_Mode c = ''server'' \<and> pf_BufferProfile (cf_Performance c) = ''upload_boost''"
    | "cf_Mode c \<noteq> ''client''" "\<not> (cf_Mode c = ''server'' \<and> pf_BufferProfile (cf_Performance c) = ''upload_boost'')"
    by blast
  then show ?thesis
  proof cases
    case 1
    then show ?thesis
      using t False client by (simp add: applyUploadDefaults_def Let_def flag_update_id)
  next
    case 2
    then show ?thesis
      using t boosted by (simp add: applyUploadDefaults_def Let_def flag_update_id)
  next
    case 3
    then show ?thesis
      using t False by (simp add: applyUploadDefaults_def Let_def) blast
  qed
qed

lemma applyDefaults_idem: "applyDefaults (applyDefaults c) = applyDefaults c"
proof -
  have f: "filled (applyDefaults c)"
    unfolding applyDefaults_def
    by (intro applyUploadDefaults_filled applyBufferProfile_filled basicDefaults_filled)
  show ?thesis
    using basicDefaults_id [OF f] tuned_profile_id [OF applyDefaults_tuned f] tuned_upload_id [OF applyDefaults_tuned]
    by (simp add: applyDefaults_def)
qed

lemma checkForwards_None:
  "checkForwards i fs = None \<longleftrightarrow>
     (\<forall>f \<in> set fs. fw_Listen f \<noteq> [] \<and> (fw_Type f = ''tcp'' \<longrightarrow> fw_Remote f \<noteq> []) \<and> fw_Type f \<in> set forwardTypes)"
  by (induction fs arbitrary: i) (auto simp: checkForward_def split: option.splits if_splits)

subsection \<open>Properties\<close>

text \<open>
  C35: A configuration that loads is well formed: the mode is server with a listen address or
  client with a remote address or paths, the password, transport and log format are valid, every
  forward has a listen address, a known type and, for TCP, a target, the REALITY keys the mode needs
  are present, and a TLS certificate comes with its key. Every field with a default is set, and
  applying the defaults again changes nothing.
\<close>

theorem loaded_config_wellformed:
  assumes "Load toml file = Inr cfg"
  shows "(cf_Mode cfg = ''server'' \<and> cf_BindAddr cfg \<noteq> [] \<or>
       cf_Mode cfg = ''client'' \<and> (cf_RemoteAddr cfg \<noteq> [] \<or> cf_Paths cfg \<noteq> [])) \<and>
    cf_Password cfg \<noteq> [] \<and> cf_Transport cfg \<in> set validTransports \<and> cf_LogFormat cfg \<in> {''text'', ''json''} \<and>
    (\<forall>f \<in> set (cf_Forwards cfg). fw_Listen f \<noteq> [] \<and> (fw_Type f = ''tcp'' \<longrightarrow> fw_Remote f \<noteq> []) \<and> fw_Type f \<in> set forwardTypes) \<and>
    (cf_Transport cfg = ''reality'' \<longrightarrow>
       (if cf_Mode cfg = ''server'' then rl_PrivateKey (cf_Reality cfg) \<noteq> [] \<and> rl_Dest (cf_Reality cfg) \<noteq> []
        else rl_PublicKey (cf_Reality cfg) \<noteq> [] \<and> rl_ShortID (cf_Reality cfg) \<noteq> [])) \<and>
    (cf_TLSCert cfg = [] \<longleftrightarrow> cf_TLSKey cfg = []) \<and>
    filled cfg \<and> tuned cfg \<and> applyDefaults cfg = cfg"
proof -
  obtain c0 where c: "cfg = applyDefaults c0" "validate cfg = None"
    using assms by (auto simp: Load_def Let_def split: option.splits)
  have f: "filled cfg"
    unfolding c(1) applyDefaults_def
    by (intro applyUploadDefaults_filled applyBufferProfile_filled basicDefaults_filled)
  have modes: "cf_Mode cfg = ''server'' \<or> cf_Mode cfg = ''client''"
    using c(2) by (auto simp: validate_def split: if_splits)
  have fw: "checkForwards 0 (cf_Forwards cfg) = None" and re: "checkReality cfg = None"
    using c(2) by (auto simp: validate_def split: if_splits option.splits)
  have "(cf_Mode cfg = ''server'' \<longrightarrow> cf_BindAddr cfg \<noteq> []) \<and>
      (cf_Mode cfg = ''client'' \<longrightarrow> cf_RemoteAddr cfg \<noteq> [] \<or> cf_Paths cfg \<noteq> []) \<and> cf_Password cfg \<noteq> [] \<and>
      cf_Transport cfg \<in> set validTransports \<and> cf_LogFormat cfg \<in> {''text'', ''json''} \<and>
      (cf_TLSCert cfg = [] \<longleftrightarrow> cf_TLSKey cfg = [])"
    using c(2) fw re by (simp add: validate_def split: if_splits) blast
  moreover have "cf_Transport cfg = ''reality'' \<longrightarrow>
       (if cf_Mode cfg = ''server'' then rl_PrivateKey (cf_Reality cfg) \<noteq> [] \<and> rl_Dest (cf_Reality cfg) \<noteq> []
        else rl_PublicKey (cf_Reality cfg) \<noteq> [] \<and> rl_ShortID (cf_Reality cfg) \<noteq> [])"
    using re modes by (auto simp: checkReality_def split: if_splits)
  ultimately show ?thesis
    using modes fw f applyDefaults_tuned [of c0] applyDefaults_idem [of c0] c(1) unfolding checkForwards_None by blast
qed

definition sample_config :: "string \<Rightarrow> bool \<Rightarrow> Config" where
  "sample_config mode mux =
     \<lparr>cf_Mode = mode, cf_LogLevel = [], cf_Transport = [], cf_BindAddr = '':443'', cf_RemoteAddr = ''h:443'',
      cf_Password = ''pw'', cf_TLSCert = [], cf_TLSKey = [], cf_LogFormat = [],
      cf_Metrics = \<lparr>lc_Enabled = False, lc_Listen = []\<rparr>,
      cf_Mux = \<lparr>mx_Enabled = mux, mx_Concurrency = 0, mx_FrameSize = 0, mx_RecvBuffer = 0, mx_StreamBuffer = 0, mx_MaxStreams = 0\<rparr>,
      cf_Pool = \<lparr>ps_Size = 0, ps_MaxIdle = 0, ps_IdleTimeout = 0\<rparr>,
      cf_Heartbeat = \<lparr>hb_Enabled = True, hb_Interval = 0, hb_Timeout = 0\<rparr>,
      cf_Performance = \<lparr>pf_Nodelay = False, pf_KeepAlive = 0, pf_SendBuffer = 0, pf_RecvBuffer = 0, pf_BufferProfile = [],
        pf_Workers = 0, pf_KernelTuning = False\<rparr>,
      cf_AntiDPI = \<lparr>ad_Enabled = False, ad_UTLSFingerprint = [], ad_Fragment = False, ad_FragmentSize = [], ad_Padding = False,
        ad_PaddingSize = [], ad_TrafficShape = False, ad_SNISpoof = False, ad_SNISpoofDomain = [], ad_SNISpoofMethod = [],
        ad_DomainFront = False, ad_FrontDomain = [], ad_RealHost = []\<rparr>,
      cf_Forwards = [], cf_Paths = [],
      cf_Reality = \<lparr>rl_ServerName = [], rl_ShortID = [], rl_PublicKey = [], rl_PrivateKey = [], rl_Dest = []\<rparr>\<rparr>"

lemmas config_eval = sample_config_def applyDefaults_def applyUploadDefaults_def applyBufferProfile_def basicDefaults_def
  muxDefaults_def performanceDefaults_def profile_sizes_def default_int_def default_str_def

lemma sample_loads: "\<exists>cfg. Load (\<lambda>_. Inr (sample_config ''client'' True) :: unit + Config) (Some []) = Inr cfg"
  by (simp add: Load_def config_eval Let_def validate_def checkReality_def validTransports_def)

theorem loaded_config_wellformed_witness:
  "\<exists>cfg. Load (\<lambda>_. Inr (sample_config ''client'' True) :: unit + Config) (Some []) = Inr cfg \<and> applyDefaults cfg = cfg"
  using sample_loads loaded_config_wellformed [of "\<lambda>_. Inr (sample_config ''client'' True) :: unit + Config" "Some []"] by blast

text \<open>
  Turning multiplexing on in both configuration files does not turn it on on both sides: except
  for the low_cpu profile, a client always loads with multiplexing off, while a server with any
  profile but upload_boost keeps it on, so that the server waits for a multiplexed session on
  connections the client uses for one plain stream.
\<close>

theorem mux_setting_mismatch:
  assumes "applyDefaults c = client" "applyDefaults s = server"
    and "cf_Mode c = ''client''" "cf_Mode s = ''server''"
    and "mx_Enabled (cf_Mux c)" "mx_Enabled (cf_Mux s)"
    and "pf_BufferProfile (cf_Performance c) = pf_BufferProfile (cf_Performance s)"
    and "pf_BufferProfile (cf_Performance s) \<notin> {''low_cpu'', ''upload_boost''}"
  shows "\<not> mx_Enabled (cf_Mux client) \<and> mx_Enabled (cf_Mux server)"
proof -
  have prof: "pf_BufferProfile (cf_Performance (applyBufferProfile (basicDefaults x))) =
      default_str ''balanced'' (pf_BufferProfile (cf_Performance x))"
    "cf_Mode (applyBufferProfile (basicDefaults x)) = cf_Mode x"
    "mx_Enabled (cf_Mux (applyBufferProfile (basicDefaults x))) = mx_Enabled (cf_Mux x)" for x
    by (auto simp: applyBufferProfile_def basicDefaults_def muxDefaults_def performanceDefaults_def Let_def split: option.splits)
  have "default_str ''balanced'' (pf_BufferProfile (cf_Performance s)) \<notin> {''low_cpu'', ''upload_boost''}"
    using assms(8) by (auto simp: default_str_def)
  then show ?thesis
    using assms(1-7) prof [of c] prof [of s] by (auto simp: applyDefaults_def applyUploadDefaults_def Let_def)
qed

theorem mux_setting_mismatch_witness:
  "\<not> mx_Enabled (cf_Mux (applyDefaults (sample_config ''client'' True))) \<and>
   mx_Enabled (cf_Mux (applyDefaults (sample_config ''server'' True)))"
  by (rule mux_setting_mismatch [OF refl refl]) (simp_all add: sample_config_def)

end
