(* ===== verification/Kcp.thy ===== *)
theory Kcp
  imports Prelude
begin

text \<open>
  internal/transport/kcp.go: packets, their encryption, and the two ends of a KCP connection.
  AES-GCM is the pair of parameters \<open>gseal\<close>, \<open>gopen\<close> (key, nonce, text), with \<open>gcm_ok\<close> for what
  its documentation promises. The writing half of the connection fragments; the reading half is a
  queue of at most 1024 packets filled by the receive loops. The socket is a parameter: which of
  its writes fail. \<open>writeLoop\<close> does nothing but tick and is left out, as are deadlines.
\<close>

subsection \<open>Packets\<close>

definition kcpMagic :: "16 word" where "kcpMagic = 0x4B50"
definition kcpHdrSize :: nat where "kcpHdrSize = 20"
definition kcpCmdPush :: byte where "kcpCmdPush = 81"
definition kcpCmdAck :: byte where "kcpCmdAck = 82"
definition kcpCmdPing :: byte where "kcpCmdPing = 83"

lemmas kcp_consts = kcpMagic_def kcpHdrSize_def kcpCmdPush_def kcpCmdAck_def kcpCmdPing_def

definition queue_cap :: nat where "queue_cap = 1024"

text \<open>
  \<open>kc_recvBuf\<close> is the content of the channel, oldest packet first. \<open>NewKCP\<close> fixes the maximal
  packet size for every connection.
\<close>

record KCPConn =
  kc_encrypt :: string
  kc_key :: bytes
  kc_recvBuf :: "bytes list"
  kc_closed :: bool
  kc_sndUna :: "32 word"
  kc_sndNxt :: "32 word"
  kc_rcvNxt :: "32 word"

definition kcp_mtu :: nat where "kcp_mtu = 1350"

definition newKCPConn :: "string \<Rightarrow> bytes \<Rightarrow> KCPConn" where
  "newKCPConn enc key = \<lparr>kc_encrypt = enc, kc_key = key, kc_recvBuf = [], kc_closed = False,
     kc_sndUna = 0, kc_sndNxt = 0, kc_rcvNxt = 0\<rparr>"

text \<open>The clock is read once for the time stamp of a packet and once for the nonce.\<close>

definition buildPacket :: "time \<Rightarrow> KCPConn \<Rightarrow> byte \<Rightarrow> bytes \<Rightarrow> bytes" where
  "buildPacket now c cmd payload =
     putUint16 kcpMagic @ [cmd, 0] @ putUint16 65535 @ putUint32 (word_of_int (now div 1000000)) @
     putUint32 (kc_sndNxt c) @ putUint32 (kc_rcvNxt c) @ putUint16 (word_of_nat (length payload)) @ payload"

definition putUint64 :: "64 word \<Rightarrow> bytes" where
  "putUint64 w = putUint32 (ucast (drop_bit 32 w)) @ putUint32 (ucast w)"

type_synonym gseal = "bytes \<Rightarrow> bytes \<Rightarrow> bytes \<Rightarrow> bytes"
type_synonym gopen = "bytes \<Rightarrow> bytes \<Rightarrow> bytes \<Rightarrow> bytes option"

definition gcmNonceSize :: nat where "gcmNonceSize = 12"

text \<open>\<open>aes.NewCipher\<close> accepts keys of 16, 24 and 32 bytes.\<close>

definition aes_key :: "bytes \<Rightarrow> bool" where
  "aes_key k \<longleftrightarrow> length k \<in> {16, 24, 32}"

definition encryptPacket :: "gseal \<Rightarrow> time \<Rightarrow> KCPConn \<Rightarrow> bytes \<Rightarrow> bytes" where
  "encryptPacket gseal now c d =
     (if kc_encrypt c = ''none'' \<or> length (kc_key c) = 0 then d
      else if \<not> aes_key (kc_key c) then d
      else let nonce = putUint64 (word_of_int now) @ replicate (gcmNonceSize - 8) 0 in
           nonce @ gseal (kc_key c) nonce d)"

definition decryptPacket :: "gopen \<Rightarrow> KCPConn \<Rightarrow> bytes \<Rightarrow> bytes option" where
  "decryptPacket gopen c d =
     (if kc_encrypt c = ''none'' \<or> length (kc_key c) = 0 then Some d
      else if \<not> aes_key (kc_key c) then None
      else if length d < gcmNonceSize then None
      else gopen (kc_key c) (take gcmNonceSize d) (drop gcmNonceSize d))"

subsection \<open>The connection\<close>

text \<open>
  \<open>Write\<close>: one datagram per fragment. \<open>clk\<close> is the sequence of clock readings, \<open>fails i\<close> whether the
  socket rejects the \<open>i\<close>-th datagram. The result is the reported count, whether there was an
  error, the datagrams sent and the connection.
\<close>

definition maxPayload :: nat where "maxPayload = kcp_mtu - kcpHdrSize - 16"

lemma maxPayload_eq: "maxPayload = 1314"
  by (simp add: maxPayload_def kcp_mtu_def kcpHdrSize_def)

function kcpWriteLoop ::
  "gseal \<Rightarrow> (nat \<Rightarrow> time) \<Rightarrow> (nat \<Rightarrow> bool) \<Rightarrow> KCPConn \<Rightarrow> bytes \<Rightarrow> nat \<Rightarrow> nat \<Rightarrow> nat \<times> bool \<times> bytes list \<times> KCPConn" where
  "kcpWriteLoop gseal clk fails c p offset i =
     (if offset < length p then
        let end = (if offset + maxPayload > length p then length p else offset + maxPayload);
            packet = buildPacket (clk (2 * i)) c kcpCmdPush (take (end - offset) (drop offset p));
            encrypted = encryptPacket gseal (clk (2 * i + 1)) c packet in
        if fails i then (offset, True, [], c)
        else case kcpWriteLoop gseal clk fails (c\<lparr>kc_sndNxt := kc_sndNxt c + 1\<rparr>) p end (Suc i) of
               (n, err, out, c') \<Rightarrow> (n, err, encrypted # out, c')
      else (length p, False, [], c))"
  by pat_completeness auto
termination
  by (relation "measure (\<lambda>(gseal, clk, fails, c, p, offset, i). length p - offset)") (auto simp: maxPayload_eq)

declare kcpWriteLoop.simps [simp del]

definition KCP_Write ::
  "gseal \<Rightarrow> (nat \<Rightarrow> time) \<Rightarrow> (nat \<Rightarrow> bool) \<Rightarrow> KCPConn \<Rightarrow> bytes \<Rightarrow> nat \<times> bool \<times> bytes list \<times> KCPConn" where
  "KCP_Write gseal clk fails c p =
     (if kc_closed c then (0, True, [], c) else kcpWriteLoop gseal clk fails c p 0 0)"

text \<open>
  \<open>Read\<close> takes one packet from the queue and copies what fits into the caller's buffer of \<open>k\<close>
  bytes. When a packet is queued and the connection is closed, \<open>select\<close> takes either case; \<open>pick\<close>
  says which. \<open>None\<close>: the queue is empty and the connection open, the call blocks.
\<close>

datatype kcp_read = ReadData bytes | ReadClosed

definition KCP_Read :: "bool \<Rightarrow> nat \<Rightarrow> KCPConn \<Rightarrow> (kcp_read \<times> KCPConn) option" where
  "KCP_Read pick k c =
     (case kc_recvBuf c of
        d # q \<Rightarrow> if kc_closed c \<and> \<not> pick then Some (ReadClosed, c)
                 else Some (ReadData (take k d), c\<lparr>kc_recvBuf := q\<rparr>)
      | [] \<Rightarrow> if kc_closed c then Some (ReadClosed, c) else None)"

definition KCP_Close :: "KCPConn \<Rightarrow> KCPConn" where
  "KCP_Close c = c\<lparr>kc_closed := True\<rparr>"

text \<open>The non-blocking send on the queue: a full queue drops the packet.\<close>

definition enqueue :: "bytes \<Rightarrow> KCPConn \<Rightarrow> KCPConn" where
  "enqueue d c = (if length (kc_recvBuf c) < queue_cap then c\<lparr>kc_recvBuf := kc_recvBuf c @ [d]\<rparr> else c)"

definition sendAck :: "gseal \<Rightarrow> (nat \<Rightarrow> time) \<Rightarrow> KCPConn \<Rightarrow> bytes \<times> KCPConn" where
  "sendAck gseal clk c =
     (encryptPacket gseal (clk 1) c (buildPacket (clk 0) c kcpCmdAck (putUint32 (kc_rcvNxt c))),
      c\<lparr>kc_rcvNxt := kc_rcvNxt c + 1\<rparr>)"

text \<open>One round of \<open>readLoop\<close> for a received datagram: the datagrams it sends and the connection.\<close>

definition readLoop_step :: "gseal \<Rightarrow> gopen \<Rightarrow> (nat \<Rightarrow> time) \<Rightarrow> bytes \<Rightarrow> KCPConn \<Rightarrow> bytes list \<times> KCPConn" where
  "readLoop_step gseal gopen clk dgram c =
     (case decryptPacket gopen c dgram of
        None \<Rightarrow> ([], c)
      | Some d \<Rightarrow>
          if length d < kcpHdrSize then ([], c)
          else if getUint16 (d ! 0) (d ! 1) \<noteq> kcpMagic then ([], c)
          else
            let cmd = d ! 2; payload = drop kcpHdrSize d in
            if cmd = kcpCmdPush then
              let c1 = (if length payload > 0 then enqueue payload c else c);
                  (ack, c2) = sendAck gseal clk c1 in
              ([ack], c2)
            else if cmd = kcpCmdAck then
              ([], if length payload \<ge> 4
                   then c\<lparr>kc_sndUna := getUint32 (payload ! 0) (payload ! 1) (payload ! 2) (payload ! 3)\<rparr>
                   else c)
            else if cmd = kcpCmdPing then
              ([encryptPacket gseal (clk 1) c (buildPacket (clk 0) c kcpCmdPing [])], c)
            else ([], c))"

subsection \<open>The listener\<close>

text \<open>
  Sessions by remote address; \<open>kl_connCh\<close> holds the addresses of the sessions waiting to be
  accepted, at most 256.
\<close>

record KCPListener =
  kl_sessions :: "string \<rightharpoonup> KCPConn"
  kl_connCh :: "string list"
  kl_done :: bool
  kl_encrypt :: string
  kl_key :: bytes

definition newKCPListener :: "string \<Rightarrow> bytes \<Rightarrow> KCPListener" where
  "newKCPListener enc key =
     \<lparr>kl_sessions = Map.empty, kl_connCh = [], kl_done = False, kl_encrypt = enc, kl_key = key\<rparr>"

definition acceptLoop_step :: "gopen \<Rightarrow> string \<times> bytes \<Rightarrow> KCPListener \<Rightarrow> KCPListener" where
  "acceptLoop_step gopen pkt l =
     (case pkt of (remote, dgram) \<Rightarrow>
        let l1 = (case kl_sessions l remote of
                    Some _ \<Rightarrow> l
                  | None \<Rightarrow>
                      l\<lparr>kl_sessions := (kl_sessions l)(remote \<mapsto> newKCPConn (kl_encrypt l) (kl_key l)),
                        kl_connCh := (if length (kl_connCh l) < 256 then kl_connCh l @ [remote] else kl_connCh l)\<rparr>);
            session = the (kl_sessions l1 remote) in
        case decryptPacket gopen session dgram of
          None \<Rightarrow> l1
        | Some d \<Rightarrow>
            if length d > kcpHdrSize
            then l1\<lparr>kl_sessions := (kl_sessions l1)(remote \<mapsto> enqueue (drop kcpHdrSize d) session)\<rparr>
            else l1)"

text \<open>\<open>Accept\<close>, with \<open>pick\<close> as for \<open>Read\<close>; the inner \<open>None\<close> is the error, the outer one that it blocks.\<close>

definition KCP_Accept :: "bool \<Rightarrow> KCPListener \<Rightarrow> (string option \<times> KCPListener) option" where
  "KCP_Accept pick l =
     (case kl_connCh l of
        r # q \<Rightarrow> if kl_done l \<and> \<not> pick then Some (None, l) else Some (Some r, l\<lparr>kl_connCh := q\<rparr>)
      | [] \<Rightarrow> if kl_done l then Some (None, l) else None)"

text \<open>A second \<open>Close\<close> closes a closed channel, a panic (\<open>None\<close>).\<close>

definition KCPListener_Close :: "KCPListener \<Rightarrow> KCPListener option" where
  "KCPListener_Close l = (if kl_done l then None else Some (l\<lparr>kl_done := True\<rparr>))"

subsection \<open>What a packet carries\<close>

text \<open>The documented behaviour of AES-GCM that a connection relies on.\<close>

definition gcm_ok :: "gseal \<Rightarrow> gopen \<Rightarrow> bool" where
  "gcm_ok gseal gopen \<longleftrightarrow>
     (\<forall>k n p. aes_key k \<longrightarrow> length n = gcmNonceSize \<longrightarrow> gopen k n (gseal k n p) = Some p)"

lemma length_putUint64 [simp]: "length (putUint64 w) = 8"
  by (simp add: putUint64_def)

lemma decrypt_encrypt:
  assumes "gcm_ok gseal gopen" "aes_key (kc_key c)" "kc_encrypt s = kc_encrypt c" "kc_key s = kc_key c"
  shows "decryptPacket gopen s (encryptPacket gseal now c d) = Some d"
  using assms by (auto simp: decryptPacket_def encryptPacket_def gcm_ok_def gcmNonceSize_def Let_def)

definition pkt_header :: "time \<Rightarrow> KCPConn \<Rightarrow> byte \<Rightarrow> nat \<Rightarrow> bytes" where
  "pkt_header now c cmd n = take kcpHdrSize (buildPacket now c cmd (replicate n 0))"

lemma buildPacket_header:
  "buildPacket now c cmd payload = pkt_header now c cmd (length payload) @ payload"
  "length (pkt_header now c cmd n) = kcpHdrSize"
  by (simp_all add: pkt_header_def buildPacket_def kcpHdrSize_def)

text \<open>\<open>carries s d f\<close>: the datagram \<open>d\<close>, received for the session \<open>s\<close>, holds the data \<open>f\<close>.\<close>

definition carries :: "gopen \<Rightarrow> string \<Rightarrow> bytes \<Rightarrow> bytes \<Rightarrow> bytes \<Rightarrow> bool" where
  "carries gopen enc key d f \<longleftrightarrow>
     (\<forall>s. kc_encrypt s = enc \<longrightarrow> kc_key s = key \<longrightarrow>
        (\<exists>h. length h = kcpHdrSize \<and> decryptPacket gopen s d = Some (h @ f)))"

lemma packet_carries:
  assumes "gcm_ok gseal gopen" "aes_key (kc_key c)"
  shows "carries gopen (kc_encrypt c) (kc_key c) (encryptPacket gseal t c (buildPacket now c cmd f)) f"
  unfolding carries_def
proof (intro allI impI)
  fix s :: KCPConn
  assume "kc_encrypt s = kc_encrypt c" "kc_key s = kc_key c"
  then show "\<exists>h. length h = kcpHdrSize \<and>
      decryptPacket gopen s (encryptPacket gseal t c (buildPacket now c cmd f)) = Some (h @ f)"
    using decrypt_encrypt [OF assms] buildPacket_header by metis
qed

text \<open>The fragments of a write.\<close>

function fragments :: "bytes \<Rightarrow> bytes list" where
  "fragments p = (if p = [] then [] else take maxPayload p # fragments (drop maxPayload p))"
  by pat_completeness auto
termination
  by (relation "measure length") (auto simp: maxPayload_eq)

declare fragments.simps [simp del]

lemma fragments_correct:
  "concat (fragments p) = p \<and> (\<forall>f \<in> set (fragments p). f \<noteq> [] \<and> length f \<le> maxPayload)"
proof (induction p rule: fragments.induct)
  case (1 p)
  show ?case
  proof (cases "p = []")
    case False
    then have "fragments p = take maxPayload p # fragments (drop maxPayload p)"
      by (subst fragments.simps) simp
    then show ?thesis
      using 1 False by (auto simp: maxPayload_eq)
  qed (simp add: fragments.simps)
qed

lemma concat_fragments: "concat (concat (map fragments ps)) = concat ps"
  by (induction ps) (simp_all add: fragments_correct)

lemma kcpWriteLoop_carries:
  assumes "gcm_ok gseal gopen" "aes_key (kc_key c)"
  shows "\<exists>out c'. kcpWriteLoop gseal clk (\<lambda>_. False) c p offset i = (length p, False, out, c') \<and>
      kc_encrypt c' = kc_encrypt c \<and> kc_key c' = kc_key c \<and> kc_closed c' = kc_closed c \<and>
      list_all2 (carries gopen (kc_encrypt c) (kc_key c)) out (fragments (drop offset p))"
  using assms(2)
proof (induction "length p - offset" arbitrary: c offset i rule: less_induct)
  case less
  show ?case
  proof (cases "offset < length p")
    case True
    let ?stop = "if offset + maxPayload > length p then length p else offset + maxPayload"
    let ?c = "c\<lparr>kc_sndNxt := kc_sndNxt c + 1\<rparr>"
    let ?d = "encryptPacket gseal (clk (2 * i + 1)) c
      (buildPacket (clk (2 * i)) c kcpCmdPush (take (?stop - offset) (drop offset p)))"
    have "length p - ?stop < length p - offset"
      using True by (auto simp: maxPayload_eq)
    from less.hyps [OF this, of ?c "Suc i"] less.prems obtain out c' where
      rec: "kcpWriteLoop gseal clk (\<lambda>_. False) ?c p ?stop (Suc i) = (length p, False, out, c')"
      and c': "kc_encrypt c' = kc_encrypt c" "kc_key c' = kc_key c" "kc_closed c' = kc_closed c"
      and out: "list_all2 (carries gopen (kc_encrypt c) (kc_key c)) out (fragments (drop ?stop p))"
      by auto
    have run: "kcpWriteLoop gseal clk (\<lambda>_. False) c p offset i = (length p, False, ?d # out, c')"
      using True rec by (subst kcpWriteLoop.simps) (simp add: Let_def)
    have "take (?stop - offset) (drop offset p) = take maxPayload (drop offset p)"
      "drop ?stop p = drop maxPayload (drop offset p)"
      by (simp_all add: add.commute)
    then have "list_all2 (carries gopen (kc_encrypt c) (kc_key c)) (?d # out) (fragments (drop offset p))"
      using True out packet_carries [OF assms(1) less.prems] by (subst fragments.simps) simp
    then show ?thesis
      using run c' by blast
  qed (simp add: kcpWriteLoop.simps fragments.simps)
qed

subsection \<open>From the client's writes to the server's reads\<close>

text \<open>A sequence of writes on one connection whose socket accepts every datagram.\<close>

fun KCP_writes :: "gseal \<Rightarrow> (nat \<Rightarrow> time) list \<Rightarrow> KCPConn \<Rightarrow> bytes list \<Rightarrow> (nat \<times> bool) list \<times> bytes list" where
  "KCP_writes gseal (clk # clks) c (p # ps) =
     (case KCP_Write gseal clk (\<lambda>_. False) c p of
        (n, err, out, c') \<Rightarrow>
          (case KCP_writes gseal clks c' ps of (rs, outs) \<Rightarrow> ((n, err) # rs, out @ outs)))"
| "KCP_writes gseal clks c ps = ([], [])"

text \<open>A sequence of reads with the given buffer sizes, up to the first that returns no data.\<close>

fun KCP_reads :: "nat list \<Rightarrow> KCPConn \<Rightarrow> bytes list" where
  "KCP_reads [] c = []"
| "KCP_reads (k # ks) c =
     (case KCP_Read True k c of
        Some (ReadData d, c') \<Rightarrow> d # KCP_reads ks c'
      | _ \<Rightarrow> [])"

lemma KCP_writes_carry:
  assumes "gcm_ok gseal gopen" "aes_key (kc_key c)" "\<not> kc_closed c" "length clks = length ps"
  shows "\<exists>outs. KCP_writes gseal clks c ps = (map (\<lambda>p. (length p, False)) ps, outs) \<and>
    list_all2 (carries gopen (kc_encrypt c) (kc_key c)) outs (concat (map fragments ps))"
  using assms(2,3,4)
proof (induction ps arbitrary: c clks)
  case (Cons p ps)
  then obtain clk clks' where clks: "clks = clk # clks'" "length clks' = length ps"
    by (cases clks) auto
  obtain out c' where w: "kcpWriteLoop gseal clk (\<lambda>_. False) c p 0 0 = (length p, False, out, c')"
    and c': "kc_encrypt c' = kc_encrypt c" "kc_key c' = kc_key c" "kc_closed c' = kc_closed c"
    and out: "list_all2 (carries gopen (kc_encrypt c) (kc_key c)) out (fragments p)"
    using kcpWriteLoop_carries [OF assms(1) Cons.prems(1), of clk p 0 0] by auto
  obtain outs where "KCP_writes gseal clks' c' ps = (map (\<lambda>p. (length p, False)) ps, outs)"
    "list_all2 (carries gopen (kc_encrypt c) (kc_key c)) outs (concat (map fragments ps))"
    using Cons.IH [of c' clks'] Cons.prems c' clks by auto
  then show ?case
    using w out Cons.prems(2) clks by (auto simp: KCP_Write_def intro!: list_all2_appendI)
qed simp

text \<open>The queue of the session of one address, empty before its first datagram.\<close>

definition session_queue :: "KCPListener \<Rightarrow> string \<Rightarrow> bytes list" where
  "session_queue l r = (case kl_sessions l r of Some s \<Rightarrow> kc_recvBuf s | None \<Rightarrow> [])"

definition listener_ok :: "KCPListener \<Rightarrow> bool" where
  "listener_ok l \<longleftrightarrow> (\<forall>r s. kl_sessions l r = Some s \<longrightarrow>
     kc_encrypt s = kl_encrypt l \<and> kc_key s = kl_key l \<and> \<not> kc_closed s \<and> length (kc_recvBuf s) \<le> queue_cap)"

lemma listener_new: "listener_ok (newKCPListener enc key)" "session_queue (newKCPListener enc key) r = []"
  by (simp_all add: listener_ok_def session_queue_def newKCPListener_def)

lemma enqueue_fields [simp]:
  "kc_encrypt (enqueue d c) = kc_encrypt c" "kc_key (enqueue d c) = kc_key c" "kc_closed (enqueue d c) = kc_closed c"
  by (simp_all add: enqueue_def)

lemma enqueue_queue:
  "length (kc_recvBuf c) \<le> queue_cap \<Longrightarrow> kc_recvBuf (enqueue d c) = take queue_cap (kc_recvBuf c @ [d])"
  by (auto simp: enqueue_def)

lemma enqueue_bound: "length (kc_recvBuf c) \<le> queue_cap \<Longrightarrow> length (kc_recvBuf (enqueue d c)) \<le> queue_cap"
  by (simp add: enqueue_queue)

lemma acceptLoop_step_ok:
  assumes "listener_ok l"
  shows "listener_ok (acceptLoop_step gopen pkt l)"
    "kl_encrypt (acceptLoop_step gopen pkt l) = kl_encrypt l" "kl_key (acceptLoop_step gopen pkt l) = kl_key l"
    "r \<noteq> fst pkt \<Longrightarrow> session_queue (acceptLoop_step gopen pkt l) r = session_queue l r"
  using assms
  by (auto simp: acceptLoop_step_def listener_ok_def session_queue_def newKCPConn_def enqueue_bound Let_def
      split: prod.splits option.splits)

lemma acceptLoop_step_data:
  assumes "listener_ok l" "carries gopen (kl_encrypt l) (kl_key l) d f" "f \<noteq> []"
  shows "session_queue (acceptLoop_step gopen (r, d) l) r = take queue_cap (session_queue l r @ [f])"
proof (cases "kl_sessions l r")
  case None
  let ?s = "newKCPConn (kl_encrypt l) (kl_key l)"
  obtain h where "length h = kcpHdrSize" "decryptPacket gopen ?s d = Some (h @ f)"
    using assms(2) unfolding carries_def by (metis KCPConn.select_convs(1,2) newKCPConn_def)
  then show ?thesis
    using None assms(3) enqueue_queue [of ?s f] by (simp add: acceptLoop_step_def session_queue_def newKCPConn_def Let_def)
next
  case (Some s)
  have s: "kc_encrypt s = kl_encrypt l" "kc_key s = kl_key l" "length (kc_recvBuf s) \<le> queue_cap"
    using assms(1) Some by (auto simp: listener_ok_def)
  then obtain h where "length h = kcpHdrSize" "decryptPacket gopen s d = Some (h @ f)"
    using assms(2) unfolding carries_def by blast
  then show ?thesis
    using Some assms(3) enqueue_queue [OF s(3), of f] by (simp add: acceptLoop_step_def session_queue_def Let_def)
qed

lemma take_take_app: "take n (take n xs @ ys) = take n (xs @ ys)"
  by (cases "length xs \<le> n") simp_all

text \<open>Datagrams of other peers may arrive in between.\<close>

lemma acceptLoop_delivers:
  assumes "listener_ok l" "list_all2 (carries gopen (kl_encrypt l) (kl_key l)) [d. (a, d) \<leftarrow> tr, a = r] fs"
    "\<forall>f \<in> set fs. f \<noteq> []"
  shows "listener_ok (fold (acceptLoop_step gopen) tr l) \<and>
    session_queue (fold (acceptLoop_step gopen) tr l) r = take queue_cap (session_queue l r @ fs)"
  using assms
proof (induction tr arbitrary: l fs)
  case Nil
  then show ?case
    by (auto simp: listener_ok_def session_queue_def split: option.splits)
next
  case (Cons pkt tr)
  obtain a d where pkt: "pkt = (a, d)" by (cases pkt)
  let ?l = "acceptLoop_step gopen pkt l"
  note ok = acceptLoop_step_ok [OF Cons.prems(1), where gopen = gopen and pkt = pkt]
  show ?case
  proof (cases "a = r")
    case True
    then obtain f fs' where fs: "fs = f # fs'" "carries gopen (kl_encrypt l) (kl_key l) d f"
      "list_all2 (carries gopen (kl_encrypt l) (kl_key l)) [d. (a, d) \<leftarrow> tr, a = r] fs'"
      using Cons.prems(2) pkt by (auto simp: list_all2_Cons1)
    have q: "session_queue ?l r = take queue_cap (session_queue l r @ [f])"
      using acceptLoop_step_data [OF Cons.prems(1) fs(2)] Cons.prems(3) fs(1) pkt True by simp
    have "take queue_cap (session_queue ?l r @ fs') = take queue_cap (session_queue l r @ fs)"
      unfolding q fs(1) take_take_app by simp
    then show ?thesis
      using Cons.IH [OF ok(1), of fs'] fs Cons.prems(3) ok by simp
  next
    case False
    then have "list_all2 (carries gopen (kl_encrypt l) (kl_key l)) [d. (a, d) \<leftarrow> tr, a = r] fs"
      using Cons.prems(2) pkt by simp
    then show ?thesis
      using Cons.IH [OF ok(1), of fs] Cons.prems(3) ok False pkt by simp
  qed
qed

lemma KCP_reads_queue:
  "\<not> kc_closed c \<Longrightarrow> KCP_reads ks c = map2 take ks (kc_recvBuf c)"
proof (induction ks arbitrary: c)
  case (Cons k ks)
  then show ?case
    by (cases "kc_recvBuf c") (simp_all add: KCP_Read_def)
qed simp

lemma map2_take_all:
  "\<forall>k \<in> set ks. \<forall>f \<in> set fs. length f \<le> k \<Longrightarrow> length fs \<le> length ks \<Longrightarrow> map2 take ks fs = fs"
  by (induction ks fs rule: list_induct2') auto

subsection \<open>Properties\<close>

text \<open>
  C36: What a KCP client writes is what the server reads. Every write reports success, and if all
  its datagrams arrive in order, interleaved with those of any other peers, the session of the
  client's address holds the first 1024 fragments of the writes; when there are no more than that,
  reads with buffers of at least 1314 bytes return exactly the bytes written.
\<close>

theorem kcp_stream_delivered:
  assumes "gcm_ok gseal gopen" "length key = 16" "length clks = length ps"
    and "KCP_writes gseal clks (newKCPConn enc key) ps = (results, outs)"
    and "[d. (a, d) \<leftarrow> tr, a = remote] = outs" "outs \<noteq> []"
    and "\<forall>k \<in> set ks. 1314 \<le> k" "length outs \<le> length ks"
  shows "results = map (\<lambda>p. (length p, False)) ps \<and>
    (\<exists>s. kl_sessions (fold (acceptLoop_step gopen) tr (newKCPListener enc key)) remote = Some s \<and>
         kc_recvBuf s = take 1024 (concat (map fragments ps)) \<and>
         (length outs \<le> 1024 \<longrightarrow> concat (KCP_reads ks s) = concat ps))"
proof -
  let ?fs = "concat (map fragments ps)"
  let ?l = "fold (acceptLoop_step gopen) tr (newKCPListener enc key)"
  have r: "results = map (\<lambda>p. (length p, False)) ps" and out: "list_all2 (carries gopen enc key) outs ?fs"
    using KCP_writes_carry [OF assms(1), of "newKCPConn enc key" clks ps] assms(2-4)
    by (auto simp: newKCPConn_def aes_key_def)
  have fs: "\<forall>f \<in> set ?fs. f \<noteq> [] \<and> length f \<le> maxPayload" "concat ?fs = concat ps"
    using fragments_correct by (auto simp: concat_fragments)
  have "listener_ok ?l \<and> session_queue ?l remote = take queue_cap ?fs"
    using acceptLoop_delivers [OF listener_new(1) [of enc key], of gopen remote tr ?fs] out fs(1) assms(5) listener_new(2)
    by (simp add: newKCPListener_def)
  moreover have "take queue_cap ?fs \<noteq> []"
    using list_all2_lengthD [OF out] assms(6) unfolding queue_cap_def by (metis length_0_conv take_eq_Nil zero_neq_numeral)
  ultimately obtain s where s: "kl_sessions ?l remote = Some s" "kc_recvBuf s = take queue_cap ?fs" "\<not> kc_closed s"
    by (auto simp: session_queue_def listener_ok_def split: option.splits)
  have "concat (KCP_reads ks s) = concat ps" if "length outs \<le> 1024"
  proof -
    have "take queue_cap ?fs = ?fs"
      using that list_all2_lengthD [OF out] by (simp add: queue_cap_def)
    then have "KCP_reads ks s = ?fs"
      using KCP_reads_queue [OF s(3), of ks] s(2) map2_take_all [of ks ?fs] fs(1) assms(7,8) list_all2_lengthD [OF out]
      by (fastforce simp: maxPayload_eq)
    then show ?thesis
      using fs(2) by simp
  qed
  then show ?thesis
    using r s by (auto simp: queue_cap_def)
qed

theorem kcp_stream_delivered_witness:
  "\<exists>s. kl_sessions (fold (acceptLoop_step (\<lambda>_ _ c. Some c))
      [(''a:1'', snd (KCP_writes (\<lambda>_ _ p. p) [\<lambda>_. 0] (newKCPConn ''aes-128-gcm'' (replicate 16 7)) [[1, 2, 3]]) ! 0),
       (''b:2'', [9])]
      (newKCPListener ''aes-128-gcm'' (replicate 16 7))) ''a:1'' = Some s \<and> concat (KCP_reads [2000] s) = [1, 2, 3]"
proof -
  let ?key = "replicate 16 7 :: bytes"
  let ?w = "KCP_writes (\<lambda>_ _ p. p) [\<lambda>_. 0] (newKCPConn ''aes-128-gcm'' ?key) [[1, 2, 3]]"
  obtain d where w: "?w = ([(3, False)], [d])"
    by (simp add: KCP_Write_def newKCPConn_def kcpWriteLoop.simps maxPayload_eq Let_def)
  then have d: "snd ?w ! 0 = d"
    by simp
  show ?thesis
    unfolding d
    using kcp_stream_delivered [of "\<lambda>_ _ p. p" "\<lambda>_ _ c. Some c" ?key "[\<lambda>_. 0]" "[[1, 2, 3]]" "''aes-128-gcm''" "[(3, False)]" "[d]"
        "''a:1''" "[(''a:1'', d), (''b:2'', [9])]" "[2000]"] w
    by (auto simp: gcm_ok_def)
qed

text \<open>
  The loss is silent on both sides of the queue: a read with a smaller buffer drops the rest of
  the packet, and a full queue drops the packet although the sender's write succeeded.
\<close>

lemma kcp_short_read_truncates:
  "kc_recvBuf c = d # q \<Longrightarrow> \<not> kc_closed c \<Longrightarrow>
     KCP_Read pick k c = Some (ReadData (take k d), c\<lparr>kc_recvBuf := q\<rparr>)"
  by (simp add: KCP_Read_def)

text \<open>
  On the listener's socket, which has no peer address, every \<open>udp.Write\<close> fails: a session the
  listener creates cannot send anything.
\<close>

lemma kcp_server_write_fails:
  "p \<noteq> [] \<Longrightarrow> KCP_Write gseal clk (\<lambda>_. True) c p = (0, True, [], c)"
  by (simp add: KCP_Write_def kcpWriteLoop.simps Let_def)

text \<open>On the client, a packet that arrives when the queue is full is acknowledged all the same.\<close>

lemma kcp_full_queue_acked:
  assumes "gcm_ok gseal gopen" "aes_key (kc_key c)" "kc_encrypt s = kc_encrypt c" "kc_key s = kc_key c"
    and "payload \<noteq> []" "queue_cap \<le> length (kc_recvBuf c)"
  shows "readLoop_step gseal gopen clk (encryptPacket gseal t s (buildPacket now s kcpCmdPush payload)) c =
    ([fst (sendAck gseal clk c)], c\<lparr>kc_rcvNxt := kc_rcvNxt c + 1\<rparr>)"
proof -
  define p where "p = buildPacket now s kcpCmdPush payload"
  have "p ! 2 = kcpCmdPush" "getUint16 (p ! 0) (p ! 1) = kcpMagic"
    using getUint16_put [of kcpMagic] by (simp_all add: p_def buildPacket_def putUint16_def)
  moreover have "\<not> length p < kcpHdrSize"
    by (simp add: p_def buildPacket_header)
  moreover have "decryptPacket gopen c (encryptPacket gseal t s p) = Some p"
    by (rule decrypt_encrypt [OF assms(1)]) (use assms(2-4) in auto)
  moreover have "enqueue d c = c" for d
    using assms(6) by (simp add: enqueue_def)
  ultimately show ?thesis
    unfolding p_def [symmetric] by (simp add: readLoop_step_def sendAck_def Let_def)
qed

end
