(* ===== verification/Session_Pool.thy ===== *)
theory Session_Pool
  imports Go_Arith Config
begin

text \<open>
  internal/mux/mux.go: a multiplexed session over a connection and the pool that spreads streams
  over several sessions. The smux library is a record of operations, a parameter; \<open>smux_ok\<close> states
  what its documentation promises about the number of streams of a session.
\<close>

subsection \<open>Sessions\<close>

record SmuxConfig =
  sx_MaxFrameSize :: int
  sx_MaxReceiveBuffer :: int
  sx_MaxStreamBuffer :: int
  sx_KeepAliveInterval :: time
  sx_KeepAliveTimeout :: time

definition buildSmuxConfig :: "SmuxConfig \<Rightarrow> MuxConfig \<Rightarrow> SmuxConfig" where
  "buildSmuxConfig dflt cfg =
     (let c1 = (if mx_FrameSize cfg > 0 then dflt\<lparr>sx_MaxFrameSize := mx_FrameSize cfg\<rparr> else dflt);
          c2 = (if mx_RecvBuffer cfg > 0 then c1\<lparr>sx_MaxReceiveBuffer := mx_RecvBuffer cfg\<rparr> else c1);
          c3 = (if mx_StreamBuffer cfg > 0 then c2\<lparr>sx_MaxStreamBuffer := mx_StreamBuffer cfg\<rparr> else c2)
      in c3\<lparr>sx_KeepAliveInterval := 10 * second, sx_KeepAliveTimeout := 30 * second\<rparr>)"

record ('x, 's, 'e) smux =
  sm_IsClosed :: "'x \<Rightarrow> bool"
  sm_NumStreams :: "'x \<Rightarrow> int"
  sm_OpenStream :: "'x \<Rightarrow> ('e + 's) \<times> 'x"
  sm_Close :: "'x \<Rightarrow> 'e option \<times> 'x"

text \<open>Opening adds one stream or, failing, none; a closed session stays closed.\<close>

definition smux_ok :: "('x, 's, 'e) smux \<Rightarrow> bool" where
  "smux_ok ops \<longleftrightarrow>
     (\<forall>x r x'. sm_OpenStream ops x = (r, x') \<longrightarrow>
        sm_NumStreams ops x' = sm_NumStreams ops x + (if is_ok r then 1 else 0) \<and>
        (sm_IsClosed ops x \<longrightarrow> sm_IsClosed ops x'))"

record 'x Session =
  ss_session :: 'x
  ss_closed :: bool

datatype 'e pool_error =
    SessionIsClosed | OpenFailed 'e | NoSessions | AllClosedOrFull | PoolPanic go_panic

definition OpenStream :: "('x, 's, 'e) smux \<Rightarrow> 'x Session \<Rightarrow> ('e pool_error + 's) \<times> 'x Session" where
  "OpenStream ops s =
     (if ss_closed s then (Inl SessionIsClosed, s)
      else case sm_OpenStream ops (ss_session s) of
             (r, x') \<Rightarrow> (map_sum OpenFailed id r, s\<lparr>ss_session := x'\<rparr>))"

definition IsClosed :: "('x, 's, 'e) smux \<Rightarrow> 'x Session \<Rightarrow> bool" where
  "IsClosed ops s \<longleftrightarrow> ss_closed s \<or> sm_IsClosed ops (ss_session s)"

definition NumStreams :: "('x, 's, 'e) smux \<Rightarrow> 'x Session \<Rightarrow> int" where
  "NumStreams ops s = sm_NumStreams ops (ss_session s)"

text \<open>\<open>connErr\<close> is what closing the underlying connection returns.\<close>

definition Session_Close :: "('x, 's, 'e) smux \<Rightarrow> 'e option \<Rightarrow> 'x Session \<Rightarrow> 'e option \<times> 'x Session" where
  "Session_Close ops connErr s =
     (case sm_Close ops (ss_session s) of
        (r, x') \<Rightarrow> (case r of Some e \<Rightarrow> Some e | None \<Rightarrow> connErr, s\<lparr>ss_closed := True, ss_session := x'\<rparr>))"

subsection \<open>The pool\<close>

record 'x SessionPool =
  sp_sessions :: "'x Session list"
  sp_index :: int
  sp_MaxStreams :: int
  sp_qualityFunc :: "(int \<Rightarrow> int) option"

definition NewSessionPool :: "MuxConfig \<Rightarrow> 'x SessionPool" where
  "NewSessionPool cfg =
     \<lparr>sp_sessions = [], sp_index = 0, sp_MaxStreams = mx_MaxStreams cfg, sp_qualityFunc = None\<rparr>"

definition SetQualityFunc :: "(int \<Rightarrow> int) \<Rightarrow> 'x SessionPool \<Rightarrow> 'x SessionPool" where
  "SetQualityFunc fn p = p\<lparr>sp_qualityFunc := Some fn\<rparr>"

definition Pool_Add :: "'x Session \<Rightarrow> 'x SessionPool \<Rightarrow> 'x SessionPool" where
  "Pool_Add s p = p\<lparr>sp_sessions := sp_sessions p @ [s]\<rparr>"

text \<open>
  \<open>GetStream\<close> scans the sessions for the highest score; a session is named by its index. The score
  of an open session below the stream limit is its quality, 100 by default, minus its streams.
\<close>

definition session_usable :: "('x, 's, 'e) smux \<Rightarrow> 'x SessionPool \<Rightarrow> nat \<Rightarrow> bool" where
  "session_usable ops p idx \<longleftrightarrow>
     \<not> IsClosed ops (sp_sessions p ! idx) \<and>
     \<not> (sp_MaxStreams p > 0 \<and> NumStreams ops (sp_sessions p ! idx) \<ge> sp_MaxStreams p)"

definition session_score :: "('x, 's, 'e) smux \<Rightarrow> 'x SessionPool \<Rightarrow> nat \<Rightarrow> int" where
  "session_score ops p idx =
     (case sp_qualityFunc p of
        None \<Rightarrow> 100 - NumStreams ops (sp_sessions p ! idx)
      | Some q \<Rightarrow> q (int idx + 1) - NumStreams ops (sp_sessions p ! idx))"

definition scan_step :: "('x, 's, 'e) smux \<Rightarrow> 'x SessionPool \<Rightarrow> int \<times> nat list \<Rightarrow> nat \<Rightarrow> int \<times> nat list" where
  "scan_step ops p acc idx =
     (case acc of (bestScore, cands) \<Rightarrow>
        if \<not> session_usable ops p idx then (bestScore, cands)
        else let score = session_score ops p idx in
             if score > bestScore then (score, [idx])
             else if score = bestScore then (bestScore, cands @ [idx])
             else (bestScore, cands))"

definition lowest_score :: int where "lowest_score = - (2 ^ 30)"

definition GetStream :: "('x, 's, 'e) smux \<Rightarrow> 'x SessionPool \<Rightarrow> ('e pool_error + 's) \<times> 'x SessionPool" where
  "GetStream ops p =
     (if sp_sessions p = [] then (Inl NoSessions, p)
      else
        let cands = snd (foldl (scan_step ops p) (lowest_score, []) [0..<length (sp_sessions p)]) in
        if cands = [] then (Inl AllClosedOrFull, p)
        else
          let p1 = p\<lparr>sp_index := wrap64 (sp_index p + 1)\<rparr> in
          case rr_index cands (sp_index p1) of
            Inl e \<Rightarrow> (Inl (PoolPanic e), p1)
          | Inr i \<Rightarrow>
              (case OpenStream ops (sp_sessions p1 ! i) of
                 (r, s') \<Rightarrow> (r, p1\<lparr>sp_sessions := (sp_sessions p1)[i := s']\<rparr>)))"

definition RemoveClosed :: "('x, 's, 'e) smux \<Rightarrow> 'x SessionPool \<Rightarrow> nat \<times> 'x SessionPool" where
  "RemoveClosed ops p =
     (length (filter (IsClosed ops) (sp_sessions p)),
      p\<lparr>sp_sessions := filter (\<lambda>s. \<not> IsClosed ops s) (sp_sessions p)\<rparr>)"

definition Pool_Count :: "('x, 's, 'e) smux \<Rightarrow> 'x SessionPool \<Rightarrow> nat" where
  "Pool_Count ops p = length (filter (\<lambda>s. \<not> IsClosed ops s) (sp_sessions p))"

text \<open>\<open>Close\<close> also returns the closed sessions, which the pool no longer holds.\<close>

definition Pool_Close :: "('x, 's, 'e) smux \<Rightarrow> 'x SessionPool \<Rightarrow> 'x Session list \<times> 'x SessionPool" where
  "Pool_Close ops p = (map (\<lambda>s. snd (Session_Close ops None s)) (sp_sessions p), p\<lparr>sp_sessions := []\<rparr>)"

subsection \<open>Which session is picked\<close>

lemma scan_correct:
  "foldl (scan_step ops p) (lowest_score, []) [0..<n] = (best, cands) \<Longrightarrow>
     cands = filter (\<lambda>i. session_usable ops p i \<and> session_score ops p i = best) [0..<n] \<and>
     lowest_score \<le> best \<and> (\<forall>i < n. session_usable ops p i \<longrightarrow> session_score ops p i \<le> best) \<and>
     (best = lowest_score \<or> (\<exists>i < n. session_usable ops p i \<and> session_score ops p i = best))"
proof (induction n arbitrary: best cands)
  case (Suc n)
  obtain b cs where bc: "foldl (scan_step ops p) (lowest_score, []) [0..<n] = (b, cs)"
    by fastforce
  note IH = Suc.IH [OF bc]
  have step: "scan_step ops p (b, cs) n = (best, cands)"
    using Suc.prems bc by simp
  show ?case
  proof (cases "session_usable ops p n \<and> session_score ops p n > b")
    case True
    then have "best = session_score ops p n" "cands = [n]"
      using step by (auto simp: scan_step_def Let_def)
    moreover have "filter (\<lambda>i. session_usable ops p i \<and> session_score ops p i = session_score ops p n) [0..<n] = []"
      using IH True by (auto simp: filter_empty_conv)
    ultimately show ?thesis
      using IH True by (auto simp: less_Suc_eq)
  next
    case False
    then have "best = b" "cands = (if session_usable ops p n \<and> session_score ops p n = b then cs @ [n] else cs)"
      using step by (auto simp: scan_step_def Let_def split: if_splits)
    then show ?thesis
      using IH False by (auto simp: less_Suc_eq)
  qed
qed simp

lemma GetStream_picks:
  assumes "0 \<le> sp_index p" "sp_index p < max_int" "GetStream ops p = (r, p')" "p' \<noteq> p"
  shows "\<exists>i s'. i < length (sp_sessions p) \<and> session_usable ops p i \<and>
    (\<forall>j < length (sp_sessions p). session_usable ops p j \<longrightarrow> session_score ops p j \<le> session_score ops p i) \<and>
    OpenStream ops (sp_sessions p ! i) = (r, s') \<and>
    p' = p\<lparr>sp_index := sp_index p + 1, sp_sessions := (sp_sessions p)[i := s']\<rparr>"
proof -
  obtain best cands where sc: "foldl (scan_step ops p) (lowest_score, []) [0..<length (sp_sessions p)] = (best, cands)"
    by fastforce
  note cands = scan_correct [OF sc]
  have ne1: "sp_sessions p \<noteq> []"
    using assms(3,4) by (auto simp: GetStream_def)
  then have ne: "sp_sessions p \<noteq> []" "cands \<noteq> []"
    using assms(3,4) sc by (auto simp: GetStream_def)
  let ?v = "sp_index p + 1"
  let ?i = "cands ! (nat ?v mod length cands)"
  have w: "wrap64 ?v = ?v"
    using assms(1,2) by (simp add: wrap64_small)
  have i: "?i \<in> set cands" "rr_index cands ?v = Inr ?i"
    using ne(2) rr_index_ok [of ?v cands] assms(1) by simp_all
  obtain r' s' where o: "OpenStream ops (sp_sessions p ! ?i) = (r', s')"
    by fastforce
  then have "r = r'" "p' = p\<lparr>sp_index := ?v, sp_sessions := (sp_sessions p)[?i := s']\<rparr>"
    using assms(3) sc ne i(2) w by (simp_all add: GetStream_def Let_def)
  then show ?thesis
    using o cands i(1) by (intro exI [of _ ?i] exI [of _ s']) auto
qed

text \<open>Whether the pool answers is decided by the usable sessions.\<close>

lemma GetStream_none:
  assumes "\<forall>i < length (sp_sessions p). session_usable ops p i \<longrightarrow> session_score ops p i < lowest_score"
  shows "GetStream ops p = (Inl (if sp_sessions p = [] then NoSessions else AllClosedOrFull), p)"
proof -
  obtain best cands where sc: "foldl (scan_step ops p) (lowest_score, []) [0..<length (sp_sessions p)] = (best, cands)"
    by fastforce
  have "cands = []"
    using scan_correct [OF sc] assms by (auto simp: filter_empty_conv)
  then show ?thesis
    using sc by (simp add: GetStream_def)
qed

subsection \<open>Balance\<close>

text \<open>
  Without a quality function the pool is least-loaded: no two open sessions differ by more than
  one stream, and none has more streams than allowed.
\<close>

definition open_sessions :: "('x, 's, 'e) smux \<Rightarrow> 'x SessionPool \<Rightarrow> nat set" where
  "open_sessions ops p = {i. i < length (sp_sessions p) \<and> \<not> IsClosed ops (sp_sessions p ! i)}"

definition streams_at :: "('x, 's, 'e) smux \<Rightarrow> 'x SessionPool \<Rightarrow> nat \<Rightarrow> int" where
  "streams_at ops p i = NumStreams ops (sp_sessions p ! i)"

definition balanced :: "('x, 's, 'e) smux \<Rightarrow> 'x SessionPool \<Rightarrow> bool" where
  "balanced ops p \<longleftrightarrow>
     (\<forall>i \<in> open_sessions ops p. \<forall>j \<in> open_sessions ops p. streams_at ops p i \<le> streams_at ops p j + 1) \<and>
     (sp_MaxStreams p > 0 \<longrightarrow> (\<forall>i \<in> open_sessions ops p. streams_at ops p i \<le> sp_MaxStreams p))"

lemma OpenStream_count:
  assumes "smux_ok ops" "OpenStream ops s = (r, s')" "\<not> IsClosed ops s"
  shows "NumStreams ops s' = NumStreams ops s + (if is_ok r then 1 else 0)"
proof -
  obtain r0 x' where o: "sm_OpenStream ops (ss_session s) = (r0, x')"
    by fastforce
  then have "r = map_sum OpenFailed id r0" "s' = s\<lparr>ss_session := x'\<rparr>"
    using assms(2,3) by (auto simp: OpenStream_def IsClosed_def)
  moreover have "is_ok (map_sum OpenFailed id r0) = is_ok r0"
    by (cases r0) simp_all
  ultimately show ?thesis
    using assms(1) o unfolding smux_ok_def NumStreams_def by simp
qed

lemma GetStream_balanced:
  assumes "smux_ok ops" "0 \<le> sp_index p" "sp_index p < max_int" "sp_qualityFunc p = None" "balanced ops p"
    and "GetStream ops p = (r, p')"
  shows "balanced ops p'"
proof (cases "p' = p")
  case False
  obtain i s' where i: "i < length (sp_sessions p)" "session_usable ops p i"
    and best: "\<And>j. j < length (sp_sessions p) \<Longrightarrow> session_usable ops p j \<Longrightarrow> session_score ops p j \<le> session_score ops p i"
    and os: "OpenStream ops (sp_sessions p ! i) = (r, s')"
    and p': "p' = p\<lparr>sp_index := sp_index p + 1, sp_sessions := (sp_sessions p)[i := s']\<rparr>"
    using GetStream_picks [OF assms(2,3,6) False] by blast
  have openi: "i \<in> open_sessions ops p" "sp_MaxStreams p > 0 \<Longrightarrow> streams_at ops p i < sp_MaxStreams p"
    using i by (auto simp: session_usable_def open_sessions_def streams_at_def)
  have least: "streams_at ops p i \<le> streams_at ops p j" if j: "j \<in> open_sessions ops p" for j
  proof (cases "session_usable ops p j")
    case True
    then show ?thesis
      using best [of j] j assms(4) by (auto simp: session_score_def streams_at_def open_sessions_def)
  next
    case False
    then show ?thesis
      using j openi(2) by (auto simp: session_usable_def open_sessions_def streams_at_def)
  qed
  have sub: "open_sessions ops p' \<subseteq> open_sessions ops p"
    using i openi(1) by (auto simp: p' open_sessions_def nth_list_update split: if_splits)
  have cnt: "streams_at ops p' j = streams_at ops p j + (if j = i \<and> is_ok r then 1 else 0)" for j
    using i OpenStream_count [OF assms(1) os] openi(1)
    by (auto simp: p' streams_at_def nth_list_update open_sessions_def)
  have bal: "streams_at ops p k \<le> streams_at ops p j + 1" if "k \<in> open_sessions ops p" "j \<in> open_sessions ops p" for k j
    using assms(5) that by (auto simp: balanced_def)
  have "streams_at ops p' k \<le> streams_at ops p' j + 1" if "k \<in> open_sessions ops p'" "j \<in> open_sessions ops p'" for k j
    using subsetD [OF sub that(1)] subsetD [OF sub that(2)] least [of j] bal [of k j] by (auto simp: cnt)
  moreover have "sp_MaxStreams p' = sp_MaxStreams p"
    by (simp add: p')
  then have "streams_at ops p' k \<le> sp_MaxStreams p'" if "k \<in> open_sessions ops p'" "sp_MaxStreams p' > 0" for k
    using subsetD [OF sub that(1)] that(2) openi(2) assms(5) by (auto simp: cnt balanced_def)
  ultimately show ?thesis
    by (auto simp: balanced_def)
qed (use assms in simp)

fun get_streams :: "nat \<Rightarrow> ('x, 's, 'e) smux \<Rightarrow> 'x SessionPool \<Rightarrow> 'x SessionPool" where
  "get_streams 0 ops p = p"
| "get_streams (Suc n) ops p = get_streams n ops (snd (GetStream ops p))"

lemma GetStream_frame:
  assumes "0 \<le> sp_index p" "sp_index p < max_int" "GetStream ops p = (r, p')"
  shows "sp_qualityFunc p' = sp_qualityFunc p" "sp_index p \<le> sp_index p'" "sp_index p' \<le> sp_index p + 1"
    "length (sp_sessions p') = length (sp_sessions p)" "sp_MaxStreams p' = sp_MaxStreams p"
  using GetStream_picks [OF assms] by (cases "p' = p"; force)+

lemma OpenStream_never_full: "fst (OpenStream ops s) \<noteq> Inl AllClosedOrFull"
proof (cases "sm_OpenStream ops (ss_session s)")
  case (Pair r x)
  then show ?thesis
    by (cases r) (simp_all add: OpenStream_def)
qed

lemma GetStream_refuses:
  assumes "0 \<le> sp_index p" "sp_index p < max_int" "fst (GetStream ops p) = Inl AllClosedOrFull"
    and "i < length (sp_sessions p)" "session_usable ops p i"
  shows "session_score ops p i < lowest_score"
proof -
  obtain best cands where sc: "foldl (scan_step ops p) (lowest_score, []) [0..<length (sp_sessions p)] = (best, cands)"
    by fastforce
  have ne: "sp_sessions p \<noteq> []"
    using assms(4) by auto
  have "cands = []"
  proof (rule ccontr)
    let ?j = "cands ! (nat (sp_index p + 1) mod length cands)"
    assume c: "cands \<noteq> []"
    have "rr_index cands (sp_index p + 1) = Inr ?j"
      using rr_index_ok [of "sp_index p + 1" cands] c assms(1) by simp
    then have "fst (GetStream ops p) = fst (OpenStream ops (sp_sessions p ! ?j))"
      using sc c ne assms(1,2) by (simp add: GetStream_def Let_def wrap64_small split: prod.splits)
    then show False
      using assms(3) OpenStream_never_full [of ops "sp_sessions p ! ?j"] by simp
  qed
  then have none: "\<And>j. j < length (sp_sessions p) \<Longrightarrow> session_usable ops p j \<Longrightarrow> session_score ops p j \<noteq> best"
    using scan_correct [OF sc] by (simp add: filter_empty_conv)
  then have "best = lowest_score" "session_score ops p i \<le> best"
    using scan_correct [OF sc] assms(4,5) by blast+
  then show ?thesis
    using none [OF assms(4,5)] by simp
qed

subsection \<open>Properties\<close>

text \<open>
  C37: Opening streams through a pool without quality scores keeps the sessions balanced: however
  many streams are opened, and whichever of the attempts fail, no two open sessions differ by more
  than one stream and none exceeds the configured maximum. The pool refuses a stream for lack of
  capacity only if every open session is at that maximum (or has more than a thousand million
  streams).
\<close>

theorem mux_pool_balanced:
  assumes "smux_ok ops" "sp_qualityFunc p = None" "0 \<le> sp_index p" "sp_index p + int n < max_int" "balanced ops p"
  shows "balanced ops (get_streams n ops p) \<and>
    (fst (GetStream ops (get_streams n ops p)) = Inl AllClosedOrFull \<longrightarrow>
       (\<forall>i \<in> open_sessions ops (get_streams n ops p).
          0 < sp_MaxStreams p \<and> streams_at ops (get_streams n ops p) i = sp_MaxStreams p \<or>
          2 ^ 30 < streams_at ops (get_streams n ops p) i))"
  using assms(2-5)
proof (induction n arbitrary: p)
  case 0
  show ?case
  proof (intro conjI impI ballI)
    fix i
    assume r: "fst (GetStream ops (get_streams 0 ops p)) = Inl AllClosedOrFull" and i: "i \<in> open_sessions ops (get_streams 0 ops p)"
    show "0 < sp_MaxStreams p \<and> streams_at ops (get_streams 0 ops p) i = sp_MaxStreams p \<or>
        2 ^ 30 < streams_at ops (get_streams 0 ops p) i"
    proof (cases "session_usable ops p i")
      case True
      then have "session_score ops p i < lowest_score"
        using GetStream_refuses [of p ops i] r i 0 by (simp add: open_sessions_def)
      then show ?thesis
        using 0 by (simp add: session_score_def lowest_score_def streams_at_def)
    next
      case False
      then show ?thesis
        using 0 i by (fastforce simp: session_usable_def open_sessions_def streams_at_def balanced_def)
    qed
  qed (use 0 in simp)
next
  case (Suc n)
  obtain r p' where g: "GetStream ops p = (r, p')"
    by fastforce
  have b: "sp_index p < max_int"
    using Suc.prems by simp
  note frame = GetStream_frame [OF Suc.prems(2) b g]
  show ?case
    using Suc.IH [of p'] GetStream_balanced [OF assms(1) Suc.prems(2) b Suc.prems(1,4) g] frame Suc.prems g by simp
qed

text \<open>A model of the library for the instance below: a session is its number of streams.\<close>

definition counting_smux :: "(nat, nat, unit) smux" where
  "counting_smux = \<lparr>sm_IsClosed = (\<lambda>_. False), sm_NumStreams = int, sm_OpenStream = (\<lambda>n. (Inr n, Suc n)), sm_Close = (\<lambda>n. (None, n))\<rparr>"

definition two_sessions :: "nat SessionPool" where
  "two_sessions = \<lparr>sp_sessions = [\<lparr>ss_session = 0, ss_closed = False\<rparr>, \<lparr>ss_session = 0, ss_closed = False\<rparr>],
     sp_index = 0, sp_MaxStreams = 2, sp_qualityFunc = None\<rparr>"

theorem mux_pool_balanced_witness:
  "balanced counting_smux (get_streams 3 counting_smux two_sessions)"
proof -
  have "balanced counting_smux two_sessions"
    by (auto simp: balanced_def two_sessions_def open_sessions_def streams_at_def NumStreams_def counting_smux_def
        less_Suc_eq numeral_2_eq_2)
  then show ?thesis
    using mux_pool_balanced [of counting_smux two_sessions 3]
    by (simp add: smux_ok_def counting_smux_def two_sessions_def max_int_def)
qed

end
