(* ===== verification/Multipath.thy ===== *)
theory Multipath
  imports Path_Select Go_Arith Conn_Writer
begin

text \<open>
  internal/multipath: the path manager with its dialling strategies (multipath.go), the bandwidth
  aggregator and the retry helper (aggregator.go). Transports are outside: \<open>dial k i\<close> is the outcome
  of the \<open>k\<close>-th dial when it is made on path \<open>i\<close>.
\<close>

subsection \<open>The path manager\<close>

datatype MpStrategy = MpPriority | MpRoundRobin | MpFastest | MpAuto | MpOther

record MpPath =
  mp_Config :: PathConfig
  mp_Latency :: time
  mp_Available :: bool
  mp_Failures :: int
  mp_LastCheck :: time

record MpManager =
  mm_paths :: "MpPath list"
  mm_strategy :: MpStrategy
  mm_current :: int

datatype 'e dial_error = AllPathsFailed "'e option" | NoPathsAvailable | DialPanic go_panic

type_synonym ('e, 'c) dialer = "nat \<Rightarrow> nat \<Rightarrow> 'e + 'c"

text \<open>
  \<open>sort.Slice\<close> on at most twelve elements is an insertion sort, which \<open>sort_key\<close> is too; on longer
  slices it promises no order among equal keys, and nothing below depends on one. \<open>mk\<close> says whether
  a transport can be created for a path.
\<close>

definition newPath :: "PathConfig \<Rightarrow> MpPath" where
  "newPath pc = \<lparr>mp_Config = pc, mp_Latency = 0, mp_Available = True, mp_Failures = 0, mp_LastCheck = 0\<rparr>"

definition NewManager :: "(PathConfig \<Rightarrow> bool) \<Rightarrow> PathConfig list \<Rightarrow> MpStrategy \<Rightarrow> MpManager option" where
  "NewManager mk paths strategy =
     (if paths = [] then None
      else let ps = map newPath (filter mk (sort_key pc_Priority paths)) in
           if ps = [] then None else Some \<lparr>mm_paths = ps, mm_strategy = strategy, mm_current = 0\<rparr>)"

definition upd_path :: "nat \<Rightarrow> (MpPath \<Rightarrow> MpPath) \<Rightarrow> MpManager \<Rightarrow> MpManager" where
  "upd_path i f m = m\<lparr>mm_paths := (mm_paths m)[i := f (mm_paths m ! i)]\<rparr>"

text \<open>
  The loop all strategies share: dial the given paths in order, counting the failures of each,
  until one connects. \<open>guard\<close> skips the paths that are not available; the result carries the path
  that connected. \<open>k\<close> counts the dials made.
\<close>

fun tryPaths ::
  "('e, 'c) dialer \<Rightarrow> bool \<Rightarrow> nat list \<Rightarrow> 'e option \<Rightarrow> MpManager \<Rightarrow> nat \<Rightarrow>
     ('e dial_error + nat \<times> 'c) \<times> MpManager \<times> nat" where
  "tryPaths dial guard [] lastErr m k = (Inl (AllPathsFailed lastErr), m, k)"
| "tryPaths dial guard (i # is) lastErr m k =
     (if guard \<and> \<not> mp_Available (mm_paths m ! i) then tryPaths dial guard is lastErr m k
      else case dial k i of
             Inl e \<Rightarrow> tryPaths dial guard is (Some e) (upd_path i (mp_Failures_update (\<lambda>n. n + 1)) m) (Suc k)
           | Inr conn \<Rightarrow> (Inr (i, conn), upd_path i (mp_Failures_update (\<lambda>_. 0)) m, Suc k))"

definition dialPriority :: "('e, 'c) dialer \<Rightarrow> MpManager \<Rightarrow> nat \<Rightarrow> ('e dial_error + nat \<times> 'c) \<times> MpManager \<times> nat" where
  "dialPriority dial m k = tryPaths dial True [0..<length (mm_paths m)] None m k"

fun roundRobinLoop ::
  "('e, 'c) dialer \<Rightarrow> nat \<Rightarrow> 'e option \<Rightarrow> MpManager \<Rightarrow> nat \<Rightarrow> ('e dial_error + nat \<times> 'c) \<times> MpManager \<times> nat" where
  "roundRobinLoop dial 0 lastErr m k = (Inl (AllPathsFailed lastErr), m, k)"
| "roundRobinLoop dial (Suc n) lastErr m k =
     (case fetch_inc (mm_current m) of
        (c, v) \<Rightarrow>
          let m1 = m\<lparr>mm_current := c\<rparr> in
          case rr_index [0..<length (mm_paths m1)] v of
            Inl p \<Rightarrow> (Inl (DialPanic p), m1, k)
          | Inr i \<Rightarrow>
              if \<not> mp_Available (mm_paths m1 ! i) then roundRobinLoop dial n lastErr m1 k
              else case dial k i of
                     Inl e \<Rightarrow> roundRobinLoop dial n (Some e) (upd_path i (mp_Failures_update (\<lambda>n. n + 1)) m1) (Suc k)
                   | Inr conn \<Rightarrow> (Inr (i, conn), upd_path i (mp_Failures_update (\<lambda>_. 0)) m1, Suc k))"

definition dialRoundRobin :: "('e, 'c) dialer \<Rightarrow> MpManager \<Rightarrow> nat \<Rightarrow> ('e dial_error + nat \<times> 'c) \<times> MpManager \<times> nat" where
  "dialRoundRobin dial m k = roundRobinLoop dial (length (mm_paths m)) None m k"

definition dialFastest :: "('e, 'c) dialer \<Rightarrow> MpManager \<Rightarrow> nat \<Rightarrow> ('e dial_error + nat \<times> 'c) \<times> MpManager \<times> nat" where
  "dialFastest dial m k =
     (let available = filter (\<lambda>i. mp_Available (mm_paths m ! i)) [0..<length (mm_paths m)] in
      if available = [] then (Inl NoPathsAvailable, m, k)
      else tryPaths dial False (sort_key (\<lambda>i. mp_Latency (mm_paths m ! i)) available) None m k)"

definition dialAuto :: "('e, 'c) dialer \<Rightarrow> MpManager \<Rightarrow> nat \<Rightarrow> ('e dial_error + nat \<times> 'c) \<times> MpManager \<times> nat" where
  "dialAuto dial m k =
     (case dialPriority dial m k of
        (Inr conn, m', k') \<Rightarrow> (Inr conn, m', k')
      | (Inl _, m', k') \<Rightarrow>
          dialFastest dial (m'\<lparr>mm_paths := map (mp_Available_update (\<lambda>_. True)) (mm_paths m')\<rparr>) k')"

definition Mp_Dial :: "('e, 'c) dialer \<Rightarrow> MpManager \<Rightarrow> nat \<Rightarrow> ('e dial_error + nat \<times> 'c) \<times> MpManager \<times> nat" where
  "Mp_Dial dial m k =
     (case mm_strategy m of
        MpPriority \<Rightarrow> dialPriority dial m k
      | MpRoundRobin \<Rightarrow> dialRoundRobin dial m k
      | MpFastest \<Rightarrow> dialFastest dial m k
      | MpAuto \<Rightarrow> dialAuto dial m k
      | MpOther \<Rightarrow> dialAuto dial m k)"

text \<open>The monitor dials every path once; \<open>took i\<close> is the time it measured for path \<open>i\<close>, \<open>now\<close> the clock.\<close>

definition checkPath :: "(nat \<Rightarrow> bool) \<Rightarrow> (nat \<Rightarrow> time) \<Rightarrow> time \<Rightarrow> nat \<Rightarrow> MpPath \<Rightarrow> MpPath" where
  "checkPath up took now i p =
     (if up i then p\<lparr>mp_Latency := took i, mp_LastCheck := now, mp_Available := True, mp_Failures := 0\<rparr>
      else p\<lparr>mp_Available := False\<rparr>)"

definition Mp_checkPaths :: "(nat \<Rightarrow> bool) \<Rightarrow> (nat \<Rightarrow> time) \<Rightarrow> time \<Rightarrow> MpManager \<Rightarrow> MpManager" where
  "Mp_checkPaths up took now m =
     m\<lparr>mm_paths := map (\<lambda>(i, p). checkPath up took now i p) (enumerate 0 (mm_paths m))\<rparr>"

record MpStatus =
  st_Name :: string
  st_Transport :: string
  st_Remote :: string
  st_Priority :: int
  st_Available :: bool
  st_Latency :: time
  st_Failures :: int
  st_LastCheck :: time

definition GetStatus :: "MpManager \<Rightarrow> MpStatus list" where
  "GetStatus m = map (\<lambda>p.
     \<lparr>st_Name = pc_Name (mp_Config p), st_Transport = pc_Transport (mp_Config p), st_Remote = pc_RemoteAddr (mp_Config p),
      st_Priority = pc_Priority (mp_Config p), st_Available = mp_Available p, st_Latency = mp_Latency p,
      st_Failures = mp_Failures p, st_LastCheck = mp_LastCheck p\<rparr>) (mm_paths m)"

subsection \<open>Dialling finds a path that is up\<close>

definition always_up :: "('e, 'c) dialer \<Rightarrow> nat \<Rightarrow> bool" where
  "always_up dial i \<longleftrightarrow> (\<forall>k. \<exists>c. dial k i = Inr c)"

lemma always_upD: "always_up dial i \<Longrightarrow> \<exists>c. dial k i = Inr c"
  by (simp add: always_up_def)

lemma upd_path_simps [simp]:
  "length (mm_paths (upd_path i f m)) = length (mm_paths m)"
  "mm_strategy (upd_path i f m) = mm_strategy m" "mm_current (upd_path i f m) = mm_current m"
  by (simp_all add: upd_path_def)

lemma upd_failures_available [simp]:
  "mp_Available (mm_paths (upd_path i (mp_Failures_update g) m) ! j) = mp_Available (mm_paths m ! j)"
  by (cases "i < length (mm_paths m)") (auto simp: upd_path_def nth_list_update list_update_beyond not_less)

text \<open>What a pass returns: the first path of the order that answers, all dialled before it having failed.\<close>

lemma tryPaths_finds:
  "i \<in> set is \<Longrightarrow> always_up dial i \<Longrightarrow> guard \<longrightarrow> mp_Available (mm_paths m ! i) \<Longrightarrow>
     \<exists>j c. fst (tryPaths dial guard is lastErr m k) = Inr (j, c) \<and> j \<in> set is"
proof (induction "is" arbitrary: lastErr m k)
  case (Cons a "is")
  show ?case
  proof (cases "a = i")
    case True
    then show ?thesis
      using always_upD [OF Cons.prems(2), of k] Cons.prems(3) by auto
  next
    case False
    then have i: "i \<in> set is"
      using Cons.prems(1) by simp
    have IH: "\<exists>j c. fst (tryPaths dial guard is le m' k') = Inr (j, c) \<and> j \<in> set (a # is)"
      if "mp_Available (mm_paths m' ! i) = mp_Available (mm_paths m ! i)" for le m' k'
      using Cons.IH [OF i Cons.prems(2), of m' le k'] Cons.prems(3) that by auto
    show ?thesis
    proof (cases "dial k a")
      case (Inl e)
      have "tryPaths dial guard (a # is) lastErr m k =
          (if guard \<and> \<not> mp_Available (mm_paths m ! a) then tryPaths dial guard is lastErr m k
           else tryPaths dial guard is (Some e) (upd_path a (mp_Failures_update (\<lambda>n. n + 1)) m) (Suc k))"
        using Inl by simp
      then show ?thesis
        using IH [of m] IH [of "upd_path a (mp_Failures_update (\<lambda>n. n + 1)) m"] by (auto split: if_splits)
    next
      case (Inr c)
      then show ?thesis
        using IH [of m] by auto
    qed
  qed
qed simp

lemma tryPaths_index: "tryPaths dial guard is lastErr m k = (Inr (j, c), m', k') \<Longrightarrow> j \<in> set is"
proof (induction "is" arbitrary: lastErr m k)
  case (Cons a "is")
  then show ?case
    by (cases "dial k a") (auto split: if_splits)
qed simp

lemma tryPaths_frame:
  "tryPaths dial guard is lastErr m k = (r, m', k') \<Longrightarrow>
     length (mm_paths m') = length (mm_paths m) \<and> mm_strategy m' = mm_strategy m \<and>
     (\<forall>j. mp_Available (mm_paths m' ! j) = mp_Available (mm_paths m ! j)) \<and> k' \<le> k + length is"
proof (induction "is" arbitrary: lastErr m k)
  case (Cons a "is")
  show ?case
  proof (cases "guard \<and> \<not> mp_Available (mm_paths m ! a)")
    case True
    then show ?thesis
      using Cons.IH [of lastErr m k] Cons.prems by auto
  next
    case False
    show ?thesis
    proof (cases "dial k a")
      case (Inl e)
      let ?m = "upd_path a (mp_Failures_update (\<lambda>n. n + 1)) m"
      have "tryPaths dial guard is (Some e) ?m (Suc k) = (r, m', k')"
        using Cons.prems False Inl by simp
      from Cons.IH [OF this] show ?thesis by simp
    next
      case (Inr c)
      then show ?thesis
        using Cons.prems False by auto
    qed
  qed
qed simp

lemma roundRobinLoop_finds:
  assumes "0 \<le> mm_current m" "mm_current m + int n \<le> max_int" "i < length (mm_paths m)"
    "always_up dial i" "mp_Available (mm_paths m ! i)"
    "i \<in> (\<lambda>d. (nat (mm_current m) + d) mod length (mm_paths m)) ` {0..<n}"
  shows "\<exists>j c. fst (roundRobinLoop dial n lastErr m k) = Inr (j, c) \<and> j < length (mm_paths m)"
  using assms
proof (induction n arbitrary: lastErr m k)
  case (Suc n)
  let ?n = "length (mm_paths m)" and ?c = "mm_current m"
  let ?j = "nat ?c mod ?n"
  have pos: "?n \<noteq> 0" using Suc.prems(3) by auto
  then have j: "rr_index [0..<?n] ?c = Inr ?j"
    using rr_index_ok [of ?c "[0..<?n]"] Suc.prems(1) by simp
  have fi: "fetch_inc ?c = (?c + 1, ?c)"
    using fetch_inc_ok [of ?c] Suc.prems(1,2) by simp
  show ?case
  proof (cases "mp_Available (mm_paths m ! ?j) \<and> is_ok (dial k ?j)")
    case True
    then show ?thesis
      using j fi pos by (auto simp: Let_def is_ok_def split: sum.splits)
  next
    case False
    then have ne: "?j \<noteq> i"
      using always_upD [OF Suc.prems(4), of k] Suc.prems(5) by auto
    obtain d0 where d0: "d0 < Suc n" "i = (nat ?c + d0) mod ?n"
      using Suc.prems(6) by auto
    then obtain d where "d0 = Suc d"
      using ne by (cases d0) auto
    then have d: "d < n" "i = (nat (?c + 1) + d) mod ?n"
      using d0 Suc.prems(1) by (simp_all add: nat_add_distrib)
    have IH: "\<exists>j c. fst (roundRobinLoop dial n le m' k') = Inr (j, c) \<and> j < ?n"
      if m': "mm_current m' = ?c + 1" "length (mm_paths m') = ?n" "mp_Available (mm_paths m' ! i)" for le m' k'
    proof -
      have "i \<in> (\<lambda>d. (nat (mm_current m') + d) mod length (mm_paths m')) ` {0..<n}"
        using d m' by (intro image_eqI [of _ _ d]) simp_all
      then show ?thesis
        using Suc.IH [of m' le k'] Suc.prems(1-4) m' by simp
    qed
    show ?thesis
    proof (cases "mp_Available (mm_paths m ! ?j)")
      case True
      then obtain e where "dial k ?j = Inl e"
        using False by (cases "dial k ?j") auto
      then have "roundRobinLoop dial (Suc n) lastErr m k = roundRobinLoop dial n (Some e)
          (upd_path ?j (mp_Failures_update (\<lambda>n. n + 1)) (m\<lparr>mm_current := ?c + 1\<rparr>)) (Suc k)"
        using True j fi by (simp add: Let_def)
      then show ?thesis
        by (simp only:) (rule IH, simp_all add: Suc.prems(5))
    next
      case False
      then have "roundRobinLoop dial (Suc n) lastErr m k = roundRobinLoop dial n lastErr (m\<lparr>mm_current := ?c + 1\<rparr>) k"
        using j fi by (simp add: Let_def)
      then show ?thesis
        by (simp only:) (rule IH, simp_all add: Suc.prems(5))
    qed
  qed
qed simp

lemma dialFastest_finds:
  assumes "i < length (mm_paths m)" "always_up dial i" "mp_Available (mm_paths m ! i)"
  shows "\<exists>j c. fst (dialFastest dial m k) = Inr (j, c) \<and> j < length (mm_paths m)"
proof -
  let ?av = "filter (\<lambda>i. mp_Available (mm_paths m ! i)) [0..<length (mm_paths m)]"
  have i: "i \<in> set ?av"
    using assms(1,3) by simp
  have "\<exists>j c. fst (tryPaths dial False (sort_key (\<lambda>i. mp_Latency (mm_paths m ! i)) ?av) None m k) = Inr (j, c) \<and>
      j \<in> set (sort_key (\<lambda>i. mp_Latency (mm_paths m ! i)) ?av)"
    by (rule tryPaths_finds [OF _ assms(2)]) (use i in simp_all)
  then show ?thesis
    using i by (auto simp: dialFastest_def Let_def)
qed

lemma dialAuto_finds:
  assumes "i < length (mm_paths m)" "always_up dial i"
  shows "\<exists>j c. fst (dialAuto dial m k) = Inr (j, c) \<and> j < length (mm_paths m)"
proof -
  obtain r m' k' where p: "dialPriority dial m k = (r, m', k')"
    by (cases "dialPriority dial m k") auto
  then have len: "length (mm_paths m') = length (mm_paths m)"
    using tryPaths_frame unfolding dialPriority_def by blast
  show ?thesis
  proof (cases r)
    case (Inl e)
    let ?m = "m'\<lparr>mm_paths := map (mp_Available_update (\<lambda>_. True)) (mm_paths m')\<rparr>"
    have "\<exists>j c. fst (dialFastest dial ?m k') = Inr (j, c) \<and> j < length (mm_paths ?m)"
      by (rule dialFastest_finds [of i, OF _ assms(2)]) (use assms(1) len in simp_all)
    then show ?thesis
      using p Inl len by (simp add: dialAuto_def)
  next
    case (Inr x)
    have "j < length (mm_paths m)" if "tryPaths dial True [0..<length (mm_paths m)] None m k = (Inr (j, c), m', k')" for j c
      using tryPaths_index [OF that] by simp
    then show ?thesis
      using p Inr by (cases x) (auto simp: dialAuto_def dialPriority_def)
  qed
qed

text \<open>
  C38: Dialling through the manager finds a path that is up. If some path accepts every dial, the
  automatic strategy returns a connection whatever the manager believes about the path, and the
  priority, round-robin and fastest strategies return one provided they have not marked the path
  unavailable; the connection is made over one of the configured paths.
\<close>

theorem multipath_dial_finds_live_path:
  assumes "i < length (mm_paths m)" "always_up dial i"
    and "0 \<le> mm_current m" "mm_current m + int (length (mm_paths m)) \<le> max_int"
    and "mm_strategy m \<in> {MpAuto, MpOther} \<or> mp_Available (mm_paths m ! i)"
  shows "\<exists>j c. fst (Mp_Dial dial m k) = Inr (j, c) \<and> j < length (mm_paths m)"
proof (cases "mm_strategy m \<in> {MpAuto, MpOther}")
  case True
  then show ?thesis
    using dialAuto_finds [OF assms(1,2), of k] by (auto simp: Mp_Dial_def)
next
  case False
  then have av: "mp_Available (mm_paths m ! i)"
    using assms(5) by simp
  have "i \<in> (\<lambda>d. (nat (mm_current m) + d) mod length (mm_paths m)) ` {0..<length (mm_paths m)}"
    using set_consecutive_mod [of "length (mm_paths m)" "nat (mm_current m)"] assms(1) by force
  then have rr: "\<exists>j c. fst (dialRoundRobin dial m k) = Inr (j, c) \<and> j < length (mm_paths m)"
    unfolding dialRoundRobin_def using roundRobinLoop_finds [OF assms(3,4,1) assms(2) av] by blast
  have pr: "\<exists>j c. fst (dialPriority dial m k) = Inr (j, c) \<and> j < length (mm_paths m)"
    using tryPaths_finds [of i "[0..<length (mm_paths m)]", OF _ assms(2), of True m None k] assms(1) av
    by (auto simp: dialPriority_def)
  show ?thesis
    using False pr rr dialFastest_finds [OF assms(1,2) av, of k]
    by (cases "mm_strategy m") (auto simp: Mp_Dial_def)
qed

definition sample_mp_manager :: MpManager where
  "sample_mp_manager = \<lparr>mm_paths = replicate 2 (newPath \<lparr>pc_Name = ''p'', pc_RemoteAddr = ''h:1'', pc_Transport = ''tcpmux'',
     pc_Priority = 1, pc_Weight = 1\<rparr>), mm_strategy = MpRoundRobin, mm_current = 0\<rparr>"

theorem multipath_dial_finds_live_path_witness:
  "\<exists>j c. fst (Mp_Dial (\<lambda>k i. if i = 1 then Inr (7 :: nat) else Inl ()) sample_mp_manager 0) = Inr (j, c) \<and> j < 2"
  using multipath_dial_finds_live_path [of 1 sample_mp_manager "\<lambda>k i. if i = 1 then Inr (7 :: nat) else Inl ()" 0]
  by (simp add: sample_mp_manager_def newPath_def max_int_def always_up_def)

subsection \<open>The aggregator\<close>

text \<open>
  The connections are held in a store; the aggregator holds their addresses. A write is split
  into chunks that go to the paths in turn. A chunk a path did not take is offered to the next
  path, so the loop ends only if some path keeps accepting; it runs on fuel, \<open>None\<close> when the fuel
  is used up. The result lists the pieces that were accepted, with their paths.
\<close>

type_synonym conns = "nat \<Rightarrow> net_conn"

record Aggregator =
  ag_paths :: "nat list"
  ag_current :: int
  ag_closed :: bool
  ag_totalBytesSent :: int
  ag_totalBytesRecv :: int

definition NewAggregator :: Aggregator where
  "NewAggregator = \<lparr>ag_paths = [], ag_current = 0, ag_closed = False, ag_totalBytesSent = 0, ag_totalBytesRecv = 0\<rparr>"

definition Ag_AddPath :: "nat \<Rightarrow> Aggregator \<Rightarrow> Aggregator" where
  "Ag_AddPath conn a = a\<lparr>ag_paths := ag_paths a @ [conn]\<rparr>"

definition Ag_RemovePath :: "nat \<Rightarrow> Aggregator \<Rightarrow> Aggregator" where
  "Ag_RemovePath conn a = a\<lparr>ag_paths := remove1 conn (ag_paths a)\<rparr>"

definition Ag_Close :: "Aggregator \<Rightarrow> Aggregator" where
  "Ag_Close a = a\<lparr>ag_closed := True, ag_paths := []\<rparr>"

datatype ag_error = ErrClosedPipe | AgConnFailed | AgPanic go_panic

text \<open>The next path: its address and the counter after it.\<close>

definition ag_next :: "Aggregator \<Rightarrow> go_panic + nat \<times> int" where
  "ag_next a = (case fetch_inc (ag_current a) of (c, v) \<Rightarrow> map_sum id (\<lambda>i. (i, c)) (rr_index (ag_paths a) v))"

text \<open>\<open>p[offset:end]\<close>.\<close>

definition next_chunk :: "nat \<Rightarrow> bytes \<Rightarrow> nat \<Rightarrow> bytes" where
  "next_chunk chunkSize p offset =
     take ((if offset + chunkSize > length p then length p else offset + chunkSize) - offset) (drop offset p)"

fun splitLoop ::
  "nat \<Rightarrow> nat \<Rightarrow> Aggregator \<Rightarrow> conns \<Rightarrow> bytes \<Rightarrow> nat \<Rightarrow> ((go_panic + (nat \<times> bytes) list) \<times> Aggregator \<times> conns) option" where
  "splitLoop fuel chunkSize a s p offset =
     (if \<not> offset < length p then Some (Inr [], a, s)
      else case fuel of
             0 \<Rightarrow> None
           | Suc fuel' \<Rightarrow>
               (case ag_next a of
                  Inl e \<Rightarrow> Some (Inl e, a, s)
                | Inr (i, c) \<Rightarrow>
                    let chunk = next_chunk chunkSize p offset in
                    case conn_write chunk (s i) of
                      (n, err, conn') \<Rightarrow>
                        (case splitLoop fuel' chunkSize (a\<lparr>ag_current := c\<rparr>) (s(i := conn')) p (offset + n) of
                           None \<Rightarrow> None
                         | Some (Inl e, r) \<Rightarrow> Some (Inl e, r)
                         | Some (Inr ws, r) \<Rightarrow> Some (Inr ((i, take n chunk) # ws), r))))"

declare splitLoop.simps [simp del]

definition Ag_Write ::
  "nat \<Rightarrow> Aggregator \<Rightarrow> conns \<Rightarrow> bytes \<Rightarrow> ((nat \<times> ag_error option) \<times> (nat \<times> bytes) list \<times> Aggregator \<times> conns) option" where
  "Ag_Write fuel a s p =
     (if ag_paths a = [] then Some ((0, Some ErrClosedPipe), [], a, s)
      else if ag_closed a then Some ((0, Some ErrClosedPipe), [], a, s)
      else if length p \<le> 4096 \<or> length (ag_paths a) = 1 then
        (case ag_next a of
           Inl e \<Rightarrow> Some ((0, Some (AgPanic e)), [], a, s)
         | Inr (i, c) \<Rightarrow>
             (case conn_write p (s i) of
                (n, err, conn') \<Rightarrow>
                  Some ((n, if err then Some AgConnFailed else None), [(i, take n p)],
                        a\<lparr>ag_current := c, ag_totalBytesSent := ag_totalBytesSent a + int n\<rparr>, s(i := conn'))))
      else
        let c0 = length p div length (ag_paths a);
            chunkSize = (if c0 < 1024 then 1024 else c0) in
        (case splitLoop fuel chunkSize a s p 0 of
           None \<Rightarrow> None
         | Some (Inl e, a', s') \<Rightarrow> Some ((0, Some (AgPanic e)), [], a', s')
         | Some (Inr ws, a', s') \<Rightarrow>
             let totalWritten = length (concat (map snd ws)) in
             Some ((totalWritten, None), ws,
                   a'\<lparr>ag_totalBytesSent := ag_totalBytesSent a' + int totalWritten\<rparr>, s')))"

text \<open>\<open>Read\<close> takes its turn from the same counter; \<open>rd i\<close> is what a read of path \<open>i\<close> returns.\<close>

definition Ag_Read :: "(nat \<Rightarrow> bytes \<times> bool) \<Rightarrow> Aggregator \<Rightarrow> (bytes \<times> ag_error option) \<times> Aggregator" where
  "Ag_Read rd a =
     (if ag_paths a = [] then (([], Some ErrClosedPipe), a)
      else case ag_next a of
             Inl e \<Rightarrow> (([], Some (AgPanic e)), a)
           | Inr (i, c) \<Rightarrow>
               (case rd i of
                  (d, err) \<Rightarrow> ((d, if err then Some AgConnFailed else None),
                    a\<lparr>ag_current := c, ag_totalBytesRecv := ag_totalBytesRecv a + int (length d)\<rparr>)))"

text \<open>The loop, one round at a time.\<close>

lemma splitLoop_done: "\<not> offset < length p \<Longrightarrow> splitLoop fuel chunkSize a s p offset = Some (Inr [], a, s)"
  by (subst splitLoop.simps) simp

lemma splitLoop_0: "offset < length p \<Longrightarrow> splitLoop 0 chunkSize a s p offset = None"
  by (subst splitLoop.simps) simp

lemma splitLoop_panic:
  "offset < length p \<Longrightarrow> ag_next a = Inl e \<Longrightarrow> splitLoop (Suc fuel) chunkSize a s p offset = Some (Inl e, a, s)"
  by (subst splitLoop.simps) simp

lemma splitLoop_Suc:
  "offset < length p \<Longrightarrow> ag_next a = Inr (i, c) \<Longrightarrow> conn_write (next_chunk chunkSize p offset) (s i) = (n, err, conn') \<Longrightarrow>
   splitLoop (Suc fuel) chunkSize a s p offset =
     (case splitLoop fuel chunkSize (a\<lparr>ag_current := c\<rparr>) (s(i := conn')) p (offset + n) of
        None \<Rightarrow> None
      | Some (Inl e, r) \<Rightarrow> Some (Inl e, r)
      | Some (Inr ws, r) \<Rightarrow> Some (Inr ((i, take n (next_chunk chunkSize p offset)) # ws), r))"
  by (subst splitLoop.simps) (simp add: Let_def)

text \<open>What the loop accepted is the rest of the data, in order.\<close>

lemma splitLoop_partition:
  "splitLoop fuel chunkSize a s p offset = Some (Inr ws, a', s') \<Longrightarrow> concat (map snd ws) = drop offset p"
proof (induction fuel arbitrary: a s offset ws)
  case 0
  then show ?case
    by (cases "offset < length p") (simp_all add: splitLoop_0 splitLoop_done)
next
  case (Suc fuel)
  show ?case
  proof (cases "offset < length p")
    case True
    let ?chunk = "next_chunk chunkSize p offset"
    obtain i c where nx: "ag_next a = Inr (i, c)"
      using Suc.prems True splitLoop_panic [of offset p a _ fuel chunkSize s] by (cases "ag_next a") auto
    obtain n err conn' where w: "conn_write ?chunk (s i) = (n, err, conn')"
      by (cases "conn_write ?chunk (s i)") auto
    note step = splitLoop_Suc [where s = s, OF True nx w, of fuel]
    obtain ws' where r: "splitLoop fuel chunkSize (a\<lparr>ag_current := c\<rparr>) (s(i := conn')) p (offset + n) = Some (Inr ws', a', s')"
      and ws: "ws = (i, take n ?chunk) # ws'"
      using Suc.prems unfolding step by (auto split: option.splits sum.splits prod.splits)
    have "n \<le> length ?chunk"
      using conn_write_sent(1) [OF w] .
    then have "take n ?chunk = take n (drop offset p)"
      by (simp add: next_chunk_def)
    then show ?thesis
      using Suc.IH [OF r] ws by (simp add: add.commute flip: drop_drop)
  qed (use Suc.prems in \<open>simp add: splitLoop_done\<close>)
qed

lemma conn_write_budget:
  "conn_write bs c = (n, err, c') \<Longrightarrow> nc_budget c' = map_option (\<lambda>b. b - n) (nc_budget c)"
  by (auto simp: conn_write_def split: option.splits if_splits)

lemma ag_next_ok:
  assumes "0 \<le> ag_current a" "ag_current a < max_int" "ag_paths a \<noteq> []"
  shows "ag_next a = Inr (ag_paths a ! (nat (ag_current a) mod length (ag_paths a)), ag_current a + 1)"
  using assms by (simp add: ag_next_def fetch_inc_ok rr_index_ok)

text \<open>The progress of one round.\<close>

lemma round_progress:
  assumes "offset < length p" "0 < chunkSize" "conn_write (next_chunk chunkSize p offset) c = (n, err, c')"
  shows "n \<le> length p - offset" "nc_budget c = None \<Longrightarrow> 1 \<le> n" "nc_budget c = Some b \<Longrightarrow> n \<le> b"
proof -
  have len: "1 \<le> length (next_chunk chunkSize p offset)" "length (next_chunk chunkSize p offset) \<le> length p - offset"
    using assms(1,2) by (auto simp: next_chunk_def)
  show "n \<le> length p - offset" "nc_budget c = None \<Longrightarrow> 1 \<le> n" "nc_budget c = Some b \<Longrightarrow> n \<le> b"
    using conn_write_sent(1) [OF assms(3)] len assms(3) by (auto simp: conn_write_def split: if_splits)
qed

lemma splitLoop_total:
  assumes "x < length (ag_paths a)" "nc_budget (s (ag_paths a ! x)) = None" "0 < chunkSize"
    and "0 \<le> ag_current a" "ag_current a + int fuel \<le> max_int"
    and "(nat (ag_current a) + d) mod length (ag_paths a) = x"
    and "(length p - offset) * length (ag_paths a) + d < fuel"
  shows "\<exists>ws a' s'. splitLoop fuel chunkSize a s p offset = Some (Inr ws, a', s')"
  using assms
proof (induction fuel arbitrary: a s offset d)
  case (Suc fuel)
  let ?n = "length (ag_paths a)"
  let ?i = "ag_paths a ! (nat (ag_current a) mod ?n)"
  show ?case
  proof (cases "offset < length p")
    case True
    have nx: "ag_next a = Inr (?i, ag_current a + 1)"
      using ag_next_ok [of a] Suc.prems(1,4,5) by fastforce
    obtain n err conn' where w: "conn_write (next_chunk chunkSize p offset) (s ?i) = (n, err, conn')"
      by (cases "conn_write (next_chunk chunkSize p offset) (s ?i)") auto
    note n = round_progress(1,2) [OF True Suc.prems(3) w] and b = conn_write_budget [OF w] and r = splitLoop_Suc [where s = s, OF True nx w, of fuel]
    define d' where "d' = (if d = 0 then ?n - 1 else d - 1)"
    have bx: "nc_budget ((s(?i := conn')) (ag_paths a ! x)) = None"
      using b Suc.prems(2) by (cases "ag_paths a ! x = ?i") auto
    have pos: "0 < ?n"
      using Suc.prems(1) by linarith
    have "nat (ag_current a + 1) + d' = nat (ag_current a) + d + (if d = 0 then ?n else 0)"
      using pos Suc.prems(4) by (auto simp: d'_def nat_add_distrib)
    then have d': "(nat (ag_current a + 1) + d') mod ?n = x"
      using Suc.prems(6) by auto
    have "(length p - (offset + n)) * ?n + d' < fuel"
    proof (cases "d = 0")
      case True
      then have "1 \<le> n"
        using n(2) Suc.prems(2,6) by simp
      then have "length p - (offset + n) + 1 \<le> length p - offset"
        using n(1) by linarith
      then have "(length p - (offset + n) + 1) * ?n \<le> (length p - offset) * ?n"
        by (rule mult_le_mono1)
      then have "(length p - (offset + n)) * ?n + ?n \<le> (length p - offset) * ?n"
        by (simp add: distrib_right)
      moreover have "d' = ?n - 1" "(length p - offset) * ?n < Suc fuel"
        using True Suc.prems(7) by (simp_all add: d'_def)
      ultimately show ?thesis
        using pos by linarith
    next
      case False
      have "(length p - (offset + n)) * ?n \<le> (length p - offset) * ?n"
        by (rule mult_le_mono1) simp
      moreover have "d' = d - 1" "0 < d"
        using False by (simp_all add: d'_def)
      ultimately show ?thesis
        using Suc.prems(7) by linarith
    qed
    then have "\<exists>ws a' s'. splitLoop fuel chunkSize (a\<lparr>ag_current := ag_current a + 1\<rparr>) (s(?i := conn')) p (offset + n) = Some (Inr ws, a', s')"
      using Suc.prems d' bx by (intro Suc.IH [where d = d']) simp_all
    then show ?thesis
      using r by auto
  qed (simp add: splitLoop.simps)
qed simp

text \<open>
  A large write through the aggregator is split without loss as long as one path keeps
  accepting: the call returns, reports the whole length and no error, and the pieces the paths
  accepted, in the order in which they were written, make up exactly the data, however many of the
  other paths fail at whatever byte.
\<close>

theorem aggregator_write_complete:
  assumes "\<not> ag_closed a" "4096 < length p" "u \<in> set (ag_paths a)" "nc_budget (s u) = None"
    and "0 \<le> ag_current a" "(length p + 1) * length (ag_paths a) < fuel" "ag_current a + int fuel \<le> max_int"
  shows "\<exists>ws a' s'. Ag_Write fuel a s p = Some ((length p, None), ws, a', s') \<and> concat (map snd ws) = p"
proof -
  let ?n = "length (ag_paths a)"
  obtain x where x: "x < ?n" "ag_paths a ! x = u"
    using assms(3) by (auto simp: in_set_conv_nth)
  have ne: "ag_paths a \<noteq> []"
    using assms(3) by auto
  show ?thesis
  proof (cases "?n = 1")
    case True
    then have "ag_next a = Inr (u, ag_current a + 1)"
      using ag_next_ok [of a] assms(5-7) x ne by (simp add: max_int_def)
    then show ?thesis
      using True ne assms(1,4) by (simp add: Ag_Write_def conn_write_unlimited)
  next
    case False
    define cs where "cs = (if length p div ?n < 1024 then 1024 else length p div ?n)"
    then have cs: "0 < cs"
      by (simp split: if_splits)
    have "x \<in> set (map (\<lambda>i. (nat (ag_current a) + i) mod ?n) [0..<?n])"
      using set_consecutive_mod [of ?n "nat (ag_current a)"] x(1) ne by simp
    then obtain d where d: "d < ?n" "(nat (ag_current a) + d) mod ?n = x"
      by auto
    then have "(length p - 0) * ?n + d < fuel"
      using assms(6) by simp
    then obtain ws a' s' where l: "splitLoop fuel cs a s p 0 = Some (Inr ws, a', s')"
      using splitLoop_total [of x a s cs fuel d p 0] x d(2) cs assms(4,5,7) by auto
    then have "concat (map snd ws) = p"
      using splitLoop_partition [OF l] by simp
    then show ?thesis
      using l ne False assms(1,2) by (simp add: Ag_Write_def Let_def cs_def)
  qed
qed

definition sample_aggregator :: Aggregator where
  "sample_aggregator = NewAggregator\<lparr>ag_paths := [0, 1]\<rparr>"

definition sample_conns :: conns where
  "sample_conns i = \<lparr>nc_writes = [], nc_budget = if i = 0 then Some 10 else None\<rparr>"

theorem aggregator_write_complete_witness:
  "\<exists>ws a' s'. Ag_Write 20000 sample_aggregator sample_conns (replicate 5000 7) = Some ((5000, None), ws, a', s') \<and>
     concat (map snd ws) = replicate 5000 7"
  using aggregator_write_complete [of sample_aggregator "replicate 5000 7" 1 sample_conns 20000]
  by (simp add: sample_aggregator_def sample_conns_def NewAggregator_def max_int_def)

text \<open>If all paths together accept less than the data, the call never returns.\<close>

lemma splitLoop_stuck:
  assumes "\<forall>i \<in> set (ag_paths a). \<exists>b. nc_budget (s i) = Some b" "ag_paths a \<noteq> []" "0 < chunkSize"
    and "0 \<le> ag_current a" "ag_current a + int fuel \<le> max_int"
    and "(\<Sum>i \<in> set (ag_paths a). the (nc_budget (s i))) < length p - offset"
  shows "splitLoop fuel chunkSize a s p offset = None"
  using assms
proof (induction fuel arbitrary: a s offset)
  case (Suc fuel)
  have off: "offset < length p"
    using Suc.prems(6) by linarith
  let ?i = "ag_paths a ! (nat (ag_current a) mod length (ag_paths a))"
  have nx: "ag_next a = Inr (?i, ag_current a + 1)"
    using ag_next_ok [of a] Suc.prems(2,4,5) by simp
  have i: "?i \<in> set (ag_paths a)"
    using Suc.prems(2) by simp
  then obtain b where b: "nc_budget (s ?i) = Some b"
    using Suc.prems(1) by blast
  obtain n err conn' where w: "conn_write (next_chunk chunkSize p offset) (s ?i) = (n, err, conn')"
    by (cases "conn_write (next_chunk chunkSize p offset) (s ?i)") auto
  note n = round_progress [OF off Suc.prems(3) w] and bud = conn_write_budget [OF w]
  let ?s = "s(?i := conn')"
  have split: "(\<Sum>i \<in> set (ag_paths a). f i) = f ?i + (\<Sum>i \<in> set (ag_paths a) - {?i}. f i)" for f :: "nat \<Rightarrow> nat"
    using i by (simp add: sum.remove)
  have "(\<Sum>i \<in> set (ag_paths a). the (nc_budget (?s i))) + n = (\<Sum>i \<in> set (ag_paths a). the (nc_budget (s i)))"
    unfolding split using b bud n(3) [OF b] by simp
  then have "(\<Sum>i \<in> set (ag_paths a). the (nc_budget (?s i))) < length p - (offset + n)"
    using Suc.prems(6) by linarith
  moreover have "\<forall>i \<in> set (ag_paths a). \<exists>b. nc_budget (?s i) = Some b"
    using Suc.prems(1) b bud by auto
  ultimately have "splitLoop fuel chunkSize (a\<lparr>ag_current := ag_current a + 1\<rparr>) ?s p (offset + n) = None"
    by (intro Suc.IH) (use Suc.prems in simp_all)
  then show ?case
    using splitLoop_Suc [where s = s, OF off nx w, of fuel] by simp
qed (auto intro: splitLoop_0)

subsection \<open>Retries\<close>

text \<open>
  \<open>SmartRetry\<close>: \<open>fn k\<close> is the outcome of the \<open>k\<close>-th attempt. The delays are powers of two times
  half a second, on which the floating-point doubling is exact. The result comes with the delays
  slept.
\<close>

definition maxRetries :: nat where "maxRetries = 5"
definition baseDelay :: time where "baseDelay = 500 * 1000000"
definition maxDelay :: time where "maxDelay = 30 * second"

fun retryLoop :: "(nat \<Rightarrow> 'e + 'a) \<Rightarrow> nat \<Rightarrow> nat \<Rightarrow> time \<Rightarrow> 'e option \<Rightarrow> ('e option + 'a) \<times> time list" where
  "retryLoop fn 0 attempt delay lastErr = (Inl lastErr, [])"
| "retryLoop fn (Suc left) attempt delay lastErr =
     (let slept = (if attempt > 0 then [delay] else []);
          delay' = (if attempt > 0 then (if delay * 2 > maxDelay then maxDelay else delay * 2) else delay) in
      case fn attempt of
        Inr x \<Rightarrow> (Inr x, slept)
      | Inl e \<Rightarrow> (case retryLoop fn left (Suc attempt) delay' (Some e) of (r, ds) \<Rightarrow> (r, slept @ ds)))"

definition SmartRetry_Do :: "(nat \<Rightarrow> 'e + 'a) \<Rightarrow> ('e option + 'a) \<times> time list" where
  "SmartRetry_Do fn = retryLoop fn (maxRetries + 1) 0 baseDelay None"

lemma retryLoop_finds:
  "k < left \<Longrightarrow> fn (attempt + k) = Inr x \<Longrightarrow> (\<And>j. j < k \<Longrightarrow> \<exists>e. fn (attempt + j) = Inl e) \<Longrightarrow>
     fst (retryLoop fn left attempt delay lastErr) = Inr x"
proof (induction left arbitrary: k attempt delay lastErr)
  case (Suc left)
  show ?case
  proof (cases k)
    case 0
    then show ?thesis
      using Suc.prems by (simp add: Let_def)
  next
    case (Suc k')
    obtain e where e: "fn attempt = Inl e"
      using Suc.prems(3) [of 0] Suc by auto
    have "fst (retryLoop fn left (Suc attempt) d le) = Inr x" for d le
      using Suc.IH [of k' "Suc attempt" d le] Suc.prems Suc by fastforce
    then show ?thesis
      using e by (simp add: Let_def split: prod.splits) (metis fst_conv)
  qed
qed simp

text \<open>The first success among six attempts is returned; after six failures the sleeps sum up to 15.5 seconds.\<close>

lemma SmartRetry_Do_correct:
  "k \<le> 5 \<Longrightarrow> fn k = Inr x \<Longrightarrow> (\<And>j. j < k \<Longrightarrow> \<exists>e. fn j = Inl e) \<Longrightarrow> fst (SmartRetry_Do fn) = Inr x"
  using retryLoop_finds [of k 6 fn 0 x] by (simp add: SmartRetry_Do_def maxRetries_def)

lemma SmartRetry_Do_exhausted:
  "SmartRetry_Do (\<lambda>_. Inl e :: 'e + 'a) = (Inl (Some e), map (\<lambda>n. n * baseDelay) [1, 2, 4, 8, 16])"
  by (simp add: SmartRetry_Do_def maxRetries_def baseDelay_def maxDelay_def second_def Let_def numeral_eq_Suc)

end
