(* ===== verification/Users.thy ===== *)
theory Users
  imports Go_Arith State_Machine
begin

text \<open>
  internal/users/manager.go: the tunnel users, their quotas and the file they are kept in.
  \<open>encoding/json\<close> is the pair of parameters \<open>enc\<close>, \<open>dec\<close> on the persisted part of the users, with
  \<open>json_ok\<close> for the round trip it guarantees on ASCII strings; \<open>time.Parse\<close> is the parameter \<open>parse\<close>. A
  manager owns its file: the disk is part of the state. Iteration over a Go map has no order, so
  the order in which the users are written is a parameter too.
\<close>

subsection \<open>State\<close>

record PersistedUser =
  pu_ID :: string
  pu_Name :: string
  pu_Password :: string
  pu_ShortID :: string
  pu_MaxTraffic :: int
  pu_ExpiresAt :: string
  pu_Enabled :: bool
  pu_CreatedAt :: string

text \<open>\<open>LastSeen\<close> is \<open>None\<close> for the zero time.\<close>

record User =
  us_data :: PersistedUser
  us_BytesUp :: int
  us_BytesDown :: int
  us_Connections :: int
  us_LastSeen :: "time option"

record 'f Manager =
  mg_users :: "string \<rightharpoonup> User"
  mg_file :: "'f option"

datatype user_error = UserExists | UserNotFound | ParseFailed | SaveFailed

definition fresh_user :: "PersistedUser \<Rightarrow> User" where
  "fresh_user d = \<lparr>us_data = d, us_BytesUp = 0, us_BytesDown = 0, us_Connections = 0, us_LastSeen = None\<rparr>"

subsection \<open>The file\<close>

definition load_users :: "PersistedUser list \<Rightarrow> (string \<rightharpoonup> User) \<Rightarrow> (string \<rightharpoonup> User)" where
  "load_users ds m = fold (\<lambda>d m. m(pu_ID d \<mapsto> fresh_user d)) ds m"

text \<open>A file that does not exist is not an error; one that does not parse is.\<close>

definition Users_NewManager :: "('f \<Rightarrow> PersistedUser list option) \<Rightarrow> 'f option \<Rightarrow> user_error + 'f Manager" where
  "Users_NewManager dec file =
     (case file of
        None \<Rightarrow> Inr \<lparr>mg_users = Map.empty, mg_file = None\<rparr>
      | Some content \<Rightarrow>
          (case dec content of
             None \<Rightarrow> Inl ParseFailed
           | Some ds \<Rightarrow> Inr \<lparr>mg_users = load_users ds Map.empty, mg_file = Some content\<rparr>))"

text \<open>\<open>order\<close> is the order in which the map is visited, \<open>wr\<close> whether the file can be written.\<close>

definition save ::
  "(PersistedUser list \<Rightarrow> 'f) \<Rightarrow> bool \<Rightarrow> string list \<Rightarrow> 'f Manager \<Rightarrow> user_error option \<times> 'f Manager" where
  "save enc wr order m =
     (if wr then (None, m\<lparr>mg_file := Some (enc (map (\<lambda>k. us_data (the (mg_users m k))) order))\<rparr>)
      else (Some SaveFailed, m))"

subsection \<open>Operations\<close>

definition AddUser ::
  "(PersistedUser list \<Rightarrow> 'f) \<Rightarrow> bool \<Rightarrow> string list \<Rightarrow> string \<Rightarrow> User \<Rightarrow> 'f Manager \<Rightarrow> user_error option \<times> 'f Manager" where
  "AddUser enc wr order now u m =
     (case mg_users m (pu_ID (us_data u)) of
        Some _ \<Rightarrow> (Some UserExists, m)
      | None \<Rightarrow>
          let u' = (if pu_CreatedAt (us_data u) = [] then u\<lparr>us_data := (us_data u)\<lparr>pu_CreatedAt := now\<rparr>\<rparr> else u) in
          save enc wr order (m\<lparr>mg_users := (mg_users m)(pu_ID (us_data u') \<mapsto> u')\<rparr>))"

definition RemoveUser ::
  "(PersistedUser list \<Rightarrow> 'f) \<Rightarrow> bool \<Rightarrow> string list \<Rightarrow> string \<Rightarrow> 'f Manager \<Rightarrow> user_error option \<times> 'f Manager" where
  "RemoveUser enc wr order uid m =
     (case mg_users m uid of
        None \<Rightarrow> (Some UserNotFound, m)
      | Some _ \<Rightarrow> save enc wr order (m\<lparr>mg_users := (mg_users m)(uid := None)\<rparr>))"

definition GetUser :: "string \<Rightarrow> 'f Manager \<Rightarrow> User option" where
  "GetUser uid m = mg_users m uid"

text \<open>Several users may have the same short ID; the first one visited is returned.\<close>

definition GetUserByShortID :: "string list \<Rightarrow> string \<Rightarrow> 'f Manager \<Rightarrow> User option" where
  "GetUserByShortID order shortID m =
     find (\<lambda>u. pu_ShortID (us_data u) = shortID) (map (\<lambda>k. the (mg_users m k)) order)"

datatype auth_result = Allowed | NotFound | Disabled | Expired | TrafficExceeded

definition User_Authenticate :: "(string \<Rightarrow> time option) \<Rightarrow> time \<Rightarrow> string \<Rightarrow> 'f Manager \<Rightarrow> auth_result" where
  "User_Authenticate parse now uid m =
     (case GetUser uid m of
        None \<Rightarrow> NotFound
      | Some u \<Rightarrow>
          if \<not> pu_Enabled (us_data u) then Disabled
          else if pu_ExpiresAt (us_data u) \<noteq> [] \<and>
                  (case parse (pu_ExpiresAt (us_data u)) of None \<Rightarrow> False | Some expiry \<Rightarrow> now > expiry) then Expired
          else if pu_MaxTraffic (us_data u) > 0 \<and>
                  wrap64 (us_BytesUp u + us_BytesDown u) \<ge> pu_MaxTraffic (us_data u) then TrafficExceeded
          else Allowed)"

definition RecordTraffic :: "time \<Rightarrow> string \<Rightarrow> int \<Rightarrow> int \<Rightarrow> 'f Manager \<Rightarrow> 'f Manager" where
  "RecordTraffic now uid bytesUp bytesDown m =
     (case GetUser uid m of
        None \<Rightarrow> m
      | Some u \<Rightarrow>
          m\<lparr>mg_users := (mg_users m)(uid \<mapsto>
             u\<lparr>us_BytesUp := wrap64 (us_BytesUp u + bytesUp), us_BytesDown := wrap64 (us_BytesDown u + bytesDown),
               us_LastSeen := Some now\<rparr>)\<rparr>)"

definition ListUsers :: "string list \<Rightarrow> 'f Manager \<Rightarrow> User list" where
  "ListUsers order m = map (\<lambda>k. the (mg_users m k)) order"

definition GetAllShortIDs :: "string list \<Rightarrow> 'f Manager \<Rightarrow> string list" where
  "GetAllShortIDs order m =
     map (pu_ShortID \<circ> us_data) (filter (\<lambda>u. pu_Enabled (us_data u) \<and> pu_ShortID (us_data u) \<noteq> []) (ListUsers order m))"

record UserStats =
  ut_ID :: string
  ut_Name :: string
  ut_BytesUp :: int
  ut_BytesDown :: int
  ut_Connections :: int
  ut_LastSeen :: string
  ut_Enabled :: bool

definition Users_GetStats :: "(time \<Rightarrow> string) \<Rightarrow> string list \<Rightarrow> 'f Manager \<Rightarrow> UserStats list" where
  "Users_GetStats fmt order m =
     map (\<lambda>u. \<lparr>ut_ID = pu_ID (us_data u), ut_Name = pu_Name (us_data u), ut_BytesUp = us_BytesUp u,
        ut_BytesDown = us_BytesDown u, ut_Connections = us_Connections u,
        ut_LastSeen = (case us_LastSeen u of None \<Rightarrow> [] | Some t \<Rightarrow> fmt t), ut_Enabled = pu_Enabled (us_data u)\<rparr>)
       (ListUsers order m)"

subsection \<open>What a restart restores\<close>

text \<open>
  The calls that change the manager, each with the order its save visits the users and whether
  the write succeeds. An order lists every user once.
\<close>

definition visits :: "string list \<Rightarrow> (string \<rightharpoonup> User) \<Rightarrow> bool" where
  "visits order us \<longleftrightarrow> distinct order \<and> set order = dom us"

definition ascii :: "string \<Rightarrow> bool" where
  "ascii s \<longleftrightarrow> list_all (\<lambda>c. of_char c < (128 :: nat)) s"

definition ascii_user :: "PersistedUser \<Rightarrow> bool" where
  "ascii_user d \<longleftrightarrow> ascii (pu_ID d) \<and> ascii (pu_Name d) \<and> ascii (pu_Password d) \<and> ascii (pu_ShortID d) \<and>
     ascii (pu_ExpiresAt d) \<and> ascii (pu_CreatedAt d)"

definition json_ok :: "(PersistedUser list \<Rightarrow> 'f) \<Rightarrow> ('f \<Rightarrow> PersistedUser list option) \<Rightarrow> bool" where
  "json_ok enc dec \<longleftrightarrow> (\<forall>ds. list_all ascii_user ds \<longrightarrow> dec (enc ds) = Some ds)"

inductive user_step :: "(PersistedUser list \<Rightarrow> 'f) \<Rightarrow> 'f Manager \<Rightarrow> 'f Manager \<Rightarrow> bool" for enc where
  add: "ascii_user (us_data u) \<Longrightarrow> ascii now \<Longrightarrow> visits order ((mg_users m)(pu_ID (us_data u) \<mapsto> u)) \<Longrightarrow>
    user_step enc m (snd (AddUser enc True order now u m))"
| remove: "visits order ((mg_users m)(uid := None)) \<Longrightarrow> user_step enc m (snd (RemoveUser enc True order uid m))"
| traffic: "user_step enc m (RecordTraffic now uid up down m)"

definition restored :: "(string \<rightharpoonup> User) \<Rightarrow> (string \<rightharpoonup> User)" where
  "restored us = (\<lambda>k. map_option (fresh_user \<circ> us_data) (us k))"

definition keyed :: "(string \<rightharpoonup> User) \<Rightarrow> bool" where
  "keyed us \<longleftrightarrow> (\<forall>k u. us k = Some u \<longrightarrow> pu_ID (us_data u) = k \<and> ascii_user (us_data u))"

text \<open>The invariant: a manager started from the file has the same users, their counters at zero.\<close>

definition users_inv :: "('f \<Rightarrow> PersistedUser list option) \<Rightarrow> 'f Manager \<Rightarrow> bool" where
  "users_inv dec m \<longleftrightarrow> keyed (mg_users m) \<and>
     Users_NewManager dec (mg_file m) = Inr \<lparr>mg_users = restored (mg_users m), mg_file = mg_file m\<rparr>"

text \<open>A manager starts from no file or from one whose users have ASCII fields.\<close>

definition users_init :: "('f \<Rightarrow> PersistedUser list option) \<Rightarrow> 'f Manager \<Rightarrow> bool" where
  "users_init dec m \<longleftrightarrow> (\<exists>file. Users_NewManager dec file = Inr m \<and>
     (\<forall>content ds. file = Some content \<longrightarrow> dec content = Some ds \<longrightarrow> list_all ascii_user ds))"

lemma load_users_restored:
  "distinct ks \<Longrightarrow> (\<And>k. k \<in> set ks \<Longrightarrow> pu_ID (f k) = k) \<Longrightarrow>
     load_users (map f ks) m = (\<lambda>k. if k \<in> set ks then Some (fresh_user (f k)) else m k)"
proof (induction ks arbitrary: m)
  case (Cons k ks)
  have "load_users (map f (k # ks)) m = load_users (map f ks) (m(k \<mapsto> fresh_user (f k)))"
    using Cons.prems(2) [of k] by (simp add: load_users_def)
  also have "\<dots> = (\<lambda>j. if j \<in> set ks then Some (fresh_user (f j)) else (m(k \<mapsto> fresh_user (f k))) j)"
    using Cons by simp
  finally show ?case
    using Cons.prems(1) by (auto simp: fun_eq_iff)
qed (simp add: load_users_def)

lemma save_restores:
  assumes "json_ok enc dec" "keyed (mg_users m)" "visits order (mg_users m)"
  shows "users_inv dec (snd (save enc True order m))"
proof -
  let ?f = "\<lambda>k. us_data (the (mg_users m k))"
  have k: "\<And>k. k \<in> set order \<Longrightarrow> pu_ID (?f k) = k \<and> ascii_user (?f k)"
    using assms(2,3) by (auto simp: visits_def keyed_def)
  then have "dec (enc (map ?f order)) = Some (map ?f order)"
    using assms(1) by (auto simp: json_ok_def list_all_iff)
  moreover have "load_users (map ?f order) Map.empty = restored (mg_users m)"
    using load_users_restored [of order ?f Map.empty] k assms(3)
    by (auto simp: visits_def restored_def fun_eq_iff split: option.splits)
  ultimately show ?thesis
    using assms(2) by (simp add: users_inv_def save_def Users_NewManager_def)
qed

definition all_fresh :: "(string \<rightharpoonup> User) \<Rightarrow> bool" where
  "all_fresh us \<longleftrightarrow> (\<forall>k u. us k = Some u \<longrightarrow> fresh_user (us_data u) = u)"

lemma all_fresh_restored: "all_fresh us \<Longrightarrow> restored us = us"
  by (rule ext) (auto simp: all_fresh_def restored_def map_option_case split: option.splits)

lemma load_users_fresh:
  "list_all ascii_user ds \<Longrightarrow> keyed m \<Longrightarrow> all_fresh m \<Longrightarrow> keyed (load_users ds m) \<and> all_fresh (load_users ds m)"
proof (induction ds arbitrary: m)
  case (Cons d ds)
  have "keyed (m(pu_ID d \<mapsto> fresh_user d))" "all_fresh (m(pu_ID d \<mapsto> fresh_user d))"
    using Cons.prems by (auto simp: keyed_def all_fresh_def fresh_user_def)
  moreover have "list_all ascii_user ds"
    using Cons.prems(1) by simp
  ultimately have "keyed (load_users ds (m(pu_ID d \<mapsto> fresh_user d))) \<and> all_fresh (load_users ds (m(pu_ID d \<mapsto> fresh_user d)))"
    using Cons.IH by blast
  then show ?case
    by (simp add: load_users_def)
qed (simp add: load_users_def)

lemma users_init_inv:
  assumes "users_init dec m" shows "users_inv dec m"
proof -
  obtain f where f: "Users_NewManager dec f = Inr m"
    and asc: "\<And>content ds. f = Some content \<Longrightarrow> dec content = Some ds \<Longrightarrow> list_all ascii_user ds"
    using assms by (auto simp: users_init_def)
  have none: "keyed Map.empty" "all_fresh Map.empty"
    by (simp_all add: keyed_def all_fresh_def)
  show ?thesis
  proof (cases f)
    case None
    then show ?thesis
      using f none all_fresh_restored [of Map.empty] by (auto simp: Users_NewManager_def users_inv_def)
  next
    case (Some content)
    then obtain ds where ds: "dec content = Some ds" "m = \<lparr>mg_users = load_users ds Map.empty, mg_file = Some content\<rparr>"
      using f by (cases "dec content") (auto simp: Users_NewManager_def)
    then show ?thesis
      using load_users_fresh [OF asc [OF Some ds(1)] none] by (simp add: users_inv_def Users_NewManager_def all_fresh_restored)
  qed
qed

lemma AddUser_inv:
  assumes "json_ok enc dec" "users_inv dec m" "ascii_user (us_data u)" "ascii now"
    "visits order ((mg_users m)(pu_ID (us_data u) \<mapsto> u))"
  shows "users_inv dec (snd (AddUser enc True order now u m))"
proof (cases "mg_users m (pu_ID (us_data u))")
  case None
  define u' where "u' = (if pu_CreatedAt (us_data u) = [] then u\<lparr>us_data := (us_data u)\<lparr>pu_CreatedAt := now\<rparr>\<rparr> else u)"
  have u': "pu_ID (us_data u') = pu_ID (us_data u)" "ascii_user (us_data u')"
    using assms(3,4) by (auto simp: u'_def ascii_user_def)
  let ?m = "m\<lparr>mg_users := (mg_users m)(pu_ID (us_data u') \<mapsto> u')\<rparr>"
  have "keyed (mg_users ?m)" "visits order (mg_users ?m)"
    using assms(2,5) u' by (auto simp: users_inv_def keyed_def visits_def)
  then have "users_inv dec (snd (save enc True order ?m))"
    by (rule save_restores [OF assms(1)])
  then show ?thesis
    using None by (simp add: AddUser_def Let_def u'_def)
qed (use assms(2) in \<open>simp add: AddUser_def\<close>)

lemma RemoveUser_inv:
  assumes "json_ok enc dec" "users_inv dec m" "visits order ((mg_users m)(uid := None))"
  shows "users_inv dec (snd (RemoveUser enc True order uid m))"
proof (cases "mg_users m uid")
  case (Some u)
  let ?m = "m\<lparr>mg_users := (mg_users m)(uid := None)\<rparr>"
  have "keyed (mg_users ?m)"
    using assms(2) by (auto simp: users_inv_def keyed_def)
  then have "users_inv dec (snd (save enc True order ?m))"
    using save_restores [OF assms(1), of ?m order] assms(3) by simp
  then show ?thesis
    using Some by (simp add: RemoveUser_def)
qed (use assms(2) in \<open>simp add: RemoveUser_def\<close>)

lemma RecordTraffic_inv:
  assumes "users_inv dec m" shows "users_inv dec (RecordTraffic now uid up down m)"
proof (cases "mg_users m uid")
  case (Some u)
  then have "restored (mg_users (RecordTraffic now uid up down m)) = restored (mg_users m)"
    "mg_file (RecordTraffic now uid up down m) = mg_file m"
    by (auto simp: RecordTraffic_def GetUser_def restored_def fresh_user_def fun_eq_iff)
  moreover have "keyed (mg_users (RecordTraffic now uid up down m))"
    using assms Some by (auto simp: users_inv_def RecordTraffic_def GetUser_def keyed_def)
  ultimately show ?thesis
    using assms by (simp add: users_inv_def)
qed (use assms in \<open>simp add: RecordTraffic_def GetUser_def\<close>)

lemma users_step_inv:
  "user_step enc m m' \<Longrightarrow> json_ok enc dec \<Longrightarrow> users_inv dec m \<Longrightarrow> users_inv dec m'"
proof (induction rule: user_step.induct)
  case (add u now order m)
  then show ?case using AddUser_inv [of enc dec m u now order] by blast
next
  case (remove order m uid)
  then show ?case using RemoveUser_inv [of enc dec m order uid] by blast
next
  case (traffic m now uid up down)
  then show ?case using RecordTraffic_inv [of dec m now uid up down] by blast
qed

interpretation users_system: inductive_invariant "\<lambda>m. users_init dec m \<and> json_ok enc dec" "user_step enc"
  "\<lambda>m. users_inv dec m \<and> json_ok enc dec"
  by unfold_locales (auto intro: users_init_inv users_step_inv)

subsection \<open>Properties\<close>


text \<open>An instance: the file holds the list itself, and one user is added.\<close>

definition sample_user :: User where
  "sample_user = fresh_user \<lparr>pu_ID = ''u'', pu_Name = ''U'', pu_Password = [], pu_ShortID = ''ab'', pu_MaxTraffic = 10,
     pu_ExpiresAt = [], pu_Enabled = True, pu_CreatedAt = ''now''\<rparr>"

definition sample_manager :: "PersistedUser list Manager" where
  "sample_manager = snd (AddUser (\<lambda>ds. ds) True [''u''] ''now'' sample_user \<lparr>mg_users = Map.empty, mg_file = None\<rparr>)"

lemma sample_manager_reachable:
  "reachable (\<lambda>m. users_init Some m \<and> json_ok (\<lambda>ds. ds) Some) (user_step (\<lambda>ds. ds)) sample_manager"
  unfolding sample_manager_def
proof (rule reachable.reach_step)
  let ?m = "\<lparr>mg_users = Map.empty, mg_file = None\<rparr> :: PersistedUser list Manager"
  show "reachable (\<lambda>m. users_init Some m \<and> json_ok (\<lambda>ds. ds) Some) (user_step (\<lambda>ds. ds)) ?m"
    by (rule reachable.reach_init) (auto simp: users_init_def Users_NewManager_def json_ok_def split: option.splits)
  show "user_step (\<lambda>ds. ds) ?m (snd (AddUser (\<lambda>ds. ds) True [''u''] ''now'' sample_user ?m))"
    by (rule user_step.add) (simp_all add: sample_user_def fresh_user_def ascii_user_def ascii_def visits_def)
qed


text \<open>The verdict for a known user, and two ways in which it is lenient.\<close>

lemma User_Authenticate_allowed:
  assumes "GetUser uid m = Some u"
  shows "User_Authenticate parse now uid m = Allowed \<longleftrightarrow>
    pu_Enabled (us_data u) \<and>
    (\<forall>expiry. pu_ExpiresAt (us_data u) \<noteq> [] \<longrightarrow> parse (pu_ExpiresAt (us_data u)) = Some expiry \<longrightarrow> now \<le> expiry) \<and>
    (pu_MaxTraffic (us_data u) > 0 \<longrightarrow> wrap64 (us_BytesUp u + us_BytesDown u) < pu_MaxTraffic (us_data u))"
  using assms by (auto simp: User_Authenticate_def split: option.splits)

text \<open>An expiry date that does not parse never expires.\<close>

lemma bad_expiry_never_expires:
  "GetUser uid m = Some u \<Longrightarrow> parse (pu_ExpiresAt (us_data u)) = None \<Longrightarrow> User_Authenticate parse now uid m \<noteq> Expired"
  by (simp add: User_Authenticate_def)

text \<open>A user who has used up the quota is let in again after a restart.\<close>

lemma quota_lost_on_restart:
  assumes "GetUser uid m = Some u" "GetUser uid m' = Some (fresh_user (us_data u))"
    and "User_Authenticate parse now uid m = TrafficExceeded"
  shows "User_Authenticate parse now uid m' = Allowed"
  using assms by (auto simp: User_Authenticate_def fresh_user_def wrap64_id split: if_splits option.splits)

end
