(* ===== verification/Go_Ip.thy ===== *)
theory Go_Ip
  imports Go_Strings
begin

text \<open>
  The address parsing and prefix matching of Go's \<open>net\<close> package: \<open>ParseIP\<close>, \<open>ParseCIDR\<close>, \<open>IP.Equal\<close> and
  \<open>IPNet.Contains\<close>. An \<open>IP\<close> is a byte list of length 4 or 16; IPv4 addresses may be held in either
  form. The prefix match, which Go computes with a byte-wise mask, is proved to compare the leading
  bits of the address.
\<close>

subsection \<open>Parsing\<close>

definition parse_octet :: "string \<Rightarrow> byte option" where
  "parse_octet f =
     (if f \<noteq> [] \<and> list_all is_digit f \<and> (1 < length f \<longrightarrow> hd f \<noteq> CHR ''0'') \<and> nat_of_digits f \<le> 255
      then Some (byte_of (nat_of_digits f)) else None)"

definition parse_ipv4 :: "string \<Rightarrow> bytes option" where
  "parse_ipv4 s =
     (case map parse_octet (split_on dot s) of
        [Some a, Some b, Some c, Some d] \<Rightarrow> Some [a, b, c, d]
      | _ \<Rightarrow> None)"

definition hex_val :: "char \<Rightarrow> nat option" where
  "hex_val ch =
     (let n = (of_char ch :: nat) in
      if 48 \<le> n \<and> n \<le> 57 then Some (n - 48)
      else if 97 \<le> n \<and> n \<le> 102 then Some (n - 87)
      else if 65 \<le> n \<and> n \<le> 70 then Some (n - 55)
      else None)"

definition hex_group :: "string \<Rightarrow> nat" where
  "hex_group ds = foldl (\<lambda>acc ch. 16 * acc + the (hex_val ch)) 0 ds"

text \<open>
  The groups of an IPv6 address: the bytes read so far and the position of the double colon. A
  trailing IPv4 address is allowed in the last four bytes.
\<close>

function ipv6_loop :: "string \<Rightarrow> bytes \<Rightarrow> nat option \<Rightarrow> (bytes \<times> nat option) option" where
  "ipv6_loop s acc ell =
     (if 16 \<le> length acc then (if s = [] then Some (acc, ell) else None)
      else
        let ds = takeWhile (\<lambda>ch. hex_val ch \<noteq> None) s;
            rest = drop (length ds) s in
        if ds = [] \<or> 4 < length ds then None
        else if rest \<noteq> [] \<and> hd rest = dot then
          (if ell = None \<and> length acc \<noteq> 12 then None
           else if 16 < length acc + 4 then None
           else map_option (\<lambda>v. (acc @ v, ell)) (parse_ipv4 s))
        else
          let acc' = acc @ len16 (hex_group ds) in
          case rest of
            [] \<Rightarrow> Some (acc', ell)
          | ch # s1 \<Rightarrow>
              if ch \<noteq> colon \<or> s1 = [] then None
              else if hd s1 = colon then
                (if ell \<noteq> None then None
                 else if tl s1 = [] then Some (acc', Some (length acc'))
                 else ipv6_loop (tl s1) acc' (Some (length acc')))
              else ipv6_loop s1 acc' ell)"
  by pat_completeness auto
termination
proof (relation "measure (\<lambda>(s, acc, ell). length s)", goal_cases)
  case (2 s acc ell ds rest acc' ch s1)
  then have r: "ch # s1 = drop (length ds) s"
    by simp
  have "length (ch # s1) \<le> length s"
    unfolding r by simp
  then show ?case
    by simp
next
  case (3 s acc ell ds rest acc' ch s1)
  then have r: "ch # s1 = drop (length ds) s"
    by simp
  have "length (ch # s1) \<le> length s"
    unfolding r by simp
  then show ?case
    by simp
qed simp

declare ipv6_loop.simps [simp del]

definition expand_ipv6 :: "bytes \<times> nat option \<Rightarrow> bytes option" where
  "expand_ipv6 r =
     (case r of
        (ip, None) \<Rightarrow> if length ip < 16 then None else Some ip
      | (ip, Some e) \<Rightarrow>
          if length ip < 16 then Some (take e ip @ replicate (16 - length ip) 0 @ drop e ip) else None)"

definition parse_ipv6 :: "string \<Rightarrow> bytes option" where
  "parse_ipv6 s =
     (if take 2 s = [colon, colon] then
        (if length s = 2 then Some (replicate 16 0)
         else Option.bind (ipv6_loop (drop 2 s) [] (Some 0)) expand_ipv6)
      else Option.bind (ipv6_loop s [] None) expand_ipv6)"

text \<open>
  \<open>netip.ParseAddr\<close>: the first dot or colon decides. An address with a zone is rejected by
  \<open>ParseIP\<close> and \<open>ParseCIDR\<close>, so a percent sign is never accepted.
\<close>

definition ParseAddr :: "string \<Rightarrow> bytes option" where
  "ParseAddr s =
     (if CHR ''%'' \<in> set s then None
      else case find (\<lambda>ch. ch = dot \<or> ch = colon) s of
             None \<Rightarrow> None
           | Some ch \<Rightarrow> if ch = dot then parse_ipv4 s else parse_ipv6 s)"

definition v4_prefix :: bytes where
  "v4_prefix = replicate 10 0 @ [0xff, 0xff]"

definition As16 :: "bytes \<Rightarrow> bytes" where
  "As16 ip = (if length ip = 4 then v4_prefix @ ip else ip)"

definition ParseIP :: "string \<Rightarrow> bytes option" where
  "ParseIP s = map_option As16 (ParseAddr s)"

definition To4 :: "bytes \<Rightarrow> bytes option" where
  "To4 ip =
     (if length ip = 4 then Some ip
      else if length ip = 16 \<and> is_v4_mapped ip then Some (drop 12 ip)
      else None)"

definition IP_Equal :: "bytes \<Rightarrow> bytes \<Rightarrow> bool" where
  "IP_Equal ip x =
     (if length ip = length x then ip = x
      else if length ip = 4 \<and> length x = 16 then take 12 x = v4_prefix \<and> ip = drop 12 x
      else if length ip = 16 \<and> length x = 4 then take 12 ip = v4_prefix \<and> drop 12 ip = x
      else False)"

subsection \<open>Prefixes\<close>

record IPNet =
  nt_IP :: bytes
  nt_Mask :: bytes

definition CIDRMask :: "nat \<Rightarrow> nat \<Rightarrow> bytes" where
  "CIDRMask ones len = map (\<lambda>i. NOT (drop_bit (min 8 (ones - 8 * i)) 0xff)) [0..<len]"

definition mask_bytes :: "bytes \<Rightarrow> bytes \<Rightarrow> bytes" where
  "mask_bytes ip m = map2 (AND) ip m"

text \<open>The mask has as many bits as the address was written with.\<close>

definition ParseCIDR :: "string \<Rightarrow> IPNet option" where
  "ParseCIDR s =
     (case indexByte CHR ''/'' s of
        None \<Rightarrow> None
      | Some i \<Rightarrow>
          (case ParseAddr (take i s) of
             None \<Rightarrow> None
           | Some ip \<Rightarrow>
               let m = drop (Suc i) s in
               if m \<noteq> [] \<and> list_all is_digit m \<and> nat_of_digits m \<le> 8 * length ip then
                 Some \<lparr>nt_IP = mask_bytes ip (CIDRMask (nat_of_digits m) (length ip)),
                       nt_Mask = CIDRMask (nat_of_digits m) (length ip)\<rparr>
               else None))"

definition networkNumberAndMask :: "IPNet \<Rightarrow> (bytes \<times> bytes) option" where
  "networkNumberAndMask n =
     (let ip = (case To4 (nt_IP n) of Some x \<Rightarrow> x | None \<Rightarrow> nt_IP n); m = nt_Mask n in
      if length ip \<noteq> 4 \<and> length ip \<noteq> 16 then None
      else if length m = 4 then (if length ip \<noteq> 4 then None else Some (ip, m))
      else if length m = 16 then Some (ip, if length ip = 4 then drop 12 m else m)
      else None)"

definition Contains :: "IPNet \<Rightarrow> bytes \<Rightarrow> bool" where
  "Contains n ip =
     (let ip = (case To4 ip of Some x \<Rightarrow> x | None \<Rightarrow> ip) in
      case networkNumberAndMask n of
        None \<Rightarrow> ip = []
      | Some (nn, m) \<Rightarrow> length ip = length nn \<and> mask_bytes nn m = mask_bytes ip m)"

subsection \<open>Prefix matching compares leading bits\<close>

text \<open>The 32-bit number of an IPv4 address.\<close>

definition ipv4_num :: "bytes \<Rightarrow> nat" where
  "ipv4_num ip = int32 (ip ! 0) (ip ! 1) (ip ! 2) (ip ! 3)"

lemma bit_unat_byte: "bit (unat (x :: byte)) k \<longleftrightarrow> bit x k"
  by (auto simp: bit_unsigned_iff dest: bit_imp_le_length)

lemma byte_bit_high: "8 \<le> k \<Longrightarrow> \<not> bit (x :: byte) k"
  using bit_imp_le_length [of x k] by auto

lemma bit_int32:
  "bit (int32 a b c d) j \<longleftrightarrow>
     (if j < 8 then bit d j else if j < 16 then bit c (j - 8) else if j < 24 then bit b (j - 16) else bit a (j - 24))"
proof -
  have "bit (int32 a b c d) j \<longleftrightarrow> (24 \<le> j \<and> bit a (j - 24)) \<or> (16 \<le> j \<and> bit b (j - 16)) \<or> (8 \<le> j \<and> bit c (j - 8)) \<or> bit d j"
    by (simp add: int32_def bit_or_iff bit_push_bit_iff bit_unat_byte possible_bit_def)
  moreover consider "j < 8" | "8 \<le> j" "j < 16" | "16 \<le> j" "j < 24" | "24 \<le> j"
    by linarith
  ultimately show ?thesis
    by cases (simp_all add: byte_bit_high)
qed

lemma mask_byte_bit: 
  assumes "k \<le> 8" "j < 8"
  shows "bit (NOT (drop_bit k (0xff :: byte))) j \<longleftrightarrow> 8 - k \<le> j"
proof -
  have ff: "(0xff :: byte) = mask 8"
    by (simp add: mask_eq_exp_minus_1)
  have "bit (drop_bit k (0xff :: byte)) j \<longleftrightarrow> k + j < 8"
    unfolding ff bit_drop_bit_eq by (simp add: bit_mask_iff)
  then show ?thesis
    using assms by (auto simp: bit_not_iff)
qed

lemma mask_byte_eq_iff:
  fixes a b :: byte
  assumes "k \<le> 8"
  shows "a AND NOT (drop_bit k 0xff) = b AND NOT (drop_bit k 0xff) \<longleftrightarrow> (\<forall>j < 8. 8 - k \<le> j \<longrightarrow> bit a j = bit b j)"
proof -
  have "a AND m = b AND m \<longleftrightarrow> (\<forall>j < 8. bit m j \<longrightarrow> bit a j = bit b j)" for m :: byte
    unfolding bit_eq_iff by (auto simp: bit_and_iff)
  then show ?thesis
    using mask_byte_bit [OF assms] by simp
qed

lemma bit_ipv4_num:
  assumes "i < 4" "k < 8"
  shows "bit (ipv4_num x) (8 * (3 - i) + k) \<longleftrightarrow> bit (x ! i) k"
proof -
  consider "i = 0" | "i = 1" | "i = 2" | "i = 3"
    using assms(1) by linarith
  then show ?thesis
    using assms(2) unfolding ipv4_num_def bit_int32 by cases simp_all
qed

lemma ipv4_num_high: "32 \<le> j \<Longrightarrow> \<not> bit (ipv4_num x) j"
  by (simp add: ipv4_num_def bit_int32 byte_bit_high)

lemma mask_eq_prefix:
  assumes "length x = 4" "length y = 4" "n \<le> 32"
  shows "mask_bytes x (CIDRMask n 4) = mask_bytes y (CIDRMask n 4) \<longleftrightarrow>
    drop_bit (32 - n) (ipv4_num x) = drop_bit (32 - n) (ipv4_num y)"
proof -
  have "mask_bytes x (CIDRMask n 4) = mask_bytes y (CIDRMask n 4) \<longleftrightarrow>
      (\<forall>i < 4. x ! i AND NOT (drop_bit (min 8 (n - 8 * i)) 0xff) = y ! i AND NOT (drop_bit (min 8 (n - 8 * i)) 0xff))"
    using assms(1,2) by (simp add: mask_bytes_def CIDRMask_def list_eq_iff_nth_eq)
  also have "\<dots> \<longleftrightarrow> (\<forall>i < 4. \<forall>k < 8. 8 - min 8 (n - 8 * i) \<le> k \<longrightarrow> bit (x ! i) k = bit (y ! i) k)"
    by (simp add: mask_byte_eq_iff)
  also have "\<dots> \<longleftrightarrow> (\<forall>j < 32. 32 - n \<le> j \<longrightarrow> bit (ipv4_num x) j = bit (ipv4_num y) j)" (is "?l \<longleftrightarrow> ?r")
  proof
    assume l: ?l
    show ?r
    proof (intro allI impI)
      fix j :: nat assume j: "j < 32" "32 - n \<le> j"
      define i k where "i = 3 - j div 8" and "k = j mod 8"
      have i: "i < 4" "k < 8" "j = 8 * (3 - i) + k"
        using j(1) by (auto simp: i_def k_def)
      then have "8 - min 8 (n - 8 * i) \<le> k"
        using j(2) assms(3) by (auto simp: min_def)
      then show "bit (ipv4_num x) j = bit (ipv4_num y) j"
        using l i(1,2) unfolding i(3) bit_ipv4_num [OF i(1,2)] by blast
    qed
  next
    assume r: ?r
    show ?l
    proof (intro allI impI)
      fix i k :: nat assume i: "i < 4" "k < 8" and k: "8 - min 8 (n - 8 * i) \<le> k"
      then have "8 * (3 - i) + k < 32" "32 - n \<le> 8 * (3 - i) + k"
        by (auto simp: min_def split: if_splits)
      then show "bit (x ! i) k = bit (y ! i) k"
        using r bit_ipv4_num [OF i] by blast
    qed
  qed
  also have "\<dots> \<longleftrightarrow> drop_bit (32 - n) (ipv4_num x) = drop_bit (32 - n) (ipv4_num y)"
  proof
    assume eq: "drop_bit (32 - n) (ipv4_num x) = drop_bit (32 - n) (ipv4_num y)"
    show "\<forall>j < 32. 32 - n \<le> j \<longrightarrow> bit (ipv4_num x) j = bit (ipv4_num y) j"
    proof (intro allI impI)
      fix j :: nat assume "j < 32" "32 - n \<le> j"
      then show "bit (ipv4_num x) j = bit (ipv4_num y) j"
        using arg_cong [OF eq, of "\<lambda>w. bit w (j - (32 - n))"] by (simp add: bit_drop_bit_eq)
    qed
  next
    assume r: "\<forall>j < 32. 32 - n \<le> j \<longrightarrow> bit (ipv4_num x) j = bit (ipv4_num y) j"
    show "drop_bit (32 - n) (ipv4_num x) = drop_bit (32 - n) (ipv4_num y)"
    proof (rule bit_eqI)
      fix j :: nat
      show "bit (drop_bit (32 - n) (ipv4_num x)) j = bit (drop_bit (32 - n) (ipv4_num y)) j"
        using r ipv4_num_high [of "32 - n + j"] by (cases "32 - n + j < 32") (simp_all add: bit_drop_bit_eq)
    qed
  qed
  finally show ?thesis .
qed

subsection \<open>Parsing what was printed\<close>

lemma hd_itoa: "0 < n \<Longrightarrow> hd (itoa n) \<noteq> CHR ''0''"
proof (induction n rule: itoa.induct)
  case (1 n)
  show ?case
  proof (cases "n < 10")
    case True
    have "of_char (digit n) \<noteq> (48 :: nat)"
      using True 1 by (simp add: of_char_digit)
    then show ?thesis
      using True by (subst itoa.simps) auto
  next
    case False
    then show ?thesis
      using 1 by (subst itoa.simps) simp
  qed
qed

lemma length_itoa_small: "1 < length (itoa n) \<Longrightarrow> 0 < n"
  by (cases n) (auto simp: itoa.simps [of 0])

lemma parse_octet_itoa: "parse_octet (itoa (unat b)) = Some b"
  using itoa_all_digits [of "unat b"] hd_itoa [of "unat b"] length_itoa_small [of "unat b"] unat_byte_less [of b]
  by (simp add: parse_octet_def nat_of_digits_itoa)

lemma itoa_no_char: "\<not> is_digit ch \<Longrightarrow> ch \<notin> set (itoa n)"
  using itoa_all_digits [of n] by (auto simp: list_all_iff)

lemma special_not_digit:
  "\<not> is_digit dot" "\<not> is_digit colon" "\<not> is_digit CHR ''/''" "\<not> is_digit CHR ''%''"
  by (simp_all add: is_digit_def dot_def colon_def)

lemma parse_ipv4_string: "length ip = 4 \<Longrightarrow> parse_ipv4 (ipv4_string ip) = Some ip"
proof -
  assume l: "length ip = 4"
  have s: "split_on dot (ipv4_string ip) =
      [itoa (unat (ip ! 0)), itoa (unat (ip ! 1)), itoa (unat (ip ! 2)), itoa (unat (ip ! 3))]"
    using itoa_no_char [OF special_not_digit(1)]
    by (simp add: ipv4_string_def split_on_append split_on_free flip: dot_def)
  show ?thesis
    unfolding parse_ipv4_def s using l by (simp add: parse_octet_itoa list_eq_iff_nth_eq less_Suc_eq numeral_eq_Suc)
qed

lemma ipv4_string_chars: "ch \<in> set (ipv4_string ip) \<Longrightarrow> is_digit ch \<or> ch = dot"
  using itoa_no_char by (auto simp: ipv4_string_def dot_def)

lemma find_either: "a \<in> set xs \<Longrightarrow> b \<notin> set xs \<Longrightarrow> find (\<lambda>x. x = a \<or> x = b) xs = Some a"
  by (induction xs) auto

lemma ParseAddr_ipv4_string: "length ip = 4 \<Longrightarrow> ParseAddr (ipv4_string ip) = Some ip"
proof -
  assume l: "length ip = 4"
  have pc: "CHR ''%'' \<notin> set (ipv4_string ip)" "colon \<notin> set (ipv4_string ip)"
    using ipv4_string_chars special_not_digit by (fastforce simp: dot_def colon_def)+
  have "dot \<in> set (ipv4_string ip)"
    by (simp add: ipv4_string_def dot_def)
  then have "find (\<lambda>ch. ch = dot \<or> ch = colon) (ipv4_string ip) = Some dot"
    using pc(2) by (rule find_either)
  then show ?thesis
    using pc parse_ipv4_string [OF l] by (simp add: ParseAddr_def)
qed

definition cidr_text :: "bytes \<Rightarrow> nat \<Rightarrow> string" where
  "cidr_text ip n = ipv4_string ip @ CHR ''/'' # itoa n"

lemma ParseCIDR_text:
  assumes "length ip = 4" "n \<le> 32"
  shows "ParseCIDR (cidr_text ip n) = Some \<lparr>nt_IP = mask_bytes ip (CIDRMask n 4), nt_Mask = CIDRMask n 4\<rparr>"
proof -
  have "CHR ''/'' \<notin> set (ipv4_string ip)"
    using ipv4_string_chars special_not_digit by (fastforce simp: dot_def)
  then have "indexByte CHR ''/'' (cidr_text ip n) = Some (length (ipv4_string ip))"
    unfolding cidr_text_def by (rule indexByte_append)
  then show ?thesis
    using assms itoa_all_digits [of n]
    by (simp add: ParseCIDR_def cidr_text_def ParseAddr_ipv4_string nat_of_digits_itoa Let_def)
qed

lemma mask_bytes_idem: "mask_bytes (mask_bytes ip m) m = mask_bytes ip m"
  by (rule nth_equalityI) (auto simp: mask_bytes_def ac_simps)

lemma length_mask [simp]: "length (mask_bytes ip m) = min (length ip) (length m)" "length (CIDRMask n l) = l"
  by (simp_all add: mask_bytes_def CIDRMask_def)

text \<open>An IPv4 destination, in either form, is in the network iff its leading bits are the network's.\<close>

lemma cidr_contains:
  assumes "length ip = 4" "n \<le> 32" "To4 x = Some y" "ParseCIDR (cidr_text ip n) = Some net"
  shows "Contains net x \<longleftrightarrow> drop_bit (32 - n) (ipv4_num y) = drop_bit (32 - n) (ipv4_num ip)"
proof -
  have net: "net = \<lparr>nt_IP = mask_bytes ip (CIDRMask n 4), nt_Mask = CIDRMask n 4\<rparr>"
    using ParseCIDR_text [OF assms(1,2)] assms(4) by simp
  have y: "length y = 4"
    using assms(3) by (auto simp: To4_def split: if_splits)
  have "Contains net x \<longleftrightarrow> mask_bytes ip (CIDRMask n 4) = mask_bytes y (CIDRMask n 4)"
    using assms(1,3) y
    by (simp add: Contains_def net networkNumberAndMask_def To4_def [of "mask_bytes ip (CIDRMask n 4)"] mask_bytes_idem Let_def)
  then show ?thesis
    using mask_eq_prefix [OF assms(1) y assms(2)] by auto
qed

end
