(* ===== verification/Split_Tunnel.thy ===== *)
theory Split_Tunnel
  imports Go_Ip
begin

text \<open>
  The two split-tunnel routers: internal/tun/split_tunnel.go decides for the TUN device by mode,
  address ranges and rules; internal/tunnel/splittunnel.go decides for the proxy by rules alone. The
  address ranges built into the program are given as pairs of an address and a prefix length, and
  \<open>cidr_text\<close> is the text the source has for each.
\<close>

definition ModeAll :: string where "ModeAll = ''all''"
definition ModeBypassIR :: string where "ModeBypassIR = ''bypass_ir''"
definition ModeOnlyForeign :: string where "ModeOnlyForeign = ''only_foreign''"
definition ModeCustom :: string where "ModeCustom = ''custom''"

lemmas mode_defs = ModeAll_def ModeBypassIR_def ModeOnlyForeign_def ModeCustom_def

record Rule =
  ru_Name :: string
  ru_Type :: string
  ru_Value :: string
  ru_Action :: string
  ru_Priority :: int

record SplitTunnel =
  sl_rules :: "Rule list"
  sl_mode :: string
  sl_irCIDRs :: "IPNet list"
  sl_customIPs :: "IPNet list"

subsection \<open>fmt.Sscanf with the verb \%d\<close>

text \<open>
  An optional sign and digits after blanks (ASCII ones; a newline is an error), as a 64-bit
  integer, and the rest of the input.
\<close>

definition scan_d :: "string \<Rightarrow> (int \<times> string) option" where
  "scan_d s =
     (let s1 = dropWhile (\<lambda>ch. is_space ch \<and> ch \<noteq> CHR 0x0A) s;
          neg = (s1 \<noteq> [] \<and> hd s1 = CHR ''-'');
          s2 = (if s1 \<noteq> [] \<and> (hd s1 = CHR ''-'' \<or> hd s1 = CHR ''+'') then tl s1 else s1);
          ds = takeWhile is_digit s2;
          v = (if neg then - int (nat_of_digits ds) else int (nat_of_digits ds)) in
      if ds = [] \<or> v < min_int \<or> max_int < v then None else Some (v, drop (length ds) s2))"

definition matchPort :: "string \<Rightarrow> int \<Rightarrow> bool" where
  "matchPort spec port =
     (case scan_d spec of
        Some (p, _) \<Rightarrow> p = port
      | None \<Rightarrow>
          (case scan_d spec of
             Some (low, rest) \<Rightarrow>
               (if rest \<noteq> [] \<and> hd rest = CHR ''-'' then
                  (case scan_d (tl rest) of
                     Some (high, _) \<Rightarrow> port \<ge> low \<and> port \<le> high
                   | None \<Rightarrow> False)
                else False)
           | None \<Rightarrow> False))"

subsection \<open>Rules\<close>

definition matchRule :: "Rule \<Rightarrow> bytes \<Rightarrow> int \<Rightarrow> string \<Rightarrow> bool" where
  "matchRule rule destIP destPort domn =
     (if ru_Type rule = ''ip'' then
        (case ParseIP (ru_Value rule) of None \<Rightarrow> False | Some ruleIP \<Rightarrow> IP_Equal ruleIP destIP)
      else if ru_Type rule = ''cidr'' then
        (case ParseCIDR (ru_Value rule) of None \<Rightarrow> False | Some cidr \<Rightarrow> Contains cidr destIP)
      else if ru_Type rule = ''domain'' then
        (if domn = [] then False
         else if has_prefix (ru_Value rule) ''*.'' then
           has_suffix domn (drop 1 (ru_Value rule)) \<or> domn = drop 2 (ru_Value rule)
         else domn = ru_Value rule)
      else if ru_Type rule = ''port'' then matchPort (ru_Value rule) destPort
      else False)"

fun evaluateRules :: "Rule list \<Rightarrow> bytes \<Rightarrow> int \<Rightarrow> string \<Rightarrow> bool" where
  "evaluateRules [] destIP destPort domn = True"
| "evaluateRules (rule # rules) destIP destPort domn =
     (if matchRule rule destIP destPort domn then
        (if ru_Action rule = ''tunnel'' then True
         else if ru_Action rule = ''direct'' then False
         else if ru_Action rule = ''block'' then False
         else evaluateRules rules destIP destPort domn)
      else evaluateRules rules destIP destPort domn)"

definition isIranIP :: "SplitTunnel \<Rightarrow> bytes \<Rightarrow> bool" where
  "isIranIP st ip = list_ex (\<lambda>cidr. Contains cidr ip) (sl_irCIDRs st)"

text \<open>The private ranges: five IPv4 ones, the IPv6 loopback and the IPv6 link-local addresses.\<close>

definition private_v4 :: "(bytes \<times> nat) list" where
  "private_v4 = [([10, 0, 0, 0], 8), ([172, 16, 0, 0], 12), ([192, 168, 0, 0], 16), ([127, 0, 0, 0], 8), ([169, 254, 0, 0], 16)]"

definition privateRanges :: "string list" where
  "privateRanges = map (\<lambda>(ip, n). cidr_text ip n) private_v4 @ [''::1/128'', ''fe80::/10'']"

definition isLocalIP :: "SplitTunnel \<Rightarrow> bytes \<Rightarrow> bool" where
  "isLocalIP st ip =
     (list_ex (\<lambda>cidr. Contains cidr ip) (sl_customIPs st) \<or>
      list_ex (\<lambda>r. case ParseCIDR r of None \<Rightarrow> False | Some cidr \<Rightarrow> Contains cidr ip) privateRanges)"

definition ShouldTunnel :: "SplitTunnel \<Rightarrow> bytes \<Rightarrow> int \<Rightarrow> string \<Rightarrow> bool" where
  "ShouldTunnel st destIP destPort domn =
     (if sl_mode st = ModeAll then True
      else if sl_mode st = ModeBypassIR then
        (if isIranIP st destIP then False else if isLocalIP st destIP then False else True)
      else if sl_mode st = ModeOnlyForeign then
        (if isIranIP st destIP \<or> isLocalIP st destIP then False else True)
      else if sl_mode st = ModeCustom then evaluateRules (sl_rules st) destIP destPort domn
      else True)"

subsection \<open>Construction\<close>

definition iran_v4 :: "(bytes \<times> nat) list" where
  "iran_v4 = [
      ([2, 144, 0, 0], 14), ([2, 176, 0, 0], 12), ([5, 22, 0, 0], 17), ([5, 52, 0, 0], 15), ([5, 56, 128, 0], 17),
      ([5, 57, 32, 0], 21), ([5, 61, 24, 0], 21), ([5, 62, 160, 0], 19), ([5, 63, 8, 0], 21), ([5, 72, 0, 0], 13),
      ([5, 104, 208, 0], 21), ([5, 106, 0, 0], 16), ([5, 112, 0, 0], 12), ([5, 134, 128, 0], 18), ([5, 144, 128, 0], 21),
      ([5, 145, 112, 0], 21), ([5, 160, 0, 0], 16), ([5, 190, 0, 0], 16), ([5, 198, 160, 0], 19), ([5, 200, 64, 0], 18),
      ([5, 201, 128, 0], 17), ([5, 202, 0, 0], 16), ([5, 208, 0, 0], 12), ([31, 2, 0, 0], 17), ([31, 7, 64, 0], 21),
      ([31, 14, 80, 0], 20), ([31, 24, 200, 0], 21), ([31, 40, 0, 0], 18), ([31, 56, 0, 0], 14), ([37, 10, 64, 0], 22),
      ([37, 19, 0, 0], 17), ([37, 32, 0, 0], 14), ([37, 44, 56, 0], 21), ([37, 63, 128, 0], 17), ([37, 98, 0, 0], 17),
      ([37, 114, 192, 0], 18), ([37, 128, 128, 0], 17), ([37, 129, 0, 0], 16), ([37, 130, 200, 0], 21), ([37, 137, 0, 0], 16),
      ([37, 148, 0, 0], 17), ([37, 152, 160, 0], 19), ([37, 153, 128, 0], 18), ([37, 156, 0, 0], 16), ([37, 191, 64, 0], 19),
      ([37, 202, 128, 0], 17), ([37, 221, 0, 0], 18), ([37, 228, 131, 0], 24), ([37, 235, 16, 0], 20), ([37, 254, 0, 0], 16),
      ([46, 18, 248, 0], 21), ([46, 21, 80, 0], 20), ([46, 28, 72, 0], 21), ([46, 32, 0, 0], 19), ([46, 34, 96, 0], 19),
      ([46, 36, 96, 0], 20), ([46, 38, 128, 0], 17), ([46, 41, 192, 0], 18), ([46, 51, 0, 0], 17), ([46, 62, 128, 0], 17),
      ([46, 100, 0, 0], 16), ([46, 143, 0, 0], 17), ([46, 148, 32, 0], 20), ([46, 164, 0, 0], 16), ([46, 167, 128, 0], 19),
      ([46, 182, 32, 0], 21), ([46, 209, 0, 0], 16), ([46, 224, 0, 0], 15), ([46, 235, 76, 0], 23), ([46, 245, 0, 0], 17),
      ([46, 248, 32, 0], 19), ([46, 249, 96, 0], 24), ([46, 251, 224, 0], 24), ([46, 255, 216, 0], 21)]"

definition append_cidrs :: "string list \<Rightarrow> IPNet list \<Rightarrow> IPNet list" where
  "append_cidrs texts nets = nets @ List.map_filter ParseCIDR texts"

definition loadDefaultIRRanges :: "SplitTunnel \<Rightarrow> SplitTunnel" where
  "loadDefaultIRRanges st =
     st\<lparr>sl_irCIDRs := append_cidrs (map (\<lambda>(ip, n). cidr_text ip n) iran_v4) (sl_irCIDRs st)\<rparr>"

text \<open>
  The list file, \<open>None\<close> if it cannot be opened, is read line by line up to a line of 64 KB or more.
\<close>

definition loadIRList :: "string option \<Rightarrow> SplitTunnel \<Rightarrow> SplitTunnel" where
  "loadIRList f st =
     (case f of
        None \<Rightarrow> loadDefaultIRRanges st
      | Some content \<Rightarrow>
          st\<lparr>sl_irCIDRs := append_cidrs
               (filter (\<lambda>l. \<not> (l = [] \<or> has_prefix l ''#''))
                  (map trim_space (takeWhile (\<lambda>l. length l < 65536) (split_on (CHR 0x0A) content))))
               (sl_irCIDRs st)\<rparr>)"

definition lan_v4 :: "(bytes \<times> nat) list" where
  "lan_v4 = [([10, 0, 0, 0], 8), ([172, 16, 0, 0], 12), ([192, 168, 0, 0], 16), ([127, 0, 0, 0], 8)]"

definition addLANBypass :: "SplitTunnel \<Rightarrow> SplitTunnel" where
  "addLANBypass st =
     st\<lparr>sl_customIPs := append_cidrs (map (\<lambda>(ip, n). cidr_text ip n) lan_v4) (sl_customIPs st)\<rparr>"

record SplitConfig =
  sg_Mode :: string
  sg_Rules :: "Rule list"
  sg_IRListFile :: string
  sg_BypassLAN :: bool

text \<open>\<open>fs\<close> gives the content of a file.\<close>

definition NewSplitTunnel :: "(string \<Rightarrow> string option) \<Rightarrow> SplitConfig \<Rightarrow> SplitTunnel" where
  "NewSplitTunnel fs cfg =
     (let st = \<lparr>sl_rules = sg_Rules cfg, sl_mode = (if sg_Mode cfg = [] then ModeAll else sg_Mode cfg),
                sl_irCIDRs = [], sl_customIPs = []\<rparr>;
          st1 = (if sg_Mode cfg = ModeBypassIR \<or> sg_Mode cfg = ModeOnlyForeign then
                   (if sg_IRListFile cfg \<noteq> [] then loadIRList (fs (sg_IRListFile cfg)) st else loadDefaultIRRanges st)
                 else st)
      in if sg_BypassLAN cfg then addLANBypass st1 else st1)"

definition AddRule :: "Rule \<Rightarrow> SplitTunnel \<Rightarrow> SplitTunnel" where
  "AddRule rule st = st\<lparr>sl_rules := sl_rules st @ [rule]\<rparr>"

fun remove_rule :: "string \<Rightarrow> Rule list \<Rightarrow> Rule list" where
  "remove_rule name [] = []"
| "remove_rule name (r # rs) = (if ru_Name r = name then rs else r # remove_rule name rs)"

definition RemoveRule :: "string \<Rightarrow> SplitTunnel \<Rightarrow> SplitTunnel" where
  "RemoveRule name st = st\<lparr>sl_rules := remove_rule name (sl_rules st)\<rparr>"

subsection \<open>The proxy's router\<close>

record SplitRule =
  sr_Type :: string
  sr_Value :: string
  sr_Action :: string

definition Proxy_matchRule :: "SplitRule \<Rightarrow> string \<Rightarrow> bool" where
  "Proxy_matchRule rule host =
     (if sr_Type rule = ''domain'' then
        has_suffix host (sr_Value rule) \<or>
        host = (if has_prefix (sr_Value rule) ''.'' then drop 1 (sr_Value rule) else sr_Value rule)
      else if sr_Type rule = ''ip'' then host = sr_Value rule
      else if sr_Type rule = ''cidr'' then
        (case ParseCIDR (sr_Value rule) of
           None \<Rightarrow> False
         | Some network \<Rightarrow> (case ParseIP host of None \<Rightarrow> False | Some ip \<Rightarrow> Contains network ip))
      else False)"

definition ShouldProxy :: "SplitRule list \<Rightarrow> string \<Rightarrow> bool" where
  "ShouldProxy rules dest =
     (if rules = [] then True
      else
        let h = (case SplitHostPort dest of Inl _ \<Rightarrow> [] | Inr (host, _) \<Rightarrow> host);
            host = (if h = [] then dest else h) in
        case find (\<lambda>rule. Proxy_matchRule rule host) rules of
          Some rule \<Rightarrow> sr_Action rule = ''proxy''
        | None \<Rightarrow> True)"

definition proxy_iran_v4 :: "(bytes \<times> nat) list" where
  "proxy_iran_v4 = [
      ([2, 144, 0, 0], 14), ([2, 176, 0, 0], 12), ([5, 22, 0, 0], 17), ([5, 52, 0, 0], 15), ([5, 160, 0, 0], 16),
      ([5, 200, 0, 0], 16), ([31, 2, 0, 0], 17), ([31, 56, 0, 0], 14), ([37, 32, 0, 0], 14), ([37, 114, 192, 0], 18),
      ([37, 137, 0, 0], 16), ([37, 148, 0, 0], 17), ([37, 156, 0, 0], 16), ([46, 18, 248, 0], 21), ([46, 21, 80, 0], 21),
      ([46, 34, 160, 0], 19), ([46, 36, 96, 0], 20), ([46, 38, 128, 0], 17), ([46, 41, 192, 0], 18), ([46, 62, 128, 0], 17),
      ([46, 100, 0, 0], 16), ([46, 143, 0, 0], 17), ([46, 164, 0, 0], 16), ([46, 182, 32, 0], 19), ([46, 209, 0, 0], 16),
      ([46, 224, 0, 0], 15), ([46, 235, 0, 0], 17), ([46, 245, 0, 0], 17), ([46, 249, 96, 0], 21), ([46, 251, 224, 0], 24),
      ([62, 60, 128, 0], 17), ([62, 102, 128, 0], 20), ([62, 220, 96, 0], 19), ([65, 20, 0, 0], 17), ([66, 79, 96, 0], 19),
      ([69, 194, 64, 0], 18), ([77, 36, 128, 0], 17), ([77, 81, 128, 0], 20), ([77, 104, 64, 0], 18), ([78, 38, 0, 0], 15),
      ([78, 109, 192, 0], 20), ([78, 111, 0, 0], 20), ([80, 66, 176, 0], 20), ([80, 71, 112, 0], 20), ([80, 75, 0, 0], 20),
      ([80, 191, 0, 0], 16), ([80, 210, 0, 0], 16), ([80, 253, 128, 0], 19), ([81, 12, 0, 0], 17), ([81, 16, 112, 0], 20),
      ([81, 28, 32, 0], 19), ([81, 29, 240, 0], 20), ([81, 31, 160, 0], 19), ([81, 90, 144, 0], 20), ([81, 91, 128, 0], 17),
      ([81, 92, 216, 0], 21), ([82, 99, 192, 0], 18), ([82, 138, 140, 0], 25), ([83, 120, 0, 0], 14), ([83, 147, 192, 0], 18),
      ([84, 47, 192, 0], 18), ([84, 241, 0, 0], 18), ([85, 9, 64, 0], 18), ([85, 15, 0, 0], 17), ([85, 133, 0, 0], 16),
      ([85, 185, 0, 0], 16), ([85, 198, 48, 0], 20), ([86, 55, 0, 0], 16), ([86, 104, 32, 0], 20), ([86, 106, 142, 0], 24),
      ([86, 107, 0, 0], 20), ([86, 109, 32, 0], 19), ([87, 107, 0, 0], 16), ([87, 236, 208, 0], 21), ([87, 247, 168, 0], 21),
      ([88, 131, 240, 0], 20), ([88, 135, 32, 0], 20), ([89, 32, 0, 0], 18), ([89, 34, 32, 0], 19), ([89, 34, 128, 0], 18),
      ([89, 38, 80, 0], 20), ([89, 39, 208, 0], 20), ([89, 42, 32, 0], 21), ([89, 42, 208, 0], 22), ([89, 43, 0, 0], 21),
      ([89, 165, 0, 0], 17), ([89, 196, 0, 0], 16), ([89, 219, 64, 0], 18), ([89, 235, 64, 0], 18), ([91, 92, 104, 0], 21),
      ([91, 98, 0, 0], 16), ([91, 99, 0, 0], 16), ([91, 106, 64, 0], 19), ([91, 107, 128, 0], 21), ([91, 108, 128, 0], 18),
      ([91, 109, 104, 0], 21), ([91, 133, 128, 0], 17), ([91, 184, 64, 0], 19), ([91, 185, 128, 0], 19), ([91, 186, 192, 0], 19),
      ([91, 187, 0, 0], 19), ([91, 199, 9, 0], 24), ([91, 209, 96, 0], 21), ([91, 220, 79, 0], 24), ([91, 220, 243, 0], 24),
      ([91, 222, 196, 0], 22), ([91, 224, 20, 0], 23), ([91, 225, 52, 0], 22), ([91, 226, 0, 0], 22), ([91, 227, 84, 0], 22),
      ([91, 228, 22, 0], 23), ([91, 229, 46, 0], 23), ([91, 232, 64, 0], 22), ([91, 236, 168, 0], 23), ([91, 237, 254, 0], 23),
      ([91, 238, 0, 0], 21), ([91, 239, 14, 0], 24), ([91, 240, 60, 0], 22), ([91, 240, 180, 0], 22), ([91, 241, 20, 0], 22),
      ([91, 242, 44, 0], 22), ([91, 243, 126, 0], 23), ([91, 244, 120, 0], 22), ([91, 245, 228, 0], 22), ([91, 247, 171, 0], 24),
      ([91, 247, 174, 0], 24), ([91, 248, 0, 0], 21), ([91, 250, 224, 0], 20), ([91, 251, 0, 0], 16), ([92, 42, 48, 0], 21),
      ([92, 43, 160, 0], 22), ([92, 61, 176, 0], 20), ([92, 114, 16, 0], 20), ([93, 110, 0, 0], 16), ([93, 113, 224, 0], 20),
      ([93, 114, 16, 0], 20), ([93, 115, 224, 0], 21), ([93, 117, 0, 0], 16), ([93, 118, 96, 0], 19), ([93, 119, 32, 0], 19),
      ([93, 126, 0, 0], 18), ([94, 24, 0, 0], 17), ([94, 74, 128, 0], 17), ([94, 101, 128, 0], 20), ([94, 139, 160, 0], 19),
      ([94, 176, 8, 0], 21), ([94, 177, 64, 0], 18), ([94, 182, 0, 0], 15), ([94, 184, 0, 0], 16), ([94, 199, 136, 0], 22),
      ([95, 38, 0, 0], 16), ([95, 64, 0, 0], 17), ([95, 80, 128, 0], 18), ([95, 81, 64, 0], 18), ([95, 142, 224, 0], 20),
      ([95, 156, 220, 0], 22), ([95, 162, 0, 0], 16)]"

definition LoadDefaultIranRules :: "SplitRule list \<Rightarrow> SplitRule list" where
  "LoadDefaultIranRules rules =
     rules @ map (\<lambda>(ip, n). \<lparr>sr_Type = ''cidr'', sr_Value = cidr_text ip n, sr_Action = ''direct''\<rparr>) proxy_iran_v4 @
     map (\<lambda>d. \<lparr>sr_Type = ''domain'', sr_Value = d, sr_Action = ''direct''\<rparr>)
       [''.ir'', ''.co.ir'', ''.ac.ir'', ''.sch.ir'', ''.gov.ir'']"

subsection \<open>Decisions by leading bits\<close>

definition in_prefix :: "bytes \<Rightarrow> bytes \<times> nat \<Rightarrow> bool" where
  "in_prefix y r = (case r of (ip, n) \<Rightarrow> drop_bit (32 - n) (ipv4_num y) = drop_bit (32 - n) (ipv4_num ip))"

definition v4_ranges :: "(bytes \<times> nat) list \<Rightarrow> bool" where
  "v4_ranges rs \<longleftrightarrow> list_all (\<lambda>(ip, n). length ip = 4 \<and> n \<le> 32) rs"

lemma ranges_ok: "v4_ranges iran_v4" "v4_ranges private_v4" "v4_ranges lan_v4" "v4_ranges proxy_iran_v4"
  by (simp_all add: v4_ranges_def iran_v4_def private_v4_def lan_v4_def proxy_iran_v4_def)

lemma range_contains:
  assumes "length ip = 4" "n \<le> 32" "To4 x = Some y"
  shows "(case ParseCIDR (cidr_text ip n) of None \<Rightarrow> False | Some cidr \<Rightarrow> Contains cidr x) \<longleftrightarrow> in_prefix y (ip, n)"
  using ParseCIDR_text [OF assms(1,2)] cidr_contains [OF assms ParseCIDR_text [OF assms(1,2)]]
  by (simp add: in_prefix_def)

lemma list_ex_map_filter:
  "list_ex P (List.map_filter f xs) \<longleftrightarrow> list_ex (\<lambda>x. case f x of None \<Rightarrow> False | Some y \<Rightarrow> P y) xs"
  by (induction xs) (auto simp: List.map_filter_def split: option.splits)

lemma ranges_contain:
  assumes "v4_ranges rs" "To4 x = Some y"
  shows "list_ex (\<lambda>r. case ParseCIDR r of None \<Rightarrow> False | Some cidr \<Rightarrow> Contains cidr x) (map (\<lambda>(ip, n). cidr_text ip n) rs) \<longleftrightarrow>
       list_ex (in_prefix y) rs"
  using assms(1)
proof (induction rs)
  case (Cons r rs)
  obtain ip n where r: "r = (ip, n)" by (cases r)
  then show ?case
    using Cons range_contains [OF _ _ assms(2), of ip n] by (simp add: v4_ranges_def)
qed simp

lemma append_cidrs_contain:
  assumes "v4_ranges rs" "To4 x = Some y"
  shows "list_ex (\<lambda>cidr. Contains cidr x) (append_cidrs (map (\<lambda>(ip, n). cidr_text ip n) rs) nets) \<longleftrightarrow>
    list_ex (\<lambda>cidr. Contains cidr x) nets \<or> list_ex (in_prefix y) rs"
  using ranges_contain [OF assms] by (simp add: append_cidrs_def list_ex_map_filter)

lemma v6_not_contains:
  assumes "length (nt_IP net) = 16" "length (nt_Mask net) = 16" "To4 (nt_IP net) = None" "To4 x = Some y"
  shows "\<not> Contains net x"
proof -
  have "length y = 4"
    using assms(4) by (auto simp: To4_def split: if_splits)
  then show ?thesis
    using assms by (simp add: Contains_def networkNumberAndMask_def)
qed

lemma parse_v6_loopback: "ParseAddr ''::1'' = Some (replicate 14 0 @ [0, 1])"
  by (simp add: ParseAddr_def parse_ipv6_def colon_def dot_def ipv6_loop.simps hex_val_def hex_group_def expand_ipv6_def
      len16_def byte_of_def Let_def)

lemma parse_v6_link_local: "ParseAddr ''fe80::'' = Some ([0xfe, 0x80] @ replicate 14 0)"
  by (simp add: ParseAddr_def parse_ipv6_def colon_def dot_def ipv6_loop.simps hex_val_def hex_group_def expand_ipv6_def
      len16_def byte_of_def Let_def)

lemma v4_mapped_nth:
  assumes "is_v4_mapped ip" "12 \<le> length ip" shows "ip ! 0 = 0" "ip ! 10 = 0xff"
proof -
  have "take 12 ip ! 0 = (replicate 10 0 @ [0xff, 0xff]) ! 0" "take 12 ip ! 10 = (replicate 10 0 @ [0xff, 0xff]) ! 10"
    using assms(1) by (simp_all only: is_v4_mapped_def)
  then show "ip ! 0 = 0" "ip ! 10 = 0xff"
    using assms(2) by (simp_all add: nth_append)
qed

lemma mask_nth: "i < length ip \<Longrightarrow> mask_bytes ip (CIDRMask n (length ip)) ! i = ip ! i AND NOT (drop_bit (min 8 (n - 8 * i)) 0xff)"
  by (simp add: mask_bytes_def CIDRMask_def)

lemma v6_ranges_skip_v4:
  assumes "To4 x = Some y" "r \<in> {''::1/128'', ''fe80::/10''}"
  shows "\<not> (case ParseCIDR r of None \<Rightarrow> False | Some cidr \<Rightarrow> Contains cidr x)"
proof -
  have miss: "\<not> Contains \<lparr>nt_IP = mask_bytes ip (CIDRMask n 16), nt_Mask = CIDRMask n 16\<rparr> x"
    if "length ip = 16" "mask_bytes ip (CIDRMask n 16) ! 0 \<noteq> 0 \<or> mask_bytes ip (CIDRMask n 16) ! 10 \<noteq> 0xff" for ip n
    using that v4_mapped_nth [of "mask_bytes ip (CIDRMask n 16)"]
    by (intro v6_not_contains [OF _ _ _ assms(1)]) (auto simp: To4_def)
  show ?thesis
  proof (cases "r = ''::1/128''")
    case True
    have "mask_bytes (replicate 14 0 @ [0, 1]) (CIDRMask 128 16) ! 10 = 0"
      using mask_nth [of 10 "replicate 14 0 @ [0, 1]" 128] by (simp add: nth_append)
    then show ?thesis
      using miss [of "replicate 14 0 @ [0, 1]" 128] True
      by (simp add: ParseCIDR_def parse_v6_loopback is_digit_def nat_of_digits_def digit_val_def Let_def)
  next
    case False
    then have r: "r = ''fe80::/10''"
      using assms(2) by simp
    have "mask_bytes ([0xfe, 0x80] @ replicate 14 0) (CIDRMask 10 16) ! 0 = 0xfe"
      using mask_nth [of 0 "[0xfe, 0x80] @ replicate 14 0" 10] by simp
    then show ?thesis
      using miss [of "[0xfe, 0x80] @ replicate 14 0" 10] r
      by (simp add: ParseCIDR_def parse_v6_link_local is_digit_def nat_of_digits_def digit_val_def Let_def)
  qed
qed

lemma isLocalIP_v4:
  assumes "To4 x = Some y"
  shows "isLocalIP st x \<longleftrightarrow> list_ex (\<lambda>cidr. Contains cidr x) (sl_customIPs st) \<or> list_ex (in_prefix y) private_v4"
  unfolding isLocalIP_def privateRanges_def list_ex_append ranges_contain [OF ranges_ok(2) assms]
  using v6_ranges_skip_v4 [OF assms] by simp

lemma lan_private: "list_ex (in_prefix y) lan_v4 \<Longrightarrow> list_ex (in_prefix y) private_v4"
  by (simp add: lan_v4_def private_v4_def) blast

lemma ShouldTunnel_by_address:
  "sl_mode st \<in> {ModeBypassIR, ModeOnlyForeign} \<Longrightarrow>
     ShouldTunnel st destIP destPort domain \<longleftrightarrow> \<not> isIranIP st destIP \<and> \<not> isLocalIP st destIP"
  by (auto simp: ShouldTunnel_def mode_defs)

lemma NewSplitTunnel_default:
  assumes "sg_Mode cfg \<in> {ModeBypassIR, ModeOnlyForeign}" "sg_IRListFile cfg = []"
  shows "sl_mode (NewSplitTunnel fs cfg) = sg_Mode cfg"
    "sl_irCIDRs (NewSplitTunnel fs cfg) = append_cidrs (map (\<lambda>(ip, n). cidr_text ip n) iran_v4) []"
    "sl_customIPs (NewSplitTunnel fs cfg) =
       (if sg_BypassLAN cfg then append_cidrs (map (\<lambda>(ip, n). cidr_text ip n) lan_v4) [] else [])"
proof -
  have m: "sg_Mode cfg \<noteq> []" "sg_Mode cfg = ModeBypassIR \<or> sg_Mode cfg = ModeOnlyForeign"
    using assms(1) by (auto simp: mode_defs)
  show "sl_mode (NewSplitTunnel fs cfg) = sg_Mode cfg"
    "sl_irCIDRs (NewSplitTunnel fs cfg) = append_cidrs (map (\<lambda>(ip, n). cidr_text ip n) iran_v4) []"
    "sl_customIPs (NewSplitTunnel fs cfg) =
       (if sg_BypassLAN cfg then append_cidrs (map (\<lambda>(ip, n). cidr_text ip n) lan_v4) [] else [])"
    using m assms(2) by (simp_all add: NewSplitTunnel_def loadDefaultIRRanges_def addLANBypass_def Let_def)
qed

subsection \<open>Properties\<close>

text \<open>
  C40: With the built-in address list, the router's textual, byte-wise masked matching amounts to
  comparing leading bits: in the two address-based modes an IPv4 destination, in either of its two
  representations, goes direct if and only if its leading bits are those of one of the 74 built-in
  ranges or of a private range, whatever its port and name.
\<close>

theorem split_tunnel_by_prefix:
  assumes "sg_Mode cfg \<in> {ModeBypassIR, ModeOnlyForeign}" "sg_IRListFile cfg = []" "To4 destIP = Some y"
  shows "ShouldTunnel (NewSplitTunnel fs cfg) destIP destPort domain \<longleftrightarrow>
    \<not> (\<exists>(ip, n) \<in> set (iran_v4 @ private_v4). drop_bit (32 - n) (ipv4_num y) = drop_bit (32 - n) (ipv4_num ip))"
proof -
  let ?st = "NewSplitTunnel fs cfg"
  note st = NewSplitTunnel_default [OF assms(1,2), of fs]
  have ir: "isIranIP ?st destIP \<longleftrightarrow> list_ex (in_prefix y) iran_v4"
    unfolding isIranIP_def st(2) append_cidrs_contain [OF ranges_ok(1) assms(3)] by simp
  have "list_ex (\<lambda>cidr. Contains cidr destIP) (sl_customIPs ?st) \<Longrightarrow> list_ex (in_prefix y) lan_v4"
    unfolding st(3) using append_cidrs_contain [OF ranges_ok(3) assms(3), of "[]"] by (cases "sg_BypassLAN cfg") simp_all
  then have loc: "isLocalIP ?st destIP \<longleftrightarrow> list_ex (in_prefix y) private_v4"
    unfolding isLocalIP_v4 [OF assms(3)] using lan_private by blast
  have "ShouldTunnel ?st destIP destPort domain \<longleftrightarrow> \<not> isIranIP ?st destIP \<and> \<not> isLocalIP ?st destIP"
    by (rule ShouldTunnel_by_address) (use st(1) assms(1) in simp)
  then show ?thesis
    unfolding ir loc by (simp add: list_ex_iff in_prefix_def) blast
qed

theorem split_tunnel_by_prefix_witness:
  "\<not> ShouldTunnel (NewSplitTunnel (\<lambda>_. None) \<lparr>sg_Mode = ModeBypassIR, sg_Rules = [], sg_IRListFile = [], sg_BypassLAN = True\<rparr>)
       [127, 0, 0, 1] 80 ''localhost''"
proof -
  have "drop_bit (32 - 8) (ipv4_num [127, 0, 0, 1]) = drop_bit (32 - 8) (ipv4_num [127, 0, 0, 0])"
    by (simp add: ipv4_num_def int32_def push_bit_eq_mult drop_bit_eq_div)
  then have "\<exists>(ip, n) \<in> set (iran_v4 @ private_v4). drop_bit (32 - n) (ipv4_num [127, 0, 0, 1]) = drop_bit (32 - n) (ipv4_num ip)"
    by (intro bexI [of _ "([127, 0, 0, 0], 8)"]) (auto simp: private_v4_def)
  then show ?thesis
    using split_tunnel_by_prefix [of "\<lparr>sg_Mode = ModeBypassIR, sg_Rules = [], sg_IRListFile = [], sg_BypassLAN = True\<rparr>"
        "[127, 0, 0, 1]" "[127, 0, 0, 1]" "\<lambda>_. None" 80 "''localhost''"]
    by (simp add: To4_def)
qed

text \<open>
  The first matching rule with a known action decides, in the order in which the rules were added:
  the priorities play no role.
\<close>

lemma evaluateRules_first:
  assumes "rules = before @ rule # after" "matchRule rule ip port domn" "ru_Action rule \<in> {''tunnel'', ''direct'', ''block''}"
    and "\<forall>r \<in> set before. \<not> matchRule r ip port domn"
  shows "evaluateRules rules ip port domn \<longleftrightarrow> ru_Action rule = ''tunnel''"
  using assms
proof (induction before arbitrary: rules)
  case Nil
  then show ?case by auto
next
  case (Cons b bs)
  then have "evaluateRules (bs @ rule # after) ip port domn \<longleftrightarrow> ru_Action rule = ''tunnel''"
    by simp
  then show ?case
    using Cons.prems by simp
qed

text \<open>A port range matches its first port only: the number before the dash already is a match.\<close>

lemma scan_d_itoa:
  assumes "int a \<le> max_int" "rest = [] \<or> \<not> is_digit (hd rest)"
  shows "scan_d (itoa a @ rest) = Some (int a, rest)"
proof -
  have ne: "itoa a \<noteq> []" "is_digit (hd (itoa a))"
    using itoa_all_digits [of a] by (auto simp: list_all_iff)
  then have sp: "dropWhile (\<lambda>ch. is_space ch \<and> ch \<noteq> CHR 0x0A) (itoa a @ rest) = itoa a @ rest"
    using is_digit_not_special [OF ne(2)] by (cases "itoa a") auto
  have sg: "hd (itoa a) \<noteq> CHR ''-''" "hd (itoa a) \<noteq> CHR ''+''"
    using is_digit_not_special [OF ne(2)] by auto
  have tw: "takeWhile is_digit (itoa a @ rest) = itoa a"
    using itoa_all_digits [of a] assms(2) by (cases rest) (auto simp: list_all_iff takeWhile_append)
  show ?thesis
    using assms(1) by (simp add: scan_d_def sp sg tw nat_of_digits_itoa Let_def min_int_def)
qed

lemma port_range_matches_low_only:
  assumes "int a \<le> max_int"
  shows "matchPort (itoa a @ CHR ''-'' # itoa b) port \<longleftrightarrow> port = int a"
  using scan_d_itoa [OF assms, of "CHR ''-'' # itoa b"] by (auto simp: matchPort_def is_digit_def)

text \<open>A rule of the proxy's default list sends the addresses of its range direct.\<close>

lemma ShouldProxy_default_direct:
  assumes "(ip, n) \<in> set proxy_iran_v4" "length y = 4" "in_prefix y (ip, n)"
  shows "\<not> ShouldProxy (LoadDefaultIranRules []) (join_port (ipv4_string y) (itoa port))"
proof -
  let ?rules = "LoadDefaultIranRules []"
  let ?rule = "\<lparr>sr_Type = ''cidr'', sr_Value = cidr_text ip n, sr_Action = ''direct''\<rparr>"
  have host: "SplitHostPort (join_port (ipv4_string y) (itoa port)) = Inr (ipv4_string y, itoa port)" "ipv4_string y \<noteq> []"
    using SplitHostPort_plain itoa_no_punct ipv4_string_no_punct by (simp_all add: ipv4_string_def)
  have t4: "To4 (As16 y) = Some y"
    using assms(2) by (simp add: To4_def As16_def is_v4_mapped_def v4_prefix_def)
  have ip: "length ip = 4" "n \<le> 32"
    using assms(1) ranges_ok(4) by (auto simp: v4_ranges_def list_all_iff)
  have "Proxy_matchRule ?rule (ipv4_string y)"
    using range_contains [OF ip t4] assms(3) ParseAddr_ipv4_string [OF assms(2)] ParseCIDR_text [OF ip]
    by (simp add: Proxy_matchRule_def ParseIP_def)
  moreover have "?rule \<in> set ?rules"
    using assms(1) by (force simp: LoadDefaultIranRules_def)
  ultimately obtain r where r: "find (\<lambda>rule. Proxy_matchRule rule (ipv4_string y)) ?rules = Some r"
    by (metis find_None_iff not_Some_eq)
  then have "r \<in> set ?rules"
    by (metis find_Some_iff nth_mem)
  then have "sr_Action r = ''direct''"
    by (auto simp: LoadDefaultIranRules_def)
  moreover have "?rules \<noteq> []"
    by (simp add: LoadDefaultIranRules_def)
  ultimately show ?thesis
    using host r by (simp add: ShouldProxy_def)
qed

end
