(* ===== verification/Heartbeat.thy ===== *)
theory Heartbeat
  imports Prelude
begin

text \<open>
  internal/stability/heartbeat.go: the monitor that pings every session and declares it dead, and
  the way internal/client/client.go uses it. The sessions are independent of each other, so a round of
  pings is described per session; the moving average of the round-trip time, computed in floating
  point, is the parameter \<open>ema\<close>.
\<close>

subsection \<open>State\<close>

record sessionHealth =
  sh_lastPong :: time
  sh_lastPing :: time
  sh_rtt :: int
  sh_avgRTT :: int
  sh_missed :: int
  sh_alive :: bool
  sh_pongChan :: bool

record HbConfig =
  hc_Interval :: time
  hc_Timeout :: time
  hc_MaxMissed :: int

record Heartbeat =
  hm_interval :: time
  hm_timeout :: time
  hm_maxMissed :: int
  hm_sessions :: "int \<rightharpoonup> sessionHealth"

definition NewHeartbeat :: "HbConfig \<Rightarrow> Heartbeat" where
  "NewHeartbeat cfg =
     \<lparr>hm_interval = (if hc_Interval cfg = 0 then 5 * second else hc_Interval cfg),
      hm_timeout = (if hc_Timeout cfg = 0 then 10 * second else hc_Timeout cfg),
      hm_maxMissed = (if hc_MaxMissed cfg = 0 then 3 else hc_MaxMissed cfg),
      hm_sessions = Map.empty\<rparr>"

definition new_health :: "time \<Rightarrow> sessionHealth" where
  "new_health now = \<lparr>sh_lastPong = now, sh_lastPing = 0, sh_rtt = 0, sh_avgRTT = 0, sh_missed = 0, sh_alive = True, sh_pongChan = False\<rparr>"

definition Hb_Register :: "time \<Rightarrow> int \<Rightarrow> Heartbeat \<Rightarrow> Heartbeat" where
  "Hb_Register now sid h = h\<lparr>hm_sessions := (hm_sessions h)(sid \<mapsto> new_health now)\<rparr>"

definition Hb_Unregister :: "int \<Rightarrow> Heartbeat \<Rightarrow> Heartbeat" where
  "Hb_Unregister sid h = h\<lparr>hm_sessions := (hm_sessions h)(sid := None)\<rparr>"

subsection \<open>Pongs and pings\<close>

definition record_pong :: "(int \<Rightarrow> int \<Rightarrow> int) \<Rightarrow> time \<Rightarrow> sessionHealth \<Rightarrow> sessionHealth" where
  "record_pong ema now sh =
     (let sh1 = (if sh_lastPing sh > 0 then
                   (let rtt = now - sh_lastPing sh; oldAvg = sh_avgRTT sh in
                    sh\<lparr>sh_rtt := rtt, sh_avgRTT := (if oldAvg = 0 then rtt else ema oldAvg rtt)\<rparr>)
                 else sh)
      in sh1\<lparr>sh_lastPong := now, sh_missed := 0, sh_alive := True, sh_pongChan := True\<rparr>)"

definition Hb_RecordPong :: "(int \<Rightarrow> int \<Rightarrow> int) \<Rightarrow> time \<Rightarrow> int \<Rightarrow> Heartbeat \<Rightarrow> Heartbeat" where
  "Hb_RecordPong ema now sid h =
     (case hm_sessions h sid of
        None \<Rightarrow> h
      | Some sh \<Rightarrow> h\<lparr>hm_sessions := (hm_sessions h)(sid \<mapsto> record_pong ema now sh)\<rparr>)"

text \<open>
  One ping: the clock before it, the outcome (\<open>None\<close> without a ping function, else whether it
  succeeded) and the clock after it. The second result is how often \<open>onDead\<close> is started.
\<close>

record ping_in =
  pg_before :: time
  pg_ok :: "bool option"
  pg_after :: time

definition ping_one :: "time \<Rightarrow> int \<Rightarrow> ping_in \<Rightarrow> sessionHealth \<Rightarrow> sessionHealth \<times> nat" where
  "ping_one timeout maxMissed p sh =
     (let sh1 = sh\<lparr>sh_lastPing := pg_before p\<rparr>;
          (sh2, dead1) =
            (if pg_ok p = Some False then
               (let missed = sh_missed sh1 + 1; s = sh1\<lparr>sh_missed := missed\<rparr> in
                if missed \<ge> maxMissed then (s\<lparr>sh_alive := False\<rparr>, 1) else (s, 0))
             else (sh1, 0));
          elapsed = pg_after p - sh_lastPong sh2 in
      if elapsed > timeout * maxMissed then (sh2\<lparr>sh_alive := False\<rparr>, dead1 + 1) else (sh2, dead1))"

definition pingAll :: "(int \<Rightarrow> ping_in) \<Rightarrow> Heartbeat \<Rightarrow> Heartbeat \<times> (int \<Rightarrow> nat)" where
  "pingAll pings h =
     (h\<lparr>hm_sessions := (\<lambda>sid. map_option (\<lambda>sh. fst (ping_one (hm_timeout h) (hm_maxMissed h) (pings sid) sh)) (hm_sessions h sid))\<rparr>,
      (\<lambda>sid. case hm_sessions h sid of
               None \<Rightarrow> 0
             | Some sh \<Rightarrow> snd (ping_one (hm_timeout h) (hm_maxMissed h) (pings sid) sh)))"

definition GetRTT :: "int \<Rightarrow> Heartbeat \<Rightarrow> time" where
  "GetRTT sid h = (case hm_sessions h sid of None \<Rightarrow> 0 | Some sh \<Rightarrow> sh_avgRTT sh)"

definition IsAlive :: "int \<Rightarrow> Heartbeat \<Rightarrow> bool" where
  "IsAlive sid h = (case hm_sessions h sid of None \<Rightarrow> False | Some sh \<Rightarrow> sh_alive sh)"

subsection \<open>Histories\<close>

text \<open>What happens to one session after it was registered: rounds of pings, and pongs.\<close>

datatype hb_event = Ping ping_in | Pong time

fun hb_run :: "(int \<Rightarrow> int \<Rightarrow> int) \<Rightarrow> int \<Rightarrow> hb_event list \<Rightarrow> Heartbeat \<Rightarrow> Heartbeat" where
  "hb_run ema sid [] h = h"
| "hb_run ema sid (Ping p # es) h = hb_run ema sid es (fst (pingAll (\<lambda>_. p) h))"
| "hb_run ema sid (Pong t # es) h = hb_run ema sid es (Hb_RecordPong ema t sid h)"

text \<open>
  The specification, for the pings \<open>ps\<close> since a pong at time \<open>t\<close>: fewer than \<open>maxMissed\<close> of them
  failed and none ended later than \<open>maxMissed\<close> timeouts after the pong.
\<close>

definition failed :: "ping_in list \<Rightarrow> nat" where
  "failed ps = length (filter (\<lambda>p. pg_ok p = Some False) ps)"

definition silent_ok :: "time \<Rightarrow> int \<Rightarrow> time \<Rightarrow> ping_in list \<Rightarrow> bool" where
  "silent_ok timeout maxMissed t ps \<longleftrightarrow>
     int (failed ps) < maxMissed \<and> (\<forall>p \<in> set ps. pg_after p - t \<le> timeout * maxMissed)"

lemma hb_run_append: "hb_run ema sid (es @ fs) h = hb_run ema sid fs (hb_run ema sid es h)"
  by (induction ema sid es h rule: hb_run.induct) simp_all

lemma hb_run_frame:
  "hm_timeout (hb_run ema sid es h) = hm_timeout h \<and> hm_maxMissed (hb_run ema sid es h) = hm_maxMissed h \<and>
     (hm_sessions (hb_run ema sid es h) sid = None \<longleftrightarrow> hm_sessions h sid = None)"
  by (induction ema sid es h rule: hb_run.induct) (auto simp: pingAll_def Hb_RecordPong_def split: option.splits)

lemma ping_one_result:
  "fst (ping_one timeout maxMissed p sh) =
     sh\<lparr>sh_lastPing := pg_before p, sh_missed := sh_missed sh + int (failed [p]),
        sh_alive := (sh_alive sh \<and> \<not> (pg_ok p = Some False \<and> sh_missed sh + 1 \<ge> maxMissed) \<and>
                     pg_after p - sh_lastPong sh \<le> timeout * maxMissed)\<rparr>"
  by (cases "pg_ok p = Some False") (simp_all add: ping_one_def failed_def Let_def)

lemma pings_run:
  assumes "hm_sessions h sid = Some sh"
  shows "\<exists>sh'. hm_sessions (hb_run ema sid (map Ping ps) h) sid = Some sh' \<and> sh_lastPong sh' = sh_lastPong sh \<and>
    (sh_alive sh' \<longleftrightarrow> sh_alive sh \<and> (failed ps = 0 \<or> sh_missed sh + int (failed ps) < hm_maxMissed h) \<and>
       (\<forall>p \<in> set ps. pg_after p - sh_lastPong sh \<le> hm_timeout h * hm_maxMissed h))"
  using assms
proof (induction ps arbitrary: h sh)
  case (Cons p ps)
  let ?h = "fst (pingAll (\<lambda>_. p) h)"
  let ?sh = "fst (ping_one (hm_timeout h) (hm_maxMissed h) p sh)"
  have "hm_sessions ?h sid = Some ?sh"
    using Cons.prems by (simp add: pingAll_def)
  from Cons.IH [OF this] obtain sh' where
    "hm_sessions (hb_run ema sid (map Ping ps) ?h) sid = Some sh'" "sh_lastPong sh' = sh_lastPong sh"
    and a: "sh_alive sh' \<longleftrightarrow> sh_alive ?sh \<and> (failed ps = 0 \<or> sh_missed ?sh + int (failed ps) < hm_maxMissed h) \<and>
       (\<forall>q \<in> set ps. pg_after q - sh_lastPong sh \<le> hm_timeout h * hm_maxMissed h)"
    by (auto simp: pingAll_def ping_one_result)
  moreover have "sh_alive ?sh \<and> (failed ps = 0 \<or> sh_missed ?sh + int (failed ps) < hm_maxMissed h) \<longleftrightarrow>
      sh_alive sh \<and> pg_after p - sh_lastPong sh \<le> hm_timeout h * hm_maxMissed h \<and>
      (failed (p # ps) = 0 \<or> sh_missed sh + int (failed (p # ps)) < hm_maxMissed h)"
    by (auto simp: ping_one_result failed_def)
  ultimately show ?case
    by auto
qed (simp add: failed_def)

subsection \<open>Properties\<close>

text \<open>
  The monitor's verdict is exact. Whatever happened before, after a pong at time \<open>t\<close> (or a
  registration at time \<open>t\<close>) followed by any rounds of pings, the session counts as alive if and only
  if fewer than the allowed number of pings failed since then and no round ended later than that
  number of timeouts after \<open>t\<close>.
\<close>

theorem heartbeat_verdict_exact:
  assumes "1 \<le> hm_maxMissed h" "hm_sessions h sid \<noteq> None"
  shows "(IsAlive sid (hb_run ema sid (es @ Pong t # map Ping ps) h) \<longleftrightarrow> silent_ok (hm_timeout h) (hm_maxMissed h) t ps) \<and>
    (IsAlive sid (hb_run ema sid (map Ping ps) (Hb_Register t sid h)) \<longleftrightarrow> silent_ok (hm_timeout h) (hm_maxMissed h) t ps)"
proof -
  have *: "IsAlive sid (hb_run ema sid (map Ping ps) h') \<longleftrightarrow> silent_ok (hm_timeout h) (hm_maxMissed h) t ps"
    if "hm_sessions h' sid = Some sh" "sh_lastPong sh = t" "sh_missed sh = 0" "sh_alive sh"
      "hm_timeout h' = hm_timeout h" "hm_maxMissed h' = hm_maxMissed h" for h' sh
    using pings_run [OF that(1), of ema ps] that assms(1) by (auto simp: IsAlive_def silent_ok_def)
  let ?h = "hb_run ema sid es h"
  obtain sh where sh: "hm_sessions ?h sid = Some sh"
    using hb_run_frame [of ema sid es h] assms(2) by auto
  have "IsAlive sid (hb_run ema sid (map Ping ps) (Hb_RecordPong ema t sid ?h)) \<longleftrightarrow> silent_ok (hm_timeout h) (hm_maxMissed h) t ps"
    using sh hb_run_frame [of ema sid es h]
    by (intro * [of _ "record_pong ema t sh"]) (simp_all add: Hb_RecordPong_def record_pong_def Let_def)
  moreover have "IsAlive sid (hb_run ema sid (map Ping ps) (Hb_Register t sid h)) \<longleftrightarrow> silent_ok (hm_timeout h) (hm_maxMissed h) t ps"
    by (intro * [of _ "new_health t"]) (simp_all add: Hb_Register_def new_health_def)
  ultimately show ?thesis
    by (simp add: hb_run_append)
qed

definition client_heartbeat :: Heartbeat where
  "client_heartbeat = NewHeartbeat \<lparr>hc_Interval = 5 * second, hc_Timeout = 10 * second, hc_MaxMissed = 3\<rparr>"

theorem heartbeat_verdict_exact_witness:
  "IsAlive 1 (hb_run (\<lambda>a b. a) 1 (map Ping [\<lparr>pg_before = 0, pg_ok = Some True, pg_after = second\<rparr>])
     (Hb_Register 0 1 (Hb_Register 0 1 client_heartbeat)))"
  using heartbeat_verdict_exact [of "Hb_Register 0 1 client_heartbeat" 1 "\<lambda>a b. a" "[]" 0
      "[\<lparr>pg_before = 0, pg_ok = Some True, pg_after = second\<rparr>]"]
  by (simp add: client_heartbeat_def NewHeartbeat_def Hb_Register_def silent_ok_def failed_def second_def)

text \<open>
  The client never reports a pong to the monitor: its ping function only reports to the quality
  monitor. So a session all of whose pings succeed is declared dead in every round that ends more
  than thirty seconds after its registration, and each time the reconnector is started.
\<close>

theorem heartbeat_kills_healthy_session:
  assumes "\<forall>q \<in> set ps. pg_ok q = Some True" "pg_ok p = Some True" "t + 30 * second < pg_after p"
  shows "\<not> IsAlive sid (hb_run ema sid (map Ping (ps @ [p])) (Hb_Register t sid client_heartbeat)) \<and>
    snd (pingAll (\<lambda>_. p) (hb_run ema sid (map Ping ps) (Hb_Register t sid client_heartbeat))) sid = 1"
proof -
  let ?h = "Hb_Register t sid client_heartbeat"
  have h: "hm_sessions ?h sid = Some (new_health t)" "hm_timeout ?h = 10 * second" "hm_maxMissed ?h = 3"
    by (simp_all add: Hb_Register_def client_heartbeat_def NewHeartbeat_def second_def)
  have "\<not> IsAlive sid (hb_run ema sid (map Ping (ps @ [p])) ?h)"
    using pings_run [OF h(1), of ema "ps @ [p]"] h(2,3) assms(3) by (auto simp: IsAlive_def new_health_def)
  moreover obtain sh' where "hm_sessions (hb_run ema sid (map Ping ps) ?h) sid = Some sh'" "sh_lastPong sh' = t"
    using pings_run [OF h(1), of ema ps] by (auto simp: new_health_def)
  moreover have "hm_timeout (hb_run ema sid (map Ping ps) ?h) = 10 * second" "hm_maxMissed (hb_run ema sid (map Ping ps) ?h) = 3"
    using hb_run_frame [of ema sid "map Ping ps" ?h] h by simp_all
  ultimately show ?thesis
    using assms(2,3) by (simp add: pingAll_def ping_one_def Let_def)
qed

theorem heartbeat_kills_healthy_session_witness:
  "\<not> IsAlive 1 (hb_run (\<lambda>a b. a) 1 (map Ping ([] @ [\<lparr>pg_before = 35 * second, pg_ok = Some True, pg_after = 35 * second\<rparr>]))
     (Hb_Register 0 1 client_heartbeat))"
  using heartbeat_kills_healthy_session [of "[]" "\<lparr>pg_before = 35 * second, pg_ok = Some True, pg_after = 35 * second\<rparr>" 0 1 "\<lambda>a b. a"]
  by (simp add: second_def)

end
