(* ===== verification/Direct_Pool.thy ===== *)
theory Direct_Pool
  imports State_Machine "HOL-Library.Word"
begin

text \<open>
  The direct pool of internal/client/client.go: ready connections kept in a channel, taken by the
  forwarders, refilled in the background and drained when the client stops. Takers, refillers and
  the closer run concurrently; each critical section, channel operation and dial is one atomic
  step. A connection is a number, given out in the order of the dials; the ghost fields say where
  every connection is.
\<close>

subsection \<open>State\<close>

datatype close_phase = NotClosing | Closing | Draining

record direct_pool =
  dp_chan :: "nat list"
  dp_chanClosed :: bool
  dp_nil :: bool
  dp_closed :: bool
  dp_size :: nat
  dp_phase :: close_phase
  dp_panic :: bool
  dp_next :: nat
  dp_inflight :: "nat set"
  dp_handed :: "nat set"
  dp_released :: "nat set"

text \<open>
  \<open>initDirectPool\<close>: \<open>dials\<close> are the outcomes of the first dials. The channel has room for twice the
  pool size, so the sends never block.
\<close>

definition poolSize :: "int \<Rightarrow> nat" where
  "poolSize cfgSize = (if cfgSize \<le> 0 then 16 else nat cfgSize)"

definition initDirectPool :: "int \<Rightarrow> (nat \<Rightarrow> bool) \<Rightarrow> direct_pool option" where
  "initDirectPool cfgSize dials =
     (let connected = length (filter dials [0..<poolSize cfgSize]) in
      if connected = 0 then None
      else Some \<lparr>dp_chan = [0..<connected], dp_chanClosed = False, dp_nil = False, dp_closed = False,
        dp_size = poolSize cfgSize, dp_phase = NotClosing, dp_panic = False, dp_next = connected,
        dp_inflight = {}, dp_handed = {}, dp_released = {}\<rparr>)"

subsection \<open>Critical sections and channel operations\<close>

text \<open>A dial with its handshake, made by a refiller or by a taker that found nothing in the channel.\<close>

definition dial_refill :: "direct_pool \<Rightarrow> direct_pool" where
  "dial_refill s = s\<lparr>dp_inflight := insert (dp_next s) (dp_inflight s), dp_next := Suc (dp_next s)\<rparr>"

definition dial_take :: "direct_pool \<Rightarrow> direct_pool" where
  "dial_take s = s\<lparr>dp_handed := insert (dp_next s) (dp_handed s), dp_next := Suc (dp_next s)\<rparr>"

text \<open>
  \<open>putDirectConn\<close> under the mutex, with the result it returns; a send on a closed channel is a panic.
  \<open>refillPool\<close> closes the connection that was not taken.
\<close>

definition putDirectConn :: "nat \<Rightarrow> direct_pool \<Rightarrow> bool \<times> direct_pool" where
  "putDirectConn conn s =
     (if dp_closed s \<or> dp_nil s then (False, s)
      else if dp_chanClosed s then (False, s\<lparr>dp_panic := True\<rparr>)
      else if length (dp_chan s) < 2 * dp_size s then (True, s\<lparr>dp_chan := dp_chan s @ [conn]\<rparr>)
      else (False, s))"

definition refill_put :: "nat \<Rightarrow> direct_pool \<Rightarrow> direct_pool" where
  "refill_put conn s =
     (case putDirectConn conn s of
        (ok, s1) \<Rightarrow>
          let s2 = s1\<lparr>dp_inflight := dp_inflight s1 - {conn}\<rparr> in
          if ok then s2 else s2\<lparr>dp_released := insert conn (dp_released s2)\<rparr>)"

text \<open>
  \<open>getDirectConn\<close>: the receive, possible for a taker that read the channel before it was set to nil,
  takes the oldest connection; with nothing to receive the taker dials.
\<close>

definition getDirectConn :: "direct_pool \<Rightarrow> direct_pool" where
  "getDirectConn s =
     (case dp_chan s of
        c # cs \<Rightarrow> s\<lparr>dp_chan := cs, dp_handed := insert c (dp_handed s)\<rparr>
      | [] \<Rightarrow> dial_take s)"

text \<open>\<open>closeDirectPool\<close>: the section under the mutex, closing the channel, and one turn of the drain loop.\<close>

definition closeDirectPool :: "direct_pool \<Rightarrow> direct_pool" where
  "closeDirectPool s =
     (if dp_closed s \<or> dp_nil s then s else s\<lparr>dp_closed := True, dp_nil := True, dp_phase := Closing\<rparr>)"

definition close_chan :: "direct_pool \<Rightarrow> direct_pool" where
  "close_chan s = (if dp_chanClosed s then s\<lparr>dp_panic := True\<rparr> else s\<lparr>dp_chanClosed := True, dp_phase := Draining\<rparr>)"

definition drain_one :: "direct_pool \<Rightarrow> direct_pool" where
  "drain_one s =
     (case dp_chan s of
        c # cs \<Rightarrow> s\<lparr>dp_chan := cs, dp_released := insert c (dp_released s)\<rparr>
      | [] \<Rightarrow> s)"

text \<open>The number of connections one tick of \<open>maintainDirectPool\<close> asks for.\<close>

definition refill_needed :: "direct_pool \<Rightarrow> nat" where
  "refill_needed s =
     (let current = (if dp_nil s then 0 else length (dp_chan s)) in
      if dp_closed s then 0
      else if current < dp_size s div 2 then dp_size s - current else 0)"

inductive dp_step :: "direct_pool \<Rightarrow> direct_pool \<Rightarrow> bool" where
  dials: "dp_step s (dial_refill s)"
| puts: "conn \<in> dp_inflight s \<Longrightarrow> dp_step s (refill_put conn s)"
| takes: "dp_step s (getDirectConn s)"
| take_dials: "dp_step s (dial_take s)"
| closes: "dp_step s (closeDirectPool s)"
| closes_chan: "dp_phase s = Closing \<Longrightarrow> dp_step s (close_chan s)"
| drains: "dp_phase s = Draining \<Longrightarrow> dp_step s (drain_one s)"

inductive_cases dp_stepE: "dp_step s s'"

subsection \<open>Invariant\<close>

text \<open>Four sets that partition a fifth, and moving an element from one to another.\<close>

definition parts :: "nat set \<Rightarrow> nat set \<Rightarrow> nat set \<Rightarrow> nat set \<Rightarrow> nat set \<Rightarrow> bool" where
  "parts N A B H R \<longleftrightarrow> N = A \<union> B \<union> H \<union> R \<and> A \<inter> B = {} \<and> A \<inter> H = {} \<and> A \<inter> R = {} \<and> B \<inter> H = {} \<and> B \<inter> R = {} \<and> H \<inter> R = {}"

lemma parts_fresh: "parts {0..<n} A B H R \<Longrightarrow> n \<notin> A \<and> n \<notin> B \<and> n \<notin> H \<and> n \<notin> R"
  unfolding parts_def by (metis UnCI atLeastLessThan_iff less_irrefl)

lemma parts_new:
  assumes "parts {0..<n} A B H R"
  shows "parts {0..<Suc n} A (insert n B) H R" "parts {0..<Suc n} A B (insert n H) R"
  using parts_fresh [OF assms] assms unfolding parts_def atLeast0_lessThan_Suc by auto

lemma parts_put: "parts N A B H R \<Longrightarrow> c \<in> B \<Longrightarrow> parts N (insert c A) (B - {c}) H R"
  unfolding parts_def by auto

lemma parts_drop: "parts N A B H R \<Longrightarrow> c \<in> B \<Longrightarrow> parts N A (B - {c}) H (insert c R)"
  unfolding parts_def by auto

lemma parts_take: "parts N (insert c A) B H R \<Longrightarrow> c \<notin> A \<Longrightarrow> parts N A B (insert c H) R"
  unfolding parts_def by auto

lemma parts_drain: "parts N (insert c A) B H R \<Longrightarrow> c \<notin> A \<Longrightarrow> parts N A B H (insert c R)"
  unfolding parts_def by auto

text \<open>Every connection ever dialled is in exactly one place.\<close>

definition located :: "direct_pool \<Rightarrow> bool" where
  "located s \<longleftrightarrow>
     parts {0..<dp_next s} (set (dp_chan s)) (dp_inflight s) (dp_handed s) (dp_released s) \<and> distinct (dp_chan s)"

definition closing_ok :: "direct_pool \<Rightarrow> bool" where
  "closing_ok s \<longleftrightarrow>
     (dp_closed s \<longleftrightarrow> dp_phase s \<noteq> NotClosing) \<and> (dp_nil s \<longleftrightarrow> dp_closed s) \<and>
     (dp_chanClosed s \<longleftrightarrow> dp_phase s = Draining) \<and> \<not> dp_panic s \<and> length (dp_chan s) \<le> 2 * dp_size s"

definition dp_init :: "direct_pool \<Rightarrow> bool" where
  "dp_init s \<longleftrightarrow> (\<exists>cfgSize dials. initDirectPool cfgSize dials = Some s)"

lemma dp_init_inv: "dp_init s \<Longrightarrow> located s \<and> closing_ok s"
proof -
  assume "dp_init s"
  then obtain cfgSize dials where "initDirectPool cfgSize dials = Some s"
    by (auto simp: dp_init_def)
  moreover have "length (filter dials [0..<poolSize cfgSize]) \<le> 2 * poolSize cfgSize"
    using length_filter_le [of dials "[0..<poolSize cfgSize]"] by simp
  ultimately show ?thesis
    by (auto simp: initDirectPool_def located_def parts_def closing_ok_def Let_def split: if_splits)
qed

lemma located_dial_refill: "located s \<Longrightarrow> located (dial_refill s)"
  by (simp add: located_def dial_refill_def parts_new)

lemma located_dial_take: "located s \<Longrightarrow> located (dial_take s)"
  by (simp add: located_def dial_take_def parts_new)

lemma refill_put_cases:
  "\<exists>b. refill_put conn s = s\<lparr>dp_chan := dp_chan s @ [conn], dp_inflight := dp_inflight s - {conn}\<rparr> \<or>
     refill_put conn s = s\<lparr>dp_panic := b, dp_inflight := dp_inflight s - {conn}, dp_released := insert conn (dp_released s)\<rparr>"
proof (cases "dp_closed s \<or> dp_nil s")
  case True
  then show ?thesis
    by (intro exI [of _ "dp_panic s"] disjI2) (simp add: refill_put_def putDirectConn_def)
next
  case open_pool: False
  show ?thesis
  proof (cases "dp_chanClosed s")
    case True
    then show ?thesis
      using open_pool by (intro exI [of _ True] disjI2) (simp add: refill_put_def putDirectConn_def)
  next
    case False
    then show ?thesis
      using open_pool by (intro exI [of _ "dp_panic s"]) (simp add: refill_put_def putDirectConn_def)
  qed
qed

lemma located_moved:
  assumes "located s" "conn \<in> dp_inflight s"
  shows "located (s\<lparr>dp_chan := dp_chan s @ [conn], dp_inflight := dp_inflight s - {conn}\<rparr>)"
    "located (s\<lparr>dp_panic := b, dp_inflight := dp_inflight s - {conn}, dp_released := insert conn (dp_released s)\<rparr>)"
proof -
  have "conn \<notin> set (dp_chan s)"
    using assms by (auto simp: located_def parts_def)
  then show "located (s\<lparr>dp_chan := dp_chan s @ [conn], dp_inflight := dp_inflight s - {conn}\<rparr>)"
    "located (s\<lparr>dp_panic := b, dp_inflight := dp_inflight s - {conn}, dp_released := insert conn (dp_released s)\<rparr>)"
    using assms by (simp_all add: located_def parts_put parts_drop)
qed

lemma located_refill_put:
  "located s \<Longrightarrow> conn \<in> dp_inflight s \<Longrightarrow> located (refill_put conn s)"
  using refill_put_cases [of conn s] located_moved [of s conn] by fastforce

lemma located_take: "located s \<Longrightarrow> located (getDirectConn s)"
  using located_dial_take [of s]
  by (cases "dp_chan s") (auto simp: getDirectConn_def located_def intro: parts_take)

lemma located_drain: "located s \<Longrightarrow> located (drain_one s)"
  by (cases "dp_chan s") (auto simp: drain_one_def located_def intro: parts_drain)

lemma dp_step_located: "dp_step s s' \<Longrightarrow> located s \<Longrightarrow> located s'"
proof (induction rule: dp_step.induct)
  case (closes s)
  then show ?case by (simp add: closeDirectPool_def located_def)
next
  case (closes_chan s)
  then show ?case by (simp add: close_chan_def located_def)
qed (simp_all add: located_dial_refill located_dial_take located_refill_put located_take located_drain)

lemma dp_step_closing: "dp_step s s' \<Longrightarrow> closing_ok s \<Longrightarrow> closing_ok s'"
proof (induction rule: dp_step.induct)
  case (puts conn s)
  show ?case
  proof (cases "dp_closed s")
    case True
    then show ?thesis
      using puts.prems by (simp add: closing_ok_def refill_put_def putDirectConn_def)
  next
    case False
    then have "\<not> dp_nil s" "\<not> dp_chanClosed s"
      using puts.prems by (simp_all add: closing_ok_def)
    then show ?thesis
      using puts.prems False by (simp add: closing_ok_def refill_put_def putDirectConn_def)
  qed
next
  case (closes s)
  then show ?case
    by (cases "dp_closed s") (simp_all add: closing_ok_def closeDirectPool_def)
next
  case (closes_chan s)
  then show ?case
    by (simp add: closing_ok_def close_chan_def)
next
  case (takes s)
  then show ?case
    by (cases "dp_chan s") (auto simp: closing_ok_def getDirectConn_def dial_take_def)
next
  case (drains s)
  then show ?case
    by (cases "dp_chan s") (auto simp: closing_ok_def drain_one_def)
qed (simp_all add: closing_ok_def dial_refill_def dial_take_def)

interpretation direct_pool_system: inductive_invariant dp_init dp_step "\<lambda>s. located s \<and> closing_ok s"
  by unfold_locales (auto dest: dp_init_inv intro: dp_step_located dp_step_closing)

subsection \<open>Properties\<close>

text \<open>
  The direct pool loses no connection. Under every interleaving of takers, refillers and the
  closer nothing is ever sent on the closed channel, the channel never holds more than twice the pool
  size, and every connection ever dialled is in exactly one place: waiting in the channel, in the
  hands of a refiller, handed to a taker, or closed. So once the closer has drained the channel and
  the refillers are done, each connection was handed out or closed.
\<close>

theorem direct_pool_no_leak:
  assumes "reachable dp_init dp_step s"
  shows "\<not> dp_panic s \<and> length (dp_chan s) \<le> 2 * dp_size s \<and> located s \<and>
    (dp_phase s = Draining \<and> dp_chan s = [] \<and> dp_inflight s = {} \<longrightarrow>
       {0..<dp_next s} = dp_handed s \<union> dp_released s \<and> dp_handed s \<inter> dp_released s = {})"
  using direct_pool_system.reachable_inv [OF assms] by (auto simp: located_def parts_def closing_ok_def)

definition one_conn_pool :: direct_pool where
  "one_conn_pool = the (initDirectPool 1 (\<lambda>_. True))"

theorem direct_pool_no_leak_witness:
  "located (drain_one (close_chan (closeDirectPool one_conn_pool)))"
proof -
  have i: "initDirectPool 1 (\<lambda>_. True) = Some one_conn_pool"
    by (simp add: one_conn_pool_def initDirectPool_def poolSize_def)
  have "reachable dp_init dp_step one_conn_pool"
    using i by (intro reachable.reach_init) (auto simp: dp_init_def)
  then have "reachable dp_init dp_step (closeDirectPool one_conn_pool)"
    by (rule reachable.reach_step) (rule dp_step.closes)
  then have "reachable dp_init dp_step (close_chan (closeDirectPool one_conn_pool))"
    by (rule reachable.reach_step)
      (rule dp_step.closes_chan, simp add: closeDirectPool_def one_conn_pool_def initDirectPool_def poolSize_def)
  then have "reachable dp_init dp_step (drain_one (close_chan (closeDirectPool one_conn_pool)))"
    by (rule reachable.reach_step)
      (rule dp_step.drains, simp add: close_chan_def closeDirectPool_def one_conn_pool_def initDirectPool_def poolSize_def)
  then show ?thesis
    using direct_pool_no_leak by blast
qed

end
