(* ===== verification/Conn_Reader.thy ===== *)
theory Conn_Reader
  imports Prelude
begin

text \<open>
  Connections as byte sources. The decoders of the program read with \<open>io.ReadFull\<close>, which calls the
  \<open>Read\<close> of the connection until it has enough; how the bytes are cut into reads must not matter.
  The locale \<open>stream_reader\<close> states what a \<open>Read\<close> promises (a prefix of what is still to come,
  progress, and the end only at the end), and derives that \<open>io.ReadFull\<close> over it is the function
  \<open>readFull\<close> on the bytes still to come.
\<close>

text \<open>The loop of \<open>io.ReadAtLeast\<close>; \<open>None\<close> when it has not ended after \<open>fuel\<close> reads.\<close>

type_synonym 's reader = "nat \<Rightarrow> 's \<Rightarrow> (bytes \<times> 's) option"

primrec readLoop :: "nat \<Rightarrow> 's reader \<Rightarrow> nat \<Rightarrow> bytes \<Rightarrow> 's \<Rightarrow> (io_error + bytes \<times> 's) option" where
  "readLoop 0 rd n got s = (if n \<le> length got then Some (Inr (got, s)) else None)"
| "readLoop (Suc fuel) rd n got s =
     (if n \<le> length got then Some (Inr (got, s))
      else case rd (n - length got) s of
        None \<Rightarrow> Some (Inl (if got = [] then EOF else UnexpectedEOF))
      | Some (bs, s') \<Rightarrow> readLoop fuel rd n (got @ bs) s')"

definition ReadFull :: "nat \<Rightarrow> 's reader \<Rightarrow> nat \<Rightarrow> 's \<Rightarrow> (io_error + bytes \<times> 's) option" where
  "ReadFull fuel rd n s = readLoop fuel rd n [] s"

text \<open>\<open>agrees\<close>: a result over the connection is the result over the bytes it will still deliver.\<close>

definition agrees :: "('s \<Rightarrow> bytes) \<Rightarrow> 'e + 'a \<times> 's \<Rightarrow> 'e + 'a \<times> bytes \<Rightarrow> bool" where
  "agrees pending r r' \<longleftrightarrow> map_sum id (map_prod id pending) r = r'"

lemma agrees_Inl [simp]: "agrees pending (Inl e) r \<longleftrightarrow> r = Inl e"
  by (auto simp: agrees_def)

lemma agrees_Inr [simp]: "agrees pending (Inr (x, s)) r \<longleftrightarrow> r = Inr (x, pending s)"
  by (auto simp: agrees_def)

locale stream_reader =
  fixes rd :: "'s reader" and pending :: "'s \<Rightarrow> bytes" and work :: "'s \<Rightarrow> nat"
  assumes rd_prefix: "rd n s = Some (bs, s') \<Longrightarrow> pending s = bs @ pending s' \<and> length bs \<le> n"
    and rd_end: "rd n s = None \<Longrightarrow> pending s = []"
    and rd_work: "0 < n \<Longrightarrow> rd n s = Some (bs, s') \<Longrightarrow> work s' < work s"
begin

lemma readLoop_agrees:
  assumes "work s < fuel" "length got \<le> n"
  shows "\<exists>r. readLoop fuel rd n got s = Some r \<and>
    agrees pending r
      (if n \<le> length got + length (pending s)
       then Inr (got @ take (n - length got) (pending s), drop (n - length got) (pending s))
       else if got = [] \<and> pending s = [] then Inl EOF else Inl UnexpectedEOF)"
  using assms
proof (induction fuel arbitrary: got s)
  case (Suc fuel)
  show ?case
  proof (cases "n \<le> length got")
    case True
    then show ?thesis using Suc.prems(2) by simp
  next
    case more: False
    show ?thesis
    proof (cases "rd (n - length got) s")
      case None
      then show ?thesis using more rd_end [OF None] by auto
    next
      case (Some p)
      obtain bs s' where p: "p = (bs, s')" by (cases p)
      have pre: "pending s = bs @ pending s'" "length bs \<le> n - length got"
        using rd_prefix [of "n - length got" s bs s'] Some p by auto
      have "work s' < fuel"
        using rd_work [of "n - length got" s bs s'] Some p more Suc.prems(1) by simp
      moreover have "length (got @ bs) \<le> n"
        using pre(2) more by simp
      ultimately obtain r where r: "readLoop fuel rd n (got @ bs) s' = Some r" "agrees pending r
          (if n \<le> length (got @ bs) + length (pending s')
           then Inr ((got @ bs) @ take (n - length (got @ bs)) (pending s'), drop (n - length (got @ bs)) (pending s'))
           else if got @ bs = [] \<and> pending s' = [] then Inl EOF else Inl UnexpectedEOF)"
        using Suc.IH [of s' "got @ bs"] by blast
      then show ?thesis
        using Some p more pre by auto
    qed
  qed
qed simp

lemma readLoop_work: "readLoop fuel rd n got s = Some (Inr (xs, s')) \<Longrightarrow> work s' \<le> work s"
proof (induction fuel arbitrary: got s)
  case (Suc fuel)
  show ?case
  proof (cases "n \<le> length got")
    case False
    then obtain bs s1 where r: "rd (n - length got) s = Some (bs, s1)" "readLoop fuel rd n (got @ bs) s1 = Some (Inr (xs, s'))"
      using Suc.prems by (auto split: option.splits)
    then show ?thesis
      using Suc.IH [OF r(2)] rd_work [OF _ r(1)] False by simp
  qed (use Suc.prems in simp)
qed (simp split: if_splits)

lemma ReadFull_work: "ReadFull fuel rd n s = Some (Inr (xs, s')) \<Longrightarrow> work s' \<le> work s"
  by (simp add: ReadFull_def readLoop_work)

lemma ReadFull_agrees: "work s < fuel \<Longrightarrow> \<exists>r. ReadFull fuel rd n s = Some r \<and> agrees pending r (readFull n (pending s))"
  using readLoop_agrees [of s fuel "[]" n] by (auto simp: ReadFull_def readFull_def)

end

text \<open>A TCP connection, as the segments in the order they arrive, is such a reader.\<close>

definition seg_work :: "bytes list \<Rightarrow> nat" where
  "seg_work segs = sum_list (map (\<lambda>seg. Suc (length seg)) segs)"

lemma conn_read_end: "conn_read n segs = None \<Longrightarrow> concat segs = []"
  by (cases segs) (auto split: if_splits)

lemma conn_read_work: "0 < n \<Longrightarrow> conn_read n segs = Some (bs, segs') \<Longrightarrow> seg_work segs' < seg_work segs"
  by (cases segs) (auto simp: seg_work_def split: if_splits)

interpretation tcp_conn: stream_reader conn_read concat seg_work
  by unfold_locales (auto simp: conn_read_length conn_read_concat conn_read_end conn_read_work)

end
