(* ===== verification/Ws_Conn.thy ===== *)
theory Ws_Conn
  imports Conn_Reader Aead
begin

text \<open>
  internal/transport/wsmux.go, the connection over a WebSocket: every write is one message, and
  reads serve the messages as a byte stream, keeping the rest of a message that did not fit. The
  WebSocket library delivers messages whole and in order; a connection is the messages still to come.
\<close>

record WSConn =
  ws_buf :: bytes
  ws_pos :: nat
  ws_msgs :: "bytes list"

definition NewWSConn :: "bytes list \<Rightarrow> WSConn" where
  "NewWSConn msgs = \<lparr>ws_buf = [], ws_pos = 0, ws_msgs = msgs\<rparr>"

definition WSConn_Read :: "nat \<Rightarrow> WSConn \<Rightarrow> (bytes \<times> WSConn) option" where
  "WSConn_Read len_p c =
     (if ws_pos c < length (ws_buf c) then
        (let bs = take len_p (drop (ws_pos c) (ws_buf c)) in
         Some (bs, c\<lparr>ws_pos := ws_pos c + length bs\<rparr>))
      else case ws_msgs c of
        [] \<Rightarrow> None
      | msg # rest \<Rightarrow>
          (let bs = take len_p msg; n = length bs in
           if n < length msg then Some (bs, \<lparr>ws_buf = msg, ws_pos = n, ws_msgs = rest\<rparr>)
           else Some (bs, \<lparr>ws_buf = [], ws_pos = 0, ws_msgs = rest\<rparr>)))"

text \<open>\<open>Write\<close>: \<open>ok\<close> is the library's answer to the message; the peer's messages are returned.\<close>

definition WSConn_Write :: "(bytes \<Rightarrow> bool) \<Rightarrow> bytes \<Rightarrow> bytes list \<Rightarrow> (unit + nat) \<times> bytes list" where
  "WSConn_Write ok p msgs = (if ok p then (Inr (length p), msgs @ [p]) else (Inl (), msgs))"

primrec WSConn_writes :: "bytes list \<Rightarrow> bytes list \<Rightarrow> bytes list" where
  "WSConn_writes [] msgs = msgs"
| "WSConn_writes (p # ps) msgs = WSConn_writes ps (snd (WSConn_Write (\<lambda>_. True) p msgs))"

lemma WSConn_writes_append: "WSConn_writes ps msgs = msgs @ ps"
  by (induction ps arbitrary: msgs) (simp_all add: WSConn_Write_def)

definition ws_pending :: "WSConn \<Rightarrow> bytes" where
  "ws_pending c = drop (ws_pos c) (ws_buf c) @ concat (ws_msgs c)"

definition ws_work :: "WSConn \<Rightarrow> nat" where
  "ws_work c = (length (ws_buf c) - ws_pos c) + seg_work (ws_msgs c)"

lemma ws_pending_new [simp]: "ws_pending (NewWSConn msgs) = concat msgs"
  by (simp add: ws_pending_def NewWSConn_def)

lemma take_then_drop: "take n xs @ drop (length (take n xs)) xs = xs"
  by (cases "n \<le> length xs") simp_all

lemma WSConn_Read_prefix:
  assumes "WSConn_Read n c = Some (bs, c')"
  shows "ws_pending c = bs @ ws_pending c' \<and> length bs \<le> n"
proof (cases "ws_pos c < length (ws_buf c)")
  case True
  let ?xs = "drop (ws_pos c) (ws_buf c)"
  have "bs = take n ?xs" "ws_pending c' = drop (length (take n ?xs)) ?xs @ concat (ws_msgs c)"
    using assms True by (auto simp: WSConn_Read_def ws_pending_def Let_def add.commute)
  then show ?thesis
    using take_then_drop [of n ?xs] by (simp add: ws_pending_def flip: append_assoc)
next
  case False
  then obtain msg rest where m: "ws_msgs c = msg # rest" "bs = take n msg"
    "ws_pending c' = drop (length (take n msg)) msg @ concat rest"
    using assms by (auto simp: WSConn_Read_def ws_pending_def Let_def split: list.splits if_splits)
  then show ?thesis
    using False take_then_drop [of n msg] by (simp add: ws_pending_def flip: append_assoc)
qed

lemma WSConn_Read_end: "WSConn_Read n c = None \<Longrightarrow> ws_pending c = []"
  by (auto simp: WSConn_Read_def ws_pending_def Let_def split: if_splits list.splits)

lemma WSConn_Read_work: "0 < n \<Longrightarrow> WSConn_Read n c = Some (bs, c') \<Longrightarrow> ws_work c' < ws_work c"
  by (cases "ws_msgs c") (auto simp: WSConn_Read_def ws_work_def seg_work_def Let_def split: if_splits)

interpretation ws_conn: stream_reader WSConn_Read ws_pending ws_work
  by unfold_locales (auto simp: WSConn_Read_prefix WSConn_Read_end WSConn_Read_work)

subsection \<open>Encrypted frames over a WebSocket\<close>

text \<open>
  \<open>ReadEncryptedFrame\<close> as the source has it, over a connection and \<open>io.ReadFull\<close> instead of over the
  bytes still to come.
\<close>

definition ReadEncryptedFrame_conn :: "nat \<Rightarrow> 's reader \<Rightarrow> unseal \<Rightarrow> 's \<Rightarrow> (aead_error + bytes \<times> 's) option" where
  "ReadEncryptedFrame_conn fuel rd unseal r =
     (case ReadFull fuel rd 4 r of
        None \<Rightarrow> None
      | Some (Inl e) \<Rightarrow> Some (Inl (AeadRead e))
      | Some (Inr (lenBuf, r1)) \<Rightarrow>
          (let frameLen = getUint32 (lenBuf ! 0) (lenBuf ! 1) (lenBuf ! 2) (lenBuf ! 3) in
           if unat frameLen > MaxPayloadSize + HeaderSize + 100 then Some (Inl FrameTooLarge)
           else case ReadFull fuel rd (unat frameLen) r1 of
             None \<Rightarrow> None
           | Some (Inl e) \<Rightarrow> Some (Inl (AeadRead e))
           | Some (Inr (frame, r2)) \<Rightarrow>
               Some (andThen (Decrypt unseal frame) (\<lambda>plaintext. Inr (plaintext, r2)))))"


primrec readFrames :: "nat \<Rightarrow> 's reader \<Rightarrow> unseal \<Rightarrow> nat \<Rightarrow> 's \<Rightarrow> (aead_error + bytes list \<times> 's) option" where
  "readFrames fuel rd unseal 0 s = Some (Inr ([], s))"
| "readFrames fuel rd unseal (Suc k) s =
     (case ReadEncryptedFrame_conn fuel rd unseal s of
        None \<Rightarrow> None
      | Some (Inl e) \<Rightarrow> Some (Inl e)
      | Some (Inr (p, s1)) \<Rightarrow>
          (case readFrames fuel rd unseal k s1 of
             None \<Rightarrow> None
           | Some r \<Rightarrow> Some (andThen r (\<lambda>(ps, s2). Inr (p # ps, s2)))))"

context stream_reader
begin

lemma ReadEncryptedFrame_conn_agrees:
  assumes "work s < fuel"
  shows "\<exists>r. ReadEncryptedFrame_conn fuel rd unseal s = Some r \<and>
    agrees pending r (ReadEncryptedFrame unseal (pending s))"
proof -
  obtain r1 where r1: "ReadFull fuel rd 4 s = Some r1" "agrees pending r1 (readFull 4 (pending s))"
    using ReadFull_agrees [OF assms] by blast
  show ?thesis
  proof (cases r1)
    case (Inl e)
    then show ?thesis
      using r1 by (simp add: ReadEncryptedFrame_conn_def ReadEncryptedFrame_def)
  next
    case (Inr p)
    obtain lenBuf s1 where p: "p = (lenBuf, s1)" by (cases p)
    let ?n = "unat (getUint32 (lenBuf ! 0) (lenBuf ! 1) (lenBuf ! 2) (lenBuf ! 3))"
    have "work s1 < fuel"
      using ReadFull_work [of fuel 4 s lenBuf s1] r1(1) Inr p assms by simp
    then obtain r2 where r2: "ReadFull fuel rd ?n s1 = Some r2" "agrees pending r2 (readFull ?n (pending s1))"
      using ReadFull_agrees by blast
    have f: "readFull 4 (pending s) = Inr (lenBuf, pending s1)"
      using r1(2) Inr p by simp
    show ?thesis
    proof (cases r2)
      case r2': (Inl e)
      then show ?thesis
        using r1 r2 Inr p f by (simp add: ReadEncryptedFrame_conn_def ReadEncryptedFrame_def Let_def)
    next
      case r2': (Inr q)
      then obtain frame s2 where q: "r2 = Inr (frame, s2)" by (cases q) simp
      then have g: "readFull ?n (pending s1) = Inr (frame, pending s2)"
        using r2(2) by simp
      show ?thesis
        using r1 r2 Inr p f g q
        by (cases "Decrypt unseal frame") (simp_all add: ReadEncryptedFrame_conn_def ReadEncryptedFrame_def Let_def)
    qed
  qed
qed

lemma ReadEncryptedFrame_conn_work:
  assumes "ReadEncryptedFrame_conn fuel rd unseal s = Some (Inr (p, s'))"
  shows "work s' \<le> work s"
proof -
  obtain lenBuf s1 n frame where "ReadFull fuel rd 4 s = Some (Inr (lenBuf, s1))"
    "ReadFull fuel rd n s1 = Some (Inr (frame, s'))"
    using assms by (auto simp: ReadEncryptedFrame_conn_def Let_def split: option.splits sum.splits if_splits)
  then show ?thesis
    using ReadFull_work le_trans by blast
qed

lemma readFrames_agrees:
  "work s < fuel \<Longrightarrow> \<exists>r. readFrames fuel rd unseal k s = Some r \<and>
     agrees pending r (decode_n (ReadEncryptedFrame unseal) k (pending s))"
proof (induction k arbitrary: s)
  case (Suc k)
  obtain r where r: "ReadEncryptedFrame_conn fuel rd unseal s = Some r"
    "agrees pending r (ReadEncryptedFrame unseal (pending s))"
    using ReadEncryptedFrame_conn_agrees [OF Suc.prems] by blast
  show ?case
  proof (cases r)
    case (Inr q)
    then obtain p s1 where q: "r = Inr (p, s1)" by (cases q) simp
    have "work s1 < fuel"
      using ReadEncryptedFrame_conn_work [of fuel unseal s p s1] r(1) q Suc.prems by simp
    then obtain r1 where r1: "readFrames fuel rd unseal k s1 = Some r1"
      "agrees pending r1 (decode_n (ReadEncryptedFrame unseal) k (pending s1))"
      using Suc.IH by blast
    then show ?thesis
      using r q by (cases r1) auto
  qed (use r in simp)
qed simp

end

text \<open>
  C31: Encrypted frames survive the WebSocket transport whatever the message boundaries. When the
  messages of a connection, concatenated, are the frames of payloads of at most 65519 bytes, reading
  that many frames with \<open>io.ReadFull\<close> over the connection ends, returns the payloads in order and
  leaves the rest of the stream for the next reader.
\<close>

theorem ws_frames_delivered:
  assumes "aead_ok seal unseal" "list_all framable ps" "seg_work msgs < fuel"
    and "concat msgs = concat (map (\<lambda>(n, p). snd (WriteEncryptedFrame seal (Some n) (\<lambda>_. None :: unit option) p)) ps) @ rest"
  shows "\<exists>c. readFrames fuel WSConn_Read unseal (length ps) (NewWSConn (WSConn_writes msgs [])) =
    Some (Inr (map snd ps, c)) \<and> ws_pending c = rest"
proof -
  have "ws_work (NewWSConn msgs) < fuel"
    using assms(3) by (simp add: ws_work_def NewWSConn_def)
  from ws_conn.readFrames_agrees [OF this] obtain r where
    r: "readFrames fuel WSConn_Read unseal (length ps) (NewWSConn msgs) = Some r"
    "agrees ws_pending r (decode_n (ReadEncryptedFrame unseal) (length ps) (concat msgs))"
    by auto
  moreover have "concat msgs = concat (map (\<lambda>(n, p). encFrame seal n p) ps) @ rest"
    using assms(4) by (simp add: encFrame_def)
  ultimately have "agrees ws_pending r (Inr (map snd ps, rest))"
    using decode_encFrames [OF assms(1,2), of rest] by simp
  then show ?thesis
    using r(1) by (cases r) (auto simp: agrees_def WSConn_writes_append)
qed

theorem ws_frames_delivered_witness:
  "\<exists>c. readFrames 100 WSConn_Read plain_unseal 1 (NewWSConn (WSConn_writes
      [take 3 (encFrame plain_seal (replicate 24 7) [1, 2]), [],
       drop 3 (encFrame plain_seal (replicate 24 7) [1, 2]) @ [9]] [])) = Some (Inr ([[1, 2]], c)) \<and> ws_pending c = [9]"
proof -
  let ?f = "encFrame plain_seal (replicate 24 7) [1, 2]"
  have l: "length ?f = 4 + HeaderSize + 2 + TagSize"
    by (simp add: encFrame_def WriteEncryptedFrame_def Encrypt_ok aead_sizes plain_seal_def)
  show ?thesis
    using ws_frames_delivered [OF plain_aead_ok, of "[(replicate 24 7, [1, 2])]" "[take 3 ?f, [], drop 3 ?f @ [9]]" 100 "[9]"] l
    by (simp add: framable_def NonceSize_def seg_work_def encFrame_def [symmetric] aead_sizes flip: append_assoc)
qed

end
