(* ===== verification/Shadow_Tls.thy ===== *)
theory Shadow_Tls
  imports Prelude
begin

text \<open>
  internal/antidpi/shadowtls.go and the connection handling of internal/transport/shadowtls.go: the
  server relays a TLS handshake between the client and a real site and then expects the client's
  MAC. SHA-256 and HMAC are the parameters \<open>sha\<close> and \<open>hmac\<close>; a write is the function \<open>w\<close> that gives
  the error of writing these bytes, if any.
\<close>

subsection \<open>Records\<close>

datatype tls_read_error = TlsRead io_error | TlsRecordTooLarge nat

datatype 'w stls_error =
    StlsDial | StlsTimeout | StlsRecord tls_read_error | StlsRead io_error | StlsWrite 'w | StlsMismatch
  | StlsRejected byte | StlsNotInitialized

definition readTLSRecord :: "bytes \<Rightarrow> tls_read_error + bytes \<times> bytes" where
  "readTLSRecord conn =
     andThen (map_sum TlsRead id (readFull 5 conn)) (\<lambda>(header, r1).
       let recordLen = unat (getUint16 (header ! 3) (header ! 4)) in
       if recordLen > 16384 + 256 then Inl (TlsRecordTooLarge recordLen)
       else andThen (map_sum TlsRead id (readFull recordLen r1)) (\<lambda>(body, r2). Inr (header @ body, r2)))"

text \<open>A complete record, as a TLS peer sends it.\<close>

definition tls_record :: "byte \<Rightarrow> bytes \<Rightarrow> bytes" where
  "tls_record typ body = [typ, 0x03, 0x03] @ len16 (length body) @ body"

definition record_size :: "bytes \<Rightarrow> nat" where
  "record_size r = int16 (r ! 3) (r ! 4)"

definition is_record :: "bytes \<Rightarrow> bool" where
  "is_record r \<longleftrightarrow> 5 \<le> length r \<and> length r = 5 + record_size r \<and> record_size r \<le> 16640"

lemma readTLSRecord_Inr_iff:
  "readTLSRecord conn = Inr (record, rest) \<longleftrightarrow> conn = record @ rest \<and> is_record record"
proof
  assume "readTLSRecord conn = Inr (record, rest)"
  then show "conn = record @ rest \<and> is_record record"
    by (auto simp: readTLSRecord_def readFull_Inr_iff Let_def is_record_def record_size_def
        unat_getUint16 nth_append map_sum_id_Inr_iff split: if_splits)
next
  assume a: "conn = record @ rest \<and> is_record record"
  then have l: "length (take 5 record) = 5" "length (drop 5 record) = record_size record"
    by (auto simp: is_record_def)
  then have "readFull 5 conn = Inr (take 5 record, drop 5 record @ rest)"
    "readFull (record_size record) (drop 5 record @ rest) = Inr (drop 5 record, rest)"
    using a by (auto simp: readFull_Inr_iff)
  then show "readTLSRecord conn = Inr (record, rest)"
    using a by (simp add: readTLSRecord_def is_record_def record_size_def unat_getUint16)
qed

subsection \<open>The server\<close>

text \<open>The relay loop of \<open>relayHandshake\<close> with what it has written to the client.\<close>

function relayRecords :: "(bytes \<Rightarrow> 'w option) \<Rightarrow> bytes \<Rightarrow> 'w stls_error option \<times> bytes" where
  "relayRecords w server =
     (case readTLSRecord server of
        Inl e \<Rightarrow> (Some (StlsRecord e), [])
      | Inr (record, rest) \<Rightarrow>
          (case w record of
             Some e \<Rightarrow> (Some (StlsWrite e), [])
           | None \<Rightarrow>
               if record ! 0 = 0x14 then (None, record)
               else if record ! 0 = 0x17 then (None, record)
               else (case relayRecords w rest of (err, out) \<Rightarrow> (err, record @ out))))"
  by pat_completeness auto
termination
  by (relation "measure (\<lambda>(w, server). length server)")
    (auto simp: readTLSRecord_Inr_iff is_record_def)

declare relayRecords.simps [simp del]

text \<open>
  \<open>respond\<close> is what the real site sends once it has received the forwarded ClientHello; \<open>ws\<close> and
  \<open>wc\<close> are the writes to the site and to the client. The result is the error or the rest of the
  client's input, and the bytes written to the client.
\<close>

definition relayHandshake ::
  "(bytes \<Rightarrow> bytes) \<Rightarrow> (bytes \<Rightarrow> 'w option) \<Rightarrow> (bytes \<Rightarrow> 'w option) \<Rightarrow> bytes \<Rightarrow> ('w stls_error + bytes) \<times> bytes" where
  "relayHandshake respond ws wc client =
     (case readTLSRecord client of
        Inl e \<Rightarrow> (Inl (StlsRecord e), [])
      | Inr (clientHello, rest) \<Rightarrow>
          (case ws clientHello of
             Some e \<Rightarrow> (Inl (StlsWrite e), [])
           | None \<Rightarrow>
               (case relayRecords wc (respond clientHello) of
                  (Some e, out) \<Rightarrow> (Inl e, out)
                | (None, out) \<Rightarrow> (Inr rest, out))))"

definition stls_label :: bytes where
  "stls_label = bytes_of ''shadowtls-auth-v3''"

definition hmacKey :: "(bytes \<Rightarrow> bytes) \<Rightarrow> string \<Rightarrow> bytes" where
  "hmacKey sha password = sha (bytes_of (password @ ''-shadowtls-hmac''))"

definition verifyClient :: "(bytes \<Rightarrow> bytes \<Rightarrow> bytes) \<Rightarrow> bytes \<Rightarrow> bytes \<Rightarrow> 'w stls_error + bytes" where
  "verifyClient hmac key conn =
     andThen (map_sum StlsRead id (readFull 32 conn)) (\<lambda>(hmacBuf, rest).
       if hmacBuf \<noteq> hmac key stls_label then Inl StlsMismatch else Inr rest)"

text \<open>
  \<open>site = None\<close>: the dial to the real site failed; \<open>timely\<close>: the relay ended before the ten seconds
  were over. On success the confirmation byte follows what was relayed.
\<close>

definition Stls_HandleConnection ::
  "(bytes \<Rightarrow> bytes \<Rightarrow> bytes) \<Rightarrow> bytes \<Rightarrow> (bytes \<Rightarrow> bytes) option \<Rightarrow> bool \<Rightarrow> (bytes \<Rightarrow> 'w option) \<Rightarrow>
   (bytes \<Rightarrow> 'w option) \<Rightarrow> bytes \<Rightarrow> ('w stls_error + bytes) \<times> bytes" where
  "Stls_HandleConnection hmac key site timely ws wc clientConn =
     (case site of
        None \<Rightarrow> (Inl StlsDial, [])
      | Some respond \<Rightarrow>
          (case relayHandshake respond ws wc clientConn of
             (r, out) \<Rightarrow>
               if \<not> timely then (Inl StlsTimeout, out)
               else (case r of
                  Inl e \<Rightarrow> (Inl e, out)
                | Inr rest \<Rightarrow>
                    (case verifyClient hmac key rest of
                       Inl e \<Rightarrow> (Inl e, out)
                     | Inr rest' \<Rightarrow> (Inr rest', out @ [0x01])))))"

subsection \<open>The client\<close>

text \<open>\<open>Connect\<close>: what the client writes, and what it makes of the bytes it receives.\<close>

definition stls_hello :: "(bytes \<Rightarrow> bytes \<Rightarrow> bytes) \<Rightarrow> bytes \<Rightarrow> bytes" where
  "stls_hello hmac key = hmac key stls_label"

definition Stls_Connect ::
  "(bytes \<Rightarrow> bytes \<Rightarrow> bytes) \<Rightarrow> bytes \<Rightarrow> (bytes \<Rightarrow> 'w option) \<Rightarrow> bytes \<Rightarrow> 'w stls_error + bytes" where
  "Stls_Connect hmac key w inp =
     (case w (stls_hello hmac key) of
        Some e \<Rightarrow> Inl (StlsWrite e)
      | None \<Rightarrow>
          andThen (map_sum StlsRead id (readFull 1 inp)) (\<lambda>(confirm, rest).
            if confirm ! 0 \<noteq> 0x01 then Inl (StlsRejected (confirm ! 0)) else Inr rest))"

text \<open>
  \<open>NewShadowTLS\<close> builds one side only, depending on the mode; \<open>Dial\<close> needs the client. A TCP dial
  that fails is \<open>conn = None\<close>.
\<close>

definition Stls_Dial ::
  "string \<Rightarrow> (bytes \<Rightarrow> bytes \<Rightarrow> bytes) \<Rightarrow> bytes \<Rightarrow> (bytes \<Rightarrow> 'w option) \<Rightarrow> bytes option \<Rightarrow> 'w stls_error + bytes" where
  "Stls_Dial mode hmac key w conn =
     (if mode = ''server'' then Inl StlsNotInitialized
      else case conn of None \<Rightarrow> Inl StlsDial | Some inp \<Rightarrow> Stls_Connect hmac key w inp)"

subsection \<open>Records are read back\<close>

lemma tls_record_is_record: "length body \<le> 16640 \<Longrightarrow> is_record (tls_record typ body)"
  by (simp add: is_record_def record_size_def tls_record_def len16_def int16_len16)

lemma verifyClient_Inr_iff:
  "verifyClient hmac key conn = Inr rest \<longleftrightarrow> conn = hmac key stls_label @ rest \<and> length (hmac key stls_label) = 32"
  by (auto simp: verifyClient_def readFull_Inr_iff map_sum_id_Inr_iff)

text \<open>The bytes relayed are a prefix of what the site sent, cut after the first record of type 20 or 23.\<close>

lemma relayRecords_prefix:
  "relayRecords w server = (err, out) \<Longrightarrow> \<exists>rest. server = out @ rest"
proof (induction w server arbitrary: err out rule: relayRecords.induct)
  case (1 w server)
  show ?case
  proof (cases "readTLSRecord server")
    case (Inr p)
    obtain rec1 rest where p: "p = (rec1, rest)" by (cases p)
    have s: "server = rec1 @ rest"
      using Inr p readTLSRecord_Inr_iff by blast
    obtain err1 out1 where r: "relayRecords w rest = (err1, out1)"
      by (cases "relayRecords w rest")
    have "w rec1 = None \<Longrightarrow> rec1 ! 0 \<noteq> 0x14 \<Longrightarrow> rec1 ! 0 \<noteq> 0x17 \<Longrightarrow> \<exists>r'. rest = out1 @ r'"
      using "1.IH" [OF Inr p [symmetric]] r by blast
    then show ?thesis
      using "1.prems" Inr p s r by (auto simp: relayRecords.simps [of w "rec1 @ rest"] split: option.splits if_splits)
  qed (use "1.prems" in \<open>simp add: relayRecords.simps [of w server]\<close>)
qed

text \<open>When the relay succeeds it has delivered whole records, the last of type 20 or 23 and no other.\<close>

definition ends_handshake :: "bytes \<Rightarrow> bool" where
  "ends_handshake r \<longleftrightarrow> r ! 0 = 0x14 \<or> r ! 0 = 0x17"

lemma relayRecords_done:
  assumes "\<And>b. w b = None" "list_all is_record rs" "list_all (\<lambda>r. \<not> ends_handshake r) rs"
    and "is_record r" "ends_handshake r"
  shows "relayRecords w (concat rs @ r @ rest) = (None, concat rs @ r)"
  using assms(2,3)
proof (induction rs)
  case Nil
  have "readTLSRecord (r @ rest) = Inr (r, rest)"
    using assms(4) by (simp add: readTLSRecord_Inr_iff)
  then show ?case
    using assms(1) [of r] assms(5) by (auto simp: relayRecords.simps [of w "r @ rest"] ends_handshake_def)
next
  case (Cons q rs)
  let ?s = "concat rs @ r @ rest"
  have "readTLSRecord (q @ ?s) = Inr (q, ?s)"
    using Cons.prems by (simp add: readTLSRecord_Inr_iff)
  then show ?case
    using assms(1) [of q] Cons by (simp add: relayRecords.simps [of w "q @ ?s"] ends_handshake_def)
qed

subsection \<open>Authentication\<close>

lemma relayHandshake_Inr_iff:
  "fst (relayHandshake respond ws wc conn) = Inr rest \<longleftrightarrow>
     (\<exists>hello. conn = hello @ rest \<and> is_record hello \<and> ws hello = None \<and> fst (relayRecords wc (respond hello)) = None)"
proof (cases "readTLSRecord conn")
  case (Inl e)
  then have "\<not> (\<exists>hello. conn = hello @ rest \<and> is_record hello)"
    by (metis Inr_not_Inl readTLSRecord_Inr_iff)
  then show ?thesis
    using Inl by (auto simp: relayHandshake_def)
next
  case (Inr p)
  obtain hello r1 where p: "p = (hello, r1)" by (cases p)
  have uniq: "conn = h @ q \<and> is_record h \<longleftrightarrow> h = hello \<and> q = r1" for h q
    using Inr p readTLSRecord_Inr_iff [of conn h q] by auto
  have "(\<exists>h. conn = h @ rest \<and> is_record h \<and> ws h = None \<and> fst (relayRecords wc (respond h)) = None) \<longleftrightarrow>
      rest = r1 \<and> ws hello = None \<and> fst (relayRecords wc (respond hello)) = None"
    by (metis uniq)
  then show ?thesis
    using Inr p by (cases "relayRecords wc (respond hello)")
      (auto simp: relayHandshake_def split: option.splits)
qed

text \<open>What the client of a rejected connection has received is the beginning of what the site sent.\<close>

lemma relayHandshake_out:
  "relayHandshake respond ws wc conn = (r, out) \<Longrightarrow> out = [] \<or> (\<exists>hello rest. respond hello = out @ rest)"
proof (cases "readTLSRecord conn")
  case (Inr p)
  assume a: "relayHandshake respond ws wc conn = (r, out)"
  obtain hello r1 where p: "p = (hello, r1)" by (cases p)
  obtain err o1 where rr: "relayRecords wc (respond hello) = (err, o1)"
    by (cases "relayRecords wc (respond hello)")
  have "out = [] \<or> out = o1"
    using a Inr p rr by (auto simp: relayHandshake_def split: option.splits)
  then show ?thesis
    using relayRecords_prefix [OF rr] by blast
qed (simp add: relayHandshake_def)

lemma Stls_HandleConnection_out:
  assumes "Stls_HandleConnection hmac key (Some respond) timely ws wc conn = (Inl e, out)"
  shows "out = [] \<or> (\<exists>hello rest. respond hello = out @ rest)"
proof -
  obtain r o1 where r: "relayHandshake respond ws wc conn = (r, o1)"
    by (cases "relayHandshake respond ws wc conn")
  have "out = o1"
    using assms r by (auto simp: Stls_HandleConnection_def split: if_splits sum.splits)
  then show ?thesis
    using relayHandshake_out [OF r] by simp
qed

lemma Stls_Connect_rejects: "out = [] \<or> out ! 0 \<noteq> 0x01 \<Longrightarrow> \<exists>e. Stls_Connect hmac key w out = Inl e"
  by (cases out) (auto simp: Stls_Connect_def readFull_def split: option.splits)

lemma Stls_HandleConnection_Inr_iff:
  fixes ws wc :: "bytes \<Rightarrow> 'w option"
  shows
  "fst (Stls_HandleConnection hmac key site timely ws wc conn) = Inr rest \<longleftrightarrow>
    timely \<and> (\<exists>respond r1. site = Some respond \<and> fst (relayHandshake respond ws wc conn) = Inr r1 \<and>
      r1 = hmac key stls_label @ rest \<and> length (hmac key stls_label) = 32)"
proof (cases site)
  case (Some respond)
  obtain r out where r: "relayHandshake respond ws wc conn = (r, out)"
    by (cases "relayHandshake respond ws wc conn")
  show ?thesis
  proof (cases r)
    case (Inr r1)
    show ?thesis
    proof (cases "verifyClient hmac key r1 :: 'w stls_error + bytes")
      case (Inl e)
      then have "\<not> (r1 = hmac key stls_label @ rest \<and> length (hmac key stls_label) = 32)"
        by (metis Inr_not_Inl verifyClient_Inr_iff)
      then show ?thesis
        using Some r Inr Inl by (auto simp: Stls_HandleConnection_def)
    next
      case v: (Inr r2)
      then have "r1 = hmac key stls_label @ r2 \<and> length (hmac key stls_label) = 32"
        using verifyClient_Inr_iff by blast
      then show ?thesis
        using Some r Inr v by (auto simp: Stls_HandleConnection_def)
    qed
  qed (use Some r in \<open>auto simp: Stls_HandleConnection_def\<close>)
qed (simp add: Stls_HandleConnection_def)

text \<open>
  C30: The ShadowTLS server admits a connection exactly when the client sent one TLS record, the
  handshake with the real site was relayed, and the next 32 bytes are the MAC of the fixed label
  under the key derived from the password; the tunnel then starts right after the MAC. Neither a
  clock nor a nonce enters, so the same bytes are admitted again.
\<close>

theorem shadowtls_admits_iff:
  assumes "\<And>k m. length (hmac k m) = 32"
  shows "fst (Stls_HandleConnection hmac (hmacKey sha password) site timely ws wc conn) = Inr rest \<longleftrightarrow>
    timely \<and> (\<exists>respond hello. site = Some respond \<and> is_record hello \<and> ws hello = None \<and>
      fst (relayRecords wc (respond hello)) = None \<and>
      conn = hello @ hmac (sha (bytes_of (password @ ''-shadowtls-hmac''))) (bytes_of ''shadowtls-auth-v3'') @ rest)"
  unfolding Stls_HandleConnection_Inr_iff relayHandshake_Inr_iff
  by (auto simp: assms hmacKey_def stls_label_def)

text \<open>A site that answers with TLS records: their first byte is one of the content types 20 to 24.\<close>

definition speaks_tls :: "(bytes \<Rightarrow> bytes) option \<Rightarrow> bool" where
  "speaks_tls site \<longleftrightarrow>
     (case site of None \<Rightarrow> True
      | Some respond \<Rightarrow> \<forall>hello. case respond hello of [] \<Rightarrow> True | typ # _ \<Rightarrow> typ \<in> {20, 21, 22, 23, 24})"

text \<open>A concrete connection: a short ClientHello, a site that answers with a ServerHello and a change cipher spec record.\<close>

definition toy_mac :: "bytes \<Rightarrow> bytes \<Rightarrow> bytes" where
  "toy_mac k m = take 32 (k @ m @ replicate 32 0)"

definition toy_site :: "bytes \<Rightarrow> bytes" where
  "toy_site hello = tls_record 0x16 [2] @ tls_record 0x14 [1]"

definition no_error :: "bytes \<Rightarrow> unit option" where
  "no_error b = None"

lemma length_toy_mac: "length (toy_mac k m) = 32"
  by (simp add: toy_mac_def)

lemma toy_site_relayed: "relayRecords no_error (toy_site hello) = (None, toy_site hello)"
proof -
  have "\<not> ends_handshake (tls_record 0x16 [2])" "ends_handshake (tls_record 0x14 [1])"
    by (simp_all add: ends_handshake_def tls_record_def)
  then show ?thesis
    using relayRecords_done [of no_error "[tls_record 0x16 [2]]" "tls_record 0x14 [1]" "[]"]
    by (simp add: toy_site_def no_error_def tls_record_is_record)
qed

theorem shadowtls_admits_iff_witness:
  "fst (Stls_HandleConnection toy_mac (hmacKey id ''pw'') (Some toy_site) True no_error no_error
     (tls_record 0x16 [1, 2, 3] @ toy_mac (bytes_of ''pw-shadowtls-hmac'') (bytes_of ''shadowtls-auth-v3'') @ [7])) = Inr [7]"
  unfolding shadowtls_admits_iff [of toy_mac, OF length_toy_mac]
  by (auto simp: toy_site_relayed no_error_def tls_record_is_record intro!: exI [of _ "tls_record 0x16 [1, 2, 3]"])

text \<open>
  The client and the server of ShadowTLS cannot connect. The client sends nothing but its 32
  byte MAC and then waits for the confirmation, while the server takes the first bytes for a
  ClientHello record; whatever the password, the MAC function and the real site, the server rejects
  the connection, and the client, which at most sees records of the site, fails too.
\<close>

theorem shadowtls_own_client_rejected:
  assumes "\<And>k m. length (hmac k m) = 32" and "speaks_tls site"
    and "Stls_HandleConnection hmac (hmacKey sha password) site timely ws wc
           (stls_hello hmac (hmacKey sha password)) = (r, out)"
  shows "(\<exists>e. r = Inl e) \<and> (\<exists>e. Stls_Dial mode hmac (hmacKey sha password) w (Some out) = Inl e)"
proof
  show rejected: "\<exists>e. r = Inl e"
  proof (cases r)
    case (Inr rest)
    then have "fst (Stls_HandleConnection hmac (hmacKey sha password) site timely ws wc
        (stls_hello hmac (hmacKey sha password))) = Inr rest"
      using assms(3) by simp
    then obtain hello where "stls_hello hmac (hmacKey sha password) =
        hello @ hmac (hmacKey sha password) stls_label @ rest" "is_record hello"
      unfolding Stls_HandleConnection_Inr_iff relayHandshake_Inr_iff by blast
    then have "32 = length hello + 32 + length rest" "5 \<le> length hello"
      using assms(1) by (auto simp: stls_hello_def is_record_def dest: arg_cong [where f = length])
    then show ?thesis by simp
  qed simp
  have "out = [] \<or> out ! 0 \<noteq> 0x01"
  proof (cases site)
    case None
    then show ?thesis
      using assms(3) by (simp add: Stls_HandleConnection_def)
  next
    case (Some respond)
    then obtain e where "Stls_HandleConnection hmac (hmacKey sha password) (Some respond) timely ws wc
        (stls_hello hmac (hmacKey sha password)) = (Inl e, out)"
      using assms(3) rejected by auto
    from Stls_HandleConnection_out [OF this] show ?thesis
    proof
      assume "\<exists>hello rest. respond hello = out @ rest"
      then obtain hello rest where "respond hello = out @ rest" by blast
      then show ?thesis
        using assms(2) Some by (cases out) (auto simp: speaks_tls_def dest: spec [of _ hello])
    qed simp
  qed
  then show "\<exists>e. Stls_Dial mode hmac (hmacKey sha password) w (Some out) = Inl e"
    using Stls_Connect_rejects [of out hmac "hmacKey sha password" w] by (auto simp: Stls_Dial_def)
qed


theorem shadowtls_own_client_rejected_witness:
  "(\<exists>e. fst (Stls_HandleConnection toy_mac (hmacKey id ''pw'') (Some toy_site) True no_error no_error
      (stls_hello toy_mac (hmacKey id ''pw''))) = Inl e) \<and> toy_site [] ! 0 \<noteq> 0x01"
proof -
  obtain r out where h: "Stls_HandleConnection toy_mac (hmacKey id ''pw'') (Some toy_site) True no_error no_error
      (stls_hello toy_mac (hmacKey id ''pw'')) = (r, out)"
    by (cases "Stls_HandleConnection toy_mac (hmacKey id ''pw'') (Some toy_site) True no_error no_error
      (stls_hello toy_mac (hmacKey id ''pw''))")
  have "speaks_tls (Some toy_site)"
    by (simp add: speaks_tls_def toy_site_def tls_record_def)
  from shadowtls_own_client_rejected [of toy_mac, OF length_toy_mac this h, of "[]" no_error] show ?thesis
    using h by (simp add: toy_site_def tls_record_def)
qed

end
