(* ===== verification/Transport_Select.thy ===== *)
theory Transport_Select
  imports Config Fragment Reality_Hello "HOL-Library.Monad_Syntax"
begin

text \<open>
  internal/transport/transport.go, the choice of the transport, with the constructors that can fail
  (internal/transport/reality.go, \<open>antidpi.NewEngine\<close>, \<open>NewRealityServer\<close>, \<open>NewRealityClient\<close>) or call
  back (internal/transport/reverse.go), and internal/transport/pipeline.go.
\<close>

subsection \<open>Keys\<close>

text \<open>Keys are hexadecimal; \<open>ecdh.X25519().NewPrivateKey\<close> and \<open>NewPublicKey\<close> accept 32 bytes.\<close>

datatype key_error = BadHex | BadKeySize nat

definition x25519_key :: "string \<Rightarrow> key_error + bytes" where
  "x25519_key s =
     (case decodeHex s of
        None \<Rightarrow> Inl BadHex
      | Some k \<Rightarrow> if length k = 32 then Inr k else Inl (BadKeySize (length k)))"

lemma decodeHex_length: "decodeHex s = Some bs \<Longrightarrow> length s = 2 * length bs"
  by (induction s arbitrary: bs rule: decodeHex.induct) (auto split: option.splits)

lemma x25519_key_size: "x25519_key s = Inr k \<Longrightarrow> length s = 64"
  by (auto simp: x25519_key_def dest: decodeHex_length split: option.splits if_splits)

subsection \<open>Transports\<close>

datatype transport =
    TCPMux | WSMux | RealityTransport | H2Mux | ShadowTLSTransport | GRPC | QUIC | KCP | FakeTCP
  | ReverseTransport transport

datatype transport_error =
    AntiDPIEngine range_error | RealityServerKey key_error | RealityClientKey key_error | InnerTransport transport_error

definition NewReality :: "Config \<Rightarrow> transport_error + transport" where
  "NewReality cfg =
     andThen
       (if \<not> ad_Enabled (cf_AntiDPI cfg) then Inr ()
        else map_sum AntiDPIEngine (\<lambda>_. ()) (NewFragmenter (ad_FragmentSize (cf_AntiDPI cfg)) (ad_Fragment (cf_AntiDPI cfg))))
       (\<lambda>_. if cf_Mode cfg = ''server''
            then map_sum RealityServerKey (\<lambda>_. RealityTransport) (x25519_key (rl_PrivateKey (cf_Reality cfg)))
            else map_sum RealityClientKey (\<lambda>_. RealityTransport) (x25519_key (rl_PublicKey (cf_Reality cfg))))"

text \<open>\<open>NewTransport\<close> and \<open>NewReverse\<close> call each other; a call that does not return is \<open>None\<close>.\<close>

partial_function (option) NewTransport :: "Config \<Rightarrow> (transport_error + transport) option" where
  "NewTransport cfg =
     (let t = cf_Transport cfg in
      if t = ''tcpmux'' then Some (Inr TCPMux)
      else if t = ''wsmux'' then Some (Inr WSMux)
      else if t = ''reality'' then Some (NewReality cfg)
      else if t = ''h2mux'' then Some (Inr H2Mux)
      else if t = ''shadowtls'' then Some (Inr ShadowTLSTransport)
      else if t = ''grpc'' then Some (Inr GRPC)
      else if t = ''quic'' then Some (Inr QUIC)
      else if t = ''kcp'' then Some (Inr KCP)
      else if t = ''reverse'' then
        do { inner \<leftarrow> NewTransport cfg; Some (map_sum InnerTransport ReverseTransport inner) }
      else if t = ''faketcp'' then Some (Inr FakeTCP)
      else Some (Inr TCPMux))"

definition NewReverse :: "Config \<Rightarrow> (transport_error + transport) option" where
  "NewReverse cfg = do { inner \<leftarrow> NewTransport cfg; Some (map_sum InnerTransport ReverseTransport inner) }"


text \<open>
  A value that \<open>NewTransport\<close> returned for a reverse configuration would contain itself.
\<close>

lemma NewTransport_reverse: "cf_Transport cfg = ''reverse'' \<Longrightarrow> NewTransport cfg = None"
proof (rule ccontr)
  assume r: "cf_Transport cfg = ''reverse''" and "NewTransport cfg \<noteq> None"
  then obtain x where x: "NewTransport cfg = Some x" by blast
  then have eq: "x = map_sum InnerTransport ReverseTransport x"
    using NewTransport.simps [of cfg] r by (simp add: Let_def)
  then show False
  proof (cases x)
    case (Inl e)
    then have "size e = size (InnerTransport e)" using eq by simp
    then show False by simp
  next
    case (Inr t)
    then have "size t = size (ReverseTransport t)" using eq by simp
    then show False by simp
  qed
qed

lemma NewTransport_returns:
  assumes "cf_Transport cfg \<noteq> ''reverse''"
  shows "NewTransport cfg = (if cf_Transport cfg = ''reality'' then Some (NewReality cfg) else Some (Inr
    (let t = cf_Transport cfg in
     if t = ''wsmux'' then WSMux else if t = ''h2mux'' then H2Mux else if t = ''shadowtls'' then ShadowTLSTransport
     else if t = ''grpc'' then GRPC else if t = ''quic'' then QUIC else if t = ''kcp'' then KCP
     else if t = ''faketcp'' then FakeTCP else TCPMux)))"
  using assms by (subst NewTransport.simps) (simp add: Let_def)

lemma NewReality_key:
  "is_ok (NewReality cfg) \<Longrightarrow>
     length (if cf_Mode cfg = ''server'' then rl_PrivateKey (cf_Reality cfg) else rl_PublicKey (cf_Reality cfg)) = 64"
  by (auto simp: NewReality_def is_ok_def map_sum_def dest!: x25519_key_size split: sum.splits if_splits)

text \<open>
  Building the transport returns for every configuration but one kind: with the transport
  \<open>reverse\<close>, which the configuration check accepts, the constructors call each other forever. For
  every other transport it returns, and it fails only for REALITY with a fragment size that does not
  parse or a key that is not 64 hexadecimal digits.
\<close>

theorem transport_built_iff:
  "(NewTransport cfg = None \<longleftrightarrow> cf_Transport cfg = ''reverse'') \<and>
   ''reverse'' \<in> set validTransports \<and>
   ((\<exists>e. NewTransport cfg = Some (Inl e)) \<longleftrightarrow> cf_Transport cfg = ''reality'' \<and> \<not> is_ok (NewReality cfg)) \<and>
   (is_ok (NewReality cfg) \<longrightarrow>
      length (if cf_Mode cfg = ''server'' then rl_PrivateKey (cf_Reality cfg) else rl_PublicKey (cf_Reality cfg)) = 64)"
proof (cases "cf_Transport cfg = ''reverse''")
  case True
  then show ?thesis
    using NewReality_key [of cfg] by (simp add: NewTransport_reverse validTransports_def)
next
  case False
  then show ?thesis
    using NewReality_key [of cfg] by (auto simp: NewTransport_returns validTransports_def is_ok_def split: sum.splits)
qed

definition keyed_config :: Config where
  "keyed_config = (sample_config ''client'' True)\<lparr>cf_Transport := ''reality'',
     cf_Reality := \<lparr>rl_ServerName = [], rl_ShortID = [], rl_PublicKey = concat (replicate 32 ''a9''),
       rl_PrivateKey = [], rl_Dest = []\<rparr>\<rparr>"

lemma keyed_config_ok: "is_ok (NewReality keyed_config)"
proof -
  have "decodeHex (concat (replicate n ''a9'')) = Some (replicate n 0xa9)" for n
    by (induction n) (simp_all add: hex_digit_def byte_of_def)
  from this [of 32] show ?thesis
    by (simp add: keyed_config_def NewReality_def x25519_key_def sample_config_def)
qed

theorem transport_built_iff_witness:
  "NewTransport ((sample_config ''client'' True)\<lparr>cf_Transport := ''reverse''\<rparr>) = None \<and>
   NewTransport keyed_config \<noteq> None \<and> is_ok (NewReality keyed_config) \<and>
   length (rl_PublicKey (cf_Reality keyed_config)) = 64"
  using transport_built_iff [of "(sample_config ''client'' True)\<lparr>cf_Transport := ''reverse''\<rparr>"]
    transport_built_iff [of keyed_config] keyed_config_ok
  by (simp add: keyed_config_def sample_config_def)

subsection \<open>Pipelines\<close>

text \<open>
  A layer has a transport and an optional wrapper of connections. \<open>dial\<close> is what dialling a
  transport gives and \<open>wrap\<close> what a layer's wrapper does with a connection.
\<close>

record PipelineLayer =
  pl_Name :: string
  pl_Transport :: transport
  pl_HasWrap :: bool

datatype pipeline_error = NoLayers | UnknownLayer string | LayerDial string | LayerWrap string

fun buildLayers :: "string list \<Rightarrow> pipeline_error + PipelineLayer list" where
  "buildLayers [] = Inr []"
| "buildLayers (layerName # rest) =
     (let layer = (\<lambda>t. \<lparr>pl_Name = layerName, pl_Transport = t, pl_HasWrap = False\<rparr>) in
      andThen
        (if layerName = ''faketcp'' then Inr (layer FakeTCP)
         else if layerName = ''tcpmux'' then Inr (layer TCPMux)
         else if layerName = ''wsmux'' then Inr (layer WSMux)
         else if layerName = ''h2mux'' then Inr (layer H2Mux)
         else if layerName = ''quic'' then Inr (layer QUIC)
         else Inl (UnknownLayer layerName))
        (\<lambda>l. andThen (buildLayers rest) (\<lambda>ls. Inr (l # ls))))"

definition NewPipeline :: "string list \<Rightarrow> pipeline_error + PipelineLayer list" where
  "NewPipeline layers = (if length layers = 0 then Inl NoLayers else buildLayers layers)"

fun wrapLayers :: "(string \<Rightarrow> 'c \<Rightarrow> 'c option) \<Rightarrow> PipelineLayer list \<Rightarrow> 'c \<Rightarrow> pipeline_error + 'c" where
  "wrapLayers wrap [] conn = Inr conn"
| "wrapLayers wrap (layer # rest) conn =
     (if pl_HasWrap layer
      then case wrap (pl_Name layer) conn of
        None \<Rightarrow> Inl (LayerWrap (pl_Name layer))
      | Some conn' \<Rightarrow> wrapLayers wrap rest conn'
      else wrapLayers wrap rest conn)"

definition Pipeline_Dial ::
  "(transport \<Rightarrow> 'c option) \<Rightarrow> (string \<Rightarrow> 'c \<Rightarrow> 'c option) \<Rightarrow> PipelineLayer list \<Rightarrow> pipeline_error + 'c" where
  "Pipeline_Dial dial wrap layers =
     (case layers of
        [] \<Rightarrow> Inl NoLayers
      | first # rest \<Rightarrow>
          (case dial (pl_Transport first) of
             None \<Rightarrow> Inl (LayerDial (pl_Name first))
           | Some conn \<Rightarrow> wrapLayers wrap rest conn))"

lemma buildLayers_plain: "buildLayers names = Inr ls \<Longrightarrow> map pl_Name ls = names \<and> list_all (\<lambda>l. \<not> pl_HasWrap l) ls"
  by (induction names arbitrary: ls) (auto simp: Let_def split: if_splits)

lemma wrapLayers_plain: "list_all (\<lambda>l. \<not> pl_HasWrap l) ls \<Longrightarrow> wrapLayers wrap ls conn = Inr conn"
  by (induction ls) auto

text \<open>
  A pipeline is its first layer: no constructor gives a layer a wrapper, so a connection through
  the chain of transports is a connection of the first transport alone.
\<close>

lemma pipeline_is_first_layer:
  assumes "NewPipeline (name # names) = Inr ls"
  shows "Pipeline_Dial dial wrap ls =
    (case dial (pl_Transport (hd ls)) of None \<Rightarrow> Inl (LayerDial name) | Some conn \<Rightarrow> Inr conn)"
proof -
  have p: "map pl_Name ls = name # names" "list_all (\<lambda>l. \<not> pl_HasWrap l) ls"
    using buildLayers_plain [of "name # names" ls] assms by (simp_all add: NewPipeline_def)
  then show ?thesis
    by (cases ls) (auto simp: Pipeline_Dial_def wrapLayers_plain split: option.splits)
qed

subsection \<open>Reverse connections\<close>

text \<open>
  internal/transport/reverse.go: registering at the relay. \<open>conn\<close> is the connection the inner
  transport dialled, as the segments the relay sends; \<open>w\<close> is the error of the write.
\<close>

datatype 'w relay_error = RelayDial | RelayWrite 'w | RelayAck | RelayRejected

definition regMsg :: bytes where
  "regMsg = bytes_of ''iPShadowT-REVERSE-REGISTER''"

definition regHeader :: bytes where
  "regHeader = len16 (length regMsg) @ regMsg"

definition dialRelay :: "(bytes \<Rightarrow> 'w option) \<Rightarrow> bytes list option \<Rightarrow> 'w relay_error + bytes list" where
  "dialRelay w conn =
     (case conn of
        None \<Rightarrow> Inl RelayDial
      | Some segs \<Rightarrow>
          (case w regHeader of
             Some e \<Rightarrow> Inl (RelayWrite e)
           | None \<Rightarrow>
               (case conn_read 2 segs of
                  None \<Rightarrow> Inl RelayAck
                | Some (bs, rest) \<Rightarrow>
                    let ack = overwrite (replicate 2 0) bs in
                    if ack ! 0 \<noteq> 79 \<or> ack ! 1 \<noteq> 75 then Inl RelayRejected else Inr rest)))"

text \<open>The relay is accepted exactly when its two bytes arrive together.\<close>

lemma dialRelay_Inr_iff:
  assumes "w regHeader = None"
  shows "dialRelay w (Some segs) = Inr rest \<longleftrightarrow>
    (\<exists>seg more. segs = ([79, 75] @ seg) # more \<and> rest = (if seg = [] then more else seg # more))"
proof (cases segs)
  case (Cons s more)
  show ?thesis
  proof (cases s)
    case one: (Cons a s1)
    then show ?thesis
      using assms Cons by (cases s1) (auto simp: dialRelay_def overwrite_def Let_def)
  qed (use assms Cons in \<open>simp add: dialRelay_def overwrite_def Let_def\<close>)
qed (use assms in \<open>simp add: dialRelay_def\<close>)

text \<open>An acknowledgement that arrives in two segments is taken for a rejection.\<close>

lemma dialRelay_split_ack: "w regHeader = None \<Longrightarrow> dialRelay w (Some ([79] # [75] # rest)) = Inl RelayRejected"
  by (simp add: dialRelay_def overwrite_def Let_def)

end
