(* ===== verification/Engine_Options.thy ===== *)
theory Engine_Options
  imports Config
begin

text \<open>
  core/options.go: the functional options of an engine and the configuration they build. An option is
  a function that updates the record of options; an engine applies those it is given in their order.
\<close>

record Options =
  op_ConfigFile :: string
  op_Mode :: string
  op_LogLevel :: string
  op_Transport :: string
  op_BindAddr :: string
  op_RemoteAddr :: string
  op_Password :: string
  op_TLSCert :: string
  op_TLSKey :: string
  op_MuxConcurrency :: int
  op_MuxFrameSize :: int
  op_AntiDPIEnabled :: bool
  op_UTLSFingerprint :: string
  op_Fragment :: bool
  op_FragmentSize :: string
  op_Padding :: bool
  op_TrafficShape :: bool
  op_Reality :: RealityConfig
  op_SOCKS5Addr :: string
  op_HTTPAddr :: string
  op_Forwards :: "ForwardConfig list"
  op_Nodelay :: bool
  op_KernelTuning :: bool
  op_Paths :: "PathConfig list"

text \<open>The zero value of \<open>Options\<close>, from which the engine starts.\<close>

definition zero_Options :: Options where
  "zero_Options =
     \<lparr>op_ConfigFile = [], op_Mode = [], op_LogLevel = [], op_Transport = [], op_BindAddr = [], op_RemoteAddr = [],
      op_Password = [], op_TLSCert = [], op_TLSKey = [], op_MuxConcurrency = 0, op_MuxFrameSize = 0,
      op_AntiDPIEnabled = False, op_UTLSFingerprint = [], op_Fragment = False, op_FragmentSize = [],
      op_Padding = False, op_TrafficShape = False,
      op_Reality = \<lparr>rl_ServerName = [], rl_ShortID = [], rl_PublicKey = [], rl_PrivateKey = [], rl_Dest = []\<rparr>,
      op_SOCKS5Addr = [], op_HTTPAddr = [], op_Forwards = [], op_Nodelay = False, op_KernelTuning = False,
      op_Paths = []\<rparr>"

datatype Option =
    WithConfigFile string | WithMode string | WithLogLevel string | WithTransport string
  | WithBindAddr string | WithRemoteAddr string | WithPassword string | WithTLS string string
  | WithMux int int | WithAntiDPI bool | WithUTLS string | WithFragment bool string | WithTrafficShape bool
  | WithReality string string string | WithRealityServer string string string string
  | WithSOCKS5 string | WithHTTPProxy string | WithForward string string string string
  | WithNodelay bool | WithKernelTuning bool | WithFailover "PathConfig list"

primrec apply_option :: "Option \<Rightarrow> Options \<Rightarrow> Options" where
  "apply_option (WithConfigFile path) o1 = o1\<lparr>op_ConfigFile := path\<rparr>"
| "apply_option (WithMode mode) o1 = o1\<lparr>op_Mode := mode\<rparr>"
| "apply_option (WithLogLevel level) o1 = o1\<lparr>op_LogLevel := level\<rparr>"
| "apply_option (WithTransport t) o1 = o1\<lparr>op_Transport := t\<rparr>"
| "apply_option (WithBindAddr addr) o1 = o1\<lparr>op_BindAddr := addr\<rparr>"
| "apply_option (WithRemoteAddr addr) o1 = o1\<lparr>op_RemoteAddr := addr\<rparr>"
| "apply_option (WithPassword password) o1 = o1\<lparr>op_Password := password\<rparr>"
| "apply_option (WithTLS cert key) o1 = o1\<lparr>op_TLSCert := cert, op_TLSKey := key\<rparr>"
| "apply_option (WithMux concurrency frameSize) o1 = o1\<lparr>op_MuxConcurrency := concurrency, op_MuxFrameSize := frameSize\<rparr>"
| "apply_option (WithAntiDPI enabled) o1 = o1\<lparr>op_AntiDPIEnabled := enabled\<rparr>"
| "apply_option (WithUTLS fingerprint) o1 = o1\<lparr>op_UTLSFingerprint := fingerprint, op_AntiDPIEnabled := True\<rparr>"
| "apply_option (WithFragment enabled sz) o1 =
     o1\<lparr>op_Fragment := enabled, op_FragmentSize := sz, op_AntiDPIEnabled := True\<rparr>"
| "apply_option (WithTrafficShape enabled) o1 = o1\<lparr>op_TrafficShape := enabled, op_AntiDPIEnabled := True\<rparr>"
| "apply_option (WithReality serverName publicKey shortID) o1 =
     o1\<lparr>op_Reality := (op_Reality o1)\<lparr>rl_ServerName := serverName, rl_PublicKey := publicKey, rl_ShortID := shortID\<rparr>,
       op_Transport := ''reality''\<rparr>"
| "apply_option (WithRealityServer serverName privateKey shortID dest) o1 =
     o1\<lparr>op_Reality := (op_Reality o1)\<lparr>rl_ServerName := serverName, rl_PrivateKey := privateKey,
         rl_ShortID := shortID, rl_Dest := dest\<rparr>,
       op_Transport := ''reality''\<rparr>"
| "apply_option (WithSOCKS5 addr) o1 = o1\<lparr>op_SOCKS5Addr := addr\<rparr>"
| "apply_option (WithHTTPProxy addr) o1 = o1\<lparr>op_HTTPAddr := addr\<rparr>"
| "apply_option (WithForward name fwdType listen remote) o1 =
     o1\<lparr>op_Forwards := op_Forwards o1 @ [\<lparr>fw_Name = name, fw_Type = fwdType, fw_Listen = listen, fw_Remote = remote\<rparr>]\<rparr>"
| "apply_option (WithNodelay enabled) o1 = o1\<lparr>op_Nodelay := enabled\<rparr>"
| "apply_option (WithKernelTuning enabled) o1 = o1\<lparr>op_KernelTuning := enabled\<rparr>"
| "apply_option (WithFailover paths) o1 = o1\<lparr>op_Paths := paths\<rparr>"

definition options_of :: "Option list \<Rightarrow> Options" where
  "options_of opts = foldl (\<lambda>o1 opt. apply_option opt o1) zero_Options opts"

datatype 'e build_error = LoadFailed 'e | ModeRequired | PasswordMissing

text \<open>
  \<open>buildConfig\<close>: \<open>load\<close> is the loading of a configuration file, which takes precedence; fields that
  are not set have their zero value.
\<close>

definition buildConfig :: "(string \<Rightarrow> 'e + Config) \<Rightarrow> Options \<Rightarrow> 'e build_error + Config" where
  "buildConfig load op =
     (if op_ConfigFile op \<noteq> [] then map_sum LoadFailed id (load (op_ConfigFile op))
      else if op_Mode op = [] then Inl ModeRequired
      else if op_Password op = [] then Inl PasswordMissing
      else Inr
        \<lparr>cf_Mode = op_Mode op, cf_LogLevel = default_str ''info'' (op_LogLevel op),
         cf_Transport = default_str ''tcpmux'' (op_Transport op),
         cf_BindAddr = op_BindAddr op, cf_RemoteAddr = op_RemoteAddr op, cf_Password = op_Password op,
         cf_TLSCert = op_TLSCert op, cf_TLSKey = op_TLSKey op, cf_LogFormat = [],
         cf_Metrics = \<lparr>lc_Enabled = False, lc_Listen = []\<rparr>,
         cf_Mux = \<lparr>mx_Enabled = False,
           mx_Concurrency = (if op_MuxConcurrency op > 0 then op_MuxConcurrency op else 4),
           mx_FrameSize = (if op_MuxFrameSize op > 0 then op_MuxFrameSize op else 32768),
           mx_RecvBuffer = 4194304, mx_StreamBuffer = 2097152, mx_MaxStreams = 1024\<rparr>,
         cf_Pool = \<lparr>ps_Size = 0, ps_MaxIdle = 0, ps_IdleTimeout = 0\<rparr>,
         cf_Heartbeat = \<lparr>hb_Enabled = True, hb_Interval = 20, hb_Timeout = 40\<rparr>,
         cf_Performance = \<lparr>pf_Nodelay = op_Nodelay op, pf_KeepAlive = 15, pf_SendBuffer = 0, pf_RecvBuffer = 0,
           pf_BufferProfile = ''balanced'', pf_Workers = 0, pf_KernelTuning = op_KernelTuning op\<rparr>,
         cf_AntiDPI = \<lparr>ad_Enabled = op_AntiDPIEnabled op,
           ad_UTLSFingerprint = default_str ''chrome'' (op_UTLSFingerprint op),
           ad_Fragment = op_Fragment op, ad_FragmentSize = default_str ''50-100'' (op_FragmentSize op),
           ad_Padding = op_Padding op, ad_PaddingSize = [], ad_TrafficShape = op_TrafficShape op,
           ad_SNISpoof = False, ad_SNISpoofDomain = [], ad_SNISpoofMethod = [],
           ad_DomainFront = False, ad_FrontDomain = [], ad_RealHost = []\<rparr>,
         cf_Forwards =
           (if op_SOCKS5Addr op \<noteq> []
            then [\<lparr>fw_Name = ''socks5'', fw_Type = ''socks5'', fw_Listen = op_SOCKS5Addr op, fw_Remote = []\<rparr>] else []) @
           (if op_HTTPAddr op \<noteq> []
            then [\<lparr>fw_Name = ''http'', fw_Type = ''http'', fw_Listen = op_HTTPAddr op, fw_Remote = []\<rparr>] else []) @
           op_Forwards op,
         cf_Paths = op_Paths op, cf_Reality = op_Reality op\<rparr>)"

text \<open>
  The mode, and the forwards in the order they were given, come out of the options; multiplexing is
  off whatever \<open>WithMux\<close> was given, and the transport is not checked.
\<close>

definition mode_given :: "Option list \<Rightarrow> string" where
  "mode_given opts = foldl (\<lambda>m opt. case opt of WithMode x \<Rightarrow> x | _ \<Rightarrow> m) [] opts"

definition forwards_given :: "Option list \<Rightarrow> ForwardConfig list" where
  "forwards_given opts = List.map_filter (\<lambda>opt. case opt of
     WithForward n t l r \<Rightarrow> Some \<lparr>fw_Name = n, fw_Type = t, fw_Listen = l, fw_Remote = r\<rparr> | _ \<Rightarrow> None) opts"

lemma options_of_given:
  "op_Mode (options_of opts) = mode_given opts" "op_Forwards (options_of opts) = forwards_given opts"
  by (induction opts rule: rev_induct)
    (simp_all add: options_of_def zero_Options_def mode_given_def forwards_given_def map_filter_simps map_filter_def
      split: Option.splits)

lemma options_config:
  assumes "op_ConfigFile (options_of opts) = []" "buildConfig load (options_of opts) = Inr cfg"
  shows "\<not> mx_Enabled (cf_Mux cfg) \<and> cf_Mode cfg = mode_given opts \<and> cf_Mode cfg \<noteq> [] \<and>
    (\<exists>proxies. cf_Forwards cfg = proxies @ forwards_given opts \<and> length proxies \<le> 2 \<and>
       (\<forall>p\<in>set proxies. fw_Listen p \<noteq> []))"
proof -
  let ?o = "options_of opts"
  define px where "px =
    (if op_SOCKS5Addr ?o \<noteq> []
     then [\<lparr>fw_Name = ''socks5'', fw_Type = ''socks5'', fw_Listen = op_SOCKS5Addr ?o, fw_Remote = []\<rparr>] else []) @
    (if op_HTTPAddr ?o \<noteq> []
     then [\<lparr>fw_Name = ''http'', fw_Type = ''http'', fw_Listen = op_HTTPAddr ?o, fw_Remote = []\<rparr>] else [])"
  have ok: "op_Mode ?o \<noteq> []" "op_Password ?o \<noteq> []"
    using assms by (auto simp: buildConfig_def split: if_splits)
  then have "cf_Forwards cfg = px @ forwards_given opts" "cf_Mode cfg = op_Mode ?o" "\<not> mx_Enabled (cf_Mux cfg)"
    using assms by (auto simp: buildConfig_def px_def options_of_given)
  moreover have "length px \<le> 2" "\<forall>p\<in>set px. fw_Listen p \<noteq> []"
    by (auto simp: px_def)
  ultimately show ?thesis
    using ok by (auto simp: options_of_given)
qed

end
