(* ===== verification/Engine.thy ===== *)
theory Engine
  imports Engine_Options Failover Go_Arith
begin

text \<open>
  core/engine.go and core/events.go: the engine that starts and stops the server or
  the client, and the callback through which the failover manager replaces the client. What the
  server and the client do is the environment's answer to each start; what matters here is when
  they are started and stopped. Stopping a client closes its channel, so stopping it twice is a panic.
\<close>

subsection \<open>Events\<close>

datatype EventType =
    EventStarting | EventStarted | EventStopping | EventStopped | EventError | EventConnected | EventDisconnected
  | EventReconnecting | EventPathChanged | EventProbeBlocked | EventTraffic | EventFailover

type_synonym 'h EventBus = "EventType \<Rightarrow> 'h list"

definition NewEventBus :: "'h EventBus" where
  "NewEventBus = (\<lambda>_. [])"

definition EventBus_On :: "EventType \<Rightarrow> 'h \<Rightarrow> 'h EventBus \<Rightarrow> 'h EventBus" where
  "EventBus_On event handler eb = eb(event := eb event @ [handler])"

definition EventBus_Off :: "EventType \<Rightarrow> 'h EventBus \<Rightarrow> 'h EventBus" where
  "EventBus_Off event eb = eb(event := [])"

text \<open>\<open>Emit\<close> starts one goroutine for each handler; the result is the calls it makes.\<close>

definition EventBus_Emit :: "EventType \<Rightarrow> 'd \<Rightarrow> 'h EventBus \<Rightarrow> ('h \<times> 'd) list" where
  "EventBus_Emit event d eb = map (\<lambda>h. (h, d)) (eb event)"

text \<open>Every handler registered since the last \<open>Off\<close> is called once, in the order of registration.\<close>

datatype 'h bus_op = OpOn EventType 'h | OpOff EventType

primrec bus_run :: "'h bus_op list \<Rightarrow> 'h EventBus \<Rightarrow> 'h EventBus" where
  "bus_run [] eb = eb"
| "bus_run (op # ops) eb =
     bus_run ops (case op of OpOn ev h \<Rightarrow> EventBus_On ev h eb | OpOff ev \<Rightarrow> EventBus_Off ev eb)"

definition subscribed :: "EventType \<Rightarrow> 'h bus_op list \<Rightarrow> 'h list" where
  "subscribed ev ops =
     foldl (\<lambda>hs op. case op of OpOn e h \<Rightarrow> if e = ev then hs @ [h] else hs | OpOff e \<Rightarrow> if e = ev then [] else hs) [] ops"

lemma bus_run_snoc: "bus_run (ops @ [op]) eb = (case op of OpOn ev h \<Rightarrow> EventBus_On ev h (bus_run ops eb)
    | OpOff ev \<Rightarrow> EventBus_Off ev (bus_run ops eb))"
  by (induction ops arbitrary: eb) (simp_all split: bus_op.splits)

lemma emit_subscribed: "EventBus_Emit ev d (bus_run ops NewEventBus) = map (\<lambda>h. (h, d)) (subscribed ev ops)"
proof -
  have "bus_run ops NewEventBus ev = subscribed ev ops"
    by (induction ops rule: rev_induct)
      (auto simp: subscribed_def NewEventBus_def bus_run_snoc EventBus_On_def EventBus_Off_def split: bus_op.splits)
  then show ?thesis
    by (simp add: EventBus_Emit_def)
qed

subsection \<open>The engine\<close>

datatype State = StateStopped | StateStarting | StateRunning | StateStopping | StateError

text \<open>The client of the engine: none yet, one whose channel is open, or one that was stopped.\<close>

datatype component = NoComponent | Up | Down

datatype 'e engine_error = AlreadyRunning | StartFailed 'e | UnknownMode string

record 'e Engine =
  en_cfg :: Config
  en_state :: State
  en_server :: component
  en_client :: component
  en_failover :: "Failover option"
  en_checks :: component
  en_lastError :: "'e engine_error option"
  en_events :: "EventType list"

definition NewEngine :: "Config \<Rightarrow> 'e Engine" where
  "NewEngine cfg =
     \<lparr>en_cfg = cfg, en_state = StateStopped, en_server = NoComponent, en_client = NoComponent,
      en_failover = None, en_checks = NoComponent, en_lastError = None, en_events = []\<rparr>"

definition New_engine :: "(string \<Rightarrow> 'l + Config) \<Rightarrow> Option list \<Rightarrow> 'l build_error + 'e Engine" where
  "New_engine load opts = map_sum id NewEngine (buildConfig load (options_of opts))"

definition engine_emit :: "EventType \<Rightarrow> 'e Engine \<Rightarrow> 'e Engine" where
  "engine_emit ev e = e\<lparr>en_events := en_events e @ [ev]\<rparr>"

text \<open>
  \<open>up\<close> is the environment's answer to creating and starting the server or the client with a
  configuration: the error, if any. A component that fails to start is not stored.
\<close>

definition startServer :: "(Config \<Rightarrow> 'e option) \<Rightarrow> 'e Engine \<Rightarrow> 'e engine_error option \<times> 'e Engine" where
  "startServer up e = (case up (en_cfg e) of Some err \<Rightarrow> (Some (StartFailed err), e) | None \<Rightarrow> (None, e\<lparr>en_server := Up\<rparr>))"

definition startClient :: "(Config \<Rightarrow> 'e option) \<Rightarrow> 'e Engine \<Rightarrow> 'e engine_error option \<times> 'e Engine" where
  "startClient up e = (case up (en_cfg e) of Some err \<Rightarrow> (Some (StartFailed err), e) | None \<Rightarrow> (None, e\<lparr>en_client := Up\<rparr>))"

text \<open>\<open>en_checks\<close> is the health-check loop of the failover manager, which \<open>fo.Start\<close> begins.\<close>

definition initFailover :: "time \<Rightarrow> 'e Engine \<Rightarrow> 'e Engine" where
  "initFailover now e = e\<lparr>en_failover := Some (NewFailover now (cf_Paths (en_cfg e)) DefaultFailoverConfig), en_checks := Up\<rparr>"

definition Engine_Start :: "(Config \<Rightarrow> 'e option) \<Rightarrow> time \<Rightarrow> 'e Engine \<Rightarrow> 'e engine_error option \<times> 'e Engine" where
  "Engine_Start up now e =
     (if en_state e = StateRunning then (Some AlreadyRunning, e)
      else
        let e1 = engine_emit EventStarting (e\<lparr>en_state := StateStarting\<rparr>) in
        case (if cf_Mode (en_cfg e1) = ''server'' then startServer up e1
              else if cf_Mode (en_cfg e1) = ''client'' then startClient up e1
              else (Some (UnknownMode (cf_Mode (en_cfg e1))), e1)) of
          (Some err, e2) \<Rightarrow> (Some err, engine_emit EventError (e2\<lparr>en_state := StateError, en_lastError := Some err\<rparr>))
        | (None, e2) \<Rightarrow>
            let e3 = (if cf_Mode (en_cfg e2) = ''client'' \<and> length (cf_Paths (en_cfg e2)) > 1 then initFailover now e2 else e2) in
            (None, engine_emit EventStarted (e3\<lparr>en_state := StateRunning\<rparr>)))"

text \<open>\<open>Stop\<close> of a component closes its channel.\<close>

definition stop_component :: "component \<Rightarrow> go_panic + component" where
  "stop_component c = (case c of NoComponent \<Rightarrow> Inr NoComponent | Up \<Rightarrow> Inr Down | Down \<Rightarrow> Inl CloseOfClosed)"

definition Engine_Stop :: "'e Engine \<Rightarrow> go_panic + 'e Engine" where
  "Engine_Stop e =
     (if en_state e \<noteq> StateRunning then Inr e
      else
        let e1 = engine_emit EventStopping (e\<lparr>en_state := StateStopping\<rparr>) in
        andThen (stop_component (en_checks e1)) (\<lambda>ch.
        andThen (stop_component (en_server e1)) (\<lambda>sv.
        andThen (stop_component (en_client e1)) (\<lambda>cl.
          Inr (engine_emit EventStopped
            (e1\<lparr>en_checks := ch, en_server := sv, en_client := cl, en_state := StateStopped\<rparr>))))))"

text \<open>
  The callback \<open>initFailover\<close> registers: update the configuration, stop the client, start a new one.
  \<open>ok\<close> is whether that client was created and started.
\<close>

definition apply_path :: "PathConfig \<Rightarrow> Config \<Rightarrow> Config" where
  "apply_path to cfg =
     cfg\<lparr>cf_RemoteAddr := pc_RemoteAddr to,
         cf_Transport := (if pc_Transport to \<noteq> [] then pc_Transport to else cf_Transport cfg)\<rparr>"

definition switch_client :: "PathConfig \<times> bool \<Rightarrow> 'e Engine \<Rightarrow> go_panic + 'e Engine" where
  "switch_client s e =
     (let e1 = e\<lparr>en_cfg := apply_path (fst s) (en_cfg e)\<rparr> in
      andThen (stop_component (en_client e1)) (\<lambda>cl.
        let e2 = e1\<lparr>en_client := cl\<rparr> in
        Inr (if snd s then engine_emit EventReconnecting (e2\<lparr>en_client := Up\<rparr>) else e2)))"

primrec switch_all :: "(PathConfig \<times> bool) list \<Rightarrow> 'e Engine \<Rightarrow> go_panic + 'e Engine" where
  "switch_all [] e = Inr e"
| "switch_all (s # ss) e = andThen (switch_client s e) (switch_all ss)"

text \<open>The callback invocations of one operation of the failover manager: the switches its trace records.\<close>

definition switches_of :: "fo_event list \<Rightarrow> (string \<times> bool) list" where
  "switches_of evs = List.map_filter (\<lambda>ev. case ev of EvSwitch a b ok \<Rightarrow> Some (b, ok) | _ \<Rightarrow> None) evs"

definition callbacks :: "Failover \<Rightarrow> Failover \<Rightarrow> (PathConfig \<times> bool) list \<Rightarrow> bool" where
  "callbacks f f' ss \<longleftrightarrow>
     map (\<lambda>(p, ok). (pc_Name p, ok)) ss = switches_of (drop (length (fo_trace f)) (fo_trace f')) \<and>
     fst ` set ss \<subseteq> pi_Config ` set (fo_paths f)"

text \<open>Reports of the tunnel reach the failover manager when there is one.\<close>

definition ReportConnectionFailure ::
  "callback \<Rightarrow> (nat \<Rightarrow> time) \<Rightarrow> string \<Rightarrow> 'e Engine \<Rightarrow> ('e Engine \<times> bool) option" where
  "ReportConnectionFailure cb clock err e =
     (case en_failover e of
        None \<Rightarrow> Some (e, False)
      | Some f \<Rightarrow> map_option (\<lambda>(f', r). (e\<lparr>en_failover := Some f'\<rparr>, r)) (ReportFailure cb clock err f))"

definition ReportConnectionSuccess :: "'e Engine \<Rightarrow> 'e Engine" where
  "ReportConnectionSuccess e =
     (case en_failover e of None \<Rightarrow> e | Some f \<Rightarrow> e\<lparr>en_failover := Some (ReportSuccess f)\<rparr>)"

subsection \<open>Life cycle\<close>

lemma stop_component_Inl [simp]: "stop_component c = Inl p \<longleftrightarrow> c = Down \<and> p = CloseOfClosed"
  by (cases c) (auto simp: stop_component_def)

text \<open>
  Without a failover the components are in step with the state: the component of the mode is up
  exactly while the engine runs, and there is no other.
\<close>

datatype 'e engine_op = DoStart "Config \<Rightarrow> 'e option" time | DoStop

primrec engine_run :: "'e engine_op list \<Rightarrow> 'e Engine \<Rightarrow> go_panic + 'e Engine" where
  "engine_run [] e = Inr e"
| "engine_run (op # ops) e =
     andThen (case op of DoStart up now \<Rightarrow> Inr (snd (Engine_Start up now e)) | DoStop \<Rightarrow> Engine_Stop e) (engine_run ops)"

definition in_step :: "'e Engine \<Rightarrow> bool" where
  "in_step e \<longleftrightarrow>
     (let mode = cf_Mode (en_cfg e); running = (en_state e = StateRunning) in
      (if mode = ''server'' then (en_server e = Up \<longleftrightarrow> running) else en_server e = NoComponent) \<and>
      (if mode = ''client'' then (en_client e = Up \<longleftrightarrow> running) else en_client e = NoComponent) \<and>
      (if mode = ''client'' \<and> length (cf_Paths (en_cfg e)) > 1
       then en_checks e = Up \<longleftrightarrow> running else en_checks e = NoComponent) \<and>
      (running \<longrightarrow> mode = ''server'' \<or> mode = ''client''))"

lemma Engine_Start_in_step:
  assumes "in_step e" shows "in_step (snd (Engine_Start up now e))"
proof (cases "en_state e = StateRunning")
  case False
  consider "cf_Mode (en_cfg e) = ''server''" | "cf_Mode (en_cfg e) = ''client''"
    | "cf_Mode (en_cfg e) \<noteq> ''server''" "cf_Mode (en_cfg e) \<noteq> ''client''"
    by blast
  then show ?thesis
    using assms False
    by cases (simp_all add: in_step_def Engine_Start_def startServer_def startClient_def initFailover_def
        engine_emit_def Let_def split: option.splits)
qed (use assms in \<open>simp add: Engine_Start_def\<close>)

lemma Engine_Stop_in_step:
  assumes "in_step e" shows "\<exists>e'. Engine_Stop e = Inr e' \<and> in_step e' \<and> en_state e' \<noteq> StateRunning"
proof (cases "en_state e = StateRunning")
  case True
  then consider "cf_Mode (en_cfg e) = ''server''"
    | "cf_Mode (en_cfg e) = ''client''" "1 < length (cf_Paths (en_cfg e))"
    | "cf_Mode (en_cfg e) = ''client''" "\<not> 1 < length (cf_Paths (en_cfg e))"
    using assms by (auto simp: in_step_def Let_def)
  then show ?thesis
    using assms True
    by cases (simp_all add: in_step_def Engine_Stop_def engine_emit_def stop_component_def Let_def)
qed (use assms in \<open>simp add: Engine_Stop_def\<close>)

lemma engine_run_in_step: "in_step e \<Longrightarrow> \<exists>e'. engine_run ops e = Inr e' \<and> in_step e'"
proof (induction ops arbitrary: e)
  case (Cons op ops)
  show ?case
  proof (cases op)
    case (DoStart up now)
    then show ?thesis
      using Cons.IH [OF Engine_Start_in_step [OF Cons.prems]] by simp
  next
    case DoStop
    then show ?thesis
      using Cons.IH Engine_Stop_in_step [OF Cons.prems] by auto
  qed
qed simp


subsection \<open>Failover\<close>

lemma switchTo_trace:
  "switchTo cb i j f = (f', ok) \<Longrightarrow> fo_trace f' = fo_trace f @ [EvPathChanged (path_name f i) (path_name f j),
     EvSwitch (path_name f i) (path_name f j) ok]"
  by (auto simp: switchTo_def Let_def path_name_def)

lemma switchTo_first:
  assumes "\<And>f1 a b. length (fo_trace f1) = Suc n \<Longrightarrow> \<not> cb f1 a b" "length (fo_trace f) = n"
  shows "switchTo cb i j f = (fst (switchTo cb i j f), False)"
  using assms by (simp add: switchTo_def Let_def)

lemma candidates_marked:
  "x < length (fo_paths f) \<Longrightarrow> candidates (fo_paths (markUnhealthy now x f)) y = candidates (fo_paths f) y - {x}"
  by (auto simp: candidates_def markUnhealthy_def nth_list_update usable_def)

definition bounded_prio :: "Failover \<Rightarrow> bool" where
  "bounded_prio f \<longleftrightarrow> (\<forall>j < length (fo_paths f). prio (fo_paths f ! j) < max_int)"

lemma bounded_marked:
  assumes "bounded_prio f" shows "bounded_prio (markUnhealthy now x f)"
proof -
  have "prio (fo_paths (markUnhealthy now x f) ! j) = prio (fo_paths f ! j)" if "j < length (fo_paths f)" for j
    using that by (cases "j = x") (simp_all add: markUnhealthy_def)
  then show ?thesis
    using assms by (simp add: bounded_prio_def)
qed

text \<open>One round of the failover: some usable path is selected and its callback called.\<close>

lemma doFailover_round:
  assumes x: "x < length (fo_paths f)" and some: "candidates (fo_paths f) x \<noteq> {}" and "bounded_prio f"
  obtains f1 n f2 ok where "f1 = markUnhealthy (clock (length (fo_trace f))) x f" "n \<in> candidates (fo_paths f) x"
    "switchTo cb x n f1 = (f2, ok)" "bounded_prio f2" "fo_paths f2 = fo_paths f1"
    "fo_trace f2 = fo_trace f @ [EvPathChanged (path_name f1 x) (path_name f1 n), EvSwitch (path_name f1 x) (path_name f1 n) ok]"
    "doFailover cb clock f x = (if ok then Some (f2, True) else doFailover cb clock f2 n)"
proof -
  define f1 where "f1 = markUnhealthy (clock (length (fo_trace f))) x f"
  have c: "candidates (fo_paths f1) x = candidates (fo_paths f) x"
    using candidates_marked [OF x, of _ x] by (auto simp: f1_def candidates_def)
  have len: "x < length (fo_paths f1)" and b: "bounded_prio f1"
    using x assms(3) bounded_marked by (simp_all add: f1_def)
  then obtain n where n: "selectNextPath (fo_cfg f1) (fo_paths f1) x = Some n"
    using next_path.sel_none_iff [OF len, of "fo_cfg f1"] c some by (auto simp: bounded_prio_def)
  then have "n \<in> candidates (fo_paths f) x"
    using next_path.sel_sound [OF len] c by blast
  moreover obtain f2 ok where sw: "switchTo cb x n f1 = (f2, ok)"
    by (cases "switchTo cb x n f1")
  moreover have p: "fo_paths f2 = fo_paths f1"
    using switchTo_fields(2) [of cb x n f1] sw by simp
  moreover have "bounded_prio f2"
    using b p by (simp add: bounded_prio_def)
  moreover have "doFailover cb clock f x = (if ok then Some (f2, True) else doFailover cb clock f2 n)"
    using x n sw by (simp add: doFailover.simps [of cb clock f x] Let_def flip: f1_def)
  ultimately show ?thesis
    using that f1_def switchTo_trace [OF sw] by (simp add: f1_def)
qed

text \<open>When the first path tried fails and another is left, the trace has a second switch.\<close>

lemma doFailover_retries:
  assumes x: "x < length (fo_paths f)" and two: "2 \<le> card (candidates (fo_paths f) x)" and b: "bounded_prio f"
    and fails: "\<And>f1 a b. length (fo_trace f1) = Suc (length (fo_trace f)) \<Longrightarrow> \<not> cb f1 a b"
    and run: "doFailover cb clock f x = Some (f', r)"
  shows "\<exists>b1 b2 ok rest. switches_of (drop (length (fo_trace f)) (fo_trace f')) = (b1, False) # (b2, ok) # rest"
proof -
  obtain f1 n f2 ok where r1: "f1 = markUnhealthy (clock (length (fo_trace f))) x f" "n \<in> candidates (fo_paths f) x"
    "switchTo cb x n f1 = (f2, ok)" "bounded_prio f2" "fo_paths f2 = fo_paths f1"
    "fo_trace f2 = fo_trace f @ [EvPathChanged (path_name f1 x) (path_name f1 n), EvSwitch (path_name f1 x) (path_name f1 n) ok]"
    "doFailover cb clock f x = (if ok then Some (f2, True) else doFailover cb clock f2 n)"
    using doFailover_round [OF x _ b] two by (metis card.empty not_numeral_le_zero)
  have no: "\<not> ok"
    using switchTo_first [of "length (fo_trace f)" cb f1 x n, OF fails] r1(1,3) by simp
  have n: "n < length (fo_paths f2)"
    using r1(1,2,5) by (simp add: candidates_def)
  have "candidates (fo_paths f) x - {n} \<subseteq> candidates (fo_paths f2) n"
    using candidates_marked [OF x, of _ n] r1(1,2,5) by (auto simp: candidates_def)
  moreover have "candidates (fo_paths f) x - {n} \<noteq> {}"
    using two r1(2) card_Diff_singleton [OF r1(2)] by fastforce
  ultimately have "candidates (fo_paths f2) n \<noteq> {}" by blast
  from doFailover_round [OF n this r1(4), where cb = cb and clock = clock] obtain g1 m g2 ok2 where
    r2: "m \<in> candidates (fo_paths f2) n" "fo_paths g2 = fo_paths g1" "g1 = markUnhealthy (clock (length (fo_trace f2))) n f2"
    "fo_trace g2 = fo_trace f2 @ [EvPathChanged (path_name g1 n) (path_name g1 m), EvSwitch (path_name g1 n) (path_name g1 m) ok2]"
    "doFailover cb clock f2 n = (if ok2 then Some (g2, True) else doFailover cb clock g2 m)"
    by metis
  have "m < length (fo_paths g2)"
    using r2(1,2,3) by (simp add: candidates_def)
  then have "prefix (fo_trace g2) (fo_trace f')"
    using run r1(7) no r2(5) doFailover_contract [of m g2 cb clock]
    by (auto simp: failover_contract_def split: if_splits)
  then obtain rest where "fo_trace f' = fo_trace g2 @ rest"
    by (auto simp: prefix_def)
  then show ?thesis
    using r1(6) r2(4) no by (simp add: switches_of_def map_filter_simps)
qed

lemma switch_all_panics:
  "en_client e \<noteq> NoComponent \<Longrightarrow> switch_all ((p, False) # s # ss) e = Inl CloseOfClosed"
  by (cases "en_client e") (simp_all add: switch_client_def stop_component_def Let_def)

text \<open>
  C29: A failover that has to try a second path crashes. When the failure count of the active path
  reaches the threshold, at least two other paths are usable and the client cannot be started on
  the first one tried, the callback has already stopped the old client and kept it; the callback
  for the next path stops it again, which closes a closed channel.
\<close>

theorem engine_failover_retry_panics:
  assumes "en_client e = Up" "en_failover e = Some f" "fo_active f < length (fo_paths f)"
    and "fc_FailThreshold (fo_cfg f) \<le> pi_FailCount (fo_paths f ! fo_active f) + 1"
    and "bounded_prio f" "2 \<le> card (candidates (fo_paths f) (fo_active f))"
    and "\<And>f1 a b. length (fo_trace f1) = Suc (length (fo_trace f)) \<Longrightarrow> \<not> cb f1 a b"
    and "ReportConnectionFailure cb clock err e = Some (e', r)" "en_failover e' = Some f'" "callbacks f f' ss"
  shows "switch_all ss e = Inl CloseOfClosed"
proof -
  let ?x = "fo_active f"
  define p where "p = (fo_paths f ! ?x)\<lparr>pi_FailCount := pi_FailCount (fo_paths f ! ?x) + 1,
    pi_LastError := Some err, pi_SuccessCount := 0\<rparr>"
  define f1 where "f1 = f\<lparr>fo_paths := (fo_paths f)[?x := p]\<rparr>"
  have run: "doFailover cb clock f1 ?x = Some (f', r)"
    using assms(2-4,8,9) by (auto simp: ReportConnectionFailure_def ReportFailure_def Let_def p_def f1_def)
  have len: "?x < length (fo_paths f1)" "fo_trace f1 = fo_trace f"
    using assms(3) by (simp_all add: f1_def)
  have "candidates (fo_paths f1) ?x = candidates (fo_paths f) ?x"
    by (auto simp: candidates_def f1_def)
  moreover have "prio (fo_paths f1 ! j) = prio (fo_paths f ! j)" if "j < length (fo_paths f)" for j
    using that by (cases "j = ?x") (simp_all add: f1_def p_def)
  then have "bounded_prio f1"
    using assms(5) by (simp add: bounded_prio_def f1_def)
  ultimately obtain b1 b2 ok rest where
    "switches_of (drop (length (fo_trace f)) (fo_trace f')) = (b1, False) # (b2, ok) # rest"
    using doFailover_retries [of ?x f1 cb clock f' r] len assms(6,7) run by auto
  then obtain p1 s ss' where "ss = (p1, False) # s # ss'"
    using assms(10) by (auto simp: callbacks_def map_eq_Cons_conv)
  then show ?thesis
    using switch_all_panics [of e] assms(1) by simp
qed

text \<open>Three paths of one configuration; the second answers no client, so the third is tried.\<close>

definition three_paths :: Failover where
  "three_paths = sample_failover [sample_info ''a'' 1 PathHealthy, sample_info ''b'' 2 PathHealthy,
     sample_info ''c'' 3 PathHealthy] 0"


definition second_works :: callback where
  "second_works f _ _ \<longleftrightarrow> length (fo_trace f) \<noteq> 1"

definition three_paths_after :: Failover where
  "three_paths_after =
     \<lparr>fo_cfg = DefaultFailoverConfig,
      fo_paths = [(sample_info ''a'' 1 PathUnhealthy)\<lparr>pi_FailCount := 3, pi_LastError := Some ''timeout'', pi_LastCheck := 5\<rparr>,
        (sample_info ''b'' 2 PathUnhealthy)\<lparr>pi_LastCheck := 5\<rparr>, sample_info ''c'' 3 PathHealthy],
      fo_active = 2,
      fo_trace = [EvPathChanged ''a'' ''b'', EvSwitch ''a'' ''b'' False, EvPathChanged ''b'' ''c'',
        EvSwitch ''b'' ''c'' True]\<rparr>"

lemma three_paths_run:
  "ReportFailure second_works (\<lambda>_. 5) ''timeout'' three_paths = Some (three_paths_after, True)"
  by code_simp

lemma three_paths_candidates: "candidates (fo_paths three_paths) (fo_active three_paths) = {1, 2}"
  by (auto simp: candidates_def three_paths_def sample_failover_def sample_info_def sample_path_def usable_def
      less_Suc_eq numeral_3_eq_3)

definition three_path_engine :: "string Engine" where
  "three_path_engine = (NewEngine (sample_config ''client'' True))\<lparr>en_client := Up, en_state := StateRunning,
     en_checks := Up, en_failover := Some three_paths\<rparr>"

theorem engine_failover_retry_panics_witness:
  "switch_all [(sample_path ''b'' 2, False), (sample_path ''c'' 3, True)] three_path_engine = Inl CloseOfClosed"
proof (rule engine_failover_retry_panics [where f = three_paths and f' = three_paths_after and cb = second_works])
  show "2 \<le> card (candidates (fo_paths three_paths) (fo_active three_paths))"
    by (simp add: three_paths_candidates)
  show "bounded_prio three_paths"
    by (simp add: bounded_prio_def three_paths_def sample_failover_def sample_info_def sample_path_def max_int_def
        less_Suc_eq numeral_3_eq_3 all_conj_distrib)
  show "ReportConnectionFailure second_works (\<lambda>_. 5) ''timeout'' three_path_engine =
      Some (three_path_engine\<lparr>en_failover := Some three_paths_after\<rparr>, True)"
    by (simp add: ReportConnectionFailure_def three_path_engine_def three_paths_run)
qed (simp_all add: second_works_def three_path_engine_def three_paths_after_def three_paths_def sample_failover_def sample_info_def
    sample_path_def callbacks_def switches_of_def map_filter_simps DefaultFailoverConfig_def)

text \<open>
  A failover that ends without a client leaves the stopped one in place; stopping the engine then
  closes it a second time.
\<close>

lemma stop_after_failed_failover_panics:
  assumes "en_state e = StateRunning" "en_server e = NoComponent" "en_client e = Up" "en_checks e = Up"
    "switch_all [(p, False)] e = Inr e'"
  shows "Engine_Stop e' = Inl CloseOfClosed"
  using assms by (auto simp: switch_client_def stop_component_def apply_path_def Engine_Stop_def engine_emit_def Let_def)

end
