(* ===== verification/Go_Float.thy ===== *)
theory Go_Float
  imports Complex_Main "HOL-Library.Log_Nat"
begin

text \<open>
  The float64 arithmetic of Go: a finite float64 is a rational number with a 53-bit significand and
  an exponent of at least -1074, and an operation is the exact one followed by rounding to the
  nearest such number, ties to even. Exponents are not bounded above: the values the modelled code
  computes stay far below the largest float64, and where a power may leave the range it is only
  compared with a finite bound. Zeros have no sign, which no modelled code observes.
\<close>

subsection \<open>Binary exponent and rounding\<close>

text \<open>The exponent of a positive rational: the largest power of two that is not above it.\<close>

definition flog2 :: "rat \<Rightarrow> int" where
  "flog2 x = (case quotient_of x of (n, d) \<Rightarrow>
     let k = bitlen n - bitlen d in if of_int d * 2 powi k \<le> (of_int n :: rat) then k else k - 1)"

definition round_half_even :: "rat \<Rightarrow> int" where
  "round_half_even q =
     (let f = \<lfloor>q\<rfloor>; r = q - of_int f in
      if r < 1 / 2 then f else if 1 / 2 < r then f + 1 else if even f then f else f + 1)"

definition quantum :: "rat \<Rightarrow> int" where
  "quantum x = max (flog2 x - 52) (- 1074)"

definition rnd_pos :: "rat \<Rightarrow> rat" where
  "rnd_pos x = of_int (round_half_even (x / 2 powi quantum x)) * 2 powi quantum x"

definition fround :: "rat \<Rightarrow> rat" where
  "fround x = (if x = 0 then 0 else if 0 < x then rnd_pos x else - rnd_pos (- x))"

definition is_float :: "rat \<Rightarrow> bool" where
  "is_float x \<longleftrightarrow> (\<exists>m e. x = of_int m * 2 powi e \<and> \<bar>m\<bar> \<le> 2 ^ 53 \<and> - 1074 \<le> e)"

subsection \<open>Operations\<close>

definition fadd :: "rat \<Rightarrow> rat \<Rightarrow> rat" where
  "fadd x y = fround (x + y)"

definition fsub :: "rat \<Rightarrow> rat \<Rightarrow> rat" where
  "fsub x y = fround (x - y)"

definition fmul :: "rat \<Rightarrow> rat \<Rightarrow> rat" where
  "fmul x y = fround (x * y)"

definition fdiv :: "rat \<Rightarrow> rat \<Rightarrow> rat" where
  "fdiv x y = fround (x / y)"

definition float_of_int :: "int \<Rightarrow> rat" where
  "float_of_int i = fround (of_int i)"

text \<open>The conversion to an integer type cuts the fraction off.\<close>

definition int_of_float :: "rat \<Rightarrow> int" where
  "int_of_float x = (if 0 \<le> x then \<lfloor>x\<rfloor> else \<lceil>x\<rceil>)"

subsection \<open>The exponent\<close>

lemma powi_less_iff [simp]: "(2 :: rat) powi a < 2 powi b \<longleftrightarrow> a < b"
proof
  show "a < b" if "(2 :: rat) powi a < 2 powi b"
    using that power_int_increasing [of b a "2 :: rat"] by force
qed (simp add: power_int_strict_increasing)

lemma powi_le_iff [simp]: "(2 :: rat) powi a \<le> 2 powi b \<longleftrightarrow> a \<le> b"
  by (simp flip: not_less)

lemma powi_pos [simp]: "0 < (2 :: rat) powi a"
  by simp

lemma bitlen_powi:
  assumes "0 < (n :: int)"
  shows "2 powi (bitlen n - 1) \<le> (of_int n :: rat)" "(of_int n :: rat) < 2 powi (bitlen n)"
proof -
  have b: "2 ^ nat (bitlen n - 1) \<le> n" "n < 2 ^ nat (bitlen n)" "0 < bitlen n"
    using bitlen_bounds [OF assms] assms by (simp_all add: bitlen_eq_zero_iff bitlen_nonneg less_le)
  have "(2 :: rat) powi (bitlen n - 1) = of_int (2 ^ nat (bitlen n - 1))"
    using b(3) by (simp add: power_int_def)
  also have "\<dots> \<le> of_int n"
    using b(1) of_int_le_iff by blast
  finally show "2 powi (bitlen n - 1) \<le> (of_int n :: rat)" .
  have "(of_int n :: rat) < of_int (2 ^ nat (bitlen n))"
    using b(2) of_int_less_iff by blast
  then show "(of_int n :: rat) < 2 powi (bitlen n)"
    using b(3) by (simp add: power_int_def)
qed

lemma flog2_bounds:
  assumes "0 < x" shows "2 powi flog2 x \<le> x" "x < 2 powi (flog2 x + 1)"
proof -
  obtain n d where q: "quotient_of x = (n, d)" by (cases "quotient_of x")
  have x: "x = of_int n / of_int d" and d: "0 < d"
    using quotient_of_div [OF q] quotient_of_denom_pos [OF q] by simp_all
  then have n: "0 < n"
    using assms by (simp add: zero_less_divide_iff)
  define k where "k = bitlen n - bitlen d"
  have "of_int d * 2 powi (k - 1) \<le> (2 :: rat) powi (bitlen d) * 2 powi (k - 1)"
    using bitlen_powi(2) [OF d] by (intro mult_right_mono) auto
  also have "\<dots> = 2 powi (bitlen n - 1)"
    by (simp add: k_def flip: power_int_add)
  finally have lo: "of_int d * 2 powi (k - 1) \<le> (of_int n :: rat)"
    using bitlen_powi(1) [OF n] by simp
  have "(of_int n :: rat) < 2 powi (bitlen d - 1) * 2 powi (k + 1)"
    using bitlen_powi(2) [OF n] by (simp add: k_def flip: power_int_add)
  also have "\<dots> \<le> of_int d * 2 powi (k + 1)"
    using bitlen_powi(1) [OF d] by (intro mult_right_mono) auto
  finally have hi: "(of_int n :: rat) < of_int d * 2 powi (k + 1)" .
  show "2 powi flog2 x \<le> x" "x < 2 powi (flog2 x + 1)"
    using lo hi d unfolding flog2_def q by (auto simp: x Let_def k_def [symmetric] field_simps)
qed

lemma flog2_unique:
  assumes "2 powi a \<le> x" "x < 2 powi (a + 1)" shows "flog2 x = a"
proof -
  have "0 < x" using assms(1) powi_pos [of a] by linarith
  from flog2_bounds [OF this] have "(2 :: rat) powi flog2 x < 2 powi (a + 1)" "(2 :: rat) powi a < 2 powi (flog2 x + 1)"
    using assms by linarith+
  then show ?thesis by simp
qed

lemma flog2_mono: "0 < x \<Longrightarrow> x \<le> y \<Longrightarrow> flog2 x \<le> flog2 y"
proof -
  assume "0 < x" "x \<le> y"
  then have "(2 :: rat) powi flog2 x < 2 powi (flog2 y + 1)"
    using flog2_bounds(1) [of x] flog2_bounds(2) [of y] by linarith
  then show ?thesis by simp
qed

subsection \<open>Rounding\<close>

lemma floor_bounds: "of_int \<lfloor>q\<rfloor> \<le> (q :: rat)" "q < of_int \<lfloor>q\<rfloor> + 1"
  using floor_correct [of q] by simp_all

lemma rhe_error: "\<bar>of_int (round_half_even q) - q\<bar> \<le> 1 / 2"
  using floor_bounds [of q] by (auto simp: round_half_even_def Let_def abs_le_iff)

lemma rhe_of_int [simp]: "round_half_even (of_int i) = i"
  by (simp add: round_half_even_def)

lemma rhe_mono:
  assumes "p \<le> q" shows "round_half_even p \<le> round_half_even q"
proof -
  have "\<lfloor>p\<rfloor> \<le> \<lfloor>q\<rfloor>"
    by (rule floor_mono [OF assms])
  then consider "\<lfloor>p\<rfloor> = \<lfloor>q\<rfloor>" | "\<lfloor>p\<rfloor> + 1 \<le> \<lfloor>q\<rfloor>"
    by linarith
  then show ?thesis
    using assms by cases (auto simp: round_half_even_def Let_def)
qed

lemma rhe_le_int: "q \<le> of_int i \<Longrightarrow> round_half_even q \<le> i"
  using rhe_mono [of q "of_int i"] by simp

lemma int_le_rhe: "of_int i \<le> q \<Longrightarrow> i \<le> round_half_even q"
  using rhe_mono [of "of_int i" q] by simp

lemma powi_of_int: "0 \<le> k \<Longrightarrow> (2 :: rat) powi k = of_int (2 ^ nat k)"
  by (simp add: power_int_def)

lemma powi_split: "q \<le> b \<Longrightarrow> (2 :: rat) powi b = of_int (2 ^ nat (b - q)) * 2 powi q"
  by (simp flip: powi_of_int power_int_add del: of_int_power)

text \<open>A power of two at or above the quantum bounds the rounded value on the same side.\<close>

lemma rnd_pos_le_powi:
  assumes "x \<le> 2 powi b" "quantum x \<le> b" shows "rnd_pos x \<le> 2 powi b"
proof -
  have "x / 2 powi quantum x \<le> of_int (2 ^ nat (b - quantum x))"
    using assms by (simp add: powi_split [OF assms(2)] field_simps del: of_int_power)
  from rhe_le_int [OF this] show ?thesis
    unfolding rnd_pos_def powi_split [OF assms(2)] by (intro mult_right_mono) (simp_all only: of_int_le_iff powi_pos less_imp_le)
qed

lemma powi_le_rnd_pos:
  assumes "2 powi b \<le> x" "quantum x \<le> b" shows "2 powi b \<le> rnd_pos x"
proof -
  have "of_int (2 ^ nat (b - quantum x)) \<le> x / 2 powi quantum x"
    using assms by (simp add: powi_split [OF assms(2)] field_simps del: of_int_power)
  from int_le_rhe [OF this] show ?thesis
    unfolding rnd_pos_def powi_split [OF assms(2)] by (intro mult_right_mono) (simp_all only: of_int_le_iff powi_pos less_imp_le)
qed

lemma rnd_pos_nonneg: "0 < x \<Longrightarrow> 0 \<le> rnd_pos x"
  unfolding rnd_pos_def using int_le_rhe [of 0 "x / 2 powi quantum x"] by simp

lemma quantum_mono: "0 < x \<Longrightarrow> x \<le> y \<Longrightarrow> quantum x \<le> quantum y"
  using flog2_mono [of x y] by (simp add: quantum_def)

lemma rnd_pos_mono:
  assumes "0 < x" "x \<le> y" shows "rnd_pos x \<le> rnd_pos y"
proof (cases "quantum x = quantum y")
  case True
  have "round_half_even (x / 2 powi quantum x) \<le> round_half_even (y / 2 powi quantum x)"
    using assms by (intro rhe_mono divide_right_mono) auto
  then show ?thesis
    unfolding rnd_pos_def True by simp
next
  case False
  then have less: "quantum x < quantum y"
    using quantum_mono [OF assms] by linarith
  then have "flog2 x < flog2 y" "quantum y = flog2 y - 52"
    by (auto simp: quantum_def max_def split: if_splits)
  moreover have "x \<le> 2 powi flog2 y"
    using flog2_bounds(2) [OF assms(1)] powi_le_iff [of "flog2 x + 1" "flog2 y"] \<open>flog2 x < flog2 y\<close> by linarith
  ultimately show ?thesis
    using rnd_pos_le_powi [of x "flog2 y"] powi_le_rnd_pos [of "flog2 y" y] flog2_bounds(1) [of y] assms less
    by force
qed

lemma rnd_zero [simp]: "fround 0 = 0"
  by (simp add: fround_def)

lemma rnd_minus: "fround (- x) = - fround x"
  by (simp add: fround_def)

lemma rnd_mono:
  assumes "x \<le> y" shows "fround x \<le> fround y"
proof -
  consider "0 < x" | "y < 0" | "x \<le> 0" "0 \<le> y"
    by linarith
  then show ?thesis
  proof cases
    case 1
    then show ?thesis
      using rnd_pos_mono [OF 1 assms] assms by (simp add: fround_def)
  next
    case 2
    then show ?thesis
      using rnd_pos_mono [of "- y" "- x"] assms by (simp add: fround_def)
  next
    case 3
    then show ?thesis
      using rnd_pos_nonneg [of y] rnd_pos_nonneg [of "- x"] by (auto simp: fround_def)
  qed
qed

lemma rnd_nonneg: "0 \<le> x \<Longrightarrow> 0 \<le> fround x"
  using rnd_mono [of 0 x] by simp

subsection \<open>Representable numbers\<close>

lemma is_float_minus:
  assumes "is_float x" shows "is_float (- x)"
proof -
  obtain m e where "x = of_int m * 2 powi e" "\<bar>m\<bar> \<le> 2 ^ 53" "- 1074 \<le> e"
    using assms unfolding is_float_def by blast
  then show ?thesis
    unfolding is_float_def by (intro exI [of _ "- m"] exI [of _ e]) simp
qed

lemma rnd_pos_is_float:
  assumes "0 < x" shows "is_float (rnd_pos x)"
proof -
  have "x < 2 powi (flog2 x + 1)"
    using flog2_bounds(2) [OF assms] .
  also have "\<dots> \<le> 2 powi (quantum x + 53)"
    by (simp add: quantum_def)
  also have "\<dots> = of_int (2 ^ 53) * 2 powi quantum x"
    using powi_split [of "quantum x" "quantum x + 53"] by simp
  finally have "x / 2 powi quantum x \<le> of_int (2 ^ 53)"
    by (simp add: field_simps)
  from rhe_le_int [OF this] have "\<bar>round_half_even (x / 2 powi quantum x)\<bar> \<le> 2 ^ 53"
    using int_le_rhe [of 0 "x / 2 powi quantum x"] assms by simp
  moreover have "- 1074 \<le> quantum x"
    by (simp add: quantum_def)
  ultimately show ?thesis
    unfolding is_float_def rnd_pos_def by blast
qed

lemma is_float_rnd [simp]: "is_float (fround x)"
proof -
  have "is_float 0"
    unfolding is_float_def by (intro exI [of _ 0]) simp
  then show ?thesis
    using rnd_pos_is_float [of x] is_float_minus [OF rnd_pos_is_float [of "- x"]] by (simp add: fround_def)
qed

lemma rnd_pos_exact:
  assumes "0 < x" "is_float x" shows "rnd_pos x = x"
proof -
  obtain m e where m: "x = of_int m * 2 powi e" "m \<le> 2 ^ 53" "- 1074 \<le> e"
    using assms(2) unfolding is_float_def by (blast dest: abs_le_D1)
  have "x \<le> of_int (2 ^ 53) * 2 powi e"
    unfolding m(1) using m(2) by (intro mult_right_mono) (simp_all only: of_int_le_iff powi_pos less_imp_le)
  also have "\<dots> = 2 powi (e + 53)"
    using powi_split [of e "e + 53"] by simp
  finally have top: "x \<le> 2 powi (e + 53)" .
  define q where "q = quantum x"
  have "\<exists>i. x = of_int i * 2 powi q"
  proof (cases "q \<le> e")
    case True
    then show ?thesis
      unfolding m(1) by (intro exI [of _ "m * 2 ^ nat (e - q)"]) (simp add: powi_split [OF True])
  next
    case False
    then have "e + 53 \<le> flog2 x"
      using m(3) by (simp add: q_def quantum_def)
    then have "2 powi (e + 53) \<le> x"
      using flog2_bounds(1) [OF assms(1)] powi_le_iff [of "e + 53" "flog2 x"] by linarith
    then have x: "x = 2 powi (e + 53)"
      using top by simp
    then have "flog2 x = e + 53"
      using flog2_unique [of "e + 53" x] by simp
    then have "q \<le> e + 53"
      using m(3) by (simp add: q_def quantum_def)
    from powi_split [OF this] show ?thesis
      unfolding x by blast
  qed
  then show ?thesis
    unfolding rnd_pos_def q_def [symmetric] by auto
qed

lemma rnd_exact: "is_float x \<Longrightarrow> fround x = x"
  using rnd_pos_exact [of x] rnd_pos_exact [of "- x"] is_float_minus [of x] by (auto simp: fround_def)

lemma rnd_rnd [simp]: "fround (fround x) = fround x"
  by (simp add: rnd_exact)

lemma rnd_le: "x \<le> y \<Longrightarrow> is_float y \<Longrightarrow> fround x \<le> y"
  using rnd_mono [of x y] by (simp add: rnd_exact)

lemma le_rnd: "x \<le> y \<Longrightarrow> is_float x \<Longrightarrow> x \<le> fround y"
  using rnd_mono [of x y] by (simp add: rnd_exact)

lemma is_float_int: "\<bar>i\<bar> \<le> 2 ^ 53 \<Longrightarrow> is_float (of_int i)"
  unfolding is_float_def by (rule exI [of _ i], rule exI [of _ 0]) simp

lemma is_float_scaled: "\<bar>m\<bar> \<le> 2 ^ 53 \<Longrightarrow> is_float (of_int (m * 2 ^ k))"
  unfolding is_float_def by (rule exI [of _ m], rule exI [of _ "int k"]) (simp add: power_int_def)

lemma float_of_int_exact: "\<bar>i\<bar> \<le> 2 ^ 53 \<Longrightarrow> float_of_int i = of_int i"
  by (simp add: float_of_int_def rnd_exact is_float_int)

lemma is_float_ops [simp]:
  "is_float (fadd x y)" "is_float (fsub x y)" "is_float (fmul x y)" "is_float (fdiv x y)" "is_float (float_of_int i)"
  by (simp_all add: fadd_def fsub_def fmul_def fdiv_def float_of_int_def)

subsection \<open>Rounding error\<close>

text \<open>The relative error of a rounding is at most the 53rd binary digit, of the exact and of the rounded value.\<close>

lemma rnd_pos_error:
  assumes "0 < x" shows "\<bar>rnd_pos x - x\<bar> \<le> 2 powi (quantum x - 1)"
proof -
  let ?q = "quantum x"
  have "rnd_pos x - x = (of_int (round_half_even (x / 2 powi ?q)) - x / 2 powi ?q) * 2 powi ?q"
    by (simp add: rnd_pos_def field_simps)
  then have "\<bar>rnd_pos x - x\<bar> \<le> 1 / 2 * 2 powi ?q"
    using rhe_error [of "x / 2 powi ?q"] by (simp add: abs_mult)
  then show ?thesis
    by (simp add: power_int_diff)
qed

definition min_normal :: rat where
  "min_normal = 2 powi (- 1022)"

lemma rnd_error_normal:
  assumes "min_normal \<le> x"
  shows "\<bar>fround x - x\<bar> \<le> x / 2 ^ 53" "\<bar>fround x - x\<bar> \<le> fround x / 2 ^ 53"
proof -
  define z :: int where "z = - 1022"
  have pos: "0 < x"
    using assms powi_pos [of z] unfolding min_normal_def z_def [symmetric] by linarith
  have "(2 :: rat) powi z < 2 powi (flog2 x + 1)"
    using flog2_bounds(2) [OF pos] assms unfolding min_normal_def z_def by linarith
  then have "z < flog2 x + 1"
    by simp
  then have q: "quantum x = flog2 x - 52"
    by (simp add: quantum_def z_def)
  have "2 powi (quantum x - 1) = (2 :: rat) powi flog2 x / 2 ^ 53"
    using power_int_diff [of "2 :: rat" "flog2 x" 53] by (simp add: q)
  then have err: "\<bar>fround x - x\<bar> \<le> 2 powi flog2 x / 2 ^ 53"
    using rnd_pos_error [OF pos] pos by (simp add: fround_def)
  have "2 powi flog2 x \<le> x" "2 powi flog2 x \<le> fround x"
    using flog2_bounds(1) [OF pos] powi_le_rnd_pos [of "flog2 x" x] pos by (simp_all add: fround_def q)
  then show "\<bar>fround x - x\<bar> \<le> x / 2 ^ 53" "\<bar>fround x - x\<bar> \<le> fround x / 2 ^ 53"
    using err by (meson divide_right_mono order_trans zero_le_numeral zero_le_power)+
qed

text \<open>A number below the normal range rounds to at most its end, above it the relative bound holds.\<close>

definition normal :: "rat \<Rightarrow> bool" where
  "normal x \<longleftrightarrow> x = 0 \<or> min_normal \<le> x"

lemma min_normal_pos: "0 < min_normal"
  unfolding min_normal_def by (rule powi_pos)

lemma normal_nonneg: "normal x \<Longrightarrow> 0 \<le> x"
  using min_normal_pos by (auto simp: normal_def)

lemma is_float_min_normal: "is_float min_normal"
proof -
  define z :: int where "z = - 1022"
  have "- 1074 \<le> z" "min_normal = of_int 1 * 2 powi z"
    unfolding z_def min_normal_def by simp_all
  then show ?thesis
    unfolding is_float_def by (intro exI [of _ 1] exI [of _ z]) simp
qed

lemma min_normal_small: "min_normal \<le> 1 / 2 ^ 53"
proof -
  define z :: int where "z = - 1022"
  have "(2 :: rat) powi z \<le> 2 powi (- 53)"
    unfolding powi_le_iff by (simp add: z_def)
  then show ?thesis
    by (simp only: min_normal_def z_def power_int_minus [of _ 53] power_int_numeral inverse_eq_divide)
qed

lemma normal_rnd: "normal x \<Longrightarrow> normal (fround x)"
  using le_rnd [of min_normal x] by (auto simp: normal_def is_float_min_normal)

lemma normal_ge: "1 / 2 ^ 53 \<le> x \<Longrightarrow> normal x"
  using min_normal_small by (simp add: normal_def)

lemma rnd_le_rel: "normal x \<Longrightarrow> fround x \<le> x * (1 + 1 / 2 ^ 53)"
proof (cases "x = 0")
  case False
  assume "normal x"
  then have "fround x \<le> x + x / 2 ^ 53"
    using rnd_error_normal(1) [of x] False unfolding normal_def by linarith
  then show ?thesis
    by (simp add: algebra_simps)
qed simp

lemma rnd_le_abs:
  assumes "0 \<le> x" "fround x \<le> m" "1 \<le> m" shows "fround x \<le> x + m / 2 ^ 53"
proof (cases "min_normal \<le> x")
  case True
  have "fround x / 2 ^ 53 \<le> m / 2 ^ 53"
    using assms(2) by (rule divide_right_mono) simp
  then show ?thesis
    using rnd_error_normal(2) [OF True] by linarith
next
  case False
  then have "fround x \<le> min_normal"
    by (intro rnd_le is_float_min_normal) simp
  moreover have "1 / 2 ^ 53 \<le> m / 2 ^ 53"
    using assms(3) by (rule divide_right_mono) simp
  ultimately show ?thesis
    using min_normal_small assms(1) by linarith
qed

subsection \<open>Durations\<close>

text \<open>\<open>time.Duration.Seconds\<close>, with Go's division that rounds towards zero.\<close>

definition quot :: "int \<Rightarrow> int \<Rightarrow> int" where
  "quot a n = (if a < 0 then - ((- a) div n) else a div n)"

definition Seconds :: "int \<Rightarrow> rat" where
  "Seconds d = (let sec = quot d 1000000000; nsec = d - sec * 1000000000 in
     fadd (float_of_int sec) (fdiv (float_of_int nsec) 1000000000))"

lemma normal_add: "normal x \<Longrightarrow> normal y \<Longrightarrow> normal (x + y)"
  using min_normal_pos by (auto simp: normal_def)

lemma normal_int: "0 \<le> i \<Longrightarrow> normal (of_int i)"
  by (cases "i = 0") (simp add: normal_def, rule normal_ge, simp add: order_less_le)

lemma normal_mult_ge: "normal x \<Longrightarrow> 1 \<le> y \<Longrightarrow> normal (x * y)"
  using mult_left_mono [of 1 y x] min_normal_pos by (fastforce simp: normal_def)

text \<open>The relative error of \<open>Seconds\<close> is that of two roundings, and ten milliseconds are not lost.\<close>

lemma Seconds_nonneg_parts:
  assumes "0 \<le> d"
  shows "Seconds d = fround (fround (of_int (d div 1000000000)) + fround (of_int (d mod 1000000000) / 1000000000))"
proof -
  have "d - d div 1000000000 * 1000000000 = d mod 1000000000"
    by (simp add: minus_div_mult_eq_mod)
  moreover have "float_of_int (d mod 1000000000) = of_int (d mod 1000000000)"
    using pos_mod_bound [of 1000000000 d] by (intro float_of_int_exact) simp
  ultimately show ?thesis
    using assms by (simp add: Seconds_def quot_def Let_def fadd_def fdiv_def float_of_int_def [of "d div 1000000000"])
qed

lemma Seconds_upper:
  assumes "0 \<le> d"
  shows "Seconds d \<le> of_int d / 1000000000 * (1 + 1 / 2 ^ 53) ^ 2" "normal (Seconds d)"
proof -
  define U :: rat where "U = 1 + 1 / 2 ^ 53"
  define s :: rat where "s = of_int (d div 1000000000)"
  define t :: rat where "t = of_int (d mod 1000000000) / 1000000000"
  have n: "normal s"
    using assms normal_int [of "d div 1000000000"] by (simp add: s_def pos_imp_zdiv_nonneg_iff)
  have "normal t"
  proof (cases "d mod 1000000000 = 0")
    case False
    then have "(1 :: rat) \<le> of_int (d mod 1000000000)"
      using pos_mod_sign [of 1000000000 d] by simp
    then show ?thesis
      unfolding t_def by (intro normal_ge) (simp add: field_simps)
  qed (simp add: t_def normal_def)
  note n = n this
  from n have ab: "fround s \<le> s * U" "fround t \<le> t * U" "normal (fround s + fround t)"
    using rnd_le_rel normal_add normal_rnd unfolding U_def by blast+
  have "fround (fround s + fround t) \<le> (fround s + fround t) * U"
    using rnd_le_rel [OF ab(3)] by (simp add: U_def)
  also have "\<dots> \<le> (s * U + t * U) * U"
    using ab by (intro mult_right_mono add_mono) (simp_all add: U_def)
  also have "\<dots> = (s + t) * U ^ 2"
    by (simp add: algebra_simps power2_eq_square)
  also have "s + t = of_int d / 1000000000"
  proof -
    have "of_int (d div 1000000000) * 1000000000 + of_int (d mod 1000000000) = (of_int d :: rat)"
      using arg_cong [OF div_mult_mod_eq [of d 1000000000], of rat_of_int] unfolding of_int_add of_int_mult by simp
    then show ?thesis by (simp add: s_def t_def field_simps)
  qed
  finally show "Seconds d \<le> of_int d / 1000000000 * (1 + 1 / 2 ^ 53) ^ 2"
    using Seconds_nonneg_parts [OF assms] by (simp only: U_def s_def t_def)
  show "normal (Seconds d)"
    using Seconds_nonneg_parts [OF assms] normal_rnd [OF ab(3)] by (simp only: s_def t_def)
qed

lemma is_float_dyadic: "\<bar>m\<bar> \<le> 2 ^ 53 \<Longrightarrow> is_float (of_int m / 128)"
  unfolding is_float_def
  by (intro exI [of _ m] exI [of _ "- 7"] conjI) (simp_all only: power_int_minus power_int_numeral, simp_all)

lemma Seconds_lower:
  assumes "10000000 \<le> d" shows "1 / 128 \<le> Seconds d"
proof -
  have fl: "is_float (1 / 128)" "is_float 1"
    using is_float_dyadic [of 1] is_float_int [of 1] by simp_all
  have nn: "0 \<le> fround (of_int (d div 1000000000))" "0 \<le> fround (of_int (d mod 1000000000) / 1000000000 :: rat)"
    using assms by (intro rnd_nonneg; simp add: pos_imp_zdiv_nonneg_iff)+
  have "1 / 128 \<le> fround (of_int (d div 1000000000)) + fround (of_int (d mod 1000000000) / 1000000000 :: rat)"
  proof (cases "d < 1000000000")
    case True
    then have "1 / 128 \<le> fround (of_int (d mod 1000000000) / 1000000000 :: rat)"
      using assms by (intro le_rnd fl) (simp add: field_simps)
    then show ?thesis using nn(1) by linarith
  next
    case False
    then have "1 \<le> d div 1000000000" by (simp add: pos_imp_zdiv_pos_iff int_one_le_iff_zero_less)
    then have "1 \<le> fround (of_int (d div 1000000000))"
      by (intro le_rnd fl) simp
    then show ?thesis using nn(2) by linarith
  qed
  then show ?thesis
    using Seconds_nonneg_parts [of d] assms le_rnd [OF _ fl(1)] by simp
qed

end
