(* ===== verification/Rate_Limit.thy ===== *)
theory Rate_Limit
  imports Go_Float Conn_Writer
begin

text \<open>
  internal/ratelimit/limiter.go: a token bucket per user over float64 arithmetic, and the connection
  that asks it before every write and read. The results are the two halves of the contract: over
  any period the bytes let through stay within the burst and the configured rate, up to the
  rounding of the floats, and a write is only delayed, never stuck.
\<close>

subsection \<open>Buckets\<close>

record Bucket =
  bk_tokens :: rat
  bk_maxTokens :: rat
  bk_refillRate :: rat
  bk_lastRefill :: time

type_synonym Limiter = "string \<Rightarrow> Bucket option"

definition SetLimit :: "time \<Rightarrow> string \<Rightarrow> int \<Rightarrow> int \<Rightarrow> Limiter \<Rightarrow> Limiter" where
  "SetLimit now userID bytesPerSecond burstSize l =
     (if bytesPerSecond \<le> 0 then l(userID := None)
      else
        let burst = (if burstSize \<le> 0 then wrap64 (bytesPerSecond * 2) else burstSize) in
        l(userID \<mapsto> \<lparr>bk_tokens = float_of_int burst, bk_maxTokens = float_of_int burst,
            bk_refillRate = float_of_int bytesPerSecond, bk_lastRefill = now\<rparr>))"

definition refilled :: "time \<Rightarrow> Bucket \<Rightarrow> rat" where
  "refilled now b =
     (let t = fadd (bk_tokens b) (fmul (Seconds (now - bk_lastRefill b)) (bk_refillRate b)) in
      if bk_maxTokens b < t then bk_maxTokens b else t)"

definition bucket_take :: "time \<Rightarrow> int \<Rightarrow> Bucket \<Rightarrow> Bucket \<times> int" where
  "bucket_take now n b =
     (let t = refilled now b; b1 = b\<lparr>bk_tokens := t, bk_lastRefill := now\<rparr> in
      if t \<le> 0 then (b1, 0)
      else
        let allowed = (if t < float_of_int n then int_of_float t else n) in
        (b1\<lparr>bk_tokens := fsub t (float_of_int allowed)\<rparr>, allowed))"

definition Allow :: "time \<Rightarrow> string \<Rightarrow> int \<Rightarrow> Limiter \<Rightarrow> Limiter \<times> int" where
  "Allow now userID n l =
     (case l userID of
        None \<Rightarrow> (l, n)
      | Some b \<Rightarrow> (case bucket_take now n b of (b', allowed) \<Rightarrow> (l(userID \<mapsto> b'), allowed)))"

subsection \<open>The rate-limited connection\<close>

definition retry_delay :: time where "retry_delay = 10000000"

text \<open>
  \<open>jit k\<close> is the time the \<open>k\<close>-th round of the loop takes besides its sleep. The result is
  \<open>None\<close> when the loop does not end.
\<close>

partial_function (option) rate_write ::
  "(nat \<Rightarrow> time) \<Rightarrow> string \<Rightarrow> nat \<Rightarrow> time \<Rightarrow> Limiter \<Rightarrow> bytes \<Rightarrow> nat \<Rightarrow> net_conn \<Rightarrow>
   (nat \<times> bool \<times> (nat \<times> time \<times> Limiter) \<times> net_conn) option" where
  "rate_write jit userID k now l p totalWritten c =
     (if p = [] then Some (totalWritten, False, (k, now, l), c)
      else
        case Allow now userID (int (length p)) l of (l', allowed) \<Rightarrow>
          if allowed = 0 then rate_write jit userID (Suc k) (now + retry_delay + jit k) l' p totalWritten c
          else
            case conn_write (take (nat allowed) p) c of (n, err, c') \<Rightarrow>
              if err then Some (totalWritten + n, True, (Suc k, now + jit k, l'), c')
              else rate_write jit userID (Suc k) (now + jit k) l' (drop n p) (totalWritten + n) c')"

definition RateLimitedConn_Write :: "(nat \<Rightarrow> time) \<Rightarrow> string \<Rightarrow> (nat \<times> time \<times> Limiter) writer" where
  "RateLimitedConn_Write jit userID s p c = (case s of (k, now, l) \<Rightarrow> rate_write jit userID k now l p 0 c)"

text \<open>\<open>Read\<close>: the length of the buffer handed to the connection, after one retry at \<open>later\<close>.\<close>

definition RateLimitedConn_Read :: "string \<Rightarrow> time \<Rightarrow> time \<Rightarrow> Limiter \<Rightarrow> nat \<Rightarrow> Limiter \<times> nat" where
  "RateLimitedConn_Read userID now later l len =
     (case Allow now userID (int len) l of (l1, a1) \<Rightarrow>
        case (if a1 = 0
              then case Allow later userID (int len) l1 of (l2, a2) \<Rightarrow> (l2, if a2 = 0 then 1 else a2)
              else (l1, a1)) of (l', allowed) \<Rightarrow>
          (l', if allowed < int len then nat allowed else len))"

subsection \<open>Invariant\<close>

text \<open>A bucket that \<open>SetLimit\<close> made: float64 fields, a capacity and a rate of at least one byte.\<close>

definition bucket_ok :: "Bucket \<Rightarrow> bool" where
  "bucket_ok b \<longleftrightarrow>
     is_float (bk_tokens b) \<and> is_float (bk_maxTokens b) \<and> is_float (bk_refillRate b) \<and>
     0 \<le> bk_tokens b \<and> bk_tokens b \<le> bk_maxTokens b \<and> 1 \<le> bk_maxTokens b \<and> 1 \<le> bk_refillRate b"

lemma refill_amount:
  assumes "bucket_ok b" "bk_lastRefill b \<le> now"
  shows "0 \<le> fmul (Seconds (now - bk_lastRefill b)) (bk_refillRate b)"
    "fmul (Seconds (now - bk_lastRefill b)) (bk_refillRate b)
       \<le> of_int (now - bk_lastRefill b) / 1000000000 * bk_refillRate b * (1 + 1 / 2 ^ 53) ^ 3"
proof -
  define U :: rat where "U = 1 + 1 / 2 ^ 53"
  let ?d = "now - bk_lastRefill b" and ?r = "bk_refillRate b"
  have s: "Seconds ?d \<le> of_int ?d / 1000000000 * U ^ 2" "normal (Seconds ?d)"
    using Seconds_upper [of ?d] assms(2) by (simp_all only: U_def diff_ge_0_iff_ge)
  have r: "1 \<le> ?r"
    using assms(1) by (simp add: bucket_ok_def)
  then have n: "normal (Seconds ?d * ?r)"
    by (rule normal_mult_ge [OF s(2)])
  then show "0 \<le> fmul (Seconds ?d) ?r"
    unfolding fmul_def by (intro rnd_nonneg normal_nonneg)
  have "fmul (Seconds ?d) ?r \<le> Seconds ?d * ?r * U"
    using rnd_le_rel [OF n] by (simp only: fmul_def U_def)
  also have "\<dots> \<le> of_int ?d / 1000000000 * U ^ 2 * ?r * U"
    using s(1) r by (intro mult_right_mono) (simp_all add: U_def)
  also have "\<dots> = of_int ?d / 1000000000 * ?r * U ^ 3"
    by (simp add: algebra_simps power2_eq_square power3_eq_cube)
  finally show "fmul (Seconds ?d) ?r \<le> of_int ?d / 1000000000 * ?r * (1 + 1 / 2 ^ 53) ^ 3"
    by (simp only: U_def)
qed

lemma refilled_bounds:
  assumes "bucket_ok b" "bk_lastRefill b \<le> now"
  shows "bk_tokens b \<le> refilled now b" "refilled now b \<le> bk_maxTokens b" "is_float (refilled now b)"
    "refilled now b \<le> bk_tokens b + fmul (Seconds (now - bk_lastRefill b)) (bk_refillRate b) + bk_maxTokens b / 2 ^ 53"
proof -
  let ?a = "fmul (Seconds (now - bk_lastRefill b)) (bk_refillRate b)" and ?t = "bk_tokens b" and ?m = "bk_maxTokens b"
  have a: "0 \<le> ?a"
    by (rule refill_amount(1) [OF assms])
  have ok: "is_float ?t" "is_float ?m" "0 \<le> ?t" "?t \<le> ?m" "1 \<le> ?m"
    using assms(1) by (simp_all add: bucket_ok_def)
  have "?t \<le> fadd ?t ?a"
    unfolding fadd_def using a ok(1) by (intro le_rnd) simp_all
  then show "?t \<le> refilled now b" "refilled now b \<le> ?m" "is_float (refilled now b)"
    using ok by (simp_all add: refilled_def Let_def)
  show "refilled now b \<le> ?t + ?a + ?m / 2 ^ 53"
  proof (cases "?m < fadd ?t ?a")
    case True
    then have "\<not> ?t + ?a \<le> ?m"
      using rnd_le [OF _ ok(2), of "?t + ?a"] by (auto simp: fadd_def)
    moreover have "0 \<le> ?m / 2 ^ 53"
      using ok by simp
    ultimately show ?thesis
      using True by (simp add: refilled_def Let_def)
  next
    case False
    then show ?thesis
      using rnd_le_abs [of "?t + ?a" ?m] a ok by (simp add: refilled_def Let_def fadd_def)
  qed
qed

lemma bucket_take_ok:
  assumes ok: "bucket_ok b" "bk_lastRefill b \<le> now" and n: "0 \<le> n" "n \<le> 2 ^ 53"
    and take: "bucket_take now n b = (b', a)"
  shows "bucket_ok b'" "bk_lastRefill b' = now" "bk_maxTokens b' = bk_maxTokens b" "bk_refillRate b' = bk_refillRate b"
    "0 \<le> a" "a \<le> n" "of_int a + bk_tokens b' \<le> refilled now b + bk_maxTokens b / 2 ^ 53"
    "a = 0 \<Longrightarrow> 0 < n \<Longrightarrow> bk_tokens b' = refilled now b \<and> refilled now b < 1"
proof -
  define t where "t = refilled now b"
  have t: "bk_tokens b \<le> t" "t \<le> bk_maxTokens b" "is_float t" "0 \<le> t" "1 \<le> bk_maxTokens b" "is_float (bk_maxTokens b)"
    using refilled_bounds [OF ok] ok(1) by (auto simp: t_def bucket_ok_def)
  define al where "al = (if t < of_int n then \<lfloor>t\<rfloor> else n)"
  have fn: "float_of_int n = of_int n"
    using n by (intro float_of_int_exact) simp
  have al: "0 \<le> al" "al \<le> n" "of_int al \<le> t"
    using t(4) n(1) by (auto simp: al_def floor_le_iff)
  then have fa: "float_of_int al = of_int al"
    using n by (intro float_of_int_exact) simp
  have res: "b' = b\<lparr>bk_tokens := fsub t (of_int al), bk_lastRefill := now\<rparr> \<and> a = al"
  proof (cases "t = 0")
    case True
    then have "al = 0" using n(1) by (simp add: al_def)
    then show ?thesis
      using take True by (simp add: bucket_take_def t_def [symmetric] fsub_def Let_def)
  next
    case False
    then show ?thesis
      using take t(4) fa by (auto simp: bucket_take_def t_def [symmetric] Let_def fn int_of_float_def al_def)
  qed
  have d: "0 \<le> t - of_int al" "t - of_int al \<le> bk_maxTokens b"
    using al t(2) by linarith+
  have f: "0 \<le> fsub t (of_int al)" "fsub t (of_int al) \<le> bk_maxTokens b"
    unfolding fsub_def using rnd_nonneg [OF d(1)] rnd_le [OF d(2) t(6)] by simp_all
  have "fsub t (of_int al) \<le> t - of_int al + bk_maxTokens b / 2 ^ 53"
    using rnd_le_abs [OF d(1), of "bk_maxTokens b"] f(2) t(5) by (simp add: fsub_def)
  then show "of_int a + bk_tokens b' \<le> refilled now b + bk_maxTokens b / 2 ^ 53"
    using res by (simp add: t_def)
  show "bucket_ok b'" "bk_lastRefill b' = now" "bk_maxTokens b' = bk_maxTokens b" "bk_refillRate b' = bk_refillRate b"
    "0 \<le> a" "a \<le> n"
    using res f al ok(1) by (simp_all add: bucket_ok_def)
  show "bk_tokens b' = refilled now b \<and> refilled now b < 1" if "a = 0" "0 < n"
  proof -
    have "al = 0" using res that(1) by simp
    then have "t < 1" using that(2) t(4) unfolding al_def by (metis floor_less_one less_irrefl zero_less_one)
    then show ?thesis
      using res \<open>al = 0\<close> t(3) by (simp add: t_def fsub_def rnd_exact)
  qed
qed

lemma SetLimit_bucket:
  assumes "0 < rate" "rate \<le> 2 ^ 53" "0 < burst" "burst \<le> 2 ^ 53"
  shows "\<exists>b. SetLimit now u rate burst l u = Some b \<and> bucket_ok b \<and> bk_lastRefill b = now \<and>
    bk_tokens b = of_int burst \<and> bk_maxTokens b = of_int burst \<and> bk_refillRate b = of_int rate"
proof -
  have "float_of_int rate = of_int rate" "float_of_int burst = of_int burst"
    using assms by (simp_all add: float_of_int_exact)
  then show ?thesis
    using assms is_float_int [of rate] is_float_int [of burst]
    by (simp add: SetLimit_def bucket_ok_def int_one_le_iff_zero_less)
qed

subsection \<open>Rate\<close>

text \<open>The bytes let through for one user by a sequence of calls, whoever else calls in between.\<close>

fun allow_run :: "string \<Rightarrow> (time \<times> string \<times> int) list \<Rightarrow> Limiter \<Rightarrow> Limiter \<times> int" where
  "allow_run u [] l = (l, 0)"
| "allow_run u ((now, v, n) # reqs) l =
     (case Allow now v n l of (l1, a) \<Rightarrow>
        case allow_run u reqs l1 of (l2, m) \<Rightarrow> (l2, if v = u then a + m else m))"

fun calls_ok :: "time \<Rightarrow> (time \<times> string \<times> int) list \<Rightarrow> bool" where
  "calls_ok t [] \<longleftrightarrow> True"
| "calls_ok t ((now, v, n) # reqs) \<longleftrightarrow> t \<le> now \<and> 0 \<le> n \<and> n \<le> 2 ^ 53 \<and> calls_ok now reqs"

fun last_call :: "time \<Rightarrow> (time \<times> string \<times> int) list \<Rightarrow> time" where
  "last_call t [] = t"
| "last_call t ((now, v, n) # reqs) = last_call now reqs"

lemma last_call_ge: "calls_ok t reqs \<Longrightarrow> t \<le> last_call t reqs"
  by (induction t reqs rule: calls_ok.induct) auto

lemma allow_run_bound:
  assumes "l u = Some b" "bucket_ok b" "bk_lastRefill b \<le> t" "calls_ok t reqs"
  shows "of_int (snd (allow_run u reqs l)) \<le> bk_tokens b + of_nat (length reqs) * (bk_maxTokens b / 2 ^ 52) +
    of_int (last_call t reqs - bk_lastRefill b) / 1000000000 * bk_refillRate b * (1 + 1 / 2 ^ 53) ^ 3"
  using assms
proof (induction reqs arbitrary: l b t)
  case Nil
  have "0 \<le> of_int (t - bk_lastRefill b) / 1000000000 * bk_refillRate b * (1 + 1 / 2 ^ 53) ^ 3"
    using Nil.prems by (intro mult_nonneg_nonneg) (simp_all add: bucket_ok_def)
  then show ?case
    using Nil.prems by (simp add: bucket_ok_def)
next
  case (Cons req reqs)
  define W :: rat where "W = (1 + 1 / 2 ^ 53) ^ 3"
  obtain now v n where req: "req = (now, v, n)" by (cases req)
  have now: "t \<le> now" "0 \<le> n" "n \<le> 2 ^ 53" "calls_ok now reqs"
    using Cons.prems(4) by (simp_all add: req)
  have m: "0 \<le> bk_maxTokens b / 2 ^ 52"
    using Cons.prems(2) by (simp add: bucket_ok_def)
  have tail: "last_call t (req # reqs) = last_call now reqs"
    "of_nat (length (req # reqs)) * (bk_maxTokens b / 2 ^ 52) =
       of_nat (length reqs) * (bk_maxTokens b / 2 ^ 52) + bk_maxTokens b / 2 ^ 52"
    by (simp_all add: req algebra_simps)
  show ?case
  proof (cases "v = u")
    case False
    obtain l1 a where al: "Allow now v n l = (l1, a)" by (cases "Allow now v n l")
    then have "l1 u = Some b"
      using Cons.prems(1) False by (auto simp: Allow_def split: option.splits prod.splits)
    from Cons.IH [of l1 b now] this have "of_int (snd (allow_run u reqs l1)) \<le>
        bk_tokens b + of_nat (length reqs) * (bk_maxTokens b / 2 ^ 52) +
        of_int (last_call now reqs - bk_lastRefill b) / 1000000000 * bk_refillRate b * W"
      using Cons.prems(2,3) now(1,4) by (simp add: W_def)
    moreover have "snd (allow_run u (req # reqs) l) = snd (allow_run u reqs l1)"
      using False al by (simp add: req split: prod.splits)
    ultimately show ?thesis
      unfolding W_def [symmetric] tail using m by linarith
  next
    case True
    obtain b1 a where tk: "bucket_take now n b = (b1, a)" by (cases "bucket_take now n b")
    have last: "bk_lastRefill b \<le> now" using Cons.prems(3) now(1) by simp
    note k = bucket_take_ok [OF Cons.prems(2) last now(2,3) tk]
    let ?d1 = "of_int (now - bk_lastRefill b) / 1000000000 * bk_refillRate b * W"
    let ?d2 = "of_int (last_call now reqs - now) / 1000000000 * bk_refillRate b * W"
    define l1 where "l1 = l(u \<mapsto> b1)"
    have al: "Allow now u n l = (l1, a)" "l1 u = Some b1"
      using Cons.prems(1) tk by (simp_all add: Allow_def l1_def)
    have "of_int (snd (allow_run u reqs l1)) \<le>
        bk_tokens b1 + of_nat (length reqs) * (bk_maxTokens b / 2 ^ 52) + ?d2"
      using Cons.IH [of l1 b1 now] al(2) k(1-4) now(4) by (simp add: W_def)
    moreover have "of_int a + bk_tokens b1 \<le> bk_tokens b + ?d1 + bk_maxTokens b / 2 ^ 52"
      using k(7) refilled_bounds(4) [OF Cons.prems(2) last] refill_amount(2) [OF Cons.prems(2) last]
      unfolding W_def by (simp add: field_simps)
    moreover have "?d1 + ?d2 = of_int (last_call now reqs - bk_lastRefill b) / 1000000000 * bk_refillRate b * W"
      by (simp add: field_simps)
    moreover have "rat_of_int (snd (allow_run u (req # reqs) l)) = of_int a + of_int (snd (allow_run u reqs l1))"
      using True al(1) by (simp add: req split: prod.splits)
    ultimately show ?thesis
      unfolding W_def [symmetric] tail by linarith
  qed
qed

lemma rounding_cubed: "(1 + 1 / 2 ^ 53) ^ 3 \<le> (1 + 1 / 2 ^ 51 :: rat)"
  by (simp add: power3_eq_cube)



subsection \<open>Writes\<close>

lemma rate_write_sends:
  assumes "rate_write jit u k now l p total0 c = Some r"
  shows "case r of (n, err, s, c') \<Rightarrow> sends c p err c' \<and> (\<not> err \<longrightarrow> n = total0 + length p)"
proof (rule rate_write.raw_induct [where P = "\<lambda>jit u k now l p total0 c r. case r of (n, err, s, c') \<Rightarrow>
    sends c p err c' \<and> (\<not> err \<longrightarrow> n = total0 + length p)", OF _ assms], goal_cases)
  case (1 rw jit u k now l p total0 c r)
  show ?case
  proof (cases "p = []")
    case True
    then show ?thesis
      using 1(2) sends_refl(1) [of c] by auto
  next
    case False
    obtain l' a where al: "Allow now u (int (length p)) l = (l', a)"
      by (cases "Allow now u (int (length p)) l")
    obtain n err c' where w: "conn_write (take (nat a) p) c = (n, err, c')"
      by (cases "conn_write (take (nat a) p) c")
    show ?thesis
    proof (cases "a = 0")
      case True
      then show ?thesis
        using 1 False al by auto
    next
      case nz: False
      show ?thesis
      proof (cases err)
        case True
        then have "r = (total0 + n, True, (Suc k, now + jit k, l'), c')"
          using 1(2) False al nz w by simp
        then show ?thesis
          using sends_error_part [of c "nat a" p c'] sends_conn_write [OF w] True by simp
      next
        case ok: False
        then have rest: "rw jit u (Suc k) (now + jit k) l' (drop n p) (total0 + n) c' = Some r"
          using 1(2) False al nz w by simp
        have n: "n = min (nat a) (length p)"
          using conn_write_ok(1) [of "take (nat a) p" c n c'] w ok by simp
        then have "sends c (take n p) False c'"
          using sends_conn_write [OF w] ok by (cases "nat a \<le> length p") (simp_all add: min_def)
        then show ?thesis
          using 1(1) [OF rest] sends_trans [of c n p c'] n by (cases r) auto
      qed
    qed
  qed
qed

interpretation rate_limited: stream_writer "RateLimitedConn_Write jit userID" for jit userID
proof (rule stream_writerI)
  fix s p c n err s' c'
  assume w: "RateLimitedConn_Write jit userID s p c = Some (n, err, s', c')"
  obtain k now l where s: "s = (k, now, l)" by (cases s)
  show "sends c p err c'"
    using w rate_write_sends [of jit userID k now l p 0 c] by (simp add: RateLimitedConn_Write_def s)
next
  fix s p c n s' c'
  assume w: "RateLimitedConn_Write jit userID s p c = Some (n, False, s', c')"
  obtain k now l where s: "s = (k, now, l)" by (cases s)
  show "n = length p"
    using w rate_write_sends [of jit userID k now l p 0 c] by (simp add: RateLimitedConn_Write_def s)
qed

text \<open>Ten milliseconds of refill are worth at least a 128th of a token.\<close>

lemma refilled_grows:
  assumes "bucket_ok b" "bk_lastRefill b + retry_delay \<le> now" "of_int j / 128 \<le> bk_tokens b" "0 \<le> j" "j \<le> 128"
  shows "min 1 (of_int (j + 1) / 128) \<le> refilled now b"
proof -
  let ?e = "Seconds (now - bk_lastRefill b)"
  have ok: "1 \<le> bk_refillRate b" "1 \<le> bk_maxTokens b"
    using assms(1) by (simp_all add: bucket_ok_def)
  have e: "1 / 128 \<le> ?e"
    using assms(2) by (intro Seconds_lower) (simp add: retry_delay_def)
  have "1 / 128 \<le> ?e * bk_refillRate b"
    using mult_mono [OF e ok(1)] e by simp
  then have "1 / 128 \<le> fmul ?e (bk_refillRate b)"
    unfolding fmul_def using is_float_dyadic [of 1] by (intro le_rnd) simp_all
  then have "of_int (j + 1) / 128 \<le> bk_tokens b + fmul ?e (bk_refillRate b)"
    using assms(3) by (simp add: field_simps)
  then have "of_int (j + 1) / 128 \<le> fadd (bk_tokens b) (fmul ?e (bk_refillRate b))"
    unfolding fadd_def using assms(4,5) by (intro le_rnd is_float_dyadic) simp_all
  then show ?thesis
    using min.coboundedI1 [OF ok(2)] min.coboundedI2 unfolding refilled_def Let_def by (simp only: if_split) blast
qed

definition user_ok :: "time \<Rightarrow> string \<Rightarrow> Limiter \<Rightarrow> bool" where
  "user_ok now u l \<longleftrightarrow> (case l u of None \<Rightarrow> True | Some b \<Rightarrow> bucket_ok b \<and> bk_lastRefill b \<le> now)"

lemma user_ok_later: "user_ok now u l \<Longrightarrow> now \<le> now' \<Longrightarrow> user_ok now' u l"
  by (auto simp: user_ok_def split: option.splits)

lemma Allow_ok:
  assumes "user_ok now u l" "0 < n" "n \<le> 2 ^ 53" "Allow now u n l = (l', a)"
  shows "0 \<le> a" "a \<le> n" "user_ok now u l'"
    "a = 0 \<Longrightarrow> \<exists>b b'. l u = Some b \<and> l' u = Some b' \<and> bucket_ok b' \<and> bk_lastRefill b' = now \<and>
       bk_tokens b' = refilled now b \<and> refilled now b < 1"
proof -
  have all: "0 \<le> a \<and> a \<le> n \<and> user_ok now u l' \<and>
    (a = 0 \<longrightarrow> (\<exists>b b'. l u = Some b \<and> l' u = Some b' \<and> bucket_ok b' \<and> bk_lastRefill b' = now \<and>
       bk_tokens b' = refilled now b \<and> refilled now b < 1))"
  proof (cases "l u")
    case None
    then show ?thesis
      using assms by (auto simp: Allow_def)
  next
    case (Some b)
    obtain b' a' where tk: "bucket_take now n b = (b', a')" by (cases "bucket_take now n b")
    have b: "bucket_ok b" "bk_lastRefill b \<le> now"
      using assms(1) Some by (simp_all add: user_ok_def)
    then show ?thesis
      using bucket_take_ok [OF b _ assms(3) tk] assms(2,4) Some tk by (auto simp: Allow_def user_ok_def)
  qed
  then show "0 \<le> a" "a \<le> n" "user_ok now u l'"
    "a = 0 \<Longrightarrow> \<exists>b b'. l u = Some b \<and> l' u = Some b' \<and> bucket_ok b' \<and> bk_lastRefill b' = now \<and>
       bk_tokens b' = refilled now b \<and> refilled now b < 1"
    by blast+
qed

text \<open>A round that writes leaves less to write.\<close>

lemma rate_write_round:
  assumes "p \<noteq> []" "int (length p) \<le> 2 ^ 53" "user_ok now u l" "\<And>k. 0 \<le> jit k"
    and "Allow now u (int (length p)) l = (l', a)" "a \<noteq> 0"
    and IH: "\<And>q k now l t c. length q < length p \<Longrightarrow> user_ok now u l \<Longrightarrow> rate_write jit u k now l q t c \<noteq> None"
  shows "rate_write jit u k now l p t c \<noteq> None"
proof -
  have "0 < int (length p)"
    using assms(1) by simp
  note al = Allow_ok [OF assms(3) this assms(2,5)]
  obtain w err c' where cw: "conn_write (take (nat a) p) c = (w, err, c')"
    by (cases "conn_write (take (nat a) p) c")
  show ?thesis
  proof (cases err)
    case True
    then show ?thesis
      using assms(1,5,6) cw by (simp add: rate_write.simps [of jit u k now l p t c])
  next
    case False
    then have "w = nat a"
      using conn_write_ok(1) [of "take (nat a) p" c w c'] cw al(2) by simp
    then have "length (drop w p) < length p"
      using al(1) assms(1,6) by simp
    from IH [OF this user_ok_later [OF al(3)], of "now + jit k"] show ?thesis
      using assms(1,4,5,6) cw False by (simp add: rate_write.simps [of jit u k now l p t c])
  qed
qed

text \<open>After a sleep, at most 128 more sleeps pass before a byte is let through.\<close>

lemma rate_write_waits:
  assumes p: "p \<noteq> []" "int (length p) \<le> 2 ^ 53" and jit: "\<And>k. 0 \<le> jit k"
    and IH: "\<And>q k now l t c. length q < length p \<Longrightarrow> user_ok now u l \<Longrightarrow> rate_write jit u k now l q t c \<noteq> None"
    and "l u = Some b" "bucket_ok b" "bk_lastRefill b + retry_delay \<le> now" "of_int (128 - int m) / 128 \<le> bk_tokens b" "m \<le> 128"
  shows "rate_write jit u k now l p t c \<noteq> None"
  using assms(5-9)
proof (induction m arbitrary: l b now k)
  case (Suc m)
  have u: "user_ok now u l"
    using Suc.prems by (simp add: user_ok_def retry_delay_def)
  obtain l' a where al: "Allow now u (int (length p)) l = (l', a)"
    by (cases "Allow now u (int (length p)) l")
  show ?case
  proof (cases "a = 0")
    case False
    then show ?thesis
      using rate_write_round [OF p u jit al False IH] by blast
  next
    case True
    have "0 < int (length p)" using p(1) by simp
    from Allow_ok(4) [OF u this p(2) al True] obtain b' where b': "l' u = Some b'" "bucket_ok b'" "bk_lastRefill b' = now"
      "bk_tokens b' = refilled now b" "refilled now b < 1"
      using Suc.prems(1) by auto
    have "min 1 (of_int (128 - int (Suc m) + 1) / 128) \<le> refilled now b"
      using Suc.prems(2-5) by (intro refilled_grows) simp_all
    then have "of_int (128 - int m) / 128 \<le> bk_tokens b'"
      using b'(4,5) by (simp add: min_le_iff_disj)
    then have "rate_write jit u (Suc k) (now + retry_delay + jit k) l' p t c \<noteq> None"
      using Suc.IH [of l' b' "now + retry_delay + jit k" "Suc k"] b'(1-3) jit [of k] Suc.prems(5) by simp
    then show ?thesis
      using p(1) al True by (simp add: rate_write.simps [of jit u k now l p t c])
  qed
next
  case 0
  have u: "user_ok now u l"
    using 0 by (simp add: user_ok_def retry_delay_def)
  obtain l' a where al: "Allow now u (int (length p)) l = (l', a)"
    by (cases "Allow now u (int (length p)) l")
  have "a \<noteq> 0"
  proof
    assume "a = 0"
    have "0 < int (length p)" using p(1) by simp
    from Allow_ok(4) [OF u this p(2) al \<open>a = 0\<close>] have "refilled now b < 1"
      using 0(1) by auto
    moreover have "bk_tokens b \<le> refilled now b"
      using refilled_bounds(1) [OF 0(2), of now] 0(3) by (simp add: retry_delay_def)
    ultimately show False
      using 0(4) by simp
  qed
  then show ?case
    using rate_write_round [OF p u jit al _ IH] by blast
qed

lemma rate_write_returns:
  assumes "int (length p) \<le> 2 ^ 53" "\<And>k. 0 \<le> jit k" "user_ok now u l"
  shows "rate_write jit u k now l p t c \<noteq> None"
  using assms(1,3)
proof (induction "length p" arbitrary: p k now l t c rule: less_induct)
  case less
  have IH: "rate_write jit u k now l q t c \<noteq> None" if "length q < length p" "user_ok now u l" for q k now l t c
    using less.hyps [OF that(1) _ that(2)] that(1) less.prems(1) by simp
  obtain l' a where al: "Allow now u (int (length p)) l = (l', a)"
    by (cases "Allow now u (int (length p)) l")
  consider "p = []" | "p \<noteq> []" "a \<noteq> 0" | "p \<noteq> []" "a = 0" by blast
  then show ?case
  proof cases
    case 1
    then show ?thesis by (simp add: rate_write.simps)
  next
    case 2
    then show ?thesis
      using rate_write_round [OF 2(1) less.prems assms(2) al 2(2) IH] by blast
  next
    case 3
    have "0 < int (length p)" using 3(1) by simp
    from Allow_ok(4) [OF less.prems(2) this less.prems(1) al 3(2)] obtain b' where
      b': "l' u = Some b'" "bucket_ok b'" "bk_lastRefill b' = now" by auto
    then have "rate_write jit u (Suc k) (now + retry_delay + jit k) l' p t c \<noteq> None"
      using assms(2) [of k] rate_write_waits [OF 3(1) less.prems(1) assms(2) IH,
          where l = l' and b = b' and m = 128 and now = "now + retry_delay + jit k"]
      by (simp add: bucket_ok_def)
    then show ?thesis
      using 3 al by (simp add: rate_write.simps [of jit u k now l p t c])
  qed
qed

text \<open>
  A write through a rate-limited connection always returns, whatever the limit and however
  little of the burst is left, as long as the clock does not run backwards: it reports an error of
  the connection or that all bytes were written, and without an error the peer receives exactly
  them.
\<close>

theorem rate_limited_write_returns:
  assumes "int (length p) \<le> 2 ^ 53" "\<And>k. 0 \<le> jit k"
    and "0 < rate" "rate \<le> 2 ^ 53" "0 < burst" "burst \<le> 2 ^ 53" "t0 \<le> now"
  shows "\<exists>n err s c'. RateLimitedConn_Write jit u (0, now, SetLimit t0 u rate burst l) p c = Some (n, err, s, c') \<and>
    (\<not> err \<longrightarrow> n = length p \<and> nc_sent c' = nc_sent c @ p) \<and>
    (\<exists>m \<le> length p. nc_sent c' = nc_sent c @ take m p)"
proof -
  let ?s = "(0 :: nat, now, SetLimit t0 u rate burst l)"
  have "user_ok now u (SetLimit t0 u rate burst l)"
    using SetLimit_bucket [OF assms(3-6), of t0 u l] assms(7) by (auto simp: user_ok_def)
  then have "RateLimitedConn_Write jit u ?s p c \<noteq> None"
    using rate_write_returns [OF assms(1,2)] by (simp add: RateLimitedConn_Write_def)
  then obtain n err s c' where w: "RateLimitedConn_Write jit u ?s p c = Some (n, err, s, c')"
    by (metis option.exhaust prod_cases4)
  moreover have "\<not> err \<Longrightarrow> n = length p \<and> nc_sent c' = nc_sent c @ p"
    using rate_limited.write_complete [of jit u ?s p c n s c'] w by simp
  ultimately show ?thesis
    using rate_limited.write_prefix [OF w] by blast
qed

theorem rate_limited_write_returns_witness:
  "\<exists>n err s c'. RateLimitedConn_Write (\<lambda>_. 0) ''ann'' (0, 0, SetLimit 0 ''ann'' 1 1 Map.empty) [1, 2, 3]
     \<lparr>nc_writes = [], nc_budget = None\<rparr> = Some (n, err, s, c') \<and> (\<not> err \<longrightarrow> n = 3 \<and> nc_sent c' = [1, 2, 3])"
  using rate_limited_write_returns [of "[1, 2, 3]" "\<lambda>_. 0" 1 1 0 0 "''ann''" Map.empty "\<lparr>nc_writes = [], nc_budget = None\<rparr>"]
  by (auto simp: nc_sent_def)

text \<open>A read is cut to what the limit allows, and to one byte when it allows nothing.\<close>

lemma RateLimitedConn_Read_len:
  assumes "user_ok now u l" "now \<le> later" "0 < len" "int len \<le> 2 ^ 53"
    and "RateLimitedConn_Read u now later l len = (l', n)"
  shows "1 \<le> n \<and> n \<le> len"
proof -
  obtain l1 a1 where a1: "Allow now u (int len) l = (l1, a1)" by (cases "Allow now u (int len) l")
  obtain l2 a2 where a2: "Allow later u (int len) l1 = (l2, a2)" by (cases "Allow later u (int len) l1")
  have len: "0 < int len" using assms(3) by simp
  note k1 = Allow_ok [OF assms(1) len assms(4) a1]
  note k2 = Allow_ok [OF user_ok_later [OF k1(3) assms(2)] len assms(4) a2]
  show ?thesis
    using assms(3,5) k1(1,2) k2(1,2) by (auto simp: RateLimitedConn_Read_def a1 a2 split: if_splits)
qed

end
