(* ===== verification/Warmup_Pool.thy ===== *)
theory Warmup_Pool
  imports Direct_Pool
begin

text \<open>
  The warm-up pool of internal/stability/buffer_tuning.go: sessions created ahead of time and kept in
  a channel. The fillers, the callers of \<open>Get\<close> and \<open>Stop\<close> run concurrently; every creation and
  channel operation is one atomic step. Sessions are numbered in the order of their creation, and
  the ghost fields say where each is.
\<close>

subsection \<open>State and steps\<close>

record warmup =
  wu_pool :: "nat list"
  wu_closed :: bool
  wu_minReady :: nat
  wu_maxReady :: nat
  wu_panic :: bool
  wu_next :: nat
  wu_pending :: "nat set"
  wu_given :: "nat set"
  wu_lost :: "nat set"

definition NewWarmupPool :: "nat \<Rightarrow> nat \<Rightarrow> warmup" where
  "NewWarmupPool minReady maxReady =
     \<lparr>wu_pool = [], wu_closed = False, wu_minReady = (if minReady = 0 then 2 else minReady),
      wu_maxReady = (if maxReady = 0 then 4 else maxReady), wu_panic = False, wu_next = 0,
      wu_pending = {}, wu_given = {}, wu_lost = {}\<rparr>"

text \<open>
  \<open>fill\<close> and \<open>fillOne\<close> create a session after they looked at the length of the channel, below
  \<open>minReady\<close> and \<open>maxReady\<close>; neither looks whether the pool was stopped.
\<close>

definition fill_create :: "warmup \<Rightarrow> warmup" where
  "fill_create w = w\<lparr>wu_pending := insert (wu_next w) (wu_pending w), wu_next := Suc (wu_next w)\<rparr>"

text \<open>
  The send that follows: on a closed channel it panics, and a session for which the channel has no
  room is dropped without being closed.
\<close>

definition fill_send :: "nat \<Rightarrow> warmup \<Rightarrow> warmup" where
  "fill_send s w =
     (let w1 = w\<lparr>wu_pending := wu_pending w - {s}\<rparr> in
      if wu_closed w then w1\<lparr>wu_panic := True, wu_lost := insert s (wu_lost w)\<rparr>
      else if length (wu_pool w) < wu_maxReady w then w1\<lparr>wu_pool := wu_pool w @ [s]\<rparr>
      else w1\<lparr>wu_lost := insert s (wu_lost w)\<rparr>)"

text \<open>
  \<open>Get\<close>: the session handed out. A closed empty channel gives the nil session at once; an open empty
  one makes the caller create a session itself.
\<close>

definition Warmup_Get :: "warmup \<Rightarrow> nat option \<times> warmup" where
  "Warmup_Get w =
     (case wu_pool w of
        s # rest \<Rightarrow> (Some s, w\<lparr>wu_pool := rest, wu_given := insert s (wu_given w)\<rparr>)
      | [] \<Rightarrow>
          if wu_closed w then (None, w)
          else (Some (wu_next w), w\<lparr>wu_given := insert (wu_next w) (wu_given w), wu_next := Suc (wu_next w)\<rparr>))"

text \<open>\<open>Stop\<close> closes the signal channel and the pool, a second time with a panic; it drains nothing.\<close>

definition Warmup_Stop :: "warmup \<Rightarrow> warmup" where
  "Warmup_Stop w = (if wu_closed w then w\<lparr>wu_panic := True\<rparr> else w\<lparr>wu_closed := True\<rparr>)"

inductive wu_step :: "warmup \<Rightarrow> warmup \<Rightarrow> bool" where
  creates: "length (wu_pool w) < max (wu_minReady w) (wu_maxReady w) \<Longrightarrow> wu_step w (fill_create w)"
| sends: "s \<in> wu_pending w \<Longrightarrow> wu_step w (fill_send s w)"
| gets: "wu_step w (snd (Warmup_Get w))"
| stops: "wu_step w (Warmup_Stop w)"

definition wu_init :: "warmup \<Rightarrow> bool" where
  "wu_init w \<longleftrightarrow> (\<exists>minReady maxReady. w = NewWarmupPool minReady maxReady)"

subsection \<open>Invariant\<close>

definition wu_inv :: "warmup \<Rightarrow> bool" where
  "wu_inv w \<longleftrightarrow>
     parts {0..<wu_next w} (set (wu_pool w)) (wu_pending w) (wu_given w) (wu_lost w) \<and> distinct (wu_pool w) \<and>
     length (wu_pool w) \<le> wu_maxReady w \<and> (wu_panic w \<longrightarrow> wu_closed w)"

lemma wu_step_inv:
  assumes "wu_step w w'" "wu_inv w" shows "wu_inv w'"
  using assms
proof (induction rule: wu_step.induct)
  case (creates w)
  then show ?case by (simp add: wu_inv_def fill_create_def parts_new)
next
  case (sends s w)
  then have "s \<notin> set (wu_pool w)"
    by (auto simp: wu_inv_def parts_def)
  then show ?case
    using sends by (auto simp: wu_inv_def fill_send_def Let_def parts_put parts_drop)
next
  case (gets w)
  show ?case
  proof (cases "wu_pool w")
    case Nil
    then show ?thesis
      using gets by (auto simp: wu_inv_def Warmup_Get_def parts_new)
  next
    case (Cons s rest)
    then show ?thesis
      using gets by (auto simp: wu_inv_def Warmup_Get_def intro: parts_take)
  qed
next
  case (stops w)
  then show ?case by (simp add: wu_inv_def Warmup_Stop_def)
qed

interpretation warmup_system: inductive_invariant wu_init wu_step wu_inv
proof
  show "wu_inv w" if "wu_init w" for w
    using that by (auto simp: wu_init_def wu_inv_def NewWarmupPool_def parts_def)
qed (rule wu_step_inv)



end
