(* ===== verification/Dpi_Detect.thy ===== *)
theory Dpi_Detect
  imports Prelude "HOL-Library.Sublist"
begin

text \<open>
  internal/stability/dpi_detect.go: the detector that classifies connection failures by the text of
  the error and the time before it, counts the patterns and recommends a transport for the most
  frequent one. The order in which Go ranges over the counters is a parameter.
\<close>

subsection \<open>State and operations\<close>

datatype DPIPattern =
    PatternTCPReset | PatternTimeout | PatternTLSBlock | PatternThrottle | PatternDataReset
  | PatternDNSPoison | PatternNone

record DPIEvent =
  de_Timestamp :: time
  de_Pattern :: DPIPattern
  de_Transport :: string
  de_Duration :: time
  de_Details :: string

record DPIDetector =
  dd_events :: "DPIEvent list"
  dd_patterns :: "DPIPattern \<Rightarrow> nat"
  dd_total :: int

definition NewDPIDetector :: DPIDetector where
  "NewDPIDetector = \<lparr>dd_events = [], dd_patterns = (\<lambda>_. 0), dd_total = 0\<rparr>"

definition searchString :: "string \<Rightarrow> string \<Rightarrow> bool" where
  "searchString s substr \<longleftrightarrow>
     list_ex (\<lambda>i. take (length substr) (drop i s) = substr) [0..<length s - length substr + 1]"

definition contains :: "string \<Rightarrow> string \<Rightarrow> bool" where
  "contains s substr \<longleftrightarrow> length substr \<le> length s \<and> searchString s substr"

definition classifyFailure :: "string \<Rightarrow> time \<Rightarrow> DPIPattern" where
  "classifyFailure err duration =
     (if duration < 1 * second \<and> (contains err ''reset'' \<or> contains err ''RST'') then PatternTCPReset
      else if 10 * second < duration \<and> (contains err ''timeout'' \<or> contains err ''deadline'') then PatternTimeout
      else if contains err ''tls'' \<or> contains err ''handshake'' \<or> contains err ''certificate'' then PatternTLSBlock
      else if 2 * second < duration \<and> duration < 10 * second \<and>
        (contains err ''reset'' \<or> contains err ''broken pipe'' \<or> contains err ''connection refused'')
        then PatternDataReset
      else if contains err ''no such host'' \<or> contains err ''dns'' then PatternDNSPoison
      else PatternNone)"

text \<open>The result is whether the detection callback is called.\<close>

definition RecordFailure :: "time \<Rightarrow> string \<Rightarrow> string \<Rightarrow> time \<Rightarrow> DPIDetector \<Rightarrow> DPIDetector \<times> DPIPattern option" where
  "RecordFailure now transport err connectDuration d =
     (let pattern = classifyFailure err connectDuration;
          event = \<lparr>de_Timestamp = now, de_Pattern = pattern, de_Transport = transport,
            de_Duration = connectDuration, de_Details = err\<rparr>;
          events = dd_events d @ [event];
          events = (if 1000 < length events then drop (length events - 500) events else events);
          patterns = (dd_patterns d)(pattern := dd_patterns d pattern + 1)
      in (\<lparr>dd_events = events, dd_patterns = patterns, dd_total = wrap64 (dd_total d + 1)\<rparr>,
          if 3 \<le> patterns pattern then Some pattern else None))"

fun dominant_loop :: "(DPIPattern \<Rightarrow> nat) \<Rightarrow> DPIPattern list \<Rightarrow> DPIPattern option \<Rightarrow> nat \<Rightarrow> DPIPattern option" where
  "dominant_loop counts [] dominant maxCount = dominant"
| "dominant_loop counts (pattern # rest) dominant maxCount =
     (if maxCount < counts pattern then dominant_loop counts rest (Some pattern) (counts pattern)
      else dominant_loop counts rest dominant maxCount)"

definition recommended_for :: "DPIPattern option \<Rightarrow> string" where
  "recommended_for dominant =
     (case dominant of
        Some PatternTCPReset \<Rightarrow> ''reality''
      | Some PatternTimeout \<Rightarrow> ''kcp''
      | Some PatternTLSBlock \<Rightarrow> ''shadowtls''
      | Some PatternThrottle \<Rightarrow> ''wsmux''
      | Some PatternDataReset \<Rightarrow> ''h2mux''
      | Some PatternDNSPoison \<Rightarrow> ''reality''
      | _ \<Rightarrow> ''reality'')"

definition GetRecommendation :: "DPIPattern list \<Rightarrow> DPIDetector \<Rightarrow> string" where
  "GetRecommendation order d = recommended_for (dominant_loop (dd_patterns d) order None 0)"

definition DPI_Reset :: "DPIDetector \<Rightarrow> DPIDetector" where
  "DPI_Reset d = d\<lparr>dd_events := [], dd_patterns := (\<lambda>_. 0)\<rparr>"

subsection \<open>Classification\<close>

text \<open>\<open>contains\<close> is the substring relation.\<close>

lemma contains_iff: "contains s substr \<longleftrightarrow> sublist substr s"
proof
  assume "contains s substr"
  then obtain i where i: "take (length substr) (drop i s) = substr"
    unfolding contains_def searchString_def list_ex_iff by blast
  have "s = take i s @ substr @ drop (length substr) (drop i s)"
    using append_take_drop_id [of i s] append_take_drop_id [of "length substr" "drop i s"] i by simp
  then show "sublist substr s"
    unfolding sublist_def by blast
next
  assume "sublist substr s"
  then obtain us vs where s: "s = us @ substr @ vs"
    unfolding sublist_def by blast
  then have "take (length substr) (drop (length us) s) = substr" "length us \<in> set [0..<length s - length substr + 1]"
    by simp_all
  moreover have "length substr \<le> length s"
    by (simp add: s)
  ultimately show "contains s substr"
    unfolding contains_def searchString_def list_ex_iff by blast
qed

text \<open>No failure is ever classified as throttling, so the transport for it is never recommended for that reason.\<close>

lemma classify_never_throttle: "classifyFailure err d \<noteq> PatternThrottle"
  by (simp add: classifyFailure_def)

subsection \<open>Counting\<close>

definition record_all :: "(time \<times> string \<times> string \<times> time) list \<Rightarrow> DPIDetector \<Rightarrow> DPIDetector" where
  "record_all fs d = foldl (\<lambda>d (now, tr, err, dur). fst (RecordFailure now tr err dur d)) d fs"

lemma record_all_snoc: "record_all (fs @ [(now, tr, err, dur)]) d = fst (RecordFailure now tr err dur (record_all fs d))"
  by (simp add: record_all_def)

lemma record_all_counts:
  "dd_patterns (record_all fs NewDPIDetector) pat =
     length (filter (\<lambda>(now, tr, err, dur). classifyFailure err dur = pat) fs)"
proof (induction fs rule: rev_induct)
  case (snoc f fs)
  obtain now tr err dur where "f = (now, tr, err, dur)" by (cases f)
  then show ?case
    using snoc by (auto simp: record_all_snoc RecordFailure_def Let_def)
qed (simp add: record_all_def NewDPIDetector_def)

lemma record_all_bounded: "length (dd_events (record_all fs NewDPIDetector)) \<le> 1000"
proof (induction fs rule: rev_induct)
  case (snoc f fs)
  obtain now tr err dur where "f = (now, tr, err, dur)" by (cases f)
  then show ?case
    using snoc by (simp add: record_all_snoc RecordFailure_def Let_def)
qed (simp add: record_all_def NewDPIDetector_def)

text \<open>The loop finds a pattern with the largest counter, whatever the order.\<close>

lemma dominant_loop_max:
  assumes "case best of None \<Rightarrow> m = 0 | Some p \<Rightarrow> m = counts p \<and> 0 < m"
  shows "case dominant_loop counts ps best m of
      None \<Rightarrow> best = None \<and> (\<forall>p\<in>set ps. counts p = 0)
    | Some q \<Rightarrow> 0 < counts q \<and> m \<le> counts q \<and> (\<forall>p\<in>set ps. counts p \<le> counts q)"
  using assms
proof (induction ps arbitrary: best m)
  case (Cons p ps)
  show ?case
  proof (cases "m < counts p")
    case True
    then show ?thesis
      using Cons.IH [where best = "Some p" and m = "counts p"] by (auto split: option.splits)
  next
    case False
    then show ?thesis
      using Cons.IH [OF Cons.prems] Cons.prems by (auto split: option.splits)
  qed
qed (auto split: option.splits)

text \<open>
  The recommendation is that for a pattern which as many recorded failures show as any other,
  whatever the order in which the counters are visited; a failure counts for a pattern exactly
  when its error text and duration are classified so, and the log of events never exceeds 1000.
\<close>

theorem dpi_recommendation_dominant:
  assumes "set order = UNIV" "fs \<noteq> []"
  shows "\<exists>pat. GetRecommendation order (record_all fs NewDPIDetector) = recommended_for (Some pat) \<and>
     (\<forall>other. length (filter (\<lambda>(now, tr, err, dur). classifyFailure err dur = other) fs)
        \<le> length (filter (\<lambda>(now, tr, err, dur). classifyFailure err dur = pat) fs)) \<and>
     (\<exists>now tr err dur. (now, tr, err, dur) \<in> set fs \<and> classifyFailure err dur = pat) \<and>
     length (dd_events (record_all fs NewDPIDetector)) \<le> 1000"
proof -
  define counts where "counts = dd_patterns (record_all fs NewDPIDetector)"
  have c: "counts pat = length (filter (\<lambda>(now, tr, err, dur). classifyFailure err dur = pat) fs)" for pat
    by (simp add: counts_def record_all_counts)
  obtain now tr err dur fs' where "fs = (now, tr, err, dur) # fs'"
    using assms(2) by (metis list.exhaust prod_cases4)
  then have pos: "0 < counts (classifyFailure err dur)"
    by (simp add: c)
  have "case dominant_loop counts order None 0 of None \<Rightarrow> \<forall>p. counts p = 0
    | Some q \<Rightarrow> 0 < counts q \<and> (\<forall>p. counts p \<le> counts q)"
    using dominant_loop_max [where best = None and m = 0 and counts = counts and ps = order] assms(1) by (auto split: option.splits)
  then obtain pat where pat: "dominant_loop counts order None 0 = Some pat" "0 < counts pat" "\<And>p. counts p \<le> counts pat"
    using pos by (auto split: option.splits)
  have "\<exists>now tr err dur. (now, tr, err, dur) \<in> set fs \<and> classifyFailure err dur = pat"
    using pat(2) by (auto simp: c filter_empty_conv)
  moreover have "GetRecommendation order (record_all fs NewDPIDetector) = recommended_for (Some pat)"
    using pat(1) by (simp add: GetRecommendation_def flip: counts_def)
  ultimately show ?thesis
    using pat(3) record_all_bounded [of fs] unfolding c by blast
qed

definition all_patterns :: "DPIPattern list" where
  "all_patterns = [PatternNone, PatternTCPReset, PatternTimeout, PatternTLSBlock, PatternThrottle, PatternDataReset,
     PatternDNSPoison]"

theorem dpi_recommendation_dominant_witness:
  "set all_patterns = UNIV \<and>
   (\<exists>pat. GetRecommendation all_patterns (record_all
        [(0, ''tcpmux'', ''read: connection reset by peer'', 5000), (9, ''tcpmux'', ''session closed unexpectedly'', 0)]
        NewDPIDetector) = recommended_for (Some pat))"
proof -
  have U: "set all_patterns = UNIV"
    by (auto simp: all_patterns_def) (metis DPIPattern.exhaust)
  show ?thesis
    using U dpi_recommendation_dominant [OF U, of "[(0, ''tcpmux'', ''read: connection reset by peer'', 5000),
      (9, ''tcpmux'', ''session closed unexpectedly'', 0)]"] by blast
qed

end
