(* ===== verification/Quality.thy ===== *)
theory Quality
  imports Go_Float Prelude
begin

text \<open>
  internal/stability/quality.go and the buffer tuner of internal/stability/buffer_tuning.go: the
  quality metrics of the sessions with their moving average in float64, the score computed from
  them, and the buffer sizes derived from the bandwidth-delay product. Products and sums are rounded
  one by one, as on amd64.
\<close>

subsection \<open>Metrics\<close>

record QualityConfig =
  qc_MaxLatency :: time
  qc_MaxJitter :: time
  qc_MaxPacketLoss :: rat

record QualityMetrics =
  qm_LastRTT :: int
  qm_AvgRTT :: int
  qm_MinRTT :: int
  qm_MaxRTT :: int
  qm_Jitter :: int
  qm_BytesSent :: int
  qm_BytesRecv :: int
  qm_lastCheck :: time
  qm_lastSent :: int
  qm_lastRecv :: int
  qm_SendRate :: int
  qm_RecvRate :: int
  qm_PingsSent :: int
  qm_PongsRecv :: int
  qm_Score :: int
  qm_Degraded :: bool

type_synonym sessions = "int \<Rightarrow> QualityMetrics option"

definition hour :: time where "hour = 60 * minute"

definition new_metrics :: "time \<Rightarrow> QualityMetrics" where
  "new_metrics now =
     \<lparr>qm_LastRTT = 0, qm_AvgRTT = 0, qm_MinRTT = hour, qm_MaxRTT = 0, qm_Jitter = 0, qm_BytesSent = 0, qm_BytesRecv = 0,
      qm_lastCheck = now, qm_lastSent = 0, qm_lastRecv = 0, qm_SendRate = 0, qm_RecvRate = 0, qm_PingsSent = 0,
      qm_PongsRecv = 0, qm_Score = 100, qm_Degraded = False\<rparr>"

definition QM_Register :: "time \<Rightarrow> int \<Rightarrow> sessions \<Rightarrow> sessions" where
  "QM_Register now sessionID ss = ss(sessionID \<mapsto> new_metrics now)"

definition QM_Unregister :: "int \<Rightarrow> sessions \<Rightarrow> sessions" where
  "QM_Unregister sessionID ss = ss(sessionID := None)"

definition upd_session :: "int \<Rightarrow> (QualityMetrics \<Rightarrow> QualityMetrics) \<Rightarrow> sessions \<Rightarrow> sessions" where
  "upd_session sessionID f ss = (case ss sessionID of None \<Rightarrow> ss | Some m \<Rightarrow> ss(sessionID \<mapsto> f m))"

text \<open>The exponential moving average: \<open>int64(float64(oldAvg)*0.7 + float64(rttNano)*0.3)\<close>.\<close>

definition ema :: "int \<Rightarrow> int \<Rightarrow> int" where
  "ema oldAvg rttNano =
     int_of_float (fadd (fmul (float_of_int oldAvg) (fround (7 / 10))) (fmul (float_of_int rttNano) (fround (3 / 10))))"

definition record_rtt :: "int \<Rightarrow> QualityMetrics \<Rightarrow> QualityMetrics" where
  "record_rtt rttNano m =
     (let m1 = m\<lparr>qm_LastRTT := rttNano, qm_MinRTT := (if rttNano < qm_MinRTT m then rttNano else qm_MinRTT m),
            qm_MaxRTT := (if qm_MaxRTT m < rttNano then rttNano else qm_MaxRTT m)\<rparr>
      in if qm_AvgRTT m = 0 then m1\<lparr>qm_AvgRTT := rttNano\<rparr>
         else
           let newAvg = ema (qm_AvgRTT m) rttNano in
           m1\<lparr>qm_AvgRTT := newAvg, qm_Jitter := \<bar>rttNano - newAvg\<bar>\<rparr>)"

definition RecordRTT :: "int \<Rightarrow> int \<Rightarrow> sessions \<Rightarrow> sessions" where
  "RecordRTT sessionID rtt = upd_session sessionID (record_rtt rtt)"

definition RecordBytes :: "int \<Rightarrow> int \<Rightarrow> int \<Rightarrow> sessions \<Rightarrow> sessions" where
  "RecordBytes sessionID sent recv = upd_session sessionID (\<lambda>m.
     m\<lparr>qm_BytesSent := wrap64 (qm_BytesSent m + sent), qm_BytesRecv := wrap64 (qm_BytesRecv m + recv)\<rparr>)"

definition RecordPing :: "int \<Rightarrow> sessions \<Rightarrow> sessions" where
  "RecordPing sessionID = upd_session sessionID (\<lambda>m. m\<lparr>qm_PingsSent := wrap64 (qm_PingsSent m + 1)\<rparr>)"

definition RecordPong :: "int \<Rightarrow> sessions \<Rightarrow> sessions" where
  "RecordPong sessionID = upd_session sessionID (\<lambda>m. m\<lparr>qm_PongsRecv := wrap64 (qm_PongsRecv m + 1)\<rparr>)"

subsection \<open>Evaluation\<close>

definition lossRatio :: "QualityMetrics \<Rightarrow> rat" where
  "lossRatio m = fsub 1 (fdiv (float_of_int (qm_PongsRecv m)) (float_of_int (qm_PingsSent m)))"

text \<open>The body of \<open>evaluateAll\<close> for one session: its new metrics and the reasons given to the callback.\<close>

definition throughput :: "time \<Rightarrow> QualityMetrics \<Rightarrow> QualityMetrics" where
  "throughput now m =
     (let elapsed = fdiv (float_of_int (now - qm_lastCheck m)) (float_of_int second) in
      if 0 < elapsed then
        m\<lparr>qm_SendRate := int_of_float (fdiv (float_of_int (qm_BytesSent m - qm_lastSent m)) elapsed),
          qm_RecvRate := int_of_float (fdiv (float_of_int (qm_BytesRecv m - qm_lastRecv m)) elapsed),
          qm_lastSent := qm_BytesSent m, qm_lastRecv := qm_BytesRecv m, qm_lastCheck := now\<rparr>
      else m)"

definition evaluate :: "QualityConfig \<Rightarrow> time \<Rightarrow> QualityMetrics \<Rightarrow> QualityMetrics \<times> string list" where
  "evaluate cfg now m =
     (let slow = qc_MaxLatency cfg < qm_AvgRTT m;
          score = 100 - (if slow then 30 else 0);
          calls = (if slow \<and> \<not> qm_Degraded m then [''high_latency''] else []);
          m1 = m\<lparr>qm_Degraded := qm_Degraded m \<or> slow\<rparr>;
          score = score - (if qc_MaxJitter cfg < qm_Jitter m then 20 else 0);
          m2 = throughput now m1;
          lossy = 5 < qm_PingsSent m \<and> qc_MaxPacketLoss cfg < lossRatio m;
          score = score - (if lossy then 40 else 0);
          calls = calls @ (if lossy \<and> \<not> qm_Degraded m2 then [''packet_loss''] else []);
          m3 = m2\<lparr>qm_Degraded := qm_Degraded m2 \<or> lossy\<rparr>;
          score = (if score < 0 then 0 else score);
          m4 = m3\<lparr>qm_Score := score\<rparr>
      in (if 70 \<le> score \<and> qm_Degraded m4 then m4\<lparr>qm_Degraded := False\<rparr> else m4, calls))"

definition evaluateAll :: "QualityConfig \<Rightarrow> time \<Rightarrow> sessions \<Rightarrow> sessions" where
  "evaluateAll cfg now ss = (\<lambda>k. map_option (\<lambda>m. fst (evaluate cfg now m)) (ss k))"

definition GetScore :: "int \<Rightarrow> sessions \<Rightarrow> int" where
  "GetScore sessionID ss = (case ss sessionID of None \<Rightarrow> 0 | Some m \<Rightarrow> qm_Score m)"

text \<open>\<open>GetBestSession\<close>: \<open>order\<close> is the order in which the sessions are visited.\<close>

fun best_loop :: "(int \<times> QualityMetrics) list \<Rightarrow> int \<Rightarrow> int \<Rightarrow> int" where
  "best_loop [] bestID bestScore = bestID"
| "best_loop ((sessionID, m) # rest) bestID bestScore =
     (if bestScore < qm_Score m then best_loop rest sessionID (qm_Score m) else best_loop rest bestID bestScore)"

definition GetBestSession :: "int list \<Rightarrow> sessions \<Rightarrow> int" where
  "GetBestSession order ss = best_loop (List.map_filter (\<lambda>k. map_option (Pair k) (ss k)) order) (- 1) (- 1)"

subsection \<open>Buffer tuning\<close>

record BufferTuner =
  bt_currentRecv :: int
  bt_currentSend :: int
  bt_measuredBDP :: int
  bt_bandwidth :: int
  bt_rtt :: time
  bt_minBuffer :: int
  bt_maxBuffer :: int

definition NewBufferTuner :: "int \<Rightarrow> int \<Rightarrow> BufferTuner" where
  "NewBufferTuner minBuffer maxBuffer =
     (let lo = (if minBuffer = 0 then 65536 else minBuffer); hi = (if maxBuffer = 0 then 16777216 else maxBuffer) in
      \<lparr>bt_currentRecv = lo, bt_currentSend = lo, bt_measuredBDP = 0, bt_bandwidth = 0, bt_rtt = 0,
       bt_minBuffer = lo, bt_maxBuffer = hi\<rparr>)"

definition UpdateMetrics :: "int \<Rightarrow> time \<Rightarrow> BufferTuner \<Rightarrow> BufferTuner" where
  "UpdateMetrics bandwidth rtt bt =
     (let bdp = int_of_float (fmul (float_of_int bandwidth) (Seconds rtt));
          optimal = wrap64 (bdp * 2);
          optimal = (if optimal < bt_minBuffer bt then bt_minBuffer bt else optimal);
          optimal = (if bt_maxBuffer bt < optimal then bt_maxBuffer bt else optimal)
      in bt\<lparr>bt_bandwidth := bandwidth, bt_rtt := rtt, bt_measuredBDP := bdp,
            bt_currentRecv := optimal, bt_currentSend := optimal\<rparr>)"

subsection \<open>The moving average\<close>

lemma fround_near:
  assumes "normal x" "x \<le> 2 ^ k" "k \<le> 53" shows "\<bar>fround x - x\<bar> \<le> 1 / 2 ^ (53 - k)"
proof (cases "x = 0")
  case False
  then have "\<bar>fround x - x\<bar> \<le> x / 2 ^ 53"
    using assms(1) rnd_error_normal(1) [of x] by (simp add: normal_def)
  also have "\<dots> \<le> 2 ^ k / 2 ^ 53"
    using assms(2) by (intro divide_right_mono) simp_all
  also have "\<dots> = 1 / 2 ^ (53 - k)"
    using power_diff [of "2 :: rat" k 53] assms(3) by (simp add: field_simps)
  finally show ?thesis .
qed simp

lemma weights: "fround (7 / 10) = 3152519739159347 / 2 ^ 52" "fround (3 / 10) = 5404319552844595 / 2 ^ 54"
  by code_simp+

lemma weight_bounds:
  "7 / 10 - 1 / 2 ^ 53 \<le> fround (7 / 10)" "fround (7 / 10) \<le> 7 / 10"
  "3 / 10 - 1 / 2 ^ 53 \<le> fround (3 / 10)" "fround (3 / 10) \<le> 3 / 10"
  unfolding weights by simp_all

text \<open>One weighted term, up to the rounding of the weight and of the product.\<close>

lemma weighted_term:
  assumes "1 \<le> v" "v \<le> 2 ^ 50" "w - 1 / 2 ^ 53 \<le> w'" "w' \<le> w" "1 / 4 \<le> w" "w \<le> 1"
  shows "of_int v * w - 1 / 4 \<le> fmul (float_of_int v) w'" "fmul (float_of_int v) w' \<le> of_int v * w + 1 / 8"
    "1 / 8 \<le> fmul (float_of_int v) w'"
proof -
  have v: "(1 :: rat) \<le> of_int v" "(of_int v :: rat) \<le> 2 ^ 50"
    using assms(1,2) of_int_le_iff [of v "2 ^ 50", where ?'a = rat] by simp_all
  have f: "float_of_int v = of_int v"
    using assms(1,2) by (intro float_of_int_exact) simp
  have w': "1 / 8 \<le> w'" "w' \<le> 1"
    using assms(3-6) by simp_all
  have lo: "1 / 8 \<le> of_int v * w'"
    using mult_mono [OF v(1) w'(1)] assms(1) by simp
  have up: "of_int v * w' \<le> 2 ^ 50"
    using mult_mono [OF v(2) w'(2)] v(1) w'(1) by simp
  have n: "normal (of_int v * w')"
    using lo by (intro normal_ge) simp
  have e: "\<bar>fmul (float_of_int v) w' - of_int v * w'\<bar> \<le> 1 / 8"
    using fround_near [OF n up] by (simp add: fmul_def f)
  have "of_int v * (w - w') \<le> 2 ^ 50 * (1 / 2 ^ 53)"
    using v assms(3,4) by (intro mult_mono) simp_all
  then have d: "of_int v * w - of_int v * w' \<le> 1 / 8"
    by (simp add: right_diff_distrib)
  have "of_int v * w' \<le> of_int v * w"
    using v(1) assms(4) by (intro mult_left_mono) simp_all
  then show "of_int v * w - 1 / 4 \<le> fmul (float_of_int v) w'" "fmul (float_of_int v) w' \<le> of_int v * w + 1 / 8"
    using d e by linarith+
  show "1 / 8 \<le> fmul (float_of_int v) w'"
    unfolding fmul_def f using lo is_float_dyadic [of 16] by (intro le_rnd) simp_all
qed

lemma ema_bounds:
  assumes "4 \<le> lo" "hi \<le> 2 ^ 50" "lo - 3 \<le> old" "old \<le> hi" "lo \<le> r" "r \<le> hi"
  shows "lo - 3 \<le> ema old r" "ema old r \<le> hi"
proof -
  define x where "x = fmul (float_of_int old) (fround (7 / 10))"
  define y where "y = fmul (float_of_int r) (fround (3 / 10))"
  have x: "of_int old * (7 / 10) - 1 / 4 \<le> x" "x \<le> of_int old * (7 / 10) + 1 / 8" "1 / 8 \<le> x"
    using weighted_term [of old "7 / 10" "fround (7 / 10)"] weight_bounds assms by (simp_all add: x_def)
  have y: "of_int r * (3 / 10) - 1 / 4 \<le> y" "y \<le> of_int r * (3 / 10) + 1 / 8" "1 / 8 \<le> y"
    using weighted_term [of r "3 / 10" "fround (3 / 10)"] weight_bounds assms by (simp_all add: y_def)
  have i: "(of_int (lo - 3) :: rat) \<le> of_int old" "(of_int old :: rat) \<le> of_int hi" "(of_int lo :: rat) \<le> of_int r"
    "(of_int r :: rat) \<le> of_int hi" "(of_int hi :: rat) \<le> 2 ^ 50"
    using assms of_int_le_iff [of hi "2 ^ 50", where ?'a = rat] by (simp_all only: of_int_le_iff) simp
  have "x + y \<le> 2 ^ 51" "normal (x + y)"
    using x y i by (simp, intro normal_ge, simp)
  then have "\<bar>fadd x y - (x + y)\<bar> \<le> 1 / 4"
    using fround_near [of "x + y" 51] by (simp add: fadd_def)
  moreover have "(of_int (lo - 3) :: rat) = of_int lo - 3" "(of_int (hi + 1) :: rat) = of_int hi + 1"
    by simp_all
  ultimately have z: "of_int (lo - 3) \<le> fadd x y" "fadd x y < of_int (hi + 1)"
    using x(1,2) y(1,2) i unfolding abs_le_iff by linarith+
  moreover have "0 \<le> fadd x y"
    using x y by (simp add: fadd_def rnd_nonneg)
  ultimately show "lo - 3 \<le> ema old r" "ema old r \<le> hi"
    by (simp_all add: ema_def int_of_float_def x_def y_def le_floor_iff floor_le_iff)
qed

lemma record_rtts:
  assumes "4 \<le> lo" "hi \<le> 2 ^ 50" "hi \<le> hour" "rtts \<noteq> []" "\<And>r. r \<in> set rtts \<Longrightarrow> lo \<le> r \<and> r \<le> hi"
  shows "let m = fold record_rtt rtts (new_metrics now) in
    lo - 3 \<le> qm_AvgRTT m \<and> qm_AvgRTT m \<le> hi \<and> 0 \<le> qm_Jitter m \<and> qm_Jitter m \<le> hi - lo + 3 \<and>
    qm_MinRTT m = Min (set rtts) \<and> qm_MaxRTT m = Max (set rtts) \<and> qm_LastRTT m = last rtts"
  using assms(4,5)
proof (induction rtts rule: rev_nonempty_induct)
  case (single r)
  then show ?case
    using assms(1,3) by (simp add: record_rtt_def new_metrics_def Let_def)
next
  case (snoc r rtts)
  define m where "m = fold record_rtt rtts (new_metrics now)"
  have IH: "lo - 3 \<le> qm_AvgRTT m" "qm_AvgRTT m \<le> hi" "qm_MinRTT m = Min (set rtts)" "qm_MaxRTT m = Max (set rtts)"
    using snoc.IH snoc.prems by (simp_all add: m_def Let_def)
  have r: "lo \<le> r" "r \<le> hi"
    using snoc.prems [of r] by simp_all
  have e: "lo - 3 \<le> ema (qm_AvgRTT m) r" "ema (qm_AvgRTT m) r \<le> hi"
    by (rule ema_bounds [OF assms(1,2) IH(1,2) r])+
  have f: "fold record_rtt (rtts @ [r]) (new_metrics now) = record_rtt r m"
    by (simp add: m_def)
  have "qm_AvgRTT m \<noteq> 0"
    using IH(1) assms(1) by simp
  moreover have "Min (set (rtts @ [r])) = min r (Min (set rtts))" "Max (set (rtts @ [r])) = max r (Max (set rtts))"
    using snoc.hyps by (simp_all add: Min_insert Max_insert)
  ultimately show ?case
    using e r IH(3,4) unfolding f by (simp add: record_rtt_def Let_def min_def max_def abs_le_iff)
qed

lemma fold_RecordRTT: "fold (RecordRTT k) rtts (ss(k \<mapsto> m)) = ss(k \<mapsto> fold record_rtt rtts m)"
  by (induction rtts arbitrary: m) (simp_all add: RecordRTT_def upd_session_def)

text \<open>
  The average round-trip time of a session stays between its smallest and largest sample: when
  all samples lie between \<open>lo\<close> and \<open>hi\<close> nanoseconds, at most an hour, the average is at most \<open>hi\<close>
  and never falls more than three nanoseconds below \<open>lo\<close>, in spite of the float64 weights and the
  truncation at every step; the minimum and maximum are exact.
\<close>

theorem quality_average_bounded:
  assumes "4 \<le> lo" "hi \<le> hour" "rtts \<noteq> []" "\<And>r. r \<in> set rtts \<Longrightarrow> lo \<le> r \<and> r \<le> hi"
  shows "\<exists>m. fold (RecordRTT k) rtts (QM_Register now k ss) k = Some m \<and>
    lo - 3 \<le> qm_AvgRTT m \<and> qm_AvgRTT m \<le> hi \<and> 0 \<le> qm_Jitter m \<and> qm_Jitter m \<le> hi - lo + 3 \<and>
    qm_MinRTT m = Min (set rtts) \<and> qm_MaxRTT m = Max (set rtts) \<and> qm_LastRTT m = last rtts"
proof -
  have "hi \<le> 2 ^ 50"
    using assms(2) by (simp add: hour_def minute_def second_def)
  from record_rtts [OF assms(1) this assms(2,3,4)] show ?thesis
    by (simp add: QM_Register_def fold_RecordRTT Let_def)
qed

theorem quality_average_bounded_witness:
  "\<exists>m. fold (RecordRTT 1) [80000000, 120000000] (QM_Register 0 1 Map.empty) 1 = Some m \<and>
    80000000 - 3 \<le> qm_AvgRTT m \<and> qm_AvgRTT m \<le> 120000000"
proof -
  have "\<And>r. r \<in> set [80000000, 120000000 :: int] \<Longrightarrow> 80000000 \<le> r \<and> r \<le> 120000000"
    by auto
  moreover have "(120000000 :: int) \<le> hour" "(4 :: int) \<le> 80000000" "[80000000, 120000000 :: int] \<noteq> []"
    by (simp_all add: hour_def minute_def second_def)
  ultimately show ?thesis
    using quality_average_bounded [of 80000000 120000000 "[80000000, 120000000]" 1 0 Map.empty] by blast
qed

subsection \<open>The score\<close>

text \<open>
  The score of a session is 100 less 30 for a high average latency, 20 for jitter and 40 for
  packet loss, so it is between 10 and 100; after an evaluation the session is marked degraded
  exactly when the score is below 70 and it was degraded before or is slow or lossy. The callback
  is called at most once, and for latency exactly when the session was not marked before.
\<close>

theorem quality_score_exact:
  assumes "evaluate cfg now m = (m', calls)"
    and "slow \<longleftrightarrow> qc_MaxLatency cfg < qm_AvgRTT m" "jittery \<longleftrightarrow> qc_MaxJitter cfg < qm_Jitter m"
    and "lossy \<longleftrightarrow> 5 < qm_PingsSent m \<and> qc_MaxPacketLoss cfg < lossRatio m"
  shows "qm_Score m' = 100 - (if slow then 30 else 0) - (if jittery then 20 else 0) - (if lossy then 40 else 0) \<and>
    10 \<le> qm_Score m' \<and> qm_Score m' \<le> 100 \<and>
    (qm_Degraded m' \<longleftrightarrow> qm_Score m' < 70 \<and> (qm_Degraded m \<or> slow \<or> lossy)) \<and>
    calls = (if qm_Degraded m then [] else if slow then [''high_latency''] else if lossy then [''packet_loss''] else [])"
proof -
  have t: "qm_Degraded (throughput now x) = qm_Degraded x" for x
    by (simp add: throughput_def Let_def)
  have m': "m' = fst (evaluate cfg now m)" "calls = snd (evaluate cfg now m)"
    using assms(1) by simp_all
  show ?thesis
    unfolding m' evaluate_def Let_def
    by (cases slow; cases jittery; cases lossy; cases "qm_Degraded m") (simp_all add: t flip: assms(2-4))
qed

theorem quality_score_exact_witness:
  "qm_Score (fst (evaluate \<lparr>qc_MaxLatency = 500, qc_MaxJitter = 200, qc_MaxPacketLoss = 1 / 10\<rparr> 9
      ((new_metrics 0)\<lparr>qm_AvgRTT := 700\<rparr>))) = 70"
  using quality_score_exact [of "\<lparr>qc_MaxLatency = 500, qc_MaxJitter = 200, qc_MaxPacketLoss = 1 / 10\<rparr>" 9
      "(new_metrics 0)\<lparr>qm_AvgRTT := 700\<rparr>" _ _ True False False]
  by (cases "evaluate \<lparr>qc_MaxLatency = 500, qc_MaxJitter = 200, qc_MaxPacketLoss = 1 / 10\<rparr> 9 ((new_metrics 0)\<lparr>qm_AvgRTT := 700\<rparr>)")
    (simp add: new_metrics_def)

text \<open>
  A session that is only slow is never marked: the threshold of the recovery equals its score, so
  the mark is cleared in the same evaluation and the callback is called at every evaluation.
\<close>

lemma slow_session_never_marked:
  assumes "qc_MaxLatency cfg < qm_AvgRTT m" "\<not> qc_MaxJitter cfg < qm_Jitter m" "qm_PingsSent m \<le> 5" "\<not> qm_Degraded m"
  shows "\<not> qm_Degraded (fst (evaluate cfg now m)) \<and> snd (evaluate cfg now m) = [''high_latency'']"
proof -
  have t: "qm_Degraded (throughput now x) = qm_Degraded x" for x
    by (simp add: throughput_def Let_def)
  show ?thesis
    using assms by (simp add: evaluate_def Let_def t)
qed

subsection \<open>Best session and buffers\<close>

lemma best_loop_max:
  "(\<exists>m. (best_loop xs i s, m) \<in> set xs \<and> s < qm_Score m \<and> (\<forall>p\<in>set xs. qm_Score (snd p) \<le> qm_Score m)) \<or>
   best_loop xs i s = i \<and> (\<forall>p\<in>set xs. qm_Score (snd p) \<le> s)"
proof (induction xs arbitrary: i s)
  case (Cons x xs)
  obtain k m where x: "x = (k, m)" by (cases x)
  show ?case
  proof (cases "s < qm_Score m")
    case True
    from Cons.IH [of k "qm_Score m"] show ?thesis
    proof
      assume "\<exists>n. (best_loop xs k (qm_Score m), n) \<in> set xs \<and> qm_Score m < qm_Score n \<and>
        (\<forall>p\<in>set xs. qm_Score (snd p) \<le> qm_Score n)"
      then obtain n where "(best_loop xs k (qm_Score m), n) \<in> set xs" "qm_Score m < qm_Score n"
        "\<forall>p\<in>set xs. qm_Score (snd p) \<le> qm_Score n" by blast
      then show ?thesis
        using True by (intro disjI1 exI [of _ n]) (simp add: x)
    next
      assume "best_loop xs k (qm_Score m) = k \<and> (\<forall>p\<in>set xs. qm_Score (snd p) \<le> qm_Score m)"
      then show ?thesis
        using True by (intro disjI1 exI [of _ m]) (simp add: x)
    qed
  next
    case False
    from Cons.IH [of i s] show ?thesis
    proof
      assume "\<exists>n. (best_loop xs i s, n) \<in> set xs \<and> s < qm_Score n \<and> (\<forall>p\<in>set xs. qm_Score (snd p) \<le> qm_Score n)"
      then obtain n where "(best_loop xs i s, n) \<in> set xs" "s < qm_Score n" "\<forall>p\<in>set xs. qm_Score (snd p) \<le> qm_Score n"
        by blast
      then show ?thesis
        using False by (intro disjI1 exI [of _ n]) (simp add: x)
    next
      assume "best_loop xs i s = i \<and> (\<forall>p\<in>set xs. qm_Score (snd p) \<le> s)"
      then show ?thesis
        using False by (intro disjI2) (simp add: x)
    qed
  qed
qed simp

text \<open>With non-negative scores, some session with the largest score is returned, and -1 only when there is none.\<close>

lemma GetBestSession_best:
  assumes "\<And>k m. ss k = Some m \<Longrightarrow> k \<in> set order \<and> 0 \<le> qm_Score m"
  shows "(\<exists>m. ss (GetBestSession order ss) = Some m \<and> (\<forall>k m'. ss k = Some m' \<longrightarrow> qm_Score m' \<le> qm_Score m)) \<or>
    (\<forall>k. ss k = None)"
proof -
  let ?xs = "List.map_filter (\<lambda>k. map_option (Pair k) (ss k)) order"
  have "set ?xs = {(k, m). k \<in> set order \<and> ss k = Some m}"
    by (auto simp: map_filter_def image_def)
  then have xs: "(k, m) \<in> set ?xs \<longleftrightarrow> ss k = Some m" for k m
    using assms by blast
  from best_loop_max [of ?xs "- 1" "- 1"] show ?thesis
  proof
    assume "\<exists>m. (best_loop ?xs (- 1) (- 1), m) \<in> set ?xs \<and> - 1 < qm_Score m \<and> (\<forall>p\<in>set ?xs. qm_Score (snd p) \<le> qm_Score m)"
    then show ?thesis
      unfolding GetBestSession_def xs by (metis snd_conv xs)
  next
    assume all: "best_loop ?xs (- 1) (- 1) = - 1 \<and> (\<forall>p\<in>set ?xs. qm_Score (snd p) \<le> - 1)"
    have "ss k = None" for k
    proof (rule ccontr)
      assume "ss k \<noteq> None"
      then obtain m where m: "ss k = Some m" by blast
      then have "qm_Score m \<le> - 1"
        using all xs [of k m] by force
      then show False
        using assms [OF m] by simp
    qed
    then show ?thesis by blast
  qed
qed

text \<open>The buffer sizes stay within the configured bounds.\<close>

lemma UpdateMetrics_bounds:
  "bt_currentRecv (UpdateMetrics bw rtt bt) = bt_currentSend (UpdateMetrics bw rtt bt) \<and>
   bt_currentRecv (UpdateMetrics bw rtt bt) \<le> bt_maxBuffer bt \<and>
   min (bt_minBuffer bt) (bt_maxBuffer bt) \<le> bt_currentRecv (UpdateMetrics bw rtt bt)"
  by (simp add: UpdateMetrics_def Let_def)

end
