(* ===== verification/Reconnect.thy ===== *)
theory Reconnect
  imports Go_Float Prelude
begin

text \<open>
  internal/stability/reconnect.go: reconnection with exponential backoff. The delays are computed in
  float64 with Go's \<open>math.Pow\<close>; the loop asks its environment, round by round, whether it was
  stopped, whether connecting worked and whether switching the transport worked.
\<close>

subsection \<open>Powers\<close>

text \<open>
  \<open>math.Pow\<close> for a positive base and a natural exponent: repeated squaring of the fraction in
  \<open>[1/2, 1)\<close> with the exponent kept apart, left early when the exponent is out of range.
\<close>

function pow_loop :: "nat \<Rightarrow> rat \<Rightarrow> int \<Rightarrow> rat \<Rightarrow> int \<Rightarrow> rat \<times> int" where
  "pow_loop i x1 xe a1 ae =
     (if i = 0 then (a1, ae)
      else if xe < - 4096 \<or> 4096 < xe then (a1, ae + xe)
      else
        let a1' = (if odd i then fmul a1 x1 else a1);
            ae' = (if odd i then ae + xe else ae);
            y = fmul x1 x1
        in if y < 1 / 2 then pow_loop (i div 2) (fadd y y) (2 * xe - 1) a1' ae'
           else pow_loop (i div 2) y (2 * xe) a1' ae')"
  by pat_completeness auto
termination
  by (relation "measure (\<lambda>(i, _). i)") auto

definition Pow :: "rat \<Rightarrow> nat \<Rightarrow> rat" where
  "Pow x n =
     (if n = 0 \<or> x = 1 then 1 else if n = 1 then x
      else let e = flog2 x + 1 in case pow_loop n (x / 2 powi e) e 1 0 of (a1, ae) \<Rightarrow> fround (a1 * 2 powi ae))"

subsection \<open>The reconnector\<close>

datatype ReconnectState = StateIdle | StateReconnecting | StateCooldown

record ReconnectConfig =
  rg_InitialDelay :: time
  rg_MaxDelay :: time
  rg_BackoffFactor :: rat
  rg_MaxAttempts :: int
  rg_ResetAfter :: time
  rg_JitterPercent :: rat

definition DefaultReconnectConfig :: ReconnectConfig where
  "DefaultReconnectConfig =
     \<lparr>rg_InitialDelay = 100000000, rg_MaxDelay = 30 * second, rg_BackoffFactor = 2, rg_MaxAttempts = 5,
      rg_ResetAfter = 60 * second, rg_JitterPercent = fround (1 / 5)\<rparr>"

definition calculateDelay :: "ReconnectConfig \<Rightarrow> int \<Rightarrow> time" where
  "calculateDelay cfg attempt =
     (if attempt \<le> 1 then rg_InitialDelay cfg
      else
        let delay = fmul (float_of_int (rg_InitialDelay cfg)) (Pow (rg_BackoffFactor cfg) (nat (attempt - 1)));
            delay = (if float_of_int (rg_MaxDelay cfg) < delay then float_of_int (rg_MaxDelay cfg) else delay);
            delay = (if 0 < rg_JitterPercent cfg
                     then fadd delay (fdiv (fmul (fmul delay (rg_JitterPercent cfg)) (float_of_int (attempt mod 3 - 1))) 2)
                     else delay)
        in int_of_float delay)"

record Reconnector =
  rc_cfg :: ReconnectConfig
  rc_attempts :: int
  rc_lastAttempt :: time
  rc_state :: ReconnectState

definition NewReconnector :: "ReconnectConfig \<Rightarrow> Reconnector" where
  "NewReconnector cfg = \<lparr>rc_cfg = cfg, rc_attempts = 0, rc_lastAttempt = 0, rc_state = StateIdle\<rparr>"

text \<open>The environment of round \<open>k\<close> of the loop.\<close>

record round_env =
  re_stopped :: bool
  re_now :: time
  re_switch :: bool
  re_stopped_waiting :: bool
  re_connect :: bool

datatype reconnect_end = Stopped | Switched | Connected

definition wrap32 :: "int \<Rightarrow> int" where
  "wrap32 x = sint (word_of_int x :: 32 word)"

text \<open>
  The loop after the first check of the counter; the list is the delays waited. The callbacks are
  set by the client before it triggers a reconnection.
\<close>

partial_function (option) reconnect_rounds ::
  "(nat \<Rightarrow> round_env) \<Rightarrow> nat \<Rightarrow> time list \<Rightarrow> Reconnector \<Rightarrow> (reconnect_end \<times> time list \<times> Reconnector) option" where
  "reconnect_rounds env k waited r =
     (if re_stopped (env k) then Some (Stopped, waited, r)
      else
        let attempt = wrap32 (rc_attempts r + 1);
            r1 = r\<lparr>rc_attempts := attempt, rc_lastAttempt := re_now (env k)\<rparr>
        in if rg_MaxAttempts (rc_cfg r) < attempt \<and> re_switch (env k)
           then Some (Switched, waited, r1\<lparr>rc_attempts := 0\<rparr>)
           else
             let waited = waited @ [calculateDelay (rc_cfg r) attempt] in
             if re_stopped_waiting (env k) then Some (Stopped, waited, r1)
             else if re_connect (env k) then Some (Connected, waited, r1\<lparr>rc_attempts := 0\<rparr>)
             else reconnect_rounds env (Suc k) waited r1)"

definition reconnectLoop :: "(nat \<Rightarrow> round_env) \<Rightarrow> time \<Rightarrow> Reconnector \<Rightarrow> (reconnect_end \<times> time list \<times> Reconnector) option" where
  "reconnectLoop env now r =
     (let r1 = (if rg_ResetAfter (rc_cfg r) < now - rc_lastAttempt r then r\<lparr>rc_attempts := 0\<rparr> else r) in
      map_option (\<lambda>(e, ws, r'). (e, ws, r'\<lparr>rc_state := StateIdle\<rparr>)) (reconnect_rounds env 0 [] r1))"

text \<open>\<open>Trigger\<close> starts the loop only from the idle state.\<close>

definition Trigger :: "Reconnector \<Rightarrow> Reconnector \<times> bool" where
  "Trigger r = (if rc_state r = StateIdle then (r\<lparr>rc_state := StateReconnecting\<rparr>, True) else (r, False))"

subsection \<open>Powers of two\<close>

lemma is_float_powi: "- 1074 \<le> z \<Longrightarrow> is_float (2 powi z)"
  unfolding is_float_def by (intro exI [of _ 1] exI [of _ z]) simp

lemma fmul_powi: "- 1074 \<le> a + b \<Longrightarrow> fmul (2 powi a) (2 powi b) = 2 powi (a + b)"
  by (simp add: fmul_def rnd_exact is_float_powi flip: power_int_add)

lemma half_facts: "fmul (1 / 2) (1 / 2) = 1 / 4" "fadd (1 / 4) (1 / 4) = 1 / 2"
  by code_simp+

lemma pow_loop_half:
  assumes "c \<le> j" "j \<le> 12" "int c \<le> ae" "pow_loop i (1 / 2) (2 ^ j + 1) (2 powi (- int c)) ae = (a, b)"
  shows "\<exists>c' \<le> 13. a = 2 powi (- int c') \<and> min (ae - int c + int i * 2 ^ j) 4096 \<le> b - int c' \<and>
    (ae - int c + int i * 2 ^ j < 4096 \<longrightarrow> b - int c' = ae - int c + int i * 2 ^ j)"
  using assms
proof (induction i arbitrary: j c ae rule: less_induct)
  case (less i)
  consider "i = 0" | "i \<noteq> 0" "(4096 :: int) < 2 ^ j + 1" | "i \<noteq> 0" "(2 :: int) ^ j + 1 \<le> 4096"
    by linarith
  then show ?case
  proof cases
    case 1
    then show ?thesis
      using less.prems by (intro exI [of _ c]) simp
  next
    case 2
    then have "a = 2 powi (- int c)" "b = ae + (2 ^ j + 1)"
      using less.prems(4) by simp_all
    moreover have "(2 :: int) ^ j \<le> int i * 2 ^ j"
      using 2(1) by simp
    then have "min (ae - int c + int i * 2 ^ j) 4096 \<le> ae + (2 ^ j + 1) - int c" "\<not> ae - int c + int i * 2 ^ j < 4096"
      using 2(2) less.prems(3) by linarith+
    ultimately show ?thesis
      using less.prems(1,2) by (intro exI [of _ c]) simp
  next
    case 3
    have j: "j < 12"
    proof (rule ccontr)
      assume "\<not> j < 12"
      then have "(2 :: int) ^ 12 \<le> 2 ^ j"
        by (intro power_increasing) simp_all
      then show False using 3(2) by simp
    qed
    define c1 where "c1 = (if odd i then Suc c else c)"
    define ae1 where "ae1 = (if odd i then ae + (2 ^ j + 1) else ae)"
    have odd_mul: "fmul (2 powi (- int c)) (1 / 2) = 2 powi (- int (Suc c))"
    proof -
      have "- int (Suc c) = - int c + - 1" "(2 :: rat) powi (- 1) = 1 / 2"
        by (simp_all add: power_int_minus)
      then show ?thesis
        using fmul_powi [of "- int c" "- 1"] less.prems(1) j by (simp add: algebra_simps)
    qed
    have low: "\<not> (2 :: int) ^ j + 1 < - 4096"
      using zero_le_power [of "2 :: int" j] by linarith
    have step: "pow_loop (i div 2) (1 / 2) (2 ^ Suc j + 1) (2 powi (- int c1)) ae1 = (a, b)"
    proof -
      have "pow_loop i (1 / 2) (2 ^ j + 1) (2 powi (- int c)) ae =
          pow_loop (i div 2) (1 / 2) (2 * (2 ^ j + 1) - 1) (2 powi (- int c1)) ae1"
        using 3 odd_mul low by (subst pow_loop.simps) (simp add: half_facts c1_def ae1_def del: pow_loop.simps)
      then show ?thesis
        using less.prems(4) by (simp add: algebra_simps del: pow_loop.simps)
    qed
    have c1: "c1 \<le> Suc j" "Suc j \<le> 12" "int c1 \<le> ae1"
      using less.prems(1,3) j by (auto simp: c1_def ae1_def add_increasing2)
    have "ae1 - int c1 + int (i div 2) * 2 ^ Suc j = ae - int c + int i * 2 ^ j"
    proof -
      have "int i = 2 * int (i div 2) + (if odd i then 1 else 0)"
        by (auto elim: oddE)
      then show ?thesis
        by (simp add: c1_def ae1_def algebra_simps)
    qed
    then show ?thesis
      using less.IH [OF _ c1 step] 3(1) by simp
  qed
qed

text \<open>Powers of two are exact, and those out of the range of the loop are large.\<close>

lemma Pow_two_loop:
  assumes "2 \<le> n"
  obtains a b c where "Pow 2 n = fround (2 powi (b - c))" "min (int n) 4096 \<le> b - c" "n < 4096 \<Longrightarrow> b - c = int n"
proof -
  have e: "flog2 2 = 1"
    by code_simp
  obtain a b where ab: "pow_loop n (1 / 2) (2 ^ 0 + 1) (2 powi (- int 0)) 0 = (a, b)"
    by (cases "pow_loop n (1 / 2) (2 ^ 0 + 1) (2 powi (- int 0)) 0")
  obtain c where c: "a = 2 powi (- int c)" "min (int n) 4096 \<le> b - int c" "n < 4096 \<Longrightarrow> b - int c = int n"
    using pow_loop_half [OF _ _ _ ab] by auto
  have "Pow 2 n = fround (a * 2 powi b)"
    using ab assms by (simp add: Pow_def e power_int_def del: pow_loop.simps)
  also have "a * 2 powi b = 2 powi (b - int c)"
    using c(1) by (simp add: algebra_simps flip: power_int_add)
  finally show ?thesis
    using that c(2,3) by blast
qed

lemma Pow_two:
  assumes "n < 4096" shows "Pow 2 n = 2 ^ n"
proof (cases "2 \<le> n")
  case True
  obtain b c where "Pow 2 n = fround (2 powi (b - c))" "n < 4096 \<Longrightarrow> b - c = int n"
    using Pow_two_loop [OF True] by metis
  then show ?thesis
    using assms rnd_exact [OF is_float_powi [of "int n"]] by simp
next
  case False
  then consider "n = 0" | "n = 1" by linarith
  then show ?thesis by cases (simp_all add: Pow_def)
qed

lemma Pow_two_large:
  assumes "9 \<le> n" shows "512 \<le> Pow 2 n"
proof -
  have "2 \<le> n" using assms by simp
  from Pow_two_loop [OF this] obtain b c where bc: "Pow 2 n = fround (2 powi (b - c))" "min (int n) 4096 \<le> b - c"
    by metis
  then have "9 \<le> b - c"
    using assms by simp
  then have "(2 :: rat) powi 9 \<le> 2 powi (b - c)"
    by (simp only: powi_le_iff)
  then have "2 powi 9 \<le> fround (2 powi (b - c))"
    by (rule le_rnd) (simp only: is_float_powi)
  then show ?thesis
    using bc(1) by simp
qed

subsection \<open>Delays\<close>

definition jittered :: "int \<Rightarrow> rat \<Rightarrow> time" where
  "jittered j delay = int_of_float (fadd delay (fdiv (fmul (fmul delay (fround (1 / 5))) (float_of_int j)) 2))"

lemma default_constants:
  "float_of_int 100000000 = 100000000" "float_of_int 30000000000 = 30000000000" "0 < fround (1 / 5)"
  by code_simp+

lemma delay_uncapped:
  assumes "2 \<le> attempt" "attempt \<le> 9"
  shows "calculateDelay DefaultReconnectConfig attempt = jittered (attempt mod 3 - 1) (100000000 * 2 ^ nat (attempt - 1))"
proof -
  have n: "nat (attempt - 1) \<le> 8" using assms by simp
  have "(2 :: rat) ^ nat (attempt - 1) \<le> 2 ^ 8"
    using n by (intro power_increasing) simp_all
  moreover have "is_float (100000000 * 2 ^ nat (attempt - 1))"
    using is_float_scaled [of 100000000 "nat (attempt - 1)"] by simp
  ultimately show ?thesis
    using assms n default_constants
    by (simp add: calculateDelay_def DefaultReconnectConfig_def second_def Let_def Pow_two fmul_def [of 100000000]
        rnd_exact jittered_def)
qed

lemma int_of_float_of_int: "int_of_float (of_int i) = i"
  by (simp add: int_of_float_def)

lemma jittered_exact:
  assumes "fmul (10 * of_int m) (fround (1 / 5)) = 2 * of_int m" "0 \<le> m" "m \<le> 2 ^ 40" "\<bar>j\<bar> \<le> 1"
  shows "jittered j (10 * of_int m) = 10 * m + m * j"
proof -
  have j: "j = - 1 \<or> j = 0 \<or> j = 1" using assms(4) by linarith
  have fl: "is_float (of_int (2 * m * j))" "is_float (of_int (m * j))" "is_float (of_int (10 * m + m * j))" "float_of_int j = of_int j"
    using assms(2,3) j by (intro is_float_int float_of_int_exact; auto)+
  have "fmul (2 * of_int m) (of_int j) = of_int (2 * m * j)" "fdiv (of_int (2 * m * j)) 2 = of_int (m * j)"
    "fadd (10 * of_int m) (of_int (m * j)) = of_int (10 * m + m * j)"
    using rnd_exact [OF fl(1)] rnd_exact [OF fl(2)] rnd_exact [OF fl(3)] by (simp_all add: fmul_def fdiv_def fadd_def)
  then show ?thesis
    unfolding jittered_def assms(1) fl(4) by (simp only: int_of_float_of_int)
qed

lemma fifth_table:
  "fmul 200000000 (fround (1 / 5)) = 40000000" "fmul 400000000 (fround (1 / 5)) = 80000000"
  "fmul 800000000 (fround (1 / 5)) = 160000000" "fmul 1600000000 (fround (1 / 5)) = 320000000"
  "fmul 3200000000 (fround (1 / 5)) = 640000000" "fmul 6400000000 (fround (1 / 5)) = 1280000000"
  "fmul 12800000000 (fround (1 / 5)) = 2560000000" "fmul 25600000000 (fround (1 / 5)) = 5120000000"
  "fmul 30000000000 (fround (1 / 5)) = 6000000000"
  by code_simp+

lemma jittered_table:
  "\<bar>j\<bar> \<le> 1 \<Longrightarrow> jittered j 200000000 = 200000000 + 20000000 * j"
  "\<bar>j\<bar> \<le> 1 \<Longrightarrow> jittered j 400000000 = 400000000 + 40000000 * j"
  "\<bar>j\<bar> \<le> 1 \<Longrightarrow> jittered j 800000000 = 800000000 + 80000000 * j"
  "\<bar>j\<bar> \<le> 1 \<Longrightarrow> jittered j 1600000000 = 1600000000 + 160000000 * j"
  "\<bar>j\<bar> \<le> 1 \<Longrightarrow> jittered j 3200000000 = 3200000000 + 320000000 * j"
  "\<bar>j\<bar> \<le> 1 \<Longrightarrow> jittered j 6400000000 = 6400000000 + 640000000 * j"
  "\<bar>j\<bar> \<le> 1 \<Longrightarrow> jittered j 12800000000 = 12800000000 + 1280000000 * j"
  "\<bar>j\<bar> \<le> 1 \<Longrightarrow> jittered j 25600000000 = 25600000000 + 2560000000 * j"
  "\<bar>j\<bar> \<le> 1 \<Longrightarrow> jittered j 30000000000 = 30000000000 + 3000000000 * j"
  using jittered_exact [of 20000000 j] jittered_exact [of 40000000 j] jittered_exact [of 80000000 j]
    jittered_exact [of 160000000 j] jittered_exact [of 320000000 j] jittered_exact [of 640000000 j]
    jittered_exact [of 1280000000 j] jittered_exact [of 2560000000 j] jittered_exact [of 3000000000 j]
  by (simp_all add: fifth_table)

lemma delay_table:
  "calculateDelay DefaultReconnectConfig 2 = 220000000" "calculateDelay DefaultReconnectConfig 3 = 360000000"
  "calculateDelay DefaultReconnectConfig 4 = 800000000" "calculateDelay DefaultReconnectConfig 5 = 1760000000"
  "calculateDelay DefaultReconnectConfig 6 = 2880000000" "calculateDelay DefaultReconnectConfig 7 = 6400000000"
  "calculateDelay DefaultReconnectConfig 8 = 14080000000" "calculateDelay DefaultReconnectConfig 9 = 23040000000"
  by (simp_all add: delay_uncapped jittered_table)

lemma delay_capped:
  assumes "10 \<le> attempt"
  shows "calculateDelay DefaultReconnectConfig attempt = 27 * second + 3 * second * (attempt mod 3)"
proof -
  have p: "512 \<le> Pow 2 (nat (attempt - 1))"
    using assms by (intro Pow_two_large) simp
  then have "30000000001 \<le> 100000000 * Pow 2 (nat (attempt - 1))"
    by simp
  then have "30000000001 \<le> fmul 100000000 (Pow 2 (nat (attempt - 1)))"
    unfolding fmul_def using is_float_int [of 30000000001] by (intro le_rnd) simp_all
  then have "calculateDelay DefaultReconnectConfig attempt = jittered (attempt mod 3 - 1) 30000000000"
    using assms default_constants
    by (simp add: calculateDelay_def DefaultReconnectConfig_def second_def Let_def jittered_def)
  moreover have "\<bar>attempt mod 3 - 1\<bar> \<le> 1"
    using pos_mod_bound [of 3 attempt] pos_mod_sign [of 3 attempt] by linarith
  ultimately show ?thesis
    by (simp add: jittered_table second_def)
qed

lemma delay_cases:
  assumes "1 \<le> attempt"
  obtains "attempt = 1" | "attempt = 2" | "attempt = 3" | "attempt = 4" | "attempt = 5" | "attempt = 6"
    | "attempt = 7" | "attempt = 8" | "attempt = 9" | "10 \<le> (attempt :: int)"
  using assms by linarith

text \<open>
  C25: With the default configuration the delay before a retry is between a tenth of a second and
  33 seconds, at least 27 seconds from the tenth attempt on, and it never shrinks by more than a
  quarter from one attempt to the next; every third attempt from the eleventh on waits 33 seconds,
  longer than the configured maximum of 30.
\<close>

theorem reconnect_delay_bounds:
  assumes "1 \<le> attempt"
  shows "100000000 \<le> calculateDelay DefaultReconnectConfig attempt \<and>
    calculateDelay DefaultReconnectConfig attempt \<le> 33 * second \<and>
    (10 \<le> attempt \<longrightarrow> 27 * second \<le> calculateDelay DefaultReconnectConfig attempt) \<and>
    3 * calculateDelay DefaultReconnectConfig attempt \<le> 4 * calculateDelay DefaultReconnectConfig (attempt + 1) \<and>
    (rg_MaxDelay DefaultReconnectConfig < calculateDelay DefaultReconnectConfig attempt \<longleftrightarrow>
       11 \<le> attempt \<and> attempt mod 3 = 2)"
proof -
  have one: "calculateDelay DefaultReconnectConfig 1 = 100000000"
    by (simp add: calculateDelay_def DefaultReconnectConfig_def)
  have ten: "calculateDelay DefaultReconnectConfig 10 = 30 * second"
    by (simp add: delay_capped)
  have m: "rg_MaxDelay DefaultReconnectConfig = 30 * second"
    by (simp add: DefaultReconnectConfig_def)
  from delay_cases [OF assms] show ?thesis
  proof cases
    case 10
    then have "attempt mod 3 = 2 \<Longrightarrow> 11 \<le> attempt"
      by (cases "attempt = 10") auto
    then show ?thesis
      unfolding m using 10 by (auto simp: delay_capped second_def)
  qed (simp_all add: one ten delay_table m second_def)
qed

theorem reconnect_delay_bounds_witness:
  "rg_MaxDelay DefaultReconnectConfig < calculateDelay DefaultReconnectConfig 11"
  using reconnect_delay_bounds [of 11] by simp

subsection \<open>The loop\<close>

lemma wrap32_small: "0 \<le> x \<Longrightarrow> x < 2 ^ 31 \<Longrightarrow> wrap32 x = x"
  by (simp add: wrap32_def sint_sbintrunc' signed_take_bit_int_eq_self)

text \<open>A round in which nothing ends the loop.\<close>

definition failing_round :: "ReconnectConfig \<Rightarrow> int \<Rightarrow> round_env \<Rightarrow> bool" where
  "failing_round cfg attempt e \<longleftrightarrow>
     \<not> re_stopped e \<and> \<not> re_stopped_waiting e \<and> \<not> re_connect e \<and> (rg_MaxAttempts cfg < attempt \<longrightarrow> \<not> re_switch e)"

definition delays :: "ReconnectConfig \<Rightarrow> nat \<Rightarrow> time list" where
  "delays cfg n = map (\<lambda>i. calculateDelay cfg (int i + 1)) [0..<n]"

lemma reconnect_rounds_failing:
  assumes "\<And>k. k < n \<Longrightarrow> failing_round (rc_cfg r) (int k + 1) (env k)" "int n < 2 ^ 31" "rc_attempts r = 0"
  shows "\<exists>r'. reconnect_rounds env 0 [] r = reconnect_rounds env n (delays (rc_cfg r) n) r' \<and>
    rc_cfg r' = rc_cfg r \<and> rc_attempts r' = int n"
  using assms(1,2)
proof (induction n)
  case 0
  then show ?case
    using assms(3) by (intro exI [of _ r]) (simp add: delays_def)
next
  case (Suc n)
  then obtain r' where r': "reconnect_rounds env 0 [] r = reconnect_rounds env n (delays (rc_cfg r) n) r'"
    "rc_cfg r' = rc_cfg r" "rc_attempts r' = int n"
    by (metis less_SucI of_nat_Suc add.commute zless_add1_eq order_less_trans)
  have f: "failing_round (rc_cfg r) (int n + 1) (env n)" and w: "wrap32 (int n + 1) = int n + 1"
    using Suc.prems wrap32_small [of "int n + 1"] by (simp_all add: add.commute)
  have "reconnect_rounds env n (delays (rc_cfg r) n) r' =
      reconnect_rounds env (Suc n) (delays (rc_cfg r) (Suc n)) (r'\<lparr>rc_attempts := int n + 1, rc_lastAttempt := re_now (env n)\<rparr>)"
    using f r'(2,3) w
    by (subst reconnect_rounds.simps) (auto simp: failing_round_def Let_def delays_def)
  then show ?case
    using r' by (intro exI [of _ "r'\<lparr>rc_attempts := int n + 1, rc_lastAttempt := re_now (env n)\<rparr>"]) simp
qed

text \<open>
  C24: A triggered reconnection runs until the first round that ends it. If connecting fails in the
  first \<open>n\<close> rounds, nobody stops it, and in round \<open>n\<close> either the transport can be switched, which is
  tried only after five failures, or connecting works, then it ends switched or connected, idle and
  with its counter reset, after waiting exactly the delays of the rounds it took.
\<close>

theorem reconnect_loop_outcome:
  assumes "\<And>k. k < n \<Longrightarrow> failing_round DefaultReconnectConfig (int k + 1) (env k)" "int n + 1 < 2 ^ 31"
    and "\<not> re_stopped (env n)"
    and "switched \<longleftrightarrow> 5 \<le> n \<and> re_switch (env n)"
    and "switched \<or> \<not> re_stopped_waiting (env n) \<and> re_connect (env n)"
  shows "\<exists>r'. reconnectLoop env now (NewReconnector DefaultReconnectConfig) =
      Some (if switched then Switched else Connected,
        delays DefaultReconnectConfig (if switched then n else Suc n), r') \<and>
    rc_attempts r' = 0 \<and> rc_state r' = StateIdle"
proof -
  let ?cfg = DefaultReconnectConfig
  obtain r' where r': "reconnect_rounds env 0 [] (NewReconnector ?cfg) = reconnect_rounds env n (delays ?cfg n) r'"
    "rc_cfg r' = ?cfg" "rc_attempts r' = int n"
    using reconnect_rounds_failing [of n "NewReconnector ?cfg" env] assms(1,2) by (auto simp: NewReconnector_def)
  have "wrap32 (int n + 1) = int n + 1"
    using assms(2) by (intro wrap32_small) simp_all
  moreover have "rg_MaxAttempts ?cfg < int n + 1 \<longleftrightarrow> 5 \<le> n"
    by (auto simp: DefaultReconnectConfig_def)
  ultimately have "reconnect_rounds env n (delays ?cfg n) r' =
      Some (if switched then Switched else Connected, delays ?cfg (if switched then n else Suc n),
        r'\<lparr>rc_attempts := 0, rc_lastAttempt := re_now (env n)\<rparr>)"
    using assms(3-5) r'(2,3) by (subst reconnect_rounds.simps) (auto simp: Let_def delays_def)
  then show ?thesis
    using r'(1) by (simp add: reconnectLoop_def NewReconnector_def Let_def)
qed

theorem reconnect_loop_outcome_witness:
  "\<exists>r'. reconnectLoop (\<lambda>k. \<lparr>re_stopped = False, re_now = 7, re_switch = True, re_stopped_waiting = False, re_connect = False\<rparr>)
      0 (NewReconnector DefaultReconnectConfig) = Some (Switched, delays DefaultReconnectConfig 5, r') \<and>
    rc_attempts r' = 0 \<and> rc_state r' = StateIdle"
  using reconnect_loop_outcome [of 5 "\<lambda>k. \<lparr>re_stopped = False, re_now = 7, re_switch = True, re_stopped_waiting = False,
      re_connect = False\<rparr>" True 0]
  by (simp add: failing_round_def DefaultReconnectConfig_def)

end
