(* ===== verification/Client_Sessions.thy ===== *)
theory Client_Sessions
  imports Config Sni_Spoof Dpi_Detect Quality Reconnect
begin

text \<open>
  The multiplexed sessions of internal/client/client.go: how a session is created, and how the
  maintenance pass replaces closed sessions, numbers them for the heartbeat and the quality monitor
  and feeds the failure detector, the buffer tuner and the reconnector.
\<close>

subsection \<open>Creating a session\<close>

datatype session_error = DialFailed | HandshakeFailed | MuxFailed

text \<open>
  The dial, the handshake and the multiplexer are the environment's answers; the second result is
  the connections closed on the way.
\<close>

definition createSession ::
  "'c option \<Rightarrow> ('c \<Rightarrow> bool) \<Rightarrow> ('c \<Rightarrow> 's option) \<Rightarrow> (session_error + 's) \<times> 'c list" where
  "createSession dial handshake newSession =
     (case dial of
        None \<Rightarrow> (Inl DialFailed, [])
      | Some conn \<Rightarrow>
          if \<not> handshake conn then (Inl HandshakeFailed, [conn])
          else case newSession conn of None \<Rightarrow> (Inl MuxFailed, [conn]) | Some s \<Rightarrow> (Inr s, []))"

text \<open>Which connections are wrapped for SNI spoofing, and how.\<close>

definition spoofs_sni :: "Config \<Rightarrow> bool" where
  "spoofs_sni cfg \<longleftrightarrow>
     ad_Enabled (cf_AntiDPI cfg) \<and> ad_SNISpoof (cf_AntiDPI cfg) \<and>
     cf_Transport cfg \<in> {''tcpmux'', ''wsmux'', ''h2mux'', ''grpc'', ''reality'', ''shadowtls''}"

text \<open>Any method the wrapper does not know is the split.\<close>

definition spoof_method :: "string \<Rightarrow> SpoofMethod option" where
  "spoof_method m =
     (if m = [] then None else if m = ''replace'' then Some MethodReplace
      else if m = ''double'' then Some MethodDouble else Some MethodSplit)"

definition client_spoofer :: "Config \<Rightarrow> SNISpoofing" where
  "client_spoofer cfg =
     NewSNISpoofing (default_str ''www.google.com'' (ad_SNISpoofDomain (cf_AntiDPI cfg)))
       (Some (case spoof_method (ad_SNISpoofMethod (cf_AntiDPI cfg)) of None \<Rightarrow> MethodSplit | Some m \<Rightarrow> m)) 0"

definition session_writer :: "Config \<Rightarrow> bool writer" where
  "session_writer cfg = (if spoofs_sni cfg then sniSpoofConn_Write (client_spoofer cfg)
     else (\<lambda>s p c. case conn_write p c of (n, err, c') \<Rightarrow> Some (n, err, s, c')))"

text \<open>The buffers of the session: the tuner's and the configured ones raise, never lower, them.\<close>

definition tuned_mux :: "Config \<Rightarrow> int \<Rightarrow> int \<Rightarrow> MuxConfig" where
  "tuned_mux cfg tunedRecv tunedSend =
     (let m0 = cf_Mux cfg;
          m1 = (if mx_RecvBuffer m0 < tunedRecv then m0\<lparr>mx_RecvBuffer := tunedRecv\<rparr> else m0);
          m2 = (if mx_StreamBuffer m1 < tunedSend then m1\<lparr>mx_StreamBuffer := tunedSend\<rparr> else m1);
          m3 = (if mx_StreamBuffer m2 < pf_SendBuffer (cf_Performance cfg)
                then m2\<lparr>mx_StreamBuffer := pf_SendBuffer (cf_Performance cfg)\<rparr> else m2)
      in if mx_RecvBuffer m3 < pf_RecvBuffer (cf_Performance cfg)
         then m3\<lparr>mx_RecvBuffer := pf_RecvBuffer (cf_Performance cfg)\<rparr> else m3)"

lemma tuned_mux_max:
  "mx_RecvBuffer (tuned_mux cfg r s) = max (max (mx_RecvBuffer (cf_Mux cfg)) r) (pf_RecvBuffer (cf_Performance cfg))"
  "mx_StreamBuffer (tuned_mux cfg r s) = max (max (mx_StreamBuffer (cf_Mux cfg)) s) (pf_SendBuffer (cf_Performance cfg))"
  by (simp_all add: tuned_mux_def Let_def max_def)

lemma write_all_plain:
  assumes "\<And>p c. wr s p c = (case conn_write p c of (n, err, c') \<Rightarrow> Some (n, err, s, c'))" "nc_budget c = None"
  shows "\<exists>c'. write_all wr s ps c = Some (False, s, c') \<and> nc_writes c' = nc_writes c @ ps"
  using assms(2)
proof (induction ps arbitrary: c)
  case (Cons p ps)
  have "nc_budget (c\<lparr>nc_writes := nc_writes c @ [p]\<rparr>) = None"
    using Cons.prems by simp
  from Cons.IH [OF this] show ?case
    using Cons.prems by (auto simp: assms(1) conn_write_unlimited)
qed simp

text \<open>
  SNI spoofing on a client session changes nothing: the wrapper inspects the first write only,
  and the first write of a session is the four-byte length of the encrypted hello, so every write
  after it goes out as it is, even a ClientHello.
\<close>

theorem client_sni_spoof_inert:
  assumes "nc_budget c = None"
  shows "\<exists>fw c'. write_all (session_writer cfg) True (putUint32 len # ps) c = Some (False, fw, c') \<and>
    nc_writes c' = nc_writes c @ putUint32 len # ps"
proof (cases "spoofs_sni cfg")
  case True
  let ?c = "c\<lparr>nc_writes := nc_writes c @ [putUint32 len]\<rparr>"
  have "session_writer cfg True (putUint32 len) c = Some (4, False, False, ?c)"
    using True assms by (simp add: session_writer_def sniSpoofConn_Write_def isTLSClientHello_def conn_write_unlimited)
  moreover have "session_writer cfg False p c = (case conn_write p c of (n, err, c') \<Rightarrow> Some (n, err, False, c'))" for p c
    using True by (simp add: session_writer_def sniSpoofConn_Write_def)
  from write_all_plain [of "session_writer cfg" False ?c ps, OF this] obtain c' where
    "write_all (session_writer cfg) False ps ?c = Some (False, False, c')" "nc_writes c' = nc_writes ?c @ ps"
    using assms by auto
  ultimately show ?thesis
    by auto
next
  case False
  then have "session_writer cfg True p c = (case conn_write p c of (n, err, c') \<Rightarrow> Some (n, err, True, c'))" for p c
    by (simp add: session_writer_def)
  from write_all_plain [of "session_writer cfg" True c "putUint32 len # ps", OF this assms] show ?thesis
    by blast
qed

definition spoofing_config :: Config where
  "spoofing_config = (let cfg = sample_config ''client'' True in
     cfg\<lparr>cf_Transport := ''tcpmux'', cf_AntiDPI := (cf_AntiDPI cfg)\<lparr>ad_Enabled := True, ad_SNISpoof := True\<rparr>\<rparr>)"

theorem client_sni_spoof_inert_witness:
  "spoofs_sni spoofing_config \<and>
   (\<exists>fw c'. write_all (session_writer spoofing_config) True [putUint32 55, [0x16, 3, 1, 0, 5, 1]]
      \<lparr>nc_writes = [], nc_budget = None\<rparr> = Some (False, fw, c') \<and>
    nc_writes c' = [putUint32 55, [0x16, 3, 1, 0, 5, 1]])"
proof -
  have "spoofs_sni spoofing_config"
    by (simp add: spoofs_sni_def spoofing_config_def Let_def)
  then show ?thesis
    using client_sni_spoof_inert [of "\<lparr>nc_writes = [], nc_budget = None\<rparr>" spoofing_config 55 "[[0x16, 3, 1, 0, 5, 1]]"]
    by simp
qed

subsection \<open>Numbering\<close>

text \<open>
  The sessions of the pool in its order, and for every number the session whose heartbeat and
  quality are recorded under it, with the stability modules of the client. The pool asks the quality
  monitor for the score of the session at position \<open>i\<close> by the number \<open>i + 1\<close>.
\<close>

record 's client_sessions =
  cs_pool :: "'s list"
  cs_monitored :: "int \<Rightarrow> 's option"
  cs_dpi :: DPIDetector
  cs_tuner :: BufferTuner
  cs_reconnector :: Reconnector

definition new_client_sessions :: "BufferTuner \<Rightarrow> 's client_sessions" where
  "new_client_sessions tuner =
     \<lparr>cs_pool = [], cs_monitored = Map.empty, cs_dpi = NewDPIDetector, cs_tuner = tuner,
      cs_reconnector = NewReconnector DefaultReconnectConfig\<rparr>"

text \<open>\<open>connectSessions\<close> with the heartbeat on: \<open>created i\<close> is the outcome of the \<open>i\<close>-th creation.\<close>

definition connect_one :: "'s client_sessions \<times> int \<Rightarrow> 's option \<Rightarrow> 's client_sessions \<times> int" where
  "connect_one st created =
     (case st of (cs, nconn) \<Rightarrow>
        case created of
          None \<Rightarrow> (cs, nconn)
        | Some s \<Rightarrow>
            let nconn = nconn + 1 in
            (cs\<lparr>cs_pool := cs_pool cs @ [s], cs_monitored := (cs_monitored cs)(nconn \<mapsto> s)\<rparr>, nconn))"

definition connectSessions :: "int \<Rightarrow> (nat \<Rightarrow> 's option) \<Rightarrow> 's client_sessions \<Rightarrow> unit + 's client_sessions" where
  "connectSessions muxConcurrency created cs =
     (let concurrency = (if muxConcurrency \<le> 0 then 4 else muxConcurrency) in
      case foldl connect_one (cs, 0) (map created [0..<nat concurrency]) of
        (cs', nconn) \<Rightarrow> if nconn = 0 then Inl () else Inr cs')"

text \<open>
  \<open>checkAndReconnect\<close>: in each round a new session comes from the warm-up pool or is created, or an
  error is recorded; \<open>ro_elapsed\<close> is the time since the start of the round.
\<close>

record 's reconnect_round =
  ro_result :: "string + 's"
  ro_now :: time
  ro_elapsed :: time

definition reconnect_one :: "string \<Rightarrow> int \<Rightarrow> 's client_sessions \<times> int \<Rightarrow> 's reconnect_round \<Rightarrow> 's client_sessions \<times> int" where
  "reconnect_one transport active st ro =
     (case st of (cs, i) \<Rightarrow>
        case ro_result ro of
          Inl err \<Rightarrow> (cs\<lparr>cs_dpi := fst (RecordFailure (ro_now ro) transport err (ro_elapsed ro) (cs_dpi cs))\<rparr>, i + 1)
        | Inr s \<Rightarrow>
            (cs\<lparr>cs_pool := cs_pool cs @ [s], cs_monitored := (cs_monitored cs)(active + i + 1 \<mapsto> s),
               cs_tuner := UpdateMetrics 1048576 (ro_elapsed ro) (cs_tuner cs)\<rparr>, i + 1))"

definition remove_closed :: "string \<Rightarrow> time \<Rightarrow> ('s \<Rightarrow> bool) \<Rightarrow> 's client_sessions \<Rightarrow> 's client_sessions" where
  "remove_closed transport now isClosed cs =
     (let alive = filter (\<lambda>s. \<not> isClosed s) (cs_pool cs) in
      if length alive < length (cs_pool cs)
      then cs\<lparr>cs_pool := alive,
             cs_dpi := fst (RecordFailure now transport ''session closed unexpectedly'' 0 (cs_dpi cs))\<rparr>
      else cs\<lparr>cs_pool := alive\<rparr>)"

definition checkAndReconnect ::
  "int \<Rightarrow> string \<Rightarrow> time \<Rightarrow> ('s \<Rightarrow> bool) \<Rightarrow> (nat \<Rightarrow> 's reconnect_round) \<Rightarrow> 's client_sessions \<Rightarrow> 's client_sessions" where
  "checkAndReconnect muxConcurrency transport now isClosed rounds cs =
     (let cs1 = remove_closed transport now isClosed cs;
          active = int (length (cs_pool cs1));
          target = (if muxConcurrency \<le> 0 then 4 else muxConcurrency)
      in if active < target then
           let cs2 = fst (foldl (reconnect_one transport active) (cs1, 0) (map rounds [0..<nat (target - active)])) in
           if cs_pool cs2 = [] then cs2\<lparr>cs_reconnector := fst (Trigger (cs_reconnector cs2))\<rparr> else cs2
         else cs1)"

definition aligned :: "'s client_sessions \<Rightarrow> bool" where
  "aligned cs \<longleftrightarrow> (\<forall>i < length (cs_pool cs). cs_monitored cs (int i + 1) = Some (cs_pool cs ! i))"

lemma foldl_connect_one:
  "foldl connect_one (new_client_sessions tuner, 0) cr = (cs, n) \<Longrightarrow>
     aligned cs \<and> n = int (length (cs_pool cs))"
proof (induction cr arbitrary: cs n rule: rev_induct)
  case (snoc c cr)
  obtain cs1 n1 where f: "foldl connect_one (new_client_sessions tuner, 0) cr = (cs1, n1)"
    by (cases "foldl connect_one (new_client_sessions tuner, 0) cr")
  have IH: "aligned cs1" "n1 = int (length (cs_pool cs1))"
    using snoc.IH [OF f] by simp_all
  have "connect_one (cs1, n1) c = (cs, n)"
    using snoc.prems f by simp
  then show ?case
    using IH by (cases c) (auto simp: connect_one_def Let_def aligned_def nth_append less_Suc_eq)
qed (simp add: aligned_def new_client_sessions_def)

lemma foldl_reconnect_one:
  assumes "foldl (reconnect_one transport active) (cs, 0) ros = (cs', n)" "\<forall>ro \<in> set ros. is_ok (ro_result ro)"
  shows "n = int (length ros) \<and> cs_pool cs' = cs_pool cs @ map (projr \<circ> ro_result) ros \<and>
    (\<forall>k. cs_monitored cs' k =
       (if active < k \<and> k \<le> active + int (length ros) then Some (projr (ro_result (ros ! nat (k - active - 1))))
        else cs_monitored cs k))"
  using assms
proof (induction ros arbitrary: cs' n rule: rev_induct)
  case (snoc ro ros)
  obtain cs1 n1 where f: "foldl (reconnect_one transport active) (cs, 0) ros = (cs1, n1)"
    by (cases "foldl (reconnect_one transport active) (cs, 0) ros")
  have IH: "n1 = int (length ros)" "cs_pool cs1 = cs_pool cs @ map (projr \<circ> ro_result) ros"
    "\<And>k. cs_monitored cs1 k =
       (if active < k \<and> k \<le> active + int (length ros) then Some (projr (ro_result (ros ! nat (k - active - 1))))
        else cs_monitored cs k)"
    using snoc.IH [OF f] snoc.prems(2) by simp_all
  obtain s where s: "ro_result ro = Inr s"
    using snoc.prems(2) by (auto simp: is_ok_def split: sum.splits)
  have step: "cs' = cs1\<lparr>cs_pool := cs_pool cs1 @ [s], cs_monitored := (cs_monitored cs1)(active + n1 + 1 \<mapsto> s),
      cs_tuner := UpdateMetrics 1048576 (ro_elapsed ro) (cs_tuner cs1)\<rparr>" "n = n1 + 1"
    using snoc.prems(1) by (simp_all add: f s reconnect_one_def [of transport active "(cs1, n1)"])
  have "cs_monitored cs' k = (if active < k \<and> k \<le> active + int (length (ros @ [ro]))
      then Some (projr (ro_result ((ros @ [ro]) ! nat (k - active - 1)))) else cs_monitored cs k)" for k
    using IH by (auto simp: step nth_append s)
  then show ?case
    using IH step s by simp
qed auto

lemma remove_closed_fields [simp]:
  "cs_pool (remove_closed tr now isClosed cs) = filter (\<lambda>s. \<not> isClosed s) (cs_pool cs)"
  "cs_monitored (remove_closed tr now isClosed cs) = cs_monitored cs"
  by (simp_all add: remove_closed_def Let_def)

text \<open>
  After the first connection every session of the pool is monitored under the number the pool
  uses for it. After closed sessions were replaced this holds only if the closed ones were the last
  of the pool: otherwise some open session is judged by the metrics of another one.
\<close>

theorem session_numbers_aligned:
  assumes "connectSessions n created (new_client_sessions tuner) = Inr cs"
    and "length (filter (\<lambda>s. \<not> isClosed s) (cs_pool cs)) < nat target" "0 < target"
    and "\<And>i. is_ok (ro_result (rounds i))"
  shows "aligned cs \<and>
    (aligned (checkAndReconnect target transport now isClosed rounds cs) \<longleftrightarrow>
       (\<exists>k. filter (\<lambda>s. \<not> isClosed s) (cs_pool cs) = take k (cs_pool cs)))"
proof -
  obtain m where "foldl connect_one (new_client_sessions tuner, 0)
      (map created [0..<nat (if n \<le> 0 then 4 else n)]) = (cs, m)"
    using assms(1) by (auto simp: connectSessions_def Let_def split: prod.splits if_splits)
  from foldl_connect_one [OF this] have al: "aligned cs" by simp
  let ?open = "filter (\<lambda>s. \<not> isClosed s) (cs_pool cs)"
  let ?a = "length ?open"
  define ros where "ros = map rounds [0..<nat (target - int ?a)]"
  obtain cs' k where f: "foldl (reconnect_one transport (int ?a)) (remove_closed transport now isClosed cs, 0) ros = (cs', k)"
    by (cases "foldl (reconnect_one transport (int ?a)) (remove_closed transport now isClosed cs, 0) ros")
  have "\<forall>ro \<in> set ros. is_ok (ro_result ro)"
    using assms(4) by (auto simp: ros_def)
  note fr = foldl_reconnect_one [OF f this]
  have "ros \<noteq> []"
    using assms(2) by (simp add: ros_def)
  then have r: "checkAndReconnect target transport now isClosed rounds cs = cs'"
    using assms(2,3) f fr by (simp add: checkAndReconnect_def Let_def flip: ros_def)
  have le: "?a \<le> length (cs_pool cs)" by simp
  have "aligned cs' \<longleftrightarrow> (\<forall>i < ?a. cs_monitored cs (int i + 1) = Some (?open ! i))"
  proof -
    have new: "cs_monitored cs' (int i + 1) = Some (cs_pool cs' ! i)" if "?a \<le> i" "i < length (cs_pool cs')" for i
    proof -
      have "nat (int i + 1 - int ?a - 1) = i - ?a" using that(1) by simp
      then show ?thesis
        using fr that by (simp add: nth_append)
    qed
    have old: "cs_monitored cs' (int i + 1) = cs_monitored cs (int i + 1) \<and> cs_pool cs' ! i = ?open ! i" if "i < ?a" for i
      using fr that by (simp add: nth_append)
    have len: "?a \<le> length (cs_pool cs')"
      using fr by simp
    show ?thesis
      unfolding aligned_def
    proof (intro iffI allI impI)
      fix i
      assume "\<forall>i < length (cs_pool cs'). cs_monitored cs' (int i + 1) = Some (cs_pool cs' ! i)" "i < ?a"
      then show "cs_monitored cs (int i + 1) = Some (?open ! i)"
        using old len by force
    next
      fix i
      assume "\<forall>i < ?a. cs_monitored cs (int i + 1) = Some (?open ! i)" "i < length (cs_pool cs')"
      then show "cs_monitored cs' (int i + 1) = Some (cs_pool cs' ! i)"
        using old new by (cases "i < ?a") simp_all
    qed
  qed
  also have "\<dots> \<longleftrightarrow> (\<forall>i < ?a. cs_pool cs ! i = ?open ! i)"
  proof -
    have "cs_monitored cs (int i + 1) = Some (cs_pool cs ! i)" if "i < ?a" for i
      using al order_less_le_trans [OF that le] unfolding aligned_def by blast
    then show ?thesis by simp
  qed
  also have "\<dots> \<longleftrightarrow> ?open = take ?a (cs_pool cs)"
    using le by (auto simp: list_eq_iff_nth_eq)
  also have "\<dots> \<longleftrightarrow> (\<exists>k. ?open = take k (cs_pool cs))"
    using length_take take_take [of ?a] by (metis min.absorb2 min.commute take_all_iff linorder_linear)
  finally show ?thesis
    using al r by simp
qed

definition two_sessions :: "nat client_sessions" where
  "two_sessions = (new_client_sessions (NewBufferTuner 0 0))\<lparr>cs_pool := [10, 11], cs_monitored := [1 \<mapsto> 10, 2 \<mapsto> 11]\<rparr>"

definition good_round :: "nat \<Rightarrow> nat reconnect_round" where
  "good_round i = \<lparr>ro_result = Inr (20 + i), ro_now = 0, ro_elapsed = 5\<rparr>"

theorem session_numbers_aligned_witness:
  "aligned two_sessions \<and> \<not> aligned (checkAndReconnect 2 ''tcpmux'' 0 (\<lambda>s. s = 10) good_round two_sessions)"
proof -
  have c: "connectSessions 2 (\<lambda>i. Some (10 + i)) (new_client_sessions (NewBufferTuner 0 0)) = Inr two_sessions"
    by (simp add: connectSessions_def connect_one_def numeral_2_eq_2 two_sessions_def new_client_sessions_def)
  have "\<nexists>k. filter (\<lambda>s. \<not> s = 10) [10, 11 :: nat] = take k [10, 11]"
    by (auto simp: take_Cons split: nat.splits)
  moreover have "is_ok (ro_result (good_round i))" for i
    by (simp add: good_round_def is_ok_def)
  ultimately show ?thesis
    using session_numbers_aligned [OF c, of "\<lambda>s. s = 10" 2 good_round "''tcpmux''" 0] by (simp add: two_sessions_def)
qed

text \<open>
  What the maintenance pass records for a closed session matches no pattern, so it only ever counts
  towards \<open>PatternNone\<close>; and a pass that leaves no session triggers the reconnector.
\<close>

lemma closed_session_is_no_pattern: "classifyFailure ''session closed unexpectedly'' 0 = PatternNone"
  by code_simp

lemma no_session_triggers:
  assumes "0 < target" "\<And>s. s \<in> set (cs_pool cs) \<Longrightarrow> isClosed s" "\<And>i. \<not> is_ok (ro_result (rounds i))"
    and "rc_state (cs_reconnector cs) = StateIdle"
  shows "rc_state (cs_reconnector (checkAndReconnect target tr now isClosed rounds cs)) = StateReconnecting"
proof -
  have kept: "cs_pool (fst (foldl (reconnect_one tr a) (c, i) ros)) = cs_pool c \<and>
      cs_reconnector (fst (foldl (reconnect_one tr a) (c, i) ros)) = cs_reconnector c"
    if "\<forall>ro \<in> set ros. \<not> is_ok (ro_result ro)" for a c i ros
    using that
  proof (induction ros arbitrary: c i)
    case (Cons ro ros)
    obtain e where "ro_result ro = Inl e"
      using Cons.prems by (auto simp: is_ok_def split: sum.splits)
    then show ?case
      using Cons.IH [of "fst (reconnect_one tr a (c, i) ro)" "i + 1"] Cons.prems
      by (simp add: reconnect_one_def [of tr a "(c, i)" ro])
  qed simp
  have "filter (\<lambda>s. \<not> isClosed s) (cs_pool cs) = []"
    using assms(2) by (simp add: filter_empty_conv)
  moreover have "cs_reconnector (remove_closed tr now isClosed cs) = cs_reconnector cs"
    by (simp add: remove_closed_def Let_def)
  moreover have "\<forall>ro \<in> set (map rounds [0..<nat target]). \<not> is_ok (ro_result ro)"
    using assms(3) by simp
  note kept [OF this, of 0 "remove_closed tr now isClosed cs" 0]
  ultimately show ?thesis
    using assms(1,4) by (simp add: checkAndReconnect_def Let_def Trigger_def)
qed

end
