(* ===== verification/Go_Sort.thy ===== *)
theory Go_Sort
  imports Main "HOL-Library.Multiset"
begin

text \<open>
  \<open>sort.Slice\<close>: the library promises a permutation in which no element is less than an earlier
  one, and nothing about equal elements. The locale \<open>slice_sort\<close> is that contract; the sources use
  it to take the first element with some property or to cut off a tail, and both uses are settled
  here once. \<open>insertion_sort\<close> is what the library runs on at most twelve elements.
\<close>

locale slice_sort =
  fixes prec :: "'a \<Rightarrow> 'a \<Rightarrow> bool" and srt :: "'a list \<Rightarrow> 'a list"
  assumes srt_mset: "mset (srt xs) = mset xs"
    and srt_sorted: "sorted_wrt (\<lambda>a b. \<not> prec b a) (srt xs)"
begin

lemma set_srt [simp]: "set (srt xs) = set xs"
  using srt_mset by (rule mset_eq_setD)

lemma length_srt [simp]: "length (srt xs) = length xs"
  using srt_mset by (rule mset_eq_length)

lemma distinct_srt [simp]: "distinct (srt xs) = distinct xs"
  using srt_mset by (rule mset_eq_imp_distinct_iff)

lemma find_srt_None: "find P (srt xs) = None \<longleftrightarrow> (\<forall>x \<in> set xs. \<not> P x)"
  by (auto simp: find_None_iff)

lemma find_srt_Some:
  assumes irrefl: "\<And>x. \<not> prec x x" and "find P (srt xs) = Some x"
  shows "x \<in> set xs \<and> P x \<and> (\<forall>y \<in> set xs. P y \<longrightarrow> \<not> prec y x)"
proof -
  obtain i where i: "i < length (srt xs)" "P (srt xs ! i)" "x = srt xs ! i"
    and before: "\<forall>j < i. \<not> P (srt xs ! j)"
    using assms(2) by (auto simp: find_Some_iff)
  have "\<not> prec y x" if y: "y \<in> set xs" "P y" for y
  proof -
    obtain k where k: "k < length (srt xs)" "y = srt xs ! k"
      using y(1) unfolding set_srt [of xs, symmetric] in_set_conv_nth by blast
    then have "i \<le> k"
      using before y(2) by (auto simp: not_less [symmetric])
    show ?thesis
    proof (cases "i = k")
      case False
      then show ?thesis
        using sorted_wrt_nth_less [OF srt_sorted, of i k xs] \<open>i \<le> k\<close> i(3) k by simp
    qed (use i(3) k irrefl in simp)
  qed
  then show ?thesis
    using i nth_mem [OF i(1)] by auto
qed

lemma take_drop_srt:
  assumes "x \<in> set (take n (srt xs))" "y \<in> set (drop n (srt xs))"
  shows "\<not> prec y x"
proof -
  have "sorted_wrt (\<lambda>a b. \<not> prec b a) (take n (srt xs) @ drop n (srt xs))"
    by (simp add: srt_sorted)
  then show ?thesis
    using assms unfolding sorted_wrt_append by blast
qed

end

text \<open>
  The elements already passed are kept in reverse, so that the inner loop, which moves an element
  to the left while it is less than its neighbour, starts at the head.
\<close>

fun sift :: "('a \<Rightarrow> 'a \<Rightarrow> bool) \<Rightarrow> 'a \<Rightarrow> 'a list \<Rightarrow> 'a list" where
  "sift prec x [] = [x]"
| "sift prec x (y # ys) = (if prec x y then y # sift prec x ys else x # y # ys)"

definition insertion_sort :: "('a \<Rightarrow> 'a \<Rightarrow> bool) \<Rightarrow> 'a list \<Rightarrow> 'a list" where
  "insertion_sort prec xs = rev (fold (sift prec) xs [])"

lemma mset_sift [simp]: "mset (sift prec x ys) = add_mset x (mset ys)"
  by (induction ys) auto

lemma set_sift [simp]: "set (sift prec x ys) = insert x (set ys)"
  by (induction ys) auto

lemma mset_fold_sift: "mset (fold (sift prec) xs ys) = mset xs + mset ys"
  by (induction xs arbitrary: ys) auto

definition greater_key :: "('a \<Rightarrow> 'k :: linorder) \<Rightarrow> 'a \<Rightarrow> 'a \<Rightarrow> bool" where
  "greater_key key a b \<longleftrightarrow> key a > key b"

lemma greater_key_irrefl [simp]: "\<not> greater_key key x x"
  by (simp add: greater_key_def)

lemma sorted_sift:
  "sorted_wrt (\<lambda>a b. \<not> greater_key key a b) ys \<Longrightarrow>
     sorted_wrt (\<lambda>a b. \<not> greater_key key a b) (sift (greater_key key) x ys)"
  by (induction ys) (auto simp: greater_key_def not_less intro: less_imp_le order_trans)

lemma sorted_fold_sift:
  "sorted_wrt (\<lambda>a b. \<not> greater_key key a b) ys \<Longrightarrow>
     sorted_wrt (\<lambda>a b. \<not> greater_key key a b) (fold (sift (greater_key key)) xs ys)"
  by (induction xs arbitrary: ys) (auto intro: sorted_sift)

lemma insertion_sort_sorts:
  "slice_sort (greater_key key) (insertion_sort (greater_key key))"
  by unfold_locales
    (auto simp: insertion_sort_def mset_fold_sift sorted_wrt_rev intro: sorted_fold_sift)

end
