(* ===== verification/Auto_Select.thy ===== *)
theory Auto_Select
  imports Prelude Go_Arith Go_Float Go_Sort State_Machine
begin

text \<open>
  internal/smart/auto_select.go: the selector that probes every transport, picks the best one and
  moves to another when the current one fails. What the network does during one test is a
  \<open>probe_env\<close> per transport; \<open>sort.Slice\<close> is a parameter with the contract \<open>slice_sort\<close>. The
  concurrent tests of \<open>testAllTransports\<close> write distinct elements under the lock, so the list they
  leave is a map over the old one. Log lines are left out; the calls of the switch callback are a
  result.
\<close>

record TransportProbe =
  tp_Name :: string
  tp_Available :: bool
  tp_Latency :: time
  tp_Throughput :: rat
  tp_PacketLoss :: rat
  tp_LastTest :: time
  tp_Failures :: int
  tp_Score :: rat
  tp_Blocked :: bool

definition zero_probe :: "string \<Rightarrow> TransportProbe" where
  "zero_probe name = \<lparr>tp_Name = name, tp_Available = False, tp_Latency = 0, tp_Throughput = 0,
     tp_PacketLoss = 0, tp_LastTest = 0, tp_Failures = 0, tp_Score = 0, tp_Blocked = False\<rparr>"

record SelectionEvent =
  ev_Timestamp :: time
  ev_FromTransport :: string
  ev_ToTransport :: string
  ev_Reason :: string

record AutoSelector =
  as_serverAddr :: string
  as_transports :: "TransportProbe list"
  as_currentBest :: string
  as_history :: "SelectionEvent list"
  as_stopped :: bool
  as_onSwitch :: bool
  as_checkInterval :: time
  as_failThreshold :: int

definition NewAutoSelector :: "string \<Rightarrow> time \<Rightarrow> int \<Rightarrow> bool \<Rightarrow> AutoSelector" where
  "NewAutoSelector serverAddr checkInterval failThreshold onSwitch =
     \<lparr>as_serverAddr = serverAddr,
      as_transports = map zero_probe
        [''reality'', ''shadowtls'', ''wsmux'', ''h2mux'', ''grpc'', ''tcpmux'', ''quic''],
      as_currentBest = '''', as_history = [], as_stopped = False, as_onSwitch = onSwitch,
      as_checkInterval = (if checkInterval = 0 then 30 * second else checkInterval),
      as_failThreshold = (if failThreshold = 0 then 3 else failThreshold)\<rparr>"

subsection \<open>Testing a transport\<close>

text \<open>Every constructor but the first carries the time that had passed at the return.\<close>

datatype udp_outcome = ResolveFailed | DialFailed time | ReadFailed time | Answered time

record probe_env =
  pe_now :: time
  pe_dialed :: bool
  pe_elapsed :: time
  pe_udp :: udp_outcome

definition testTCP :: "probe_env \<Rightarrow> bool \<times> time" where
  "testTCP env = (pe_dialed env, pe_elapsed env)"

definition testUDP :: "probe_env \<Rightarrow> bool \<times> time" where
  "testUDP env = (case pe_udp env of
     ResolveFailed \<Rightarrow> (False, 0)
   | DialFailed t \<Rightarrow> (False, t)
   | ReadFailed t \<Rightarrow> (False, t)
   | Answered t \<Rightarrow> (True, t))"

definition dpiBonus :: "string \<Rightarrow> rat" where
  "dpiBonus name =
     (if name = ''reality'' then 50 else if name = ''shadowtls'' then 40
      else if name = ''wsmux'' then 35 else if name = ''h2mux'' then 30
      else if name = ''grpc'' then 30 else if name = ''tcpmux'' then 10
      else if name = ''quic'' then 20 else 0)"

definition Milliseconds :: "time \<Rightarrow> int" where
  "Milliseconds d = quot d 1000000"

definition calculateScore :: "TransportProbe \<Rightarrow> rat" where
  "calculateScore probe =
     (if \<not> tp_Available probe then 0
      else
        let latencyMs = float_of_int (Milliseconds (tp_Latency probe));
            score = (if latencyMs > 0 then fsub 100 (fdiv latencyMs 10) else 100);
            score = fadd score (dpiBonus (tp_Name probe));
            score = fsub score (fmul (float_of_int (tp_Failures probe)) 20) in
        if tp_Blocked probe then 0 else score)"

definition testTransport :: "probe_env \<Rightarrow> string \<Rightarrow> TransportProbe" where
  "testTransport env name =
     (let probe = zero_probe name\<lparr>tp_LastTest := pe_now env\<rparr>;
          probe =
            (if name \<in> {''tcpmux'', ''reality'', ''shadowtls'', ''h2mux'', ''grpc'', ''wsmux''}
             then case testTCP env of (a, l) \<Rightarrow> probe\<lparr>tp_Available := a, tp_Latency := l\<rparr>
             else if name = ''quic''
             then case testUDP env of (a, l) \<Rightarrow> probe\<lparr>tp_Available := a, tp_Latency := l\<rparr>
             else probe) in
      probe\<lparr>tp_Score := calculateScore probe\<rparr>)"

definition testAllTransports :: "(string \<Rightarrow> probe_env) \<Rightarrow> AutoSelector \<Rightarrow> AutoSelector" where
  "testAllTransports env as =
     as\<lparr>as_transports := map (\<lambda>t. testTransport (env (tp_Name t)) (tp_Name t)) (as_transports as)\<rparr>"

subsection \<open>Selecting and switching\<close>

datatype select_error = NoWorkingTransport

abbreviation usable :: "TransportProbe \<Rightarrow> bool" where
  "usable t \<equiv> tp_Available t \<and> \<not> tp_Blocked t"

definition InitialSelect ::
    "(TransportProbe list \<Rightarrow> TransportProbe list) \<Rightarrow> (string \<Rightarrow> probe_env) \<Rightarrow> AutoSelector \<Rightarrow>
     (select_error + string) \<times> AutoSelector" where
  "InitialSelect srt env as =
     (let as = testAllTransports env as;
          sorted = srt (as_transports as);
          best = (case find usable sorted of None \<Rightarrow> '''' | Some t \<Rightarrow> tp_Name t) in
      (if best = '''' then Inl NoWorkingTransport else Inr best,
       as\<lparr>as_transports := sorted, as_currentBest := best\<rparr>))"

fun best_alternative :: "string \<Rightarrow> TransportProbe list \<Rightarrow> string \<Rightarrow> rat \<Rightarrow> string" where
  "best_alternative exclude [] best bestScore = best"
| "best_alternative exclude (t # ts) best bestScore =
     (if tp_Name t = exclude \<or> \<not> tp_Available t \<or> tp_Blocked t
      then best_alternative exclude ts best bestScore
      else if tp_Score t > bestScore then best_alternative exclude ts (tp_Name t) (tp_Score t)
      else best_alternative exclude ts best bestScore)"

definition findAlternative ::
    "(string \<Rightarrow> probe_env) \<Rightarrow> string \<Rightarrow> AutoSelector \<Rightarrow> string \<times> AutoSelector" where
  "findAlternative env exclude as =
     (let as = testAllTransports env as in (best_alternative exclude (as_transports as) '''' 0, as))"

definition switchTransport ::
    "time \<Rightarrow> string \<Rightarrow> string \<Rightarrow> string \<Rightarrow> AutoSelector \<Rightarrow> AutoSelector \<times> (string \<times> string) list" where
  "switchTransport now from to reason as =
     (as\<lparr>as_currentBest := to,
         as_history := as_history as @
           [\<lparr>ev_Timestamp = now, ev_FromTransport = from, ev_ToTransport = to, ev_Reason = reason\<rparr>]\<rparr>,
      if as_onSwitch as then [(from, to)] else [])"

text \<open>\<open>env0\<close> is the network at the test of the current transport, \<open>env\<close> at the tests that follow.\<close>

definition checkAndSwitch ::
    "time \<Rightarrow> (string \<Rightarrow> probe_env) \<Rightarrow> (string \<Rightarrow> probe_env) \<Rightarrow> AutoSelector \<Rightarrow>
     AutoSelector \<times> (string \<times> string) list" where
  "checkAndSwitch now env0 env as =
     (let current = as_currentBest as in
      if current = '''' then (as, [])
      else
        let probe = testTransport (env0 current) current in
        if \<not> tp_Available probe \<or> tp_Failures probe \<ge> as_failThreshold as then
          (case findAlternative env current as of (newTransport, as) \<Rightarrow>
             if newTransport \<noteq> '''' \<and> newTransport \<noteq> current
             then switchTransport now current newTransport ''degradation detected'' as
             else (as, []))
        else (as, []))"

subsection \<open>What the rest of the program reports\<close>

fun update_first :: "string \<Rightarrow> (TransportProbe \<Rightarrow> TransportProbe) \<Rightarrow> TransportProbe list \<Rightarrow> TransportProbe list" where
  "update_first name f [] = []"
| "update_first name f (t # ts) = (if tp_Name t = name then f t # ts else t # update_first name f ts)"

definition RecordFailure :: "AutoSelector \<Rightarrow> AutoSelector" where
  "RecordFailure as = as\<lparr>as_transports :=
     update_first (as_currentBest as) (\<lambda>t. t\<lparr>tp_Failures := wrap64 (tp_Failures t + 1)\<rparr>) (as_transports as)\<rparr>"

definition RecordSuccess :: "AutoSelector \<Rightarrow> AutoSelector" where
  "RecordSuccess as = as\<lparr>as_transports :=
     update_first (as_currentBest as) (\<lambda>t. t\<lparr>tp_Failures := 0\<rparr>) (as_transports as)\<rparr>"

definition MarkBlocked :: "string \<Rightarrow> AutoSelector \<Rightarrow> AutoSelector" where
  "MarkBlocked name as = as\<lparr>as_transports :=
     update_first name (\<lambda>t. t\<lparr>tp_Blocked := True, tp_Score := 0\<rparr>) (as_transports as)\<rparr>"

definition StopSelector :: "AutoSelector \<Rightarrow> go_panic + AutoSelector" where
  "StopSelector as = (if as_stopped as then Inl CloseOfClosed else Inr (as\<lparr>as_stopped := True\<rparr>))"

subsection \<open>Scores\<close>

lemma quot_million_nonneg: "0 \<le> d \<Longrightarrow> 0 \<le> Milliseconds d"
  by (simp add: Milliseconds_def quot_def)

lemma testTransport_simps [simp]:
  "tp_Name (testTransport e n) = n"
  "tp_Failures (testTransport e n) = 0"
  "tp_Blocked (testTransport e n) = False"
  by (simp_all add: testTransport_def zero_probe_def Let_def split: prod.splits)

lemma testTransport_Score:
  "tp_Score (testTransport e n) = calculateScore (testTransport e n)"
  by (auto simp: testTransport_def calculateScore_def Let_def zero_probe_def split: prod.splits)

lemma dpiBonus_cases: "dpiBonus n \<in> {50, 40, 35, 30, 10, 20, 0}"
  by (simp add: dpiBonus_def)

text \<open>
  A latency in milliseconds is below \<open>2 ^ 53\<close>, so it is an exact float64, and the roundings of the
  score cannot change its sign: a fresh score is positive exactly below \<open>score_limit\<close> milliseconds.
\<close>

definition score_limit :: "string \<Rightarrow> int" where
  "score_limit n = 10 * (100 + \<lfloor>dpiBonus n\<rfloor>)"

lemma dpiBonus_int:
  obtains b where "dpiBonus n = of_int b" "0 \<le> b" "b \<le> 50" "score_limit n = 10 * (100 + b)"
  using that [of "\<lfloor>dpiBonus n\<rfloor>"] dpiBonus_cases [of n] by (auto simp: score_limit_def)

lemma calculateScore_fresh:
  assumes "tp_Available p" "\<not> tp_Blocked p" "tp_Failures p = 0"
  shows "calculateScore p =
           (let l = float_of_int (Milliseconds (tp_Latency p)) in
            fadd (if l > 0 then fsub 100 (fdiv l 10) else 100) (dpiBonus (tp_Name p)))"
  using assms rnd_exact [OF is_float_int [of 0]]
  by (simp add: calculateScore_def Let_def fsub_def [of _ 0] fmul_def float_of_int_def fadd_def)

lemma is_float_16: "\<bar>m\<bar> \<le> 2 ^ 49 \<Longrightarrow> is_float (of_int m / 16)"
  using is_float_dyadic [of "8 * m"] by simp

lemma latency_score_pos:
  assumes "0 < l" "l < 10 * (100 + b)" "0 \<le> b" "b \<le> 50"
  shows "0 < fadd (fsub 100 (fdiv (of_int l) 10)) (of_int b)"
proof -
  have "(of_int l :: rat) \<le> of_int (10 * (100 + b) - 1)"
    using assms(2) by (simp only: of_int_le_iff)
  then have "of_int l / 10 \<le> (of_int (16 * (100 + b) - 1) / 16 :: rat)"
    by (simp add: field_simps)
  then have "fdiv (of_int l) 10 \<le> of_int (16 * (100 + b) - 1) / 16"
    unfolding fdiv_def by (rule rnd_le) (rule is_float_16, use assms in simp)
  then have "of_int (1 - 16 * b) / 16 \<le> 100 - fdiv (of_int l) 10"
    by (simp add: field_simps)
  then have "of_int (1 - 16 * b) / 16 \<le> fsub 100 (fdiv (of_int l) 10)"
    unfolding fsub_def by (rule le_rnd) (rule is_float_16, use assms in simp)
  then have "of_int 1 / 16 \<le> fsub 100 (fdiv (of_int l) 10) + of_int b"
    by (simp add: field_simps)
  then have "of_int 1 / 16 \<le> fadd (fsub 100 (fdiv (of_int l) 10)) (of_int b)"
    unfolding fadd_def by (rule le_rnd) (rule is_float_16, simp)
  then show ?thesis
    by simp
qed

lemma latency_score_nonpos:
  assumes "10 * (100 + b) \<le> l" "0 \<le> b" "b \<le> 50"
  shows "fadd (fsub 100 (fdiv (of_int l) 10)) (of_int b) \<le> 0"
proof -
  have "(of_int (10 * (100 + b)) :: rat) \<le> of_int l"
    using assms(1) by (simp only: of_int_le_iff)
  then have "of_int (100 + b) \<le> (of_int l / 10 :: rat)"
    by (simp add: field_simps)
  then have "of_int (100 + b) \<le> fdiv (of_int l) 10"
    unfolding fdiv_def by (rule le_rnd) (rule is_float_int, use assms in simp)
  then have "100 - fdiv (of_int l) 10 \<le> of_int (- b)"
    by simp
  then have "fsub 100 (fdiv (of_int l) 10) \<le> of_int (- b)"
    unfolding fsub_def by (rule rnd_le) (rule is_float_int, use assms in simp)
  then have "fsub 100 (fdiv (of_int l) 10) + of_int b \<le> of_int 0"
    by simp
  then have "fadd (fsub 100 (fdiv (of_int l) 10)) (of_int b) \<le> of_int 0"
    unfolding fadd_def by (rule rnd_le) (rule is_float_int, simp)
  then show ?thesis
    by simp
qed

lemma fresh_score_pos_iff:
  assumes p: "tp_Available p" "\<not> tp_Blocked p" "tp_Failures p = 0"
    and lat: "0 \<le> tp_Latency p" "tp_Latency p < 2 ^ 63"
  shows "0 < calculateScore p \<longleftrightarrow> Milliseconds (tp_Latency p) < score_limit (tp_Name p)"
proof -
  define l where "l = Milliseconds (tp_Latency p)"
  have l: "0 \<le> l" "l \<le> 2 ^ 53"
    using lat by (auto simp: l_def Milliseconds_def quot_def)
  obtain b where b: "dpiBonus (tp_Name p) = of_int b" "0 \<le> b" "b \<le> 50"
    "score_limit (tp_Name p) = 10 * (100 + b)"
    by (rule dpiBonus_int)
  have score: "calculateScore p =
      fadd (if 0 < l then fsub 100 (fdiv (of_int l) 10) else 100) (of_int b)"
    using l by (simp add: calculateScore_fresh [OF p] float_of_int_exact b flip: l_def)
  have none: "fadd 100 (of_int b) = 100 + of_int b"
    using rnd_exact [OF is_float_int [of "100 + b"]] b by (simp add: fadd_def)
  show ?thesis
    using score none l b latency_score_pos [of l b] latency_score_nonpos [of b l]
    by (cases "0 < l"; cases "l < 10 * (100 + b)") (auto simp flip: l_def)
qed

subsection \<open>The initial choice\<close>

abbreviation tested :: "(string \<Rightarrow> probe_env) \<Rightarrow> TransportProbe \<Rightarrow> TransportProbe" where
  "tested env t \<equiv> testTransport (env (tp_Name t)) (tp_Name t)"

definition selector_names :: "AutoSelector \<Rightarrow> string list" where
  "selector_names as = map tp_Name (as_transports as)"

lemma testAllTransports_simps [simp]:
  "as_currentBest (testAllTransports env as) = as_currentBest as"
  "as_history (testAllTransports env as) = as_history as"
  "as_onSwitch (testAllTransports env as) = as_onSwitch as"
  "as_failThreshold (testAllTransports env as) = as_failThreshold as"
  "selector_names (testAllTransports env as) = selector_names as"
  "as_transports (testAllTransports env as) = map (tested env) (as_transports as)"
  by (simp_all add: testAllTransports_def selector_names_def)

interpretation score_sort: slice_sort "greater_key tp_Score" "insertion_sort (greater_key tp_Score)"
  by (rule insertion_sort_sorts)

text \<open>
  InitialSelect fails exactly when no transport answered its test, and otherwise returns and
  installs a transport that answered and whose score no other answering transport exceeds, however
  the library orders equal scores.
\<close>

theorem initial_select_optimal:
  assumes "slice_sort (greater_key tp_Score) srt" and "'''' \<notin> set (selector_names as)"
    and "InitialSelect srt env as = (r, as')"
  shows "case r of
      Inl e \<Rightarrow> as_currentBest as' = '''' \<and> (\<forall>t \<in> set (as_transports as). \<not> tp_Available (tested env t))
    | Inr n \<Rightarrow> as_currentBest as' = n \<and>
        (\<exists>t \<in> set (as_transports as). n = tp_Name t \<and> tp_Available (tested env t) \<and>
           (\<forall>u \<in> set (as_transports as). tp_Available (tested env u) \<longrightarrow>
              tp_Score (tested env u) \<le> tp_Score (tested env t)))"
proof -
  let ?ts = "map (tested env) (as_transports as)"
  show ?thesis
  proof (cases "find usable (srt ?ts)")
    case None
    then show ?thesis
      using assms(3) slice_sort.find_srt_None [OF assms(1), of usable ?ts]
      by (auto simp: InitialSelect_def Let_def)
  next
    case (Some t)
    then have t: "t \<in> set ?ts \<and> usable t \<and> (\<forall>u \<in> set ?ts. usable u \<longrightarrow> \<not> greater_key tp_Score u t)"
      by (rule slice_sort.find_srt_Some [OF assms(1) greater_key_irrefl])
    then have "tp_Name t \<in> set (selector_names as)"
      by (auto simp: selector_names_def)
    then have "tp_Name t \<noteq> ''''"
      using assms(2) by metis
    then have "r = Inr (tp_Name t)" "as_currentBest as' = tp_Name t"
      using assms(3) Some by (auto simp: InitialSelect_def Let_def)
    then show ?thesis
      using t by (auto simp: greater_key_def not_less)
  qed
qed

definition quiet_net :: "string \<Rightarrow> probe_env" where
  "quiet_net n = \<lparr>pe_now = 0, pe_dialed = False, pe_elapsed = 0, pe_udp = Answered 0\<rparr>"

theorem initial_select_optimal_witness:
  "slice_sort (greater_key tp_Score) (insertion_sort (greater_key tp_Score)) \<and>
   as_currentBest (snd (InitialSelect (insertion_sort (greater_key tp_Score)) quiet_net
     (NewAutoSelector ''h:443'' 0 0 True))) = ''quic''"
proof -
  let ?as = "NewAutoSelector ''h:443'' 0 0 True"
  obtain r as' where run: "InitialSelect (insertion_sort (greater_key tp_Score)) quiet_net ?as = (r, as')"
    by (cases "InitialSelect (insertion_sort (greater_key tp_Score)) quiet_net ?as")
  have av: "tp_Available (testTransport (quiet_net n) n) \<longleftrightarrow> n = ''quic''" for n
    by (auto simp: testTransport_def testTCP_def testUDP_def quiet_net_def zero_probe_def Let_def)
  have "'''' \<notin> set (selector_names ?as)"
    by (simp add: selector_names_def NewAutoSelector_def zero_probe_def)
  from initial_select_optimal [OF insertion_sort_sorts this run] show ?thesis
    using insertion_sort_sorts [of tp_Score] run
    by (auto simp: av NewAutoSelector_def zero_probe_def split: sum.splits)
qed

subsection \<open>The periodic check\<close>

definition alternative :: "string \<Rightarrow> TransportProbe \<Rightarrow> bool" where
  "alternative exclude t \<longleftrightarrow> tp_Name t \<noteq> exclude \<and> usable t"

lemma best_alternative_spec:
  "(\<exists>t \<in> set ts. alternative x t \<and> s < tp_Score t \<and> best_alternative x ts b s = tp_Name t \<and>
      (\<forall>u \<in> set ts. alternative x u \<longrightarrow> tp_Score u \<le> tp_Score t)) \<or>
   best_alternative x ts b s = b \<and> (\<forall>u \<in> set ts. alternative x u \<longrightarrow> tp_Score u \<le> s)"
proof (induction ts arbitrary: b s)
  case (Cons t ts)
  show ?case
  proof (cases "alternative x t \<and> s < tp_Score t")
    case True
    then have "best_alternative x (t # ts) b s = best_alternative x ts (tp_Name t) (tp_Score t)"
      by (auto simp: alternative_def)
    then show ?thesis
      using Cons.IH [of "tp_Score t" "tp_Name t"] True by force
  next
    case False
    then have "best_alternative x (t # ts) b s = best_alternative x ts b s"
      by (auto simp: alternative_def)
    then show ?thesis
      using Cons.IH [of s b] False by force
  qed
qed simp

text \<open>The transports a check may move to: another one that answered, below its latency limit.\<close>

definition eligible :: "(string \<Rightarrow> probe_env) \<Rightarrow> AutoSelector \<Rightarrow> string \<Rightarrow> bool" where
  "eligible env as n \<longleftrightarrow> n \<in> set (selector_names as) \<and> n \<noteq> as_currentBest as \<and>
     tp_Available (testTransport (env n) n) \<and>
     Milliseconds (tp_Latency (testTransport (env n) n)) < score_limit n"

abbreviation net_score :: "(string \<Rightarrow> probe_env) \<Rightarrow> string \<Rightarrow> rat" where
  "net_score env n \<equiv> tp_Score (testTransport (env n) n)"

definition sane_net :: "(string \<Rightarrow> probe_env) \<Rightarrow> bool" where
  "sane_net env \<longleftrightarrow> (\<forall>n. let l = tp_Latency (testTransport (env n) n) in 0 \<le> l \<and> l < 2 ^ 63)"

lemma eligible_iff_score:
  assumes "sane_net env"
  shows "eligible env as n \<longleftrightarrow> (\<exists>t \<in> set (map (tested env) (as_transports as)).
           n = tp_Name t \<and> alternative (as_currentBest as) t \<and> 0 < tp_Score t)"
  using assms fresh_score_pos_iff [of "testTransport (env n) n"]
  by (auto simp: eligible_def alternative_def sane_net_def Let_def selector_names_def testTransport_Score)

lemma findAlternative_spec:
  assumes "sane_net env" and "findAlternative env (as_currentBest as) as = (n, as1)"
    and "'''' \<notin> set (selector_names as)"
  shows "as1 = testAllTransports env as"
    "if \<exists>m. eligible env as m
     then eligible env as n \<and> (\<forall>m. eligible env as m \<longrightarrow> net_score env m \<le> net_score env n)
     else n = ''''"
proof -
  let ?ts = "map (tested env) (as_transports as)"
  show "as1 = testAllTransports env as"
    using assms(2) by (simp add: findAlternative_def Let_def)
  have n: "n = best_alternative (as_currentBest as) ?ts '''' 0"
    using assms(2) by (simp add: findAlternative_def Let_def)
  have score: "t \<in> set ?ts \<Longrightarrow> tp_Score t = net_score env (tp_Name t)" for t
    by auto
  show "if \<exists>m. eligible env as m
     then eligible env as n \<and> (\<forall>m. eligible env as m \<longrightarrow> net_score env m \<le> net_score env n)
     else n = ''''"
    using best_alternative_spec [of ?ts "as_currentBest as" 0 "''''"]
    unfolding n [symmetric] eligible_iff_score [OF assms(1)]
    by (metis (no_types, lifting) score leD)
qed

lemma switchTransport_simps [simp]:
  "fst (switchTransport now a b r as) = as\<lparr>as_currentBest := b, as_history := as_history as @
     [\<lparr>ev_Timestamp = now, ev_FromTransport = a, ev_ToTransport = b, ev_Reason = r\<rparr>]\<rparr>"
  "snd (switchTransport now a b r as) = (if as_onSwitch as then [(a, b)] else [])"
  by (simp_all add: switchTransport_def)

text \<open>
  C21: A periodic check leaves the selector alone while the current transport answers. When it does
  not, the check moves to an eligible transport of maximal score, records the move and reports it
  once; with no eligible transport it stays where it is. Eligible transports answered within a
  latency limit between 1100 and 1500 milliseconds.
\<close>

theorem check_and_switch_exact:
  assumes "sane_net env" "'''' \<notin> set (selector_names as)" "0 < as_failThreshold as"
    and "as_currentBest as = c" "c \<noteq> ''''" "checkAndSwitch now env0 env as = (as', calls)"
  shows "if tp_Available (testTransport (env0 c) c) then as' = as \<and> calls = []
    else if \<exists>m. eligible env as m then
      \<exists>n. eligible env as n \<and> (\<forall>m. eligible env as m \<longrightarrow> net_score env m \<le> net_score env n) \<and>
        as_currentBest as' = n \<and> calls = (if as_onSwitch as then [(c, n)] else []) \<and>
        as_history as' = as_history as @ [\<lparr>ev_Timestamp = now, ev_FromTransport = c,
          ev_ToTransport = n, ev_Reason = ''degradation detected''\<rparr>]
    else as_currentBest as' = c \<and> as_history as' = as_history as \<and> calls = []"
proof (cases "tp_Available (testTransport (env0 c) c)")
  case True
  then show ?thesis
    using assms(3-6) by (simp add: checkAndSwitch_def Let_def)
next
  case False
  obtain n as1 where alt: "findAlternative env c as = (n, as1)"
    by (cases "findAlternative env c as")
  note spec = findAlternative_spec [OF assms(1) alt [folded assms(4)] assms(2)]
  have run: "(as', calls) = (if n \<noteq> '''' \<and> n \<noteq> c
      then switchTransport now c n ''degradation detected'' as1 else (as1, []))"
    using assms(4-6) False alt by (simp add: checkAndSwitch_def Let_def)
  show ?thesis
  proof (cases "\<exists>m. eligible env as m")
    case True
    then have n: "eligible env as n" "\<forall>m. eligible env as m \<longrightarrow> net_score env m \<le> net_score env n"
      using spec(2) by auto
    then have "n \<noteq> ''''" "n \<noteq> c"
      using assms(2,4) by (auto simp: eligible_def)
    then have "(as', calls) = switchTransport now c n ''degradation detected'' as1"
      using run by simp
    then show ?thesis
      using True n False by (auto simp: spec(1) switchTransport_def)
  next
    case none: False
    then have "n = ''''"
      using spec(2) by simp
    then show ?thesis
      using run none False by (simp add: spec(1) assms(4))
  qed
qed

definition dead_net :: "string \<Rightarrow> probe_env" where
  "dead_net n = \<lparr>pe_now = 0, pe_dialed = False, pe_elapsed = 0, pe_udp = ReadFailed 0\<rparr>"

theorem check_and_switch_exact_witness:
  "as_currentBest (fst (checkAndSwitch 7 dead_net quiet_net
     ((NewAutoSelector ''h:443'' 0 0 True)\<lparr>as_currentBest := ''wsmux''\<rparr>))) = ''quic''"
proof -
  let ?as = "(NewAutoSelector ''h:443'' 0 0 True)\<lparr>as_currentBest := ''wsmux''\<rparr>"
  obtain as' calls where run: "checkAndSwitch 7 dead_net quiet_net ?as = (as', calls)"
    by (cases "checkAndSwitch 7 dead_net quiet_net ?as")
  have names: "'''' \<notin> set (selector_names ?as)" "''quic'' \<in> set (selector_names ?as)"
    by (simp_all add: selector_names_def NewAutoSelector_def zero_probe_def)
  have net: "sane_net quiet_net"
    by (auto simp: sane_net_def testTransport_def testTCP_def testUDP_def quiet_net_def zero_probe_def Let_def)
  have av: "tp_Available (testTransport (quiet_net n) n) \<longleftrightarrow> n = ''quic''"
    "\<not> tp_Available (testTransport (dead_net n) n)"
    "tp_Latency (testTransport (quiet_net n) n) = 0" for n
    by (auto simp: testTransport_def testTCP_def testUDP_def quiet_net_def dead_net_def zero_probe_def Let_def)
  have el: "eligible quiet_net ?as = (\<lambda>n. n = ''quic'')"
    using names by (auto simp: fun_eq_iff eligible_def av Milliseconds_def quot_def score_limit_def dpiBonus_def)
  have "0 < as_failThreshold ?as" "as_currentBest ?as = ''wsmux''" "''wsmux'' \<noteq> ''''"
    by (simp_all add: NewAutoSelector_def)
  from check_and_switch_exact [OF net names(1) this run] show ?thesis
    unfolding el run by (simp add: av)
qed

subsection \<open>What is reported to the selector has no effect\<close>

datatype report = Failed | Succeeded | Blocked_report string

fun apply_report :: "report \<Rightarrow> AutoSelector \<Rightarrow> AutoSelector" where
  "apply_report Failed as = RecordFailure as"
| "apply_report Succeeded as = RecordSuccess as"
| "apply_report (Blocked_report n) as = MarkBlocked n as"

definition selector_view :: "AutoSelector \<Rightarrow> string list \<times> string \<times> SelectionEvent list \<times> bool \<times> int" where
  "selector_view as = (selector_names as, as_currentBest as, as_history as, as_onSwitch as, as_failThreshold as)"

lemma update_first_names:
  "(\<And>t. tp_Name (f t) = tp_Name t) \<Longrightarrow> map tp_Name (update_first n f ts) = map tp_Name ts"
  by (induction ts) auto

lemma report_view [simp]: "selector_view (apply_report r as) = selector_view as"
  by (cases r) (simp_all add: selector_view_def selector_names_def RecordFailure_def RecordSuccess_def
      MarkBlocked_def update_first_names)

lemma reports_view [simp]: "selector_view (fold apply_report rs as) = selector_view as"
  by (induction rs arbitrary: as) auto

lemma tested_by_names:
  "as_transports (testAllTransports env as) = map (\<lambda>n. testTransport (env n) n) (selector_names as)"
  by (simp add: selector_names_def)

lemma view_tested [simp]: "selector_view (testAllTransports env as) = selector_view as"
  by (simp add: selector_view_def)

lemma view_eqD:
  assumes "selector_view a = selector_view b"
  shows "as_currentBest a = as_currentBest b" "as_failThreshold a = as_failThreshold b"
    "as_transports (testAllTransports env a) = as_transports (testAllTransports env b)"
  using assms unfolding tested_by_names by (simp_all add: selector_view_def)

lemma switch_view:
  "selector_view a = selector_view b \<Longrightarrow>
     selector_view (fst (switchTransport now c n r a)) = selector_view (fst (switchTransport now c n r b)) \<and>
     snd (switchTransport now c n r a) = snd (switchTransport now c n r b)"
  by (simp add: switchTransport_def selector_view_def selector_names_def)

lemma checkAndSwitch_split:
  "checkAndSwitch now env0 env as =
     (let c = as_currentBest as; p = testTransport (env0 c) c; as1 = testAllTransports env as;
          n = best_alternative c (as_transports as1) '''' 0 in
      if c = '''' \<or> tp_Available p \<and> \<not> as_failThreshold as \<le> tp_Failures p then (as, [])
      else if n \<noteq> '''' \<and> n \<noteq> c then switchTransport now c n ''degradation detected'' as1 else (as1, []))"
  by (simp add: checkAndSwitch_def findAlternative_def Let_def)

lemma if_view:
  "selector_view a = selector_view b \<Longrightarrow>
   selector_view (fst u) = selector_view (fst v) \<and> snd u = snd v \<Longrightarrow>
   selector_view a1 = selector_view b1 \<Longrightarrow>
     selector_view (fst (if P then (a, xs) else if Q then u else (a1, ys))) =
       selector_view (fst (if P then (b, xs) else if Q then v else (b1, ys))) \<and>
     snd (if P then (a, xs) else if Q then u else (a1, ys)) = snd (if P then (b, xs) else if Q then v else (b1, ys))"
  by simp

lemma checkAndSwitch_view:
  assumes "selector_view a = selector_view b"
  shows "selector_view (fst (checkAndSwitch now env0 env a)) = selector_view (fst (checkAndSwitch now env0 env b)) \<and>
    snd (checkAndSwitch now env0 env a) = snd (checkAndSwitch now env0 env b)"
proof -
  have v: "selector_view (testAllTransports env a) = selector_view (testAllTransports env b)"
    using assms by simp
  show ?thesis
    unfolding checkAndSwitch_split Let_def view_eqD [OF assms]
    by (rule if_view [OF assms switch_view [OF v] v])
qed

text \<open>
  However many failures, successes and confirmed blocks are reported, the next check keeps or
  moves to the same transport, with the same history and the same callback, as if nothing had been
  reported, and a new initial selection gives the same transport: every test starts from a fresh
  probe, so failure counts never reach the threshold and a blocked transport can be chosen again.
\<close>

theorem selector_reports_ignored:
  assumes "checkAndSwitch now env0 env (fold apply_report rs as) = (a, calls)"
    and "checkAndSwitch now env0 env as = (b, calls')"
  shows "selector_view a = selector_view b \<and> calls = calls' \<and>
    fst (InitialSelect srt env (fold apply_report rs as)) = fst (InitialSelect srt env as)"
proof -
  have v: "selector_view (fold apply_report rs as) = selector_view as"
    by simp
  show ?thesis
    using checkAndSwitch_view [OF v, of now env0 env] assms view_eqD(3) [OF v]
    by (simp add: InitialSelect_def Let_def del: testAllTransports_simps(6))
qed

definition on_wsmux :: AutoSelector where
  "on_wsmux = (NewAutoSelector ''h:443'' 0 0 True)\<lparr>as_currentBest := ''wsmux''\<rparr>"

theorem selector_reports_ignored_witness:
  "selector_view (fst (checkAndSwitch 7 dead_net quiet_net
      (fold apply_report [Blocked_report ''quic'', Failed, Failed, Failed] on_wsmux))) =
   selector_view (fst (checkAndSwitch 7 dead_net quiet_net on_wsmux))"
  using selector_reports_ignored [OF prod.collapse [symmetric] prod.collapse [symmetric],
    of 7 dead_net quiet_net "[Blocked_report ''quic'', Failed, Failed, Failed]" on_wsmux]
  by simp

subsection \<open>The history\<close>

text \<open>
  A run of the monitor: the loop's checks, and reports from other goroutines between them. A check
  is one step: a report that arrives inside a check, after the tests, is not followed here.
\<close>

inductive selector_step :: "AutoSelector \<Rightarrow> AutoSelector \<Rightarrow> bool" where
  step_check: "\<not> as_stopped as \<Longrightarrow> selector_step as (fst (checkAndSwitch now env0 env as))"
| step_report: "selector_step as (apply_report r as)"
| step_stop: "StopSelector as = Inr as' \<Longrightarrow> selector_step as as'"

definition selector_started :: "string \<Rightarrow> AutoSelector \<Rightarrow> bool" where
  "selector_started n as \<longleftrightarrow> (\<exists>addr iv th cb srt env. slice_sort (greater_key tp_Score) srt \<and>
     InitialSelect srt env (NewAutoSelector addr iv th cb) = (Inr n, as))"

fun chained :: "string \<Rightarrow> SelectionEvent list \<Rightarrow> string \<Rightarrow> bool" where
  "chained a [] c = (a = c)"
| "chained a (e # es) c = (ev_FromTransport e = a \<and> ev_ToTransport e \<noteq> a \<and> chained (ev_ToTransport e) es c)"

lemma chained_snoc:
  "chained a (es @ [e]) c \<longleftrightarrow>
     chained a es (ev_FromTransport e) \<and> ev_ToTransport e \<noteq> ev_FromTransport e \<and> c = ev_ToTransport e"
  by (induction es arbitrary: a) auto

definition all_transports :: "string list" where
  "all_transports = [''reality'', ''shadowtls'', ''wsmux'', ''h2mux'', ''grpc'', ''tcpmux'', ''quic'']"

definition selector_inv :: "string \<Rightarrow> AutoSelector \<Rightarrow> bool" where
  "selector_inv n as \<longleftrightarrow> set (selector_names as) = set all_transports \<and> distinct (selector_names as) \<and>
     as_currentBest as \<in> set all_transports \<and> chained n (as_history as) (as_currentBest as)"

lemma selector_inv_view: "selector_view a = selector_view b \<Longrightarrow> selector_inv n a = selector_inv n b"
  by (auto simp: selector_inv_def selector_view_def)

lemma selector_inv_start:
  assumes "selector_started n as" shows "selector_inv n as"
proof -
  obtain addr iv th cb srt env where srt: "slice_sort (greater_key tp_Score) srt"
    and run: "InitialSelect srt env (NewAutoSelector addr iv th cb) = (Inr n, as)"
    using assms by (auto simp: selector_started_def)
  let ?new = "NewAutoSelector addr iv th cb"
  let ?ts = "map (tested env) (as_transports ?new)"
  have names: "map tp_Name ?ts = all_transports"
    by (simp add: NewAutoSelector_def zero_probe_def all_transports_def)
  have m: "mset (srt ?ts) = mset ?ts"
    by (rule slice_sort.srt_mset [OF srt])
  obtain t where t: "find usable (srt ?ts) = Some t" "n = tp_Name t"
    and as: "as = (testAllTransports env ?new)\<lparr>as_transports := srt ?ts, as_currentBest := n\<rparr>"
    using run by (cases "find usable (srt ?ts)") (auto simp: InitialSelect_def Let_def split: if_splits)
  have "t \<in> set ?ts"
    using slice_sort.find_srt_Some [OF srt greater_key_irrefl t(1)] by simp
  then have n: "n \<in> set (map tp_Name ?ts)"
    using t(2) by (simp only: set_map) (rule imageI)
  have "selector_names as = map tp_Name (srt ?ts)"
    by (simp add: as selector_names_def)
  then have "mset (selector_names as) = image_mset tp_Name (mset (srt ?ts))"
    by (simp only: mset_map)
  also have "\<dots> = mset (map tp_Name ?ts)"
    by (simp only: m mset_map)
  finally have ms: "mset (selector_names as) = mset all_transports"
    by (simp only: names)
  have "distinct all_transports"
    by (simp add: all_transports_def)
  then have "set (selector_names as) = set all_transports" "distinct (selector_names as)"
    using mset_eq_setD [OF ms] mset_eq_imp_distinct_iff [OF ms] by auto
  moreover have "as_history as = []" "as_currentBest as = n"
    by (simp_all add: as NewAutoSelector_def)
  ultimately show ?thesis
    using n unfolding names by (simp add: selector_inv_def)
qed

lemma best_alternative_name:
  "best_alternative c (map (tested env) ts) '''' 0 \<in> insert '''' (set (map tp_Name ts) - {c})"
  using best_alternative_spec [of "map (tested env) ts" c 0 "''''"] by (auto simp: alternative_def)

lemma selector_inv_check:
  assumes inv: "selector_inv n as" shows "selector_inv n (fst (checkAndSwitch now env0 env as))"
proof -
  define c where "c = as_currentBest as"
  define m where "m = best_alternative c (as_transports (testAllTransports env as)) '''' 0"
  have tested: "selector_inv n (testAllTransports env as)"
    using inv selector_inv_view [OF view_tested] by simp
  have "m \<in> set all_transports \<and> m \<noteq> c" if "m \<noteq> ''''"
    using that inv best_alternative_name [of c env "as_transports as"]
    by (auto simp: m_def selector_inv_def selector_names_def)
  then have "selector_inv n (fst (switchTransport now c m r (testAllTransports env as)))" if "m \<noteq> ''''" for r
    using that tested by (auto simp: selector_inv_def selector_names_def chained_snoc c_def)
  then show ?thesis
    using inv tested unfolding checkAndSwitch_split Let_def c_def [symmetric] m_def [symmetric]
    by (simp split: if_split)
qed

interpretation selector_run:
  inductive_invariant "selector_started n" selector_step "selector_inv n" for n
proof
  show "selector_inv n s'" if "selector_inv n s" "selector_step s s'" for s s'
    using that(2,1)
  proof (cases rule: selector_step.cases)
    case (step_report r)
    then show ?thesis
      using that(1) selector_inv_view [OF report_view] by simp
  next
    case step_stop
    then show ?thesis
      using that(1) by (auto simp: StopSelector_def selector_inv_def selector_names_def split: if_splits)
  qed (simp add: selector_inv_check)
qed (rule selector_inv_start)

text \<open>
  From a successful initial selection on, whatever checks, reports and stops follow, the current
  transport is one of the seven, each is still tested exactly once, and the recorded history is an
  unbroken chain of moves from the first choice to the current one, none of them to itself.
\<close>

theorem selector_history_chained:
  assumes "reachable (selector_started n) selector_step as"
  shows "as_currentBest as \<in> set all_transports \<and> set (selector_names as) = set all_transports \<and>
    distinct (selector_names as) \<and> chained n (as_history as) (as_currentBest as)"
  using selector_run.reachable_inv [OF assms] by (simp add: selector_inv_def)

lemma InitialSelect_quiet:
  "InitialSelect (insertion_sort (greater_key tp_Score)) quiet_net (NewAutoSelector ''h:443'' 0 0 True)
     = (Inr ''quic'', snd (InitialSelect (insertion_sort (greater_key tp_Score)) quiet_net
          (NewAutoSelector ''h:443'' 0 0 True)))"
proof -
  let ?ts = "map (tested quiet_net) (as_transports (NewAutoSelector ''h:443'' 0 0 True))"
  have av: "usable (testTransport (quiet_net n) n) \<longleftrightarrow> n = ''quic''" for n
    by (auto simp: testTransport_def testTCP_def testUDP_def quiet_net_def zero_probe_def Let_def)
  have "\<exists>t. find usable (insertion_sort (greater_key tp_Score) ?ts) = Some t"
    using score_sort.find_srt_None [of usable ?ts] av
    by (auto simp: NewAutoSelector_def zero_probe_def)
  then obtain t where t: "find usable (insertion_sort (greater_key tp_Score) ?ts) = Some t"
    by blast
  from score_sort.find_srt_Some [OF greater_key_irrefl t]
  obtain n where n: "t = testTransport (quiet_net n) n" "usable t"
    by auto
  then have "tp_Name t = ''quic''"
    using av [of n] by simp
  then show ?thesis
    using t by (simp add: InitialSelect_def Let_def)
qed

theorem selector_history_chained_witness:
  "as_currentBest (snd (InitialSelect (insertion_sort (greater_key tp_Score)) quiet_net
     (NewAutoSelector ''h:443'' 0 0 True))) \<in> set all_transports"
proof -
  have "selector_started ''quic'' (snd (InitialSelect (insertion_sort (greater_key tp_Score)) quiet_net
     (NewAutoSelector ''h:443'' 0 0 True)))"
    unfolding selector_started_def
    by (intro exI conjI) (rule insertion_sort_sorts, rule InitialSelect_quiet)
  from selector_history_chained [OF reach_init [of "selector_started ''quic''", OF this]] show ?thesis
    by simp
qed

end
