(* ===== verification/Cluster.thy ===== *)
theory Cluster
  imports Prelude Go_Arith Go_Float Go_Net State_Machine
begin

text \<open>
  internal/cluster/cluster.go: the nodes a server knows, their scores, the health checks and the
  synchronisation of state between servers. The node map holds pointers, and the local node is
  reached both through the map and through \<open>localNode\<close>, so nodes live in an explicit store: an
  address is a position in \<open>cl_heap\<close>. Iteration over a Go map has no order: a loop takes the list of
  keys it visits as an argument. A request body is what the JSON decoder makes of it, \<open>None\<close> for an
  error; log lines and response bodies are left out.
\<close>

record Node =
  nd_ID :: string
  nd_Address :: string
  nd_Region :: string
  nd_Weight :: int
  nd_Healthy :: bool
  nd_LastSeen :: time
  nd_Latency :: int
  nd_Load :: rat
  nd_Capacity :: int
  nd_ActiveConns :: int

record Cluster =
  cl_heap :: "Node list"
  cl_nodes :: "string \<rightharpoonup> nat"
  cl_localNode :: nat
  cl_totalRequests :: int
  cl_failovers :: int

record ClusterConfig =
  cc_LocalID :: string
  cc_LocalAddr :: string
  cc_Region :: string
  cc_Capacity :: int
  cc_PeerAddrs :: "string list"

definition peer_id :: "nat \<Rightarrow> string" where
  "peer_id i = ''peer-'' @ itoa i"

definition new_node :: "Node \<Rightarrow> Cluster \<Rightarrow> Cluster" where
  "new_node n c = c\<lparr>cl_nodes := (cl_nodes c)(nd_ID n \<mapsto> length (cl_heap c)), cl_heap := cl_heap c @ [n]\<rparr>"

definition peer_node :: "nat \<Rightarrow> string \<Rightarrow> Node" where
  "peer_node i addr = \<lparr>nd_ID = peer_id i, nd_Address = addr, nd_Region = '''', nd_Weight = 1,
     nd_Healthy = False, nd_LastSeen = 0, nd_Latency = 0, nd_Load = 0, nd_Capacity = 0, nd_ActiveConns = 0\<rparr>"

definition local_node :: "time \<Rightarrow> ClusterConfig \<Rightarrow> Node" where
  "local_node now cfg = \<lparr>nd_ID = cc_LocalID cfg, nd_Address = cc_LocalAddr cfg, nd_Region = cc_Region cfg,
     nd_Weight = 1, nd_Healthy = True, nd_LastSeen = now, nd_Latency = 0, nd_Load = 0,
     nd_Capacity = cc_Capacity cfg, nd_ActiveConns = 0\<rparr>"

definition NewCluster :: "time \<Rightarrow> ClusterConfig \<Rightarrow> Cluster" where
  "NewCluster now cfg =
     (let c = new_node (local_node now cfg)
                \<lparr>cl_heap = [], cl_nodes = Map.empty, cl_localNode = 0, cl_totalRequests = 0, cl_failovers = 0\<rparr> in
      fold (\<lambda>(i, addr). new_node (peer_node i addr)) (enumerate 0 (cc_PeerAddrs cfg)) c)"

subsection \<open>Choosing a node\<close>

definition calculateNodeScore :: "Node \<Rightarrow> string \<Rightarrow> rat" where
  "calculateNodeScore node clientRegion =
     (let score = fsub 100 (fmul (nd_Load node) 50);
          score = (if nd_Latency node > 0 then fsub score (fdiv (float_of_int (nd_Latency node)) 10) else score);
          score = (if nd_Capacity node > 0
            then let available = fdiv (float_of_int (wrap64 (nd_Capacity node - nd_ActiveConns node)))
                                      (float_of_int (nd_Capacity node)) in
                 fadd score (fmul available 20)
            else score);
          score = (if clientRegion \<noteq> '''' \<and> nd_Region node = clientRegion then fadd score 30 else score) in
      fmul score (float_of_int (nd_Weight node)))"

fun best_node :: "Cluster \<Rightarrow> string \<Rightarrow> nat list \<Rightarrow> (nat \<times> rat) option \<Rightarrow> (nat \<times> rat) option" where
  "best_node c region [] best = best"
| "best_node c region (a # as) best =
     (let node = cl_heap c ! a in
      if \<not> nd_Healthy node then best_node c region as best
      else
        let score = calculateNodeScore node region in
        case best of
          None \<Rightarrow> best_node c region as (Some (a, score))
        | Some (b, bestScore) \<Rightarrow>
            best_node c region as (if score > bestScore then Some (a, score) else Some (b, bestScore)))"

definition addresses :: "string list \<Rightarrow> Cluster \<Rightarrow> nat list" where
  "addresses keys c = map (\<lambda>k. the (cl_nodes c k)) keys"

definition GetBestNode :: "string list \<Rightarrow> string \<Rightarrow> Cluster \<Rightarrow> nat option \<times> Cluster" where
  "GetBestNode keys clientRegion c =
     (map_option fst (best_node c clientRegion (addresses keys c) None),
      c\<lparr>cl_totalRequests := wrap64 (cl_totalRequests c + 1)\<rparr>)"

subsection \<open>Reports\<close>

definition update_node :: "nat \<Rightarrow> (Node \<Rightarrow> Node) \<Rightarrow> Cluster \<Rightarrow> Cluster" where
  "update_node a f c = c\<lparr>cl_heap := (cl_heap c)[a := f (cl_heap c ! a)]\<rparr>"

definition ReportNodeDown :: "string \<Rightarrow> Cluster \<Rightarrow> Cluster" where
  "ReportNodeDown nodeID c =
     (let c = (case cl_nodes c nodeID of None \<Rightarrow> c | Some a \<Rightarrow> update_node a (\<lambda>n. n\<lparr>nd_Healthy := False\<rparr>) c) in
      c\<lparr>cl_failovers := wrap64 (cl_failovers c + 1)\<rparr>)"

definition ReportNodeUp :: "time \<Rightarrow> string \<Rightarrow> Cluster \<Rightarrow> Cluster" where
  "ReportNodeUp now nodeID c =
     (case cl_nodes c nodeID of None \<Rightarrow> c
      | Some a \<Rightarrow> update_node a (\<lambda>n. n\<lparr>nd_Healthy := True, nd_LastSeen := now\<rparr>) c)"

definition UpdateLocalLoad :: "time \<Rightarrow> int \<Rightarrow> rat \<Rightarrow> Cluster \<Rightarrow> Cluster" where
  "UpdateLocalLoad now activeConns load =
     (\<lambda>c. update_node (cl_localNode c)
        (\<lambda>n. n\<lparr>nd_ActiveConns := activeConns, nd_Load := load, nd_LastSeen := now\<rparr>) c)"

subsection \<open>Health checks\<close>

text \<open>The status of the response, or nothing when the request failed.\<close>

definition pingNode :: "int option \<Rightarrow> bool" where
  "pingNode response = (case response of None \<Rightarrow> False | Some status \<Rightarrow> status = 200)"

text \<open>
  A check takes the pointers of all nodes whose ID is not the local one, then updates each from its
  own goroutine when the ping returns: \<open>peers_to_check\<close> is the snapshot, \<open>ping_done\<close> one update.
\<close>

definition peers_to_check :: "string list \<Rightarrow> Cluster \<Rightarrow> nat list" where
  "peers_to_check keys c =
     filter (\<lambda>a. nd_ID (cl_heap c ! a) \<noteq> nd_ID (cl_heap c ! cl_localNode c)) (addresses keys c)"

definition ping_done :: "time \<Rightarrow> int option \<Rightarrow> int \<Rightarrow> nat \<Rightarrow> Cluster \<Rightarrow> Cluster" where
  "ping_done now response latency a =
     update_node a (\<lambda>n.
       let n = n\<lparr>nd_Healthy := pingNode response\<rparr> in
       if pingNode response then n\<lparr>nd_Latency := latency, nd_LastSeen := now\<rparr> else n)"

subsection \<open>Synchronisation\<close>

definition syncState :: "string list \<Rightarrow> Cluster \<Rightarrow> Node \<times> string list" where
  "syncState keys c =
     (cl_heap c ! cl_localNode c,
      map (\<lambda>a. nd_Address (cl_heap c ! a)) (filter (\<lambda>a. nd_Healthy (cl_heap c ! a)) (peers_to_check keys c)))"

definition handleSync :: "time \<Rightarrow> string \<Rightarrow> Node option \<Rightarrow> Cluster \<Rightarrow> int \<times> Cluster" where
  "handleSync now meth body c =
     (if meth \<noteq> ''POST'' then (405, c)
      else case body of
        None \<Rightarrow> (400, c)
      | Some node \<Rightarrow>
          (case cl_nodes c (nd_ID node) of
             Some a \<Rightarrow> (200, update_node a (\<lambda>e. e\<lparr>nd_Load := nd_Load node,
                 nd_ActiveConns := nd_ActiveConns node, nd_LastSeen := now, nd_Healthy := True\<rparr>) c)
           | None \<Rightarrow> (200, new_node (node\<lparr>nd_Healthy := True, nd_LastSeen := now\<rparr>) c)))"

subsection \<open>Scores\<close>

lemma op_mono:
  "x \<le> x' \<Longrightarrow> y \<le> y' \<Longrightarrow> fadd x y \<le> fadd x' y'"
  "x \<le> x' \<Longrightarrow> y' \<le> y \<Longrightarrow> fsub x y \<le> fsub x' y'"
  "x \<le> x' \<Longrightarrow> 0 \<le> k \<Longrightarrow> fmul x k \<le> fmul x' k"
  "x \<le> x' \<Longrightarrow> 0 \<le> k \<Longrightarrow> fdiv x k \<le> fdiv x' k"
  by (auto simp: fadd_def fsub_def fmul_def fdiv_def intro!: rnd_mono add_mono diff_mono
      mult_right_mono divide_right_mono)

lemma float_of_int_mono: "i \<le> j \<Longrightarrow> float_of_int i \<le> float_of_int j"
  by (simp add: float_of_int_def rnd_mono)

lemma float_of_int_nonneg: "0 \<le> i \<Longrightarrow> 0 \<le> float_of_int i"
  using float_of_int_mono [of 0 i] by (simp add: float_of_int_exact)

text \<open>No overflow when the connections in use are subtracted from the capacity.\<close>

definition node_sane :: "Node \<Rightarrow> bool" where
  "node_sane n \<longleftrightarrow> 0 \<le> nd_ActiveConns n \<and> nd_ActiveConns n < 2 ^ 63 \<and> 0 \<le> nd_Capacity n \<and> nd_Capacity n < 2 ^ 63"

lemma node_sane_wrap:
  "node_sane n \<Longrightarrow> wrap64 (nd_Capacity n - nd_ActiveConns n) = nd_Capacity n - nd_ActiveConns n"
  by (auto simp: node_sane_def intro!: wrap64_id)

lemma fsub_le: "is_float s \<Longrightarrow> 0 \<le> x \<Longrightarrow> fsub s x \<le> s"
  unfolding fsub_def by (rule rnd_le) simp_all

lemma le_fadd: "is_float s \<Longrightarrow> 0 \<le> x \<Longrightarrow> s \<le> fadd s x"
  unfolding fadd_def by (rule le_rnd) simp_all

lemma fdiv_nonneg: "0 \<le> x \<Longrightarrow> 0 \<le> k \<Longrightarrow> 0 \<le> fdiv x k"
  using op_mono(4) [of 0 x k] by (simp add: fdiv_def fround_def)

lemma latency_term_mono:
  assumes "s \<le> s'" "l' \<le> l" "is_float s"
  shows "(if 0 < l then fsub s (fdiv (float_of_int l) 10) else s) \<le>
         (if 0 < l' then fsub s' (fdiv (float_of_int l') 10) else s')"
proof (cases "0 < l'")
  case True
  then show ?thesis
    using assms by (auto intro!: op_mono float_of_int_mono)
next
  case False
  have "0 < l \<Longrightarrow> fsub s (fdiv (float_of_int l) 10) \<le> s"
    using assms(3) by (intro fsub_le fdiv_nonneg float_of_int_nonneg) auto
  then show ?thesis
    using False assms(1) by auto
qed

lemma capacity_term_mono:
  assumes "s \<le> s'" "u' \<le> u"
  shows "(if 0 < k then fadd s (fmul (fdiv (float_of_int (k - u)) (float_of_int k)) 20) else s) \<le>
         (if 0 < k then fadd s' (fmul (fdiv (float_of_int (k - u')) (float_of_int k)) 20) else s')"
  using assms by (auto intro!: op_mono float_of_int_mono float_of_int_nonneg)

lemma region_term_mono:
  assumes "s \<le> s'" "is_float s'" "b \<Longrightarrow> b'"
  shows "(if b then fadd s 30 else s) \<le> (if b' then fadd s' 30 else s')"
proof (cases b)
  case True
  then show ?thesis
    using assms by (auto intro!: op_mono)
next
  case False
  have "s' \<le> fadd s' 30"
    using assms(2) by (rule le_fadd) simp
  then show ?thesis
    using False assms(1) by auto
qed

lemma is_float_if: "is_float x \<Longrightarrow> is_float y \<Longrightarrow> is_float (if b then x else y)"
  by simp

text \<open>
  Of two nodes with the same capacity and the same non-negative weight, one with no more load,
  no more latency, no more connections and no worse a region never scores less, in spite of the
  roundings of float64.
\<close>

theorem cluster_score_monotone:
  assumes "node_sane n" "node_sane m"
    and "nd_Capacity n = nd_Capacity m" "nd_Weight n = nd_Weight m" "0 \<le> nd_Weight n"
    and "nd_Load m \<le> nd_Load n" "nd_Latency m \<le> nd_Latency n" "nd_ActiveConns m \<le> nd_ActiveConns n"
    and "nd_Region n = r \<Longrightarrow> nd_Region m = r"
  shows "calculateNodeScore n r \<le> calculateNodeScore m r"
proof -
  have w: "wrap64 (nd_Capacity m - nd_ActiveConns n) = nd_Capacity m - nd_ActiveConns n"
    using node_sane_wrap [OF assms(1)] by (simp only: assms(3))
  have load: "fsub 100 (fmul (nd_Load n) 50) \<le> fsub 100 (fmul (nd_Load m) 50)"
    using assms(6) by (intro op_mono) simp_all
  show ?thesis
    unfolding calculateNodeScore_def Let_def assms(3,4) w node_sane_wrap [OF assms(2)]
    by (intro op_mono(3) region_term_mono capacity_term_mono latency_term_mono load is_float_if
        is_float_ops float_of_int_nonneg assms(7,8)) (use assms(4,5,9) in auto)
qed

definition node_at :: "string \<Rightarrow> string \<Rightarrow> Node" where
  "node_at nid region = (peer_node 0 ''10.0.0.2:9000'')\<lparr>nd_ID := nid, nd_Region := region, nd_Healthy := True\<rparr>"

theorem cluster_score_monotone_witness:
  "calculateNodeScore (node_at ''a'' ''eu'') ''us'' \<le> calculateNodeScore (node_at ''b'' ''us'') ''us''"
  by (rule cluster_score_monotone) (simp_all add: node_at_def peer_node_def node_sane_def)

subsection \<open>Runs of the cluster\<close>

text \<open>
  The goroutines of a server: requests, reports, the health-check ticker, and the pings it has
  started, which keep the pointers of their snapshot while the map goes on changing.
\<close>

definition visits :: "string list \<Rightarrow> Cluster \<Rightarrow> bool" where
  "visits keys c \<longleftrightarrow> distinct keys \<and> set keys = dom (cl_nodes c)"

inductive cluster_step :: "Cluster \<times> nat list \<Rightarrow> Cluster \<times> nat list \<Rightarrow> bool" where
  step_get: "visits keys c \<Longrightarrow> cluster_step (c, ps) (snd (GetBestNode keys r c), ps)"
| step_down: "cluster_step (c, ps) (ReportNodeDown k c, ps)"
| step_up: "cluster_step (c, ps) (ReportNodeUp now k c, ps)"
| step_load: "cluster_step (c, ps) (UpdateLocalLoad now u l c, ps)"
| step_tick: "visits keys c \<Longrightarrow> cluster_step (c, ps) (c, peers_to_check keys c @ ps)"
| step_ping: "cluster_step (c, ps @ a # qs) (ping_done now resp lat a c, ps @ qs)"
| step_sync: "cluster_step (c, ps) (snd (handleSync now meth body c), ps)"

definition cluster_init :: "ClusterConfig \<Rightarrow> Cluster \<times> nat list \<Rightarrow> bool" where
  "cluster_init cfg s \<longleftrightarrow> (\<exists>now. s = (NewCluster now cfg, []))"

definition cluster_ok :: "Cluster \<Rightarrow> bool" where
  "cluster_ok c \<longleftrightarrow> (\<forall>k a. cl_nodes c k = Some a \<longrightarrow> a < length (cl_heap c) \<and> nd_ID (cl_heap c ! a) = k) \<and>
     cl_localNode c < length (cl_heap c)"

definition local_id :: "Cluster \<Rightarrow> string" where
  "local_id c = nd_ID (cl_heap c ! cl_localNode c)"

definition cluster_inv :: "ClusterConfig \<Rightarrow> Cluster \<times> nat list \<Rightarrow> bool" where
  "cluster_inv cfg = (\<lambda>(c, ps). cluster_ok c \<and> local_id c = cc_LocalID cfg \<and>
     insert (cc_LocalID cfg) (peer_id ` {..< length (cc_PeerAddrs cfg)}) \<subseteq> dom (cl_nodes c) \<and>
     (\<forall>a \<in> set ps. a < length (cl_heap c) \<and> nd_ID (cl_heap c ! a) \<noteq> cc_LocalID cfg))"

lemma update_node_simps [simp]:
  "cl_nodes (update_node a f c) = cl_nodes c"
  "cl_localNode (update_node a f c) = cl_localNode c"
  "length (cl_heap (update_node a f c)) = length (cl_heap c)"
  by (simp_all add: update_node_def)

lemma update_node_nth:
  "b < length (cl_heap c) \<Longrightarrow> cl_heap (update_node a f c) ! b = (if a = b then f (cl_heap c ! b) else cl_heap c ! b)"
  by (simp add: update_node_def)

lemma update_node_inv:
  assumes "cluster_inv cfg (c, ps)" "\<And>n. nd_ID (f n) = nd_ID n"
  shows "cluster_inv cfg (update_node a f c, ps)"
  using assms by (auto simp: cluster_inv_def cluster_ok_def local_id_def update_node_nth)

lemma new_node_simps [simp]:
  "cl_nodes (new_node n c) = (cl_nodes c)(nd_ID n \<mapsto> length (cl_heap c))"
  "cl_localNode (new_node n c) = cl_localNode c"
  "cl_heap (new_node n c) = cl_heap c @ [n]"
  by (simp_all add: new_node_def)

lemma new_node_ok: "cluster_ok c \<Longrightarrow> cluster_ok (new_node n c) \<and> local_id (new_node n c) = local_id c"
  by (auto simp: cluster_ok_def local_id_def nth_append less_Suc_eq)

lemma new_node_inv:
  assumes "cluster_inv cfg (c, ps)" shows "cluster_inv cfg (new_node n c, ps)"
  using assms new_node_ok [of c n] by (auto simp: cluster_inv_def nth_append)

definition add_peer :: "nat \<times> string \<Rightarrow> Cluster \<Rightarrow> Cluster" where
  "add_peer = (\<lambda>(i, addr). new_node (peer_node i addr))"

lemma add_peer_ok:
  assumes "cluster_ok c"
  shows "cluster_ok (add_peer x c)" "local_id (add_peer x c) = local_id c"
    "dom (cl_nodes (add_peer x c)) = insert (peer_id (fst x)) (dom (cl_nodes c))"
  using new_node_ok [OF assms] by (simp_all add: add_peer_def peer_node_def split: prod.splits)

lemma add_peers_ok:
  "cluster_ok c \<Longrightarrow> cluster_ok (fold add_peer xs c) \<and> local_id (fold add_peer xs c) = local_id c \<and>
     dom (cl_nodes (fold add_peer xs c)) = peer_id ` fst ` set xs \<union> dom (cl_nodes c)"
  by (induction xs arbitrary: c) (simp_all add: add_peer_ok)

lemma cluster_inv_init: "cluster_inv cfg (NewCluster now cfg, [])"
proof -
  let ?c = "new_node (local_node now cfg)
    \<lparr>cl_heap = [], cl_nodes = Map.empty, cl_localNode = 0, cl_totalRequests = 0, cl_failovers = 0\<rparr>"
  have "cluster_ok ?c" "local_id ?c = cc_LocalID cfg" "dom (cl_nodes ?c) = {cc_LocalID cfg}"
    by (auto simp: cluster_ok_def local_id_def local_node_def)
  moreover have "fst ` set (enumerate 0 (cc_PeerAddrs cfg)) = {..< length (cc_PeerAddrs cfg)}"
    by (simp flip: set_map add: atLeast_upt)
  ultimately show ?thesis
    using add_peers_ok [of ?c "enumerate 0 (cc_PeerAddrs cfg)"]
    by (simp add: NewCluster_def Let_def cluster_inv_def subset_insertI flip: add_peer_def)
qed

lemma addresses_ok:
  assumes "cluster_ok c" "visits keys c"
  shows "set (addresses keys c) = ran (cl_nodes c) \<and> (\<forall>a \<in> set (addresses keys c). a < length (cl_heap c))"
proof -
  have "set (addresses keys c) = (\<lambda>k. the (cl_nodes c k)) ` dom (cl_nodes c)"
    using assms(2) by (simp add: visits_def addresses_def)
  also have "\<dots> = ran (cl_nodes c)"
    by (force simp: ran_def)
  finally show ?thesis
    using assms(1) by (auto simp: cluster_ok_def ran_def)
qed

lemma tick_inv:
  "cluster_inv cfg (c, ps) \<Longrightarrow> visits keys c \<Longrightarrow> cluster_inv cfg (c, peers_to_check keys c @ ps)"
  using addresses_ok [of c keys] by (auto simp: cluster_inv_def peers_to_check_def local_id_def)

lemma handleSync_inv: "cluster_inv cfg (c, ps) \<Longrightarrow> cluster_inv cfg (snd (handleSync now meth body c), ps)"
  by (simp add: handleSync_def update_node_inv new_node_inv split: option.split)

lemma counters_inv [simp]:
  "cluster_inv cfg (c\<lparr>cl_totalRequests := i\<rparr>, ps) = cluster_inv cfg (c, ps)"
  "cluster_inv cfg (c\<lparr>cl_failovers := i\<rparr>, ps) = cluster_inv cfg (c, ps)"
  by (simp_all add: cluster_inv_def cluster_ok_def local_id_def)

lemma reports_inv:
  assumes "cluster_inv cfg (c, ps)"
  shows "cluster_inv cfg (snd (GetBestNode keys r c), ps)" "cluster_inv cfg (ReportNodeDown k c, ps)"
    "cluster_inv cfg (ReportNodeUp now k c, ps)" "cluster_inv cfg (UpdateLocalLoad now u l c, ps)"
    "cluster_inv cfg (ping_done now resp lat a c, ps)"
  using assms
  by (simp_all add: GetBestNode_def ReportNodeDown_def ReportNodeUp_def UpdateLocalLoad_def ping_done_def
      update_node_inv Let_def split: option.split)

lemma cluster_step_inv: "cluster_step s s' \<Longrightarrow> cluster_inv cfg s \<Longrightarrow> cluster_inv cfg s'"
proof (induction rule: cluster_step.induct)
  case (step_ping c ps a qs now resp lat)
  then have "cluster_inv cfg (c, ps @ qs)"
    by (simp add: cluster_inv_def)
  then show ?case
    by (rule reports_inv)
qed (simp_all only: reports_inv tick_inv handleSync_inv)

interpretation cluster_run: inductive_invariant "cluster_init cfg" cluster_step "cluster_inv cfg" for cfg
  by unfold_locales (auto simp: cluster_init_def cluster_inv_init intro: cluster_step_inv)

subsection \<open>The chosen node\<close>

abbreviation healthy_at :: "Cluster \<Rightarrow> nat \<Rightarrow> bool" where
  "healthy_at c a \<equiv> nd_Healthy (cl_heap c ! a)"

abbreviation score_at :: "Cluster \<Rightarrow> string \<Rightarrow> nat \<Rightarrow> rat" where
  "score_at c r a \<equiv> calculateNodeScore (cl_heap c ! a) r"

lemma best_node_Some:
  "\<exists>b t. best_node c r as (Some (a, s)) = Some (b, t) \<and> s \<le> t \<and>
     ((b, t) = (a, s) \<or> b \<in> set as \<and> healthy_at c b \<and> t = score_at c r b) \<and>
     (\<forall>x \<in> set as. healthy_at c x \<longrightarrow> score_at c r x \<le> t)"
proof (induction as arbitrary: a s)
  case (Cons x as)
  show ?case
  proof (cases "healthy_at c x \<and> s < score_at c r x")
    case True
    then show ?thesis
      using Cons.IH [of x "score_at c r x"] by (auto simp: Let_def)
  next
    case False
    then show ?thesis
      using Cons.IH [of a s] by (auto simp: Let_def not_less)
  qed
qed auto

lemma best_node_None:
  "case best_node c r as None of
     None \<Rightarrow> \<forall>x \<in> set as. \<not> healthy_at c x
   | Some (b, t) \<Rightarrow> b \<in> set as \<and> healthy_at c b \<and> (\<forall>x \<in> set as. healthy_at c x \<longrightarrow> score_at c r x \<le> score_at c r b)"
proof (induction as)
  case (Cons x as)
  show ?case
  proof (cases "healthy_at c x")
    case True
    obtain b t where b: "best_node c r as (Some (x, score_at c r x)) = Some (b, t)" "score_at c r x \<le> t"
      "(b, t) = (x, score_at c r x) \<or> b \<in> set as \<and> healthy_at c b \<and> t = score_at c r b"
      "\<forall>y \<in> set as. healthy_at c y \<longrightarrow> score_at c r y \<le> t"
      using best_node_Some [of c r as x "score_at c r x"] by blast
    then have "t = score_at c r b" "b = x \<or> b \<in> set as" "healthy_at c b"
      using True by auto
    then show ?thesis
      using True b by (simp add: Let_def)
  next
    case False
    then show ?thesis
      using Cons.IH by (auto simp: Let_def split: option.splits)
  qed
qed simp


definition single_cfg :: ClusterConfig where
  "single_cfg = \<lparr>cc_LocalID = ''a'', cc_LocalAddr = ''10.0.0.1:443'', cc_Region = ''eu'', cc_Capacity = 100,
     cc_PeerAddrs = []\<rparr>"


subsection \<open>A peer that announces itself is a second node\<close>

text \<open>
  A peer configured by address is stored under \<open>peer-i\<close>; when it pushes its state under its own ID it
  becomes a second node with the same address, and reporting either of them leaves the other one.
\<close>

lemma synced_peer_is_second_node:
  assumes ok: "cluster_ok c" and a: "cl_nodes c k = Some a" "healthy_at c a"
    and n: "nd_ID n \<notin> dom (cl_nodes c)" "nd_Address n = nd_Address (cl_heap c ! a)"
    and sync: "handleSync now ''POST'' (Some n) c = (200, c1)"
  shows "\<exists>b. b \<noteq> a \<and> cl_nodes c1 (nd_ID n) = Some b \<and> nd_Address (cl_heap c1 ! b) = nd_Address (cl_heap c1 ! a) \<and>
    healthy_at (ReportNodeDown (nd_ID n) c1) a"
proof -
  have c1: "c1 = new_node (n\<lparr>nd_Healthy := True, nd_LastSeen := now\<rparr>) c"
    using sync n(1) by (simp add: handleSync_def domIff)
  have "a < length (cl_heap c)"
    using ok a(1) by (simp add: cluster_ok_def)
  then show ?thesis
    using a n by (auto simp: c1 nth_append ReportNodeDown_def update_node_def Let_def)
qed

end
