(* ===== verification/Go_Path.thy ===== *)
theory Go_Path
  imports Go_Strings
begin

text \<open>
  Go's \<open>path/filepath\<close> on Unix, as far as the sources use it: Clean, Join, Base and Match with
  stars. Clean is written from its documentation, which it follows component by component.
\<close>

definition slash :: char where "slash = CHR ''/''"

fun join_slash :: "string list \<Rightarrow> string" where
  "join_slash [] = ''''"
| "join_slash [c] = c"
| "join_slash (c # cs) = c @ slash # join_slash cs"

subsection \<open>Clean and Join\<close>

text \<open>The components kept so far are in \<open>out\<close>, the last one first.\<close>

fun clean_loop :: "bool \<Rightarrow> string list \<Rightarrow> string list \<Rightarrow> string list" where
  "clean_loop rooted out [] = rev out"
| "clean_loop rooted out (c # cs) =
     (if c = '''' \<or> c = ''.'' then clean_loop rooted out cs
      else if c = ''..'' then
        (case out of
           [] \<Rightarrow> clean_loop rooted (if rooted then [] else [c]) cs
         | l # out' \<Rightarrow> clean_loop rooted (if l = ''..'' then c # out else out') cs)
      else clean_loop rooted (c # out) cs)"

definition is_rooted :: "string \<Rightarrow> bool" where
  "is_rooted p \<longleftrightarrow> p \<noteq> '''' \<and> hd p = slash"

definition Clean :: "string \<Rightarrow> string" where
  "Clean p =
     (let cs = clean_loop (is_rooted p) [] (split_on slash p);
          s = (if is_rooted p then [slash] else '''') @ join_slash cs in
      if s = '''' then ''.'' else s)"

definition Join :: "string \<Rightarrow> string \<Rightarrow> string" where
  "Join a b = (if a \<noteq> '''' then Clean (a @ slash # b) else if b \<noteq> '''' then Clean b else '''')"

subsection \<open>Match, for patterns of literals and stars\<close>

definition star :: char where "star = CHR ''*''"

fun glob_match :: "string \<Rightarrow> string \<Rightarrow> bool" where
  "glob_match [] s = (s = [])"
| "glob_match (c # p) [] = (c = star \<and> glob_match p [])"
| "glob_match (c # p) (x # xs) =
     (if c = star then glob_match p (x # xs) \<or> x \<noteq> slash \<and> glob_match (c # p) xs
      else x = c \<and> glob_match p xs)"

lemma glob_match_literal: "star \<notin> set p \<Longrightarrow> glob_match p s \<longleftrightarrow> s = p"
  by (induction p s rule: glob_match.induct) auto

lemma has_suffix_Cons: "has_suffix (x # xs) p \<longleftrightarrow> p = x # xs \<or> has_suffix xs p"
  by (auto simp: has_suffix_def Suc_diff_le le_Suc_eq)

lemma glob_match_star:
  "star \<notin> set p \<Longrightarrow> slash \<notin> set s \<Longrightarrow> glob_match (star # p) s \<longleftrightarrow> has_suffix s p"
  by (induction s) (auto simp: glob_match_literal has_suffix_Cons, auto simp: has_suffix_def)

subsection \<open>Paths as component lists\<close>

definition good_comp :: "string \<Rightarrow> bool" where
  "good_comp c \<longleftrightarrow> c \<notin> {'''', ''.'', ''..''} \<and> slash \<notin> set c"

definition abs_path :: "string list \<Rightarrow> string" where
  "abs_path cs = slash # join_slash cs"

lemma split_on_sep: "split_on c (p @ c # s) = split_on c p @ split_on c s"
  by (induction p) (auto split: list.splits)

lemma split_join: "cs \<noteq> [] \<Longrightarrow> (\<forall>x \<in> set cs. slash \<notin> set x) \<Longrightarrow> split_on slash (join_slash cs) = cs"
  by (induction cs rule: join_slash.induct) (auto simp: split_on_free split_on_append)

lemma split_no_sep: "x \<in> set (split_on c s) \<Longrightarrow> c \<notin> set x"
  by (induction s arbitrary: x) (auto split: if_splits list.splits)

lemma clean_loop_append:
  "clean_loop r out (xs @ ys) = clean_loop r (rev (clean_loop r out xs)) ys"
  by (induction r out xs rule: clean_loop.induct) (auto split: list.splits)

lemma clean_loop_good: "list_all good_comp cs \<Longrightarrow> clean_loop r out cs = rev out @ cs"
  by (induction cs arbitrary: out) (auto simp: good_comp_def)

lemma clean_loop_up:
  "list_all good_comp out \<Longrightarrow> clean_loop True (rev out) (replicate k ''..'' @ cs) =
     clean_loop True (rev (take (length out - k) out)) cs"
proof (induction k arbitrary: out)
  case (Suc k)
  show ?case
  proof (cases out rule: rev_cases)
    case Nil
    then show ?thesis
      using Suc.IH [of "[]"] by simp
  next
    case (snoc o' l)
    then have "l \<noteq> ''..''"
      using Suc.prems by (auto simp: good_comp_def)
    then show ?thesis
      using Suc.IH [of o'] Suc.prems snoc by simp
  qed
qed simp

text \<open>What is left after cleaning: some climbs, none of them under a root, and then proper names.\<close>

lemma clean_loop_normal:
  assumes "\<forall>x \<in> set cs. slash \<notin> set x" "out = rev (replicate k ''..'' @ gs)" "list_all good_comp gs" "r \<longrightarrow> k = 0"
  shows "\<exists>k' gs'. clean_loop r out cs = replicate k' ''..'' @ gs' \<and> list_all good_comp gs' \<and> (r \<longrightarrow> k' = 0)"
  using assms
proof (induction cs arbitrary: out k gs)
  case Nil
  then show ?case by auto
next
  case (Cons c cs)
  consider "c = '''' \<or> c = ''.''" | "c = ''..''" "gs = []" | g gs' where "c = ''..''" "gs = gs' @ [g]" | "good_comp c"
    using Cons.prems(1) by (cases gs rule: rev_cases) (auto simp: good_comp_def)
  then show ?case
  proof cases
    case 1
    then show ?thesis
      using Cons.IH [OF _ Cons.prems(2-4)] Cons.prems(1) by auto
  next
    case 2
    then have "clean_loop r out (c # cs) = clean_loop r (rev (replicate (if r then 0 else Suc k) ''..'' @ [])) cs"
      using Cons.prems(2,4) by (cases k) (auto simp: replicate_append_same)
    then show ?thesis
      using Cons.IH [OF _ refl, where k = "if r then 0 else Suc k" and gs = "[]"] Cons.prems(1) by simp
  next
    case 3
    then have "clean_loop r out (c # cs) = clean_loop r (rev (replicate k ''..'' @ gs')) cs"
      using Cons.prems(2,3) by (auto simp: good_comp_def)
    then show ?thesis
      using Cons.IH [OF _ refl, where k = k and gs = gs'] Cons.prems 3 by simp
  next
    case 4
    then have "clean_loop r out (c # cs) = clean_loop r (rev (replicate k ''..'' @ (gs @ [c]))) cs"
      using Cons.prems(2) by (auto simp: good_comp_def)
    then show ?thesis
      using Cons.IH [OF _ refl, where k = k and gs = "gs @ [c]"] Cons.prems 4 by simp
  qed
qed

lemma abs_path_rooted [simp]: "is_rooted (abs_path cs)"
  by (simp add: is_rooted_def abs_path_def)

lemma good_no_slash: "list_all good_comp cs \<Longrightarrow> \<forall>x \<in> set cs. slash \<notin> set x"
  by (auto simp: list_all_iff good_comp_def)

lemma split_abs: "list_all good_comp cs \<Longrightarrow> cs \<noteq> [] \<Longrightarrow> split_on slash (abs_path cs) = [] # cs"
  using split_join [OF _ good_no_slash] split_on_append [of slash "[]"] by (simp add: abs_path_def)

text \<open>The components a cleaned path splits into; the empty and the dot ones are dropped again.\<close>

lemma split_Clean:
  "\<exists>k gs. list_all good_comp gs \<and>
     (\<forall>out. clean_loop True out (split_on slash (Clean n)) = clean_loop True out (replicate k ''..'' @ gs))"
proof -
  have "\<forall>x \<in> set (split_on slash n). slash \<notin> set x"
    by (intro ballI) (rule split_no_sep)
  from clean_loop_normal [OF this, of "[]" 0 "[]" "is_rooted n"]
  obtain k gs where n: "clean_loop (is_rooted n) [] (split_on slash n) = replicate k ''..'' @ gs"
    "list_all good_comp gs"
    by auto
  have no: "\<forall>x \<in> set (replicate k ''..'' @ gs). slash \<notin> set x"
    using good_no_slash [OF n(2)] by (auto simp: slash_def)
  show ?thesis
  proof (cases "replicate k ''..'' @ gs = []")
    case True
    then have "Clean n = (if is_rooted n then [slash] else ''.'')"
      using n(1) by (simp add: Clean_def)
    then have "clean_loop True out (split_on slash (Clean n)) = clean_loop True out (replicate 0 ''..'' @ [])" for out
      by (simp add: slash_def)
    then show ?thesis
      by (intro exI [of _ 0] exI [of _ "[]"]) simp
  next
    case False
    note sp = split_join [OF False no]
    then have ne: "join_slash (replicate k ''..'' @ gs) \<noteq> []"
      using False n(2) by (cases k; cases gs) (auto simp: good_comp_def join_slash.simps split: list.splits)
    then have "Clean n = (if is_rooted n then [slash] else []) @ join_slash (replicate k ''..'' @ gs)"
      using n(1) by (simp add: Clean_def)
    then have "split_on slash (Clean n) = (if is_rooted n then [[]] else []) @ replicate k ''..'' @ gs"
      using sp by simp
    then show ?thesis
      using n(2) by (intro exI [of _ k] exI [of _ gs]) simp
  qed
qed

text \<open>Joining a cleaned name to an absolute directory climbs at most to the root.\<close>

lemma Join_abs:
  assumes "list_all good_comp ds" "ds \<noteq> []"
  obtains k gs where "list_all good_comp gs" "Join (abs_path ds) (Clean n) = abs_path (take (length ds - k) ds @ gs)"
proof -
  obtain k gs where k: "list_all good_comp gs"
    "\<forall>out. clean_loop True out (split_on slash (Clean n)) = clean_loop True out (replicate k ''..'' @ gs)"
    using split_Clean by blast
  have "clean_loop True [] (split_on slash (abs_path ds @ slash # Clean n)) =
      clean_loop True (rev ds) (split_on slash (Clean n))"
    using assms by (simp add: split_on_sep split_abs clean_loop_append clean_loop_good)
  also have "\<dots> = take (length ds - k) ds @ gs"
    using assms(1) k by (simp add: clean_loop_up clean_loop_good)
  finally have "Clean (abs_path ds @ slash # Clean n) = abs_path (take (length ds - k) ds @ gs)"
    by (simp add: Clean_def is_rooted_def abs_path_def)
  then show thesis
    using that [OF k(1)] by (simp add: Join_def abs_path_def)
qed

lemma Join_below:
  assumes "list_all good_comp ds" "ds \<noteq> []" "list_all good_comp gs" "gs \<noteq> []"
  shows "Join (abs_path ds) (Clean (join_slash gs)) = abs_path (ds @ gs)"
proof -
  have g: "split_on slash (join_slash gs) = gs"
    by (rule split_join [OF assms(4) good_no_slash [OF assms(3)]])
  obtain cs x xs where gs: "gs = (x # xs) # cs" "x \<noteq> slash"
    using assms(3,4) by (cases gs; cases "hd gs") (auto simp: good_comp_def)
  then have r: "\<not> is_rooted (join_slash gs)" "join_slash gs \<noteq> []"
    by (cases cs; simp add: is_rooted_def)+
  then have "Clean (join_slash gs) = join_slash gs"
    using assms(3) by (simp add: Clean_def g clean_loop_good)
  moreover have "clean_loop True [] (split_on slash (abs_path ds @ slash # join_slash gs)) = ds @ gs"
    using assms by (simp add: split_on_sep split_abs clean_loop_append clean_loop_good g)
  ultimately show ?thesis
    by (simp add: Join_def Clean_def is_rooted_def abs_path_def)
qed

subsection \<open>Textual prefixes of paths\<close>

lemma has_prefix_iff: "has_prefix s p \<longleftrightarrow> (\<exists>e. s = p @ e)"
  by (metis append_eq_conv_conj append_take_drop_id has_prefix_def)

lemma join_slash_Cons: "cs \<noteq> [] \<Longrightarrow> join_slash (c # cs) = c @ slash # join_slash cs"
  by (cases cs) auto

lemma prefix_before_slash:
  "slash \<notin> set a \<Longrightarrow> slash \<notin> set b \<Longrightarrow> a @ slash # x = b @ slash # y \<longleftrightarrow> a = b \<and> x = y"
proof (induction a arbitrary: b)
  case Nil
  then show ?case by (cases b) auto
next
  case (Cons c a)
  then show ?case by (cases b) auto
qed

lemma comp_prefix:
  "slash \<notin> set d \<Longrightarrow> slash \<notin> set c \<Longrightarrow> has_prefix (c @ slash # s) d \<longleftrightarrow> has_prefix c d"
proof (induction d arbitrary: c)
  case (Cons x d)
  then show ?case by (cases c) (auto simp: has_prefix_def)
qed (simp add: has_prefix_def)

lemma join_prefix:
  assumes "list_all good_comp ds" "ds \<noteq> []" "list_all good_comp ts"
  shows "has_prefix (join_slash ts) (join_slash ds) \<longleftrightarrow>
    (\<exists>e rest. ts = butlast ds @ (last ds @ e) # rest)"
  using assms
proof (induction ds arbitrary: ts)
  case (Cons d ds)
  have d: "slash \<notin> set d" "d \<noteq> []"
    using Cons.prems(1) by (auto simp: good_comp_def)
  show ?case
  proof (cases ts)
    case Nil
    then show ?thesis
      using d by (cases ds) (auto simp: has_prefix_def)
  next
    case ts: (Cons t ts')
    have t: "slash \<notin> set t"
      using Cons.prems(3) ts by (auto simp: good_comp_def)
    show ?thesis
    proof (cases "ds = []")
      case True
      have "has_prefix (join_slash ts) d \<longleftrightarrow> has_prefix t d"
        using d t ts by (cases "ts' = []") (auto simp: join_slash_Cons comp_prefix)
      then show ?thesis
        using True ts by (auto simp: has_prefix_iff)
    next
      case False
      have "has_prefix (join_slash ts) (join_slash (d # ds)) \<longleftrightarrow>
          ts' \<noteq> [] \<and> t = d \<and> has_prefix (join_slash ts') (join_slash ds)"
      proof (cases "ts' = []")
        case True
        then show ?thesis
          using t ts False by (auto simp: has_prefix_iff join_slash_Cons)
      next
        case ts': False
        then show ?thesis
          using d t ts False by (auto simp: has_prefix_iff join_slash_Cons prefix_before_slash)
      qed
      then show ?thesis
        using Cons.IH [of ts'] Cons.prems False ts by auto
    qed
  qed
qed simp

lemma abs_path_prefix:
  assumes "list_all good_comp ds" "ds \<noteq> []" "list_all good_comp ts"
  shows "has_prefix (abs_path ts) (abs_path ds) \<longleftrightarrow> (\<exists>e rest. ts = butlast ds @ (last ds @ e) # rest)"
  using join_prefix [OF assms] by (simp add: abs_path_def has_prefix_def)

subsection \<open>Base and Rel\<close>

definition Base :: "string \<Rightarrow> string" where
  "Base p =
     (if p = '''' then ''.''
      else let cs = filter (\<lambda>c. c \<noteq> '''') (split_on slash p) in if cs = [] then [slash] else last cs)"

fun strip_common :: "'a list \<Rightarrow> 'a list \<Rightarrow> 'a list \<times> 'a list" where
  "strip_common (x # xs) (y # ys) = (if x = y then strip_common xs ys else (x # xs, y # ys))"
| "strip_common xs ys = (xs, ys)"

definition path_comps :: "string \<Rightarrow> string list" where
  "path_comps p = filter (\<lambda>c. c \<noteq> '''') (split_on slash p)"

definition Rel :: "string \<Rightarrow> string \<Rightarrow> string option" where
  "Rel basepath targpath =
     (let b = Clean basepath; t = Clean targpath in
      if t = b then Some ''.''
      else
        let b = (if b = ''.'' then '''' else b) in
        if is_rooted b \<noteq> is_rooted t then None
        else case strip_common (path_comps b) (path_comps t) of (bs, ts) \<Rightarrow>
          if bs \<noteq> [] \<and> hd bs = ''..'' then None
          else Some (join_slash (replicate (length bs) ''..'' @ ts)))"

lemma Clean_abs: "list_all good_comp cs \<Longrightarrow> cs \<noteq> [] \<Longrightarrow> Clean (abs_path cs) = abs_path cs"
  by (simp add: Clean_def split_abs clean_loop_good) (simp add: abs_path_def)

lemma path_comps_abs: "list_all good_comp cs \<Longrightarrow> cs \<noteq> [] \<Longrightarrow> path_comps (abs_path cs) = cs"
  by (auto simp: path_comps_def split_abs list_all_iff good_comp_def intro!: filter_True)

lemma strip_common_append [simp]: "strip_common xs (xs @ ys) = ([], ys)"
  by (induction xs) simp_all

lemma Rel_below:
  assumes "list_all good_comp ds" "ds \<noteq> []" "list_all good_comp gs" "gs \<noteq> []"
  shows "Rel (abs_path ds) (abs_path (ds @ gs)) = Some (join_slash gs)"
proof -
  have g: "list_all good_comp (ds @ gs)"
    using assms by simp
  have "abs_path (ds @ gs) \<noteq> abs_path ds"
    using path_comps_abs [OF g] path_comps_abs [OF assms(1,2)] assms(2,4) by auto
  moreover have "abs_path ds \<noteq> ''.''"
    by (simp add: abs_path_def slash_def)
  ultimately show ?thesis
    using assms g by (simp add: Rel_def Clean_abs path_comps_abs)
qed

end
