(* ===== verification/Backup.thy ===== *)
theory Backup
  imports Go_Path Go_Arith Go_Sort
begin

text \<open>
  internal/backup/backup.go: archives of the configuration directory, their restoration and the
  retention of old ones. A tar.gz file is the list of its entries; a gzip or tar stream that does
  not parse, and an entry cut short, are events of the reader. What \<open>filepath.Walk\<close> and
  \<open>os.ReadDir\<close> deliver and which system calls fail are arguments. Files are reached by their
  path: symbolic links are not modelled.
\<close>

record BackupManager =
  bm_configDir :: string
  bm_backupDir :: string
  bm_maxBackups :: int

datatype backup_error =
    MkdirBackup | CreateFailed | BackupFailed | OpenFailed | NotGzip | TarRead | RestoreMkdir string
  | RestoreCreate string | RestoreWrite string | ReadDirFailed

definition NewBackupManager :: "bool \<Rightarrow> string \<Rightarrow> string \<Rightarrow> int \<Rightarrow> backup_error + BackupManager" where
  "NewBackupManager mkdir_ok configDir backupDir maxBackups =
     (let configDir = (if configDir = '''' then ''/etc/ipshadowt'' else configDir);
          backupDir = (if backupDir = '''' then Join configDir ''backups'' else backupDir);
          maxBackups = (if maxBackups = 0 then 10 else maxBackups) in
      if \<not> mkdir_ok then Inl MkdirBackup
      else Inr \<lparr>bm_configDir = configDir, bm_backupDir = backupDir, bm_maxBackups = maxBackups\<rparr>)"

subsection \<open>Writing an archive\<close>

record walk_file =
  wf_path :: string
  wf_name :: string
  wf_err :: bool
  wf_isDir :: bool
  wf_size :: nat
  wf_mode :: int
  wf_content :: "bytes option"

record tar_entry =
  te_name :: string
  te_mode :: int
  te_content :: bytes

text \<open>A tar writer, with the number of bytes its last header promised and has not got.\<close>

record tar_writer =
  tw_entries :: "tar_entry list"
  tw_missing :: nat

definition addFileToTar :: "BackupManager \<Rightarrow> walk_file \<Rightarrow> tar_writer \<Rightarrow> tar_writer option" where
  "addFileToTar m f tw =
     (let relPath = (case Rel (bm_configDir m) (wf_path f) of Some r \<Rightarrow> r | None \<Rightarrow> Base (wf_path f)) in
      if tw_missing tw \<noteq> 0 then None
      else case wf_content f of
        None \<Rightarrow> None
      | Some data \<Rightarrow>
          if length data > wf_size f then None
          else Some \<lparr>tw_entries = tw_entries tw @ [\<lparr>te_name = relPath, te_mode = wf_mode f, te_content = data\<rparr>],
                     tw_missing = wf_size f - length data\<rparr>)"

definition filesToBackup :: "string list" where
  "filesToBackup = [''config.toml'', ''users.json'', ''*.toml'']"

definition shouldBackup :: "string \<Rightarrow> bool" where
  "shouldBackup name \<longleftrightarrow> list_ex (\<lambda>pattern. glob_match pattern name) filesToBackup \<or> has_suffix name ''.json''"

definition backup_visit :: "BackupManager \<Rightarrow> walk_file \<Rightarrow> tar_writer \<Rightarrow> tar_writer option" where
  "backup_visit m f tw =
     (if wf_err f then Some tw
      else if has_prefix (wf_path f) (bm_backupDir m) then Some tw
      else if wf_isDir f then Some tw
      else if \<not> shouldBackup (wf_name f) then Some tw
      else addFileToTar m f tw)"

fun backup_walk :: "BackupManager \<Rightarrow> walk_file list \<Rightarrow> tar_writer \<Rightarrow> tar_writer option" where
  "backup_walk m [] tw = Some tw"
| "backup_walk m (f # fs) tw = (case backup_visit m f tw of None \<Rightarrow> None | Some tw' \<Rightarrow> backup_walk m fs tw')"

subsection \<open>Listing and retention\<close>

record dir_entry =
  de_name :: string
  de_isDir :: bool
  de_info :: "(int \<times> time) option"
  de_archive :: tar_writer

record BackupInfo =
  bi_Name :: string
  bi_Path :: string
  bi_Size :: int
  bi_CreatedAt :: time

definition backup_info :: "BackupManager \<Rightarrow> dir_entry \<Rightarrow> BackupInfo option" where
  "backup_info m e =
     (if de_isDir e \<or> \<not> has_suffix (de_name e) ''.tar.gz'' then None
      else map_option (\<lambda>(size, modTime). \<lparr>bi_Name = de_name e, bi_Path = Join (bm_backupDir m) (de_name e),
             bi_Size = size, bi_CreatedAt = modTime\<rparr>) (de_info e))"

type_synonym backup_sort = "BackupInfo list \<Rightarrow> BackupInfo list"

definition ListBackups ::
    "backup_sort \<Rightarrow> BackupManager \<Rightarrow> dir_entry list option \<Rightarrow> backup_error + BackupInfo list" where
  "ListBackups srt m entries =
     (case entries of None \<Rightarrow> Inl ReadDirFailed
      | Some es \<Rightarrow> Inr (srt (List.map_filter (backup_info m) es)))"

text \<open>Removing a path that cannot be removed is ignored: \<open>removable\<close> tells which can.\<close>

definition cleanupOldBackups ::
    "backup_sort \<Rightarrow> (string \<Rightarrow> bool) \<Rightarrow> BackupManager \<Rightarrow> dir_entry list option \<Rightarrow>
     go_panic + dir_entry list option" where
  "cleanupOldBackups srt removable m entries =
     (case ListBackups srt m entries of
        Inl _ \<Rightarrow> Inr entries
      | Inr backups \<Rightarrow>
          if int (length backups) \<le> bm_maxBackups m then Inr entries
          else if bm_maxBackups m < 0 then Inl IndexOutOfRange
          else
            let gone = set (map bi_Path (drop (nat (bm_maxBackups m)) backups)) in
            Inr (map_option (filter (\<lambda>e. let p = Join (bm_backupDir m) (de_name e) in
                   \<not> (p \<in> gone \<and> removable p))) entries))"

text \<open>
  \<open>stat\<close> is the size and the modification time the new file has when the old ones are cleaned up;
  the errors of the deferred Close calls are dropped by the code, so a short last entry stays.
\<close>

definition put_entry :: "dir_entry \<Rightarrow> dir_entry list \<Rightarrow> dir_entry list" where
  "put_entry e es = filter (\<lambda>d. de_name d \<noteq> de_name e) es @ [e]"

definition DoBackup ::
    "backup_sort \<Rightarrow> (string \<Rightarrow> bool) \<Rightarrow> string \<Rightarrow> bool \<Rightarrow> int \<times> time \<Rightarrow> walk_file list \<Rightarrow> BackupManager \<Rightarrow>
     dir_entry list \<Rightarrow> go_panic + (backup_error + string) \<times> dir_entry list" where
  "DoBackup srt removable timestamp create_ok stat fs m es =
     (let filename = ''ipshadowt-backup-'' @ timestamp @ ''.tar.gz'';
          backupPath = Join (bm_backupDir m) filename in
      if \<not> create_ok then Inr (Inl CreateFailed, es)
      else case backup_walk m fs \<lparr>tw_entries = [], tw_missing = 0\<rparr> of
        None \<Rightarrow> Inr (Inl BackupFailed, filter (\<lambda>d. de_name d \<noteq> filename) es)
      | Some tw \<Rightarrow>
          (case cleanupOldBackups srt removable m (Some (put_entry
              \<lparr>de_name = filename, de_isDir = False, de_info = Some stat, de_archive = tw\<rparr> es)) of
             Inl p \<Rightarrow> Inl p
           | Inr es' \<Rightarrow> Inr (Inr backupPath, the es')))"

subsection \<open>Restoring\<close>

datatype tar_event = Entry tar_entry | ShortEntry tar_entry | BadHeader

datatype archive_input = Unopened | Ungzipped | Archive "tar_event list"

definition archive_events :: "tar_writer \<Rightarrow> tar_event list" where
  "archive_events tw =
     (if tw_missing tw = 0 \<or> tw_entries tw = [] then map Entry (tw_entries tw)
      else map Entry (butlast (tw_entries tw)) @ [ShortEntry (last (tw_entries tw))])"

text \<open>A copy that fails has written some bytes of the content.\<close>

datatype restore_fault = MkdirFails | CreateFails | WriteFails nat

type_synonym files = "string \<rightharpoonup> bytes"

fun restore_loop ::
    "string \<Rightarrow> (string \<Rightarrow> restore_fault option) \<Rightarrow> tar_event list \<Rightarrow> nat \<Rightarrow> files \<Rightarrow> (backup_error + nat) \<times> files" where
  "restore_loop configDir fault [] restored files = (Inr restored, files)"
| "restore_loop configDir fault (BadHeader # evs) restored files = (Inl TarRead, files)"
| "restore_loop configDir fault (ShortEntry e # evs) restored files =
     (let targetPath = Join configDir (Clean (te_name e)) in
      if \<not> has_prefix targetPath configDir then (Inl TarRead, files)
      else case fault targetPath of
        Some MkdirFails \<Rightarrow> (Inl (RestoreMkdir targetPath), files)
      | Some CreateFails \<Rightarrow> (Inl (RestoreCreate targetPath), files)
      | _ \<Rightarrow> (Inl (RestoreWrite targetPath), files(targetPath \<mapsto> te_content e)))"
| "restore_loop configDir fault (Entry e # evs) restored files =
     (let targetPath = Join configDir (Clean (te_name e)) in
      if \<not> has_prefix targetPath configDir then restore_loop configDir fault evs restored files
      else case fault targetPath of
        Some MkdirFails \<Rightarrow> (Inl (RestoreMkdir targetPath), files)
      | Some CreateFails \<Rightarrow> (Inl (RestoreCreate targetPath), files)
      | Some (WriteFails k) \<Rightarrow> (Inl (RestoreWrite targetPath), files(targetPath \<mapsto> take k (te_content e)))
      | None \<Rightarrow> restore_loop configDir fault evs (Suc restored) (files(targetPath \<mapsto> te_content e)))"

definition Restore ::
    "(string \<Rightarrow> restore_fault option) \<Rightarrow> archive_input \<Rightarrow> BackupManager \<Rightarrow> files \<Rightarrow> (backup_error + nat) \<times> files" where
  "Restore fault input m files =
     (case input of
        Unopened \<Rightarrow> (Inl OpenFailed, files)
      | Ungzipped \<Rightarrow> (Inl NotGzip, files)
      | Archive evs \<Rightarrow> restore_loop (bm_configDir m) fault evs 0 files)"

subsection \<open>Where a restored file can land\<close>

text \<open>
  The paths that pass the check of Restore: those below the directory, and those below a sibling
  directory whose name starts with the name of the configuration directory.
\<close>

definition writable :: "string list \<Rightarrow> string \<Rightarrow> bool" where
  "writable ds p \<longleftrightarrow> (\<exists>e rest. p = abs_path (butlast ds @ (last ds @ e) # rest) \<and>
     list_all good_comp (butlast ds @ (last ds @ e) # rest))"

lemma good_take: "list_all good_comp xs \<Longrightarrow> list_all good_comp (take n xs)"
  by (auto simp: list_all_iff dest: in_set_takeD)

lemma accepted_writable:
  assumes "list_all good_comp ds" "ds \<noteq> []" "has_prefix (Join (abs_path ds) (Clean n)) (abs_path ds)"
  shows "writable ds (Join (abs_path ds) (Clean n))"
proof -
  obtain k gs where gs: "list_all good_comp gs"
    and j: "Join (abs_path ds) (Clean n) = abs_path (take (length ds - k) ds @ gs)"
    using assms(1,2) by (rule Join_abs)
  have g: "list_all good_comp (take (length ds - k) ds @ gs)"
    using gs good_take [OF assms(1)] by simp
  show ?thesis
    using assms(3) abs_path_prefix [OF assms(1,2) g] g unfolding j writable_def by metis
qed

lemma restore_loop_frame:
  assumes "list_all good_comp ds" "ds \<noteq> []" "restore_loop (abs_path ds) fault evs n files = (r, files')"
    and "\<not> writable ds p"
  shows "files' p = files p"
  using assms(3)
proof (induction evs arbitrary: n files)
  case (Cons ev evs)
  have q: "has_prefix (Join (abs_path ds) (Clean m)) (abs_path ds) \<Longrightarrow> p \<noteq> Join (abs_path ds) (Clean m)" for m
    using accepted_writable [OF assms(1,2)] assms(4) by blast
  show ?case
    using Cons q by (cases ev) (auto simp: Let_def split: if_splits option.splits restore_fault.splits)
qed simp

text \<open>A name that climbs out of the directory and into any such place.\<close>

definition escape_name :: "string list \<Rightarrow> string" where
  "escape_name gs = join_slash (''..'' # gs)"

lemma Join_escape:
  assumes "list_all good_comp ds" "ds \<noteq> []" "list_all good_comp gs" "gs \<noteq> []"
  shows "Join (abs_path ds) (Clean (escape_name gs)) = abs_path (butlast ds @ gs)"
proof -
  have no: "\<forall>x \<in> set (''..'' # gs). slash \<notin> set x"
    using good_no_slash [OF assms(3)] by (auto simp: slash_def)
  have sp: "split_on slash (escape_name gs) = ''..'' # gs"
    unfolding escape_name_def by (rule split_join [OF _ no]) simp
  have nr: "\<not> is_rooted (escape_name gs)" "escape_name gs \<noteq> []"
    using assms(4) by (auto simp: escape_name_def join_slash_Cons is_rooted_def slash_def)
  have "clean_loop False [] (''..'' # gs) = ''..'' # gs"
    using clean_loop_good [OF assms(3), of False "[''..'']"] by simp
  then have c: "Clean (escape_name gs) = escape_name gs"
    using nr by (simp add: Clean_def sp escape_name_def [symmetric] del: clean_loop.simps)
  have "clean_loop True [] ([] # ds @ ''..'' # gs) = clean_loop True (rev ds) (replicate 1 ''..'' @ gs)"
    using assms(1) by (simp add: clean_loop_append clean_loop_good)
  also have "\<dots> = butlast ds @ gs"
    unfolding clean_loop_up [OF assms(1)] using assms(3) by (simp add: clean_loop_good butlast_conv_take)
  finally have "clean_loop True [] (split_on slash (abs_path ds @ slash # escape_name gs)) = butlast ds @ gs"
    by (simp only: split_on_sep split_abs [OF assms(1,2)] sp append_Cons)
  then show ?thesis
    using nr(2) by (simp add: Join_def c) (simp add: Clean_def is_rooted_def abs_path_def)
qed

text \<open>
  C17: With a clean absolute configuration directory, restoring any archive, under any failures,
  leaves every path that is not writable alone, and every writable path is reached by the name of
  some entry. The writable paths are those below the directory and those below siblings whose names
  extend its own: the check keeps an archive out of the rest of the file system, not out of these.
\<close>

theorem restore_confined_exactly:
  assumes "list_all good_comp ds" "ds \<noteq> []" "bm_configDir m = abs_path ds"
  shows "(\<forall>fault input files r files'. Restore fault input m files = (r, files') \<longrightarrow>
      (\<forall>p. \<not> writable ds p \<longrightarrow> files' p = files p)) \<and>
    (\<forall>p data. writable ds p \<longrightarrow> (\<exists>n. \<forall>mode.
       Restore (\<lambda>_. None) (Archive [Entry \<lparr>te_name = n, te_mode = mode, te_content = data\<rparr>]) m Map.empty =
         (Inr 1, [p \<mapsto> data])))"
proof (intro conjI allI impI)
  fix fault input files r files' p
  assume "Restore fault input m files = (r, files')" "\<not> writable ds p"
  then show "files' p = files p"
    using restore_loop_frame [OF assms(1,2)] assms(3)
    by (auto simp: Restore_def split: archive_input.splits)
next
  fix p data
  assume "writable ds p"
  then obtain e rest where p: "p = abs_path (butlast ds @ (last ds @ e) # rest)"
    and good: "list_all good_comp (butlast ds @ (last ds @ e) # rest)"
    by (auto simp: writable_def)
  have j: "Join (abs_path ds) (Clean (escape_name ((last ds @ e) # rest))) = p"
    using Join_escape [OF assms(1,2), of "(last ds @ e) # rest"] good p by simp
  have "has_prefix p (abs_path ds)"
    using abs_path_prefix [OF assms(1,2) good] p by blast
  then show "\<exists>n. \<forall>mode.
       Restore (\<lambda>_. None) (Archive [Entry \<lparr>te_name = n, te_mode = mode, te_content = data\<rparr>]) m Map.empty =
         (Inr 1, [p \<mapsto> data])"
    using j by (intro exI [of _ "escape_name ((last ds @ e) # rest)"]) (simp add: Restore_def assms(3))
qed

definition etc_manager :: BackupManager where
  "etc_manager = \<lparr>bm_configDir = ''/etc/ipshadowt'', bm_backupDir = ''/etc/ipshadowt/backups'', bm_maxBackups = 10\<rparr>"

lemma etc_dir: "bm_configDir etc_manager = abs_path [''etc'', ''ipshadowt'']"
  by (simp add: etc_manager_def abs_path_def slash_def)

lemma etc_good: "list_all good_comp [''etc'', ''ipshadowt'']"
  by (simp add: good_comp_def slash_def)

theorem restore_confined_exactly_witness:
  "\<exists>n. Restore (\<lambda>_. None) (Archive [Entry \<lparr>te_name = n, te_mode = 420, te_content = [1]\<rparr>]) etc_manager Map.empty =
     (Inr 1, [''/etc/ipshadowt-evil/x'' \<mapsto> [1]])"
proof -
  have "writable [''etc'', ''ipshadowt''] ''/etc/ipshadowt-evil/x''"
    unfolding writable_def
    by (rule exI [of _ "''-evil''"], rule exI [of _ "[''x'']"]) (simp add: abs_path_def slash_def good_comp_def)
  then show ?thesis
    using restore_confined_exactly [OF etc_good _ etc_dir] by blast
qed

subsection \<open>What is saved and restored\<close>

definition selected :: "BackupManager \<Rightarrow> walk_file \<Rightarrow> bool" where
  "selected m f \<longleftrightarrow> \<not> wf_err f \<and> \<not> has_prefix (wf_path f) (bm_backupDir m) \<and> \<not> wf_isDir f \<and>
     (has_suffix (wf_name f) ''.toml'' \<or> has_suffix (wf_name f) ''.json'')"

text \<open>Files below the directory, readable and of the size the walk reported.\<close>

definition tree_ok :: "string list \<Rightarrow> walk_file list \<Rightarrow> bool" where
  "tree_ok ds fs \<longleftrightarrow> distinct (map wf_path fs) \<and>
     (\<forall>f \<in> set fs. slash \<notin> set (wf_name f) \<and> (\<exists>data. wf_content f = Some data \<and> wf_size f = length data) \<and>
        (\<exists>gs. gs \<noteq> [] \<and> list_all good_comp gs \<and> wf_path f = abs_path (ds @ gs)))"

lemma shouldBackup_iff:
  "slash \<notin> set n \<Longrightarrow> shouldBackup n \<longleftrightarrow> has_suffix n ''.toml'' \<or> has_suffix n ''.json''"
  using glob_match_star [of "''.toml''" n]
  by (auto simp: shouldBackup_def filesToBackup_def glob_match_literal star_def has_suffix_def)

definition rel_comps :: "string list \<Rightarrow> walk_file \<Rightarrow> string list" where
  "rel_comps ds f = drop (length ds) (path_comps (wf_path f))"

definition saved_entry :: "string list \<Rightarrow> walk_file \<Rightarrow> tar_entry" where
  "saved_entry ds f = \<lparr>te_name = join_slash (rel_comps ds f), te_mode = wf_mode f, te_content = the (wf_content f)\<rparr>"

lemma tree_ok_file:
  assumes "list_all good_comp ds" "ds \<noteq> []" "tree_ok ds fs" "f \<in> set fs"
  shows "rel_comps ds f \<noteq> []" "list_all good_comp (rel_comps ds f)" "wf_path f = abs_path (ds @ rel_comps ds f)"
    "wf_content f = Some (the (wf_content f))" "wf_size f = length (the (wf_content f))" "slash \<notin> set (wf_name f)"
proof -
  obtain gs where gs: "gs \<noteq> []" "list_all good_comp gs" "wf_path f = abs_path (ds @ gs)"
    using assms(3,4) by (auto simp: tree_ok_def)
  then have "rel_comps ds f = gs"
    using assms(1,2) by (simp add: rel_comps_def path_comps_abs)
  then show "rel_comps ds f \<noteq> []" "list_all good_comp (rel_comps ds f)" "wf_path f = abs_path (ds @ rel_comps ds f)"
    using gs by simp_all
  show "wf_content f = Some (the (wf_content f))" "wf_size f = length (the (wf_content f))" "slash \<notin> set (wf_name f)"
    using assms(3,4) by (auto simp: tree_ok_def)
qed

lemma backup_visit_ok:
  assumes "list_all good_comp ds" "ds \<noteq> []" "bm_configDir m = abs_path ds" "tree_ok ds fs" "f \<in> set fs"
  shows "backup_visit m f \<lparr>tw_entries = es, tw_missing = 0\<rparr> =
    Some \<lparr>tw_entries = es @ (if selected m f then [saved_entry ds f] else []), tw_missing = 0\<rparr>"
proof -
  note f = tree_ok_file [OF assms(1,2,4,5)]
  have "Rel (abs_path ds) (wf_path f) = Some (join_slash (rel_comps ds f))"
    using Rel_below [OF assms(1,2) f(2,1)] f(3) by simp
  then have "addFileToTar m f \<lparr>tw_entries = es, tw_missing = 0\<rparr> =
      Some \<lparr>tw_entries = es @ [saved_entry ds f], tw_missing = 0\<rparr>"
    using f(5) by (subst addFileToTar_def, subst f(4)) (simp add: assms(3) saved_entry_def)
  then show ?thesis
    by (simp add: backup_visit_def selected_def shouldBackup_iff [OF f(6)])
qed

lemma backup_walk_ok:
  assumes "list_all good_comp ds" "ds \<noteq> []" "bm_configDir m = abs_path ds" "tree_ok ds fs" "set gs \<subseteq> set fs"
  shows "backup_walk m gs \<lparr>tw_entries = es, tw_missing = 0\<rparr> =
    Some \<lparr>tw_entries = es @ map (saved_entry ds) (filter (selected m) gs), tw_missing = 0\<rparr>"
  using assms(5) by (induction gs arbitrary: es) (simp_all add: backup_visit_ok [OF assms(1-4)])

lemma restore_entry:
  assumes "list_all good_comp ds" "ds \<noteq> []" "tree_ok ds fs" "f \<in> set fs"
  shows "restore_loop (abs_path ds) (\<lambda>_. None) (Entry (saved_entry ds f) # evs) n files =
    restore_loop (abs_path ds) (\<lambda>_. None) evs (Suc n) (files(wf_path f \<mapsto> the (wf_content f)))"
proof -
  note f = tree_ok_file [OF assms]
  have "Join (abs_path ds) (Clean (join_slash (rel_comps ds f))) = wf_path f"
    using Join_below [OF assms(1,2) f(2,1)] f(3) by simp
  moreover have "has_prefix (wf_path f) (abs_path ds)"
  proof -
    have "ds @ rel_comps ds f = butlast ds @ (last ds @ []) # rel_comps ds f"
      using append_butlast_last_id [OF assms(2)] by (metis append_Cons append_Nil append_Nil2 append_assoc)
    then show ?thesis
      using abs_path_prefix [OF assms(1,2)] assms(1) f(2,3) by (metis (no_types) list_all_append)
  qed
  ultimately show ?thesis
    by (simp add: saved_entry_def)
qed

definition contents :: "walk_file list \<Rightarrow> (string \<times> bytes) list" where
  "contents fs = map (\<lambda>f. (wf_path f, the (wf_content f))) fs"

lemma contents_Cons [simp]: "contents (f # fs) = (wf_path f, the (wf_content f)) # contents fs"
  by (simp add: contents_def)

lemma map_add_fresh:
  assumes "k \<notin> fst ` set xs" shows "m(k \<mapsto> v) ++ map_of xs = m ++ map_of ((k, v) # xs)"
proof -
  have "map_of xs k = None"
    using assms by (simp add: map_of_eq_None_iff)
  then show ?thesis
    by (auto simp: fun_eq_iff map_add_def split: option.split)
qed

lemma restore_entries:
  assumes "list_all good_comp ds" "ds \<noteq> []" "tree_ok ds fs" "set gs \<subseteq> set fs" "distinct (map wf_path gs)"
  shows "restore_loop (abs_path ds) (\<lambda>_. None) (map Entry (map (saved_entry ds) gs)) n files =
    (Inr (n + length gs), files ++ map_of (contents gs))"
  using assms(4,5)
proof (induction gs arbitrary: n files)
  case (Cons f gs)
  have "wf_path f \<notin> fst ` set (contents gs)"
    using Cons.prems(2) by (auto simp: contents_def)
  then have add: "files(wf_path f \<mapsto> v) ++ map_of (contents gs) = files ++ map_of ((wf_path f, v) # contents gs)" for v
    by (rule map_add_fresh)
  have "restore_loop (abs_path ds) (\<lambda>_. None) (map Entry (map (saved_entry ds) (f # gs))) n files =
      (Inr (Suc n + length gs), files(wf_path f \<mapsto> the (wf_content f)) ++ map_of (contents gs))"
    using Cons restore_entry [OF assms(1-3), of f] by (simp del: restore_loop.simps)
  then show ?case
    unfolding add contents_Cons by (simp del: restore_loop.simps map_of.simps)
qed (simp add: contents_def)

text \<open>
  C20: Restoring a backup puts back every .toml and .json file of the configuration directory that
  does not lie under a path starting with the backup directory, each at its own path with the
  content it had, changes nothing else, and reports how many there were.
\<close>

theorem backup_restore_roundtrip:
  assumes "list_all good_comp ds" "ds \<noteq> []" "bm_configDir m = abs_path ds" "tree_ok ds fs"
    and "backup_walk m fs \<lparr>tw_entries = [], tw_missing = 0\<rparr> = Some tw"
  shows "Restore (\<lambda>_. None) (Archive (archive_events tw)) m files =
    (Inr (length (filter (selected m) fs)), files ++ map_of (contents (filter (selected m) fs)))"
proof -
  have tw: "tw = \<lparr>tw_entries = map (saved_entry ds) (filter (selected m) fs), tw_missing = 0\<rparr>"
    using assms(5) backup_walk_ok [OF assms(1-4), of fs "[]"] by simp
  have "distinct (map wf_path (filter (selected m) fs))"
    using assms(4) by (simp add: tree_ok_def distinct_map_filter)
  from restore_entries [OF assms(1,2,4) _ this, of 0 files] show ?thesis
    by (simp add: Restore_def tw archive_events_def assms(3))
qed

definition config_file :: walk_file where
  "config_file = \<lparr>wf_path = ''/etc/ipshadowt/config.toml'', wf_name = ''config.toml'', wf_err = False, wf_isDir = False,
     wf_size = 2, wf_mode = 384, wf_content = Some [1, 2]\<rparr>"

theorem backup_restore_roundtrip_witness:
  "\<exists>tw. backup_walk etc_manager [config_file] \<lparr>tw_entries = [], tw_missing = 0\<rparr> = Some tw \<and>
     Restore (\<lambda>_. None) (Archive (archive_events tw)) etc_manager Map.empty =
       (Inr 1, [''/etc/ipshadowt/config.toml'' \<mapsto> [1, 2]])"
proof -
  have tree: "tree_ok [''etc'', ''ipshadowt''] [config_file]"
    unfolding tree_ok_def
    by (auto simp: config_file_def slash_def abs_path_def good_comp_def intro!: exI [of _ "[''config.toml'']"])
  have sel: "filter (selected etc_manager) [config_file] = [config_file]"
    by (simp add: selected_def config_file_def etc_manager_def has_prefix_def has_suffix_def)
  obtain tw where tw: "backup_walk etc_manager [config_file] \<lparr>tw_entries = [], tw_missing = 0\<rparr> = Some tw"
    using backup_walk_ok [OF etc_good _ etc_dir tree subset_refl] by blast
  have "contents [config_file] = [(''/etc/ipshadowt/config.toml'', [1, 2])]"
    by (simp add: contents_def config_file_def)
  with backup_restore_roundtrip [OF etc_good _ etc_dir tree tw, of Map.empty]
  have "Restore (\<lambda>_. None) (Archive (archive_events tw)) etc_manager Map.empty =
       (Inr 1, [''/etc/ipshadowt/config.toml'' \<mapsto> [1, 2]])"
    unfolding sel by simp
  with tw show ?thesis
    by blast
qed

subsection \<open>Retention\<close>

interpretation newest_first: slice_sort "greater_key bi_CreatedAt" "insertion_sort (greater_key bi_CreatedAt)"
  by (rule insertion_sort_sorts)

abbreviation backups_of :: "BackupManager \<Rightarrow> dir_entry list \<Rightarrow> BackupInfo list" where
  "backups_of m es \<equiv> List.map_filter (backup_info m) es"

lemma backup_info_path: "backup_info m e = Some b \<Longrightarrow> bi_Path b = Join (bm_backupDir m) (de_name e)"
  by (auto simp: backup_info_def split: if_splits)

lemma map_filter_filter_path:
  "backups_of m (filter (\<lambda>e. P (Join (bm_backupDir m) (de_name e))) es) =
     filter (\<lambda>b. P (bi_Path b)) (backups_of m es)"
  by (induction es) (auto simp: List.map_filter_simps backup_info_path split: option.splits)

definition over_limit :: "backup_sort \<Rightarrow> BackupManager \<Rightarrow> dir_entry list \<Rightarrow> BackupInfo list" where
  "over_limit srt m es = drop (nat (bm_maxBackups m)) (srt (backups_of m es))"

lemma cleanup_returns:
  "0 \<le> bm_maxBackups m \<Longrightarrow> \<exists>es'. cleanupOldBackups srt removable m (Some es) = Inr (Some es')"
  by (simp add: cleanupOldBackups_def ListBackups_def Let_def)

lemma cleanup_removes:
  assumes "slice_sort (greater_key bi_CreatedAt) srt" "0 \<le> bm_maxBackups m"
    and "cleanupOldBackups srt (\<lambda>_. True) m (Some es) = Inr (Some es')"
  shows "es' = filter (\<lambda>e. Join (bm_backupDir m) (de_name e) \<notin> bi_Path ` set (over_limit srt m es)) es"
proof (cases "int (length (backups_of m es)) \<le> bm_maxBackups m")
  case True
  then have "over_limit srt m es = []"
    using slice_sort.length_srt [OF assms(1), of "backups_of m es"] by (simp add: over_limit_def)
  then show ?thesis
    using True assms(3) slice_sort.length_srt [OF assms(1), of "backups_of m es"]
    by (simp add: cleanupOldBackups_def ListBackups_def)
next
  case False
  then show ?thesis
    using assms slice_sort.length_srt [OF assms(1), of "backups_of m es"]
    by (simp add: cleanupOldBackups_def ListBackups_def over_limit_def)
qed

lemma filter_take_distinct:
  assumes "distinct (map f (xs @ ys))" shows "filter (\<lambda>b. f b \<notin> f ` set ys) (xs @ ys) = xs"
  using assms unfolding filter_append by (auto simp: filter_empty_conv intro!: filter_True)

lemma kept_backups:
  assumes srt: "slice_sort (greater_key bi_CreatedAt) srt" and dist: "distinct (map bi_Path (backups_of m es))"
    and es': "es' = filter (\<lambda>e. Join (bm_backupDir m) (de_name e) \<notin> bi_Path ` set (over_limit srt m es)) es"
  shows "mset (backups_of m es') = mset (take (nat (bm_maxBackups m)) (srt (backups_of m es)))"
proof -
  let ?bs = "backups_of m es" and ?k = "nat (bm_maxBackups m)"
  have mset: "mset (srt ?bs) = mset ?bs"
    by (rule slice_sort.srt_mset [OF srt])
  then have "mset (map bi_Path (srt ?bs)) = mset (map bi_Path ?bs)"
    by (simp only: mset_map)
  then have "distinct (map bi_Path (take ?k (srt ?bs) @ over_limit srt m es))"
    using dist mset_eq_imp_distinct_iff unfolding over_limit_def append_take_drop_id by blast
  from filter_take_distinct [OF this]
  have take: "filter (\<lambda>b. bi_Path b \<notin> bi_Path ` set (over_limit srt m es)) (srt ?bs) = take ?k (srt ?bs)"
    unfolding over_limit_def append_take_drop_id .
  have "backups_of m es' = filter (\<lambda>b. bi_Path b \<notin> bi_Path ` set (over_limit srt m es)) ?bs"
    unfolding es' by (rule map_filter_filter_path)
  then show ?thesis
    unfolding take [symmetric] by (simp only: mset_filter mset)
qed

text \<open>
  Cleaning up keeps min(n, maxBackups) of n backups when all can be removed, and none of those
  removed is newer than one that is kept, however the library orders equal times. Entries that are
  not backups stay, unless they lie at the path of a removed one.
\<close>

theorem backup_retention:
  assumes srt: "slice_sort (greater_key bi_CreatedAt) srt" and max: "0 \<le> bm_maxBackups m"
    and dist: "distinct (map bi_Path (backups_of m es))"
    and run: "cleanupOldBackups srt (\<lambda>_. True) m (Some es) = Inr (Some es')"
  shows "length (backups_of m es') = min (length (backups_of m es)) (nat (bm_maxBackups m)) \<and>
    set es' \<subseteq> set es \<and>
    (\<forall>b \<in> set (backups_of m es). \<forall>k \<in> set (backups_of m es').
       b \<notin> set (backups_of m es') \<longrightarrow> bi_CreatedAt b \<le> bi_CreatedAt k) \<and>
    (\<forall>e \<in> set es - set es'. \<exists>b \<in> set (backups_of m es) - set (backups_of m es').
       bi_Path b = Join (bm_backupDir m) (de_name e))"
proof -
  let ?bs = "backups_of m es" and ?k = "nat (bm_maxBackups m)"
  note es' = cleanup_removes [OF srt max run]
  note kept = kept_backups [OF srt dist es']
  have set': "set (backups_of m es') = set (take ?k (srt ?bs))"
    using kept by (rule mset_eq_setD)
  have all: "set ?bs = set (take ?k (srt ?bs)) \<union> set (over_limit srt m es)"
    unfolding over_limit_def set_append [symmetric] append_take_drop_id slice_sort.set_srt [OF srt] ..
  have "length (backups_of m es') = min (length ?bs) ?k"
    using mset_eq_length [OF kept] by (simp add: slice_sort.length_srt [OF srt])
  moreover have "bi_CreatedAt b \<le> bi_CreatedAt a"
    if "b \<in> set ?bs" "b \<notin> set (backups_of m es')" "a \<in> set (backups_of m es')" for a b
    using slice_sort.take_drop_srt [OF srt, of a ?k ?bs b] that all unfolding set' over_limit_def
    by (auto simp: greater_key_def not_less)
  moreover have "\<exists>b \<in> set ?bs - set (backups_of m es'). bi_Path b = Join (bm_backupDir m) (de_name e)"
    if e: "e \<in> set es - set es'" for e
  proof -
    obtain b where b: "b \<in> set (over_limit srt m es)" "bi_Path b = Join (bm_backupDir m) (de_name e)"
      using e unfolding es' by auto
    have "b \<notin> set (backups_of m es')"
      using b(1) map_filter_filter_path [of m "\<lambda>p. p \<notin> bi_Path ` set (over_limit srt m es)" es]
      unfolding es' by simp
    then show ?thesis
      using b all by blast
  qed
  moreover have "set es' \<subseteq> set es"
    unfolding es' by auto
  ultimately show ?thesis
    by blast
qed

definition old_backup :: "string \<Rightarrow> time \<Rightarrow> dir_entry" where
  "old_backup n t = \<lparr>de_name = n, de_isDir = False, de_info = Some (100, t),
     de_archive = \<lparr>tw_entries = [], tw_missing = 0\<rparr>\<rparr>"

theorem backup_retention_witness:
  "\<exists>es'. cleanupOldBackups (insertion_sort (greater_key bi_CreatedAt)) (\<lambda>_. True) (etc_manager\<lparr>bm_maxBackups := 1\<rparr>)
      (Some [old_backup ''a.tar.gz'' 1, old_backup ''b.tar.gz'' 2]) = Inr (Some es') \<and>
    length (backups_of (etc_manager\<lparr>bm_maxBackups := 1\<rparr>) es') = 1"
proof -
  let ?m = "etc_manager\<lparr>bm_maxBackups := 1\<rparr>" and ?es = "[old_backup ''a.tar.gz'' 1, old_backup ''b.tar.gz'' 2]"
  have bs: "backups_of ?m ?es =
    [\<lparr>bi_Name = ''a.tar.gz'', bi_Path = Join ''/etc/ipshadowt/backups'' ''a.tar.gz'', bi_Size = 100, bi_CreatedAt = 1\<rparr>,
     \<lparr>bi_Name = ''b.tar.gz'', bi_Path = Join ''/etc/ipshadowt/backups'' ''b.tar.gz'', bi_Size = 100, bi_CreatedAt = 2\<rparr>]"
    by (simp add: List.map_filter_simps backup_info_def old_backup_def etc_manager_def has_suffix_def)
  have "Join ''/etc/ipshadowt/backups'' ''a.tar.gz'' \<noteq> Join ''/etc/ipshadowt/backups'' ''b.tar.gz''"
    by code_simp
  then have d: "distinct (map bi_Path (backups_of ?m ?es))"
    unfolding bs by simp
  have max: "0 \<le> bm_maxBackups ?m"
    by simp
  then obtain es' where run:
    "cleanupOldBackups (insertion_sort (greater_key bi_CreatedAt)) (\<lambda>_. True) ?m (Some ?es) = Inr (Some es')"
    using cleanup_returns by blast
  from backup_retention [OF insertion_sort_sorts max d run] have "length (backups_of ?m es') = 1"
    unfolding bs by simp
  with run show ?thesis
    by blast
qed

end
