(* ===== verification/Go_Base64.thy ===== *)
theory Go_Base64
  imports Prelude
begin

text \<open>
  Go's \<open>encoding/base64\<close> with the standard alphabet and padding: the encoder, the length of what it
  writes, and that it never writes a line break, which the configuration files rely on.
\<close>

definition nl :: char where "nl = CHR 0x0A"

definition b64_alphabet :: string where
  "b64_alphabet = ''ABCDEFGHIJKLMNOPQRSTUVWXYZabcdefghijklmnopqrstuvwxyz0123456789+/''"

definition b64_char :: "nat \<Rightarrow> char" where
  "b64_char n = b64_alphabet ! (n mod 64)"

text \<open>\<open>base64.StdEncoding.EncodeToString\<close>.\<close>

fun base64 :: "bytes \<Rightarrow> string" where
  "base64 [] = ''''"
| "base64 [a] = (let v = unat a * 65536 in [b64_char (v div 262144), b64_char (v div 4096), CHR ''='', CHR ''=''])"
| "base64 [a, b] = (let v = unat a * 65536 + unat b * 256 in
     [b64_char (v div 262144), b64_char (v div 4096), b64_char (v div 64), CHR ''=''])"
| "base64 (a # b # c # rest) = (let v = unat a * 65536 + unat b * 256 + unat c in
     [b64_char (v div 262144), b64_char (v div 4096), b64_char (v div 64), b64_char v]) @ base64 rest"

lemma b64_char_safe: "b64_char n \<in> set b64_alphabet"
  unfolding b64_char_def by (rule nth_mem) (simp add: b64_alphabet_def)

lemma base64_chars: "c \<in> set (base64 bs) \<Longrightarrow> c \<in> insert (CHR ''='') (set b64_alphabet)"
  by (induction bs rule: base64.induct) (auto simp: Let_def b64_char_safe)

lemma length_base64: "length (base64 bs) = 4 * ((length bs + 2) div 3)"
proof (induction bs rule: base64.induct)
  case (4 a b c rest)
  have "(5 + length rest) div 3 = Suc (Suc (Suc (length rest)) div 3)"
    by (simp add: div_eq_dividend_iff flip: div_add_self2)
  with 4 show ?case
    by (simp add: Let_def)
qed (simp_all add: Let_def)

lemma nl_not_b64: "nl \<notin> insert (CHR ''='') (set b64_alphabet)"
  by (simp add: nl_def b64_alphabet_def)

lemma base64_no_nl: "nl \<notin> set (base64 bs)"
  using base64_chars nl_not_b64 by blast

end
