(* ===== verification/Wireguard.thy ===== *)
theory Wireguard
  imports Framing Go_Base64 Go_Net Go_Strings Go_Arith State_Machine
begin

unbundle bit_operations_syntax

text \<open>
  internal/wireguard/wireguard.go: the lifecycle of the inner protocol, the relay of datagrams over
  a tunnel, and the generation of keys and configuration files. Curve25519 is code outside the
  repository: \<open>x25519\<close> maps a private key to its public key or fails. The random source is the
  bytes it delivers, or nothing.
\<close>

subsection \<open>Construction and lifecycle\<close>

record WgConfig =
  wc_ListenAddr :: string
  wc_PrivateKey :: string
  wc_PublicKey :: string
  wc_PeerKey :: string
  wc_PeerAddr :: string
  wc_AllowedIPs :: "string list"
  wc_MTU :: int
  wc_Keepalive :: int

record Inner =
  in_listenAddr :: string
  in_privateKey :: string
  in_publicKey :: string
  in_peerKey :: string
  in_peerAddr :: string
  in_allowedIPs :: "string list"
  in_mtu :: int
  in_keepalive :: int
  in_conn :: "nat option"
  in_done :: bool
  in_running :: bool

definition NewInner :: "WgConfig \<Rightarrow> Inner" where
  "NewInner cfg = \<lparr>in_listenAddr = wc_ListenAddr cfg, in_privateKey = wc_PrivateKey cfg,
     in_publicKey = wc_PublicKey cfg, in_peerKey = wc_PeerKey cfg, in_peerAddr = wc_PeerAddr cfg,
     in_allowedIPs = (if wc_AllowedIPs cfg = [] then [''0.0.0.0/0'', ''::/0''] else wc_AllowedIPs cfg),
     in_mtu = (if wc_MTU cfg = 0 then 1420 else wc_MTU cfg), in_keepalive = wc_Keepalive cfg,
     in_conn = None, in_done = False, in_running = False\<rparr>"

datatype wg_error = AlreadyRunning | ResolveListen | ListenFailed | WgRand | Curve

text \<open>\<open>resolved\<close> and \<open>sock\<close> are what the two system calls answer; a socket is a number.\<close>

definition wg_Start :: "bool \<Rightarrow> nat option \<Rightarrow> Inner \<Rightarrow> (wg_error + unit) \<times> Inner" where
  "wg_Start resolved sock w =
     (if in_running w then (Inl AlreadyRunning, w)
      else if \<not> resolved then (Inl ResolveListen, w)
      else case sock of
        None \<Rightarrow> (Inl ListenFailed, w)
      | Some s \<Rightarrow> (Inr (), w\<lparr>in_conn := Some s, in_running := True\<rparr>))"

text \<open>The sockets a call closes are a result.\<close>

definition wg_Stop :: "Inner \<Rightarrow> go_panic + Inner \<times> nat list" where
  "wg_Stop w =
     (if \<not> in_running w then Inr (w, [])
      else if in_done w then Inl CloseOfClosed
      else Inr (w\<lparr>in_done := True, in_running := False\<rparr>, case in_conn w of None \<Rightarrow> [] | Some s \<Rightarrow> [s]))"

text \<open>
  \<open>forwardLoop\<close> looks at \<open>done\<close> before every read. A datagram that is read goes to
  \<open>handlePacket\<close>, which logs two message types and sends nothing on: the log lines are all there is.
\<close>

datatype udp_read = Datagram bytes | ReadError

datatype wg_log = HandshakeInitiation | HandshakeResponse

definition handlePacket :: "bytes \<Rightarrow> wg_log list" where
  "handlePacket data =
     (if length data < 4 then []
      else if hd data = 1 then [HandshakeInitiation]
      else if hd data = 2 then [HandshakeResponse]
      else [])"

fun forwardLoop :: "Inner \<Rightarrow> (bool \<times> udp_read) list \<Rightarrow> wg_log list" where
  "forwardLoop w [] = []"
| "forwardLoop w ((done, r) # rs) =
     (if done then []
      else case r of ReadError \<Rightarrow> forwardLoop w rs
           | Datagram data \<Rightarrow> handlePacket (take (nat (in_mtu w + 80)) data) @ forwardLoop w rs)"

subsection \<open>The relay\<close>

definition wg_limit :: "Inner \<Rightarrow> int" where
  "wg_limit w = in_mtu w + 80"

text \<open>One datagram written to the tunnel; a read keeps what fits into the buffer.\<close>

definition relay_frame :: "Inner \<Rightarrow> bytes \<Rightarrow> bytes" where
  "relay_frame w data = (let p = take (nat (wg_limit w)) data in len16 (length p) @ p)"

fun relay_up :: "Inner \<Rightarrow> udp_read list \<Rightarrow> bytes" where
  "relay_up w [] = []"
| "relay_up w (ReadError # rs) = []"
| "relay_up w (Datagram data # rs) = relay_frame w data @ relay_up w rs"

text \<open>The other direction: the packets taken from the tunnel until its stream ends.\<close>

function relay_down :: "Inner \<Rightarrow> bytes \<Rightarrow> bytes list" where
  "relay_down w s =
     (case readFull 2 s of
        Inl _ \<Rightarrow> []
      | Inr (header, s1) \<Rightarrow>
          let pktLen = int16 (header ! 0) (header ! 1) in
          if int pktLen > wg_limit w \<or> pktLen = 0 then relay_down w s1
          else case readFull pktLen s1 of
            Inl _ \<Rightarrow> []
          | Inr (pkt, s2) \<Rightarrow> pkt # relay_down w s2)"
  by pat_completeness auto
termination
  by (relation "measure (\<lambda>(w, s). length s)") (auto simp: readFull_Inr_iff)

declare relay_down.simps [simp del]

definition relay_sent :: "bool \<Rightarrow> Inner \<Rightarrow> bytes \<Rightarrow> bytes list" where
  "relay_sent peer_resolves w s = (if in_peerAddr w \<noteq> '''' \<and> peer_resolves then relay_down w s else [])"

subsection \<open>Keys\<close>

definition clamp :: "bytes \<Rightarrow> bytes" where
  "clamp k = (let k = k[0 := k ! 0 AND 248]; k = k[31 := k ! 31 AND 127] in k[31 := k ! 31 OR 64])"

definition GenerateKeyPair :: "(bytes \<Rightarrow> bytes option) \<Rightarrow> bytes option \<Rightarrow> wg_error + string \<times> string" where
  "GenerateKeyPair x25519 rnd =
     (case rnd of
        None \<Rightarrow> Inl WgRand
      | Some r \<Rightarrow>
          let privateKey = clamp r in
          case x25519 privateKey of
            None \<Rightarrow> Inl Curve
          | Some publicKey \<Rightarrow> Inr (base64 privateKey, base64 publicKey))"

definition GeneratePreSharedKey :: "bytes option \<Rightarrow> wg_error + string" where
  "GeneratePreSharedKey rnd = (case rnd of None \<Rightarrow> Inl WgRand | Some psk \<Rightarrow> Inr (base64 psk))"

subsection \<open>Configuration files\<close>

record WGNodeConfig =
  nc_PrivateKey :: string
  nc_PublicKey :: string
  nc_Address :: string
  nc_ListenPort :: string
  nc_PeerPublicKey :: string
  nc_PeerAllowedIPs :: string
  nc_PeerEndpoint :: string
  nc_PreSharedKey :: string
  nc_DNS :: string

record FullWGConfig =
  fc_Server :: WGNodeConfig
  fc_Client :: WGNodeConfig

definition GenerateFullConfig ::
    "(bytes \<Rightarrow> bytes option) \<Rightarrow> bytes option \<times> bytes option \<times> bytes option \<Rightarrow> string \<Rightarrow> string \<Rightarrow>
     wg_error + FullWGConfig" where
  "GenerateFullConfig x25519 rnds serverEndpoint tunnelSubnet =
     (let tunnelSubnet = (if tunnelSubnet = '''' then ''10.66.66'' else tunnelSubnet) in
      case rnds of (r1, r2, r3) \<Rightarrow>
      andThen (GenerateKeyPair x25519 r1) (\<lambda>(serverPriv, serverPub).
      andThen (GenerateKeyPair x25519 r2) (\<lambda>(clientPriv, clientPub).
      andThen (GeneratePreSharedKey r3) (\<lambda>psk.
        Inr \<lparr>fc_Server = \<lparr>nc_PrivateKey = serverPriv, nc_PublicKey = serverPub, nc_Address = tunnelSubnet @ ''.1/24'',
               nc_ListenPort = ''51820'', nc_PeerPublicKey = clientPub, nc_PeerAllowedIPs = tunnelSubnet @ ''.2/32'',
               nc_PeerEndpoint = '''', nc_PreSharedKey = psk, nc_DNS = ''''\<rparr>,
             fc_Client = \<lparr>nc_PrivateKey = clientPriv, nc_PublicKey = clientPub, nc_Address = tunnelSubnet @ ''.2/24'',
               nc_ListenPort = '''', nc_PeerPublicKey = serverPub, nc_PeerAllowedIPs = ''0.0.0.0/0'',
               nc_PeerEndpoint = serverEndpoint, nc_PreSharedKey = psk, nc_DNS = ''1.1.1.1, 8.8.8.8''\<rparr>\<rparr>))))"

definition ini_line :: "string \<Rightarrow> string \<Rightarrow> string" where
  "ini_line key val = key @ '' = '' @ val @ [nl]"

definition opt_line :: "string \<Rightarrow> string \<Rightarrow> string" where
  "opt_line key val = (if val \<noteq> '''' then ini_line key val else '''')"

definition ToINI :: "WGNodeConfig \<Rightarrow> string" where
  "ToINI n =
     ''[Interface]'' @ [nl] @ ini_line ''PrivateKey'' (nc_PrivateKey n) @ ini_line ''Address'' (nc_Address n) @
     opt_line ''ListenPort'' (nc_ListenPort n) @ opt_line ''DNS'' (nc_DNS n) @
     [nl] @ ''[Peer]'' @ [nl] @ ini_line ''PublicKey'' (nc_PeerPublicKey n) @
     ini_line ''AllowedIPs'' (nc_PeerAllowedIPs n) @
     opt_line ''Endpoint'' (nc_PeerEndpoint n) @ opt_line ''PresharedKey'' (nc_PreSharedKey n) @
     (if nc_PeerEndpoint n \<noteq> '''' then ''PersistentKeepalive = 25'' @ [nl] else '''')"

definition extractPort :: "string \<Rightarrow> string" where
  "extractPort addr = (case SplitHostPort addr of Inl _ \<Rightarrow> ''51820'' | Inr (_, port) \<Rightarrow> port)"

fun joinIPs :: "string list \<Rightarrow> string" where
  "joinIPs [] = ''''"
| "joinIPs [ip] = ip"
| "joinIPs (ip # ips) = ip @ '', '' @ joinIPs ips"

subsection \<open>Datagrams through the relay\<close>

abbreviation fits :: "Inner \<Rightarrow> Inner \<Rightarrow> bytes \<Rightarrow> bool" where
  "fits w v p \<equiv> int (length p) \<le> wg_limit w \<and> int (length p) \<le> wg_limit v \<and> length p < 65536"

lemma relay_frame_fits: "int (length p) \<le> wg_limit w \<Longrightarrow> relay_frame w p = len16 (length p) @ p"
  by (simp add: relay_frame_def)

lemma relay_down_frame:
  assumes "int (length p) \<le> wg_limit v" "length p < 65536"
  shows "relay_down v (len16 (length p) @ p @ rest) =
    (if p = [] then relay_down v rest else p # relay_down v rest)"
proof -
  have "readFull 2 (len16 (length p) @ p @ rest) = Inr (len16 (length p), p @ rest)"
    by (rule readFull_append) (simp add: len16_def)
  moreover have "int16 (len16 (length p) ! 0) (len16 (length p) ! 1) = length p"
    using assms(2) int16_len16 [of "length p"] by (simp add: len16_def)
  ultimately show ?thesis
    using assms(1) by (subst relay_down.simps) (simp add: Let_def readFull_append)
qed

lemma relay_down_cut:
  assumes "int (length p) \<le> wg_limit v" "length p < 65536" "k < 2 + length p"
  shows "relay_down v (take k (len16 (length p) @ p)) = []"
proof (cases "k < 2")
  case True
  then show ?thesis
    by (subst relay_down.simps) (simp add: readFull_def len16_def)
next
  case False
  then have t: "take k (len16 (length p) @ p) = len16 (length p) @ take (k - 2) p"
    by (simp add: len16_def take_Cons' numeral_2_eq_2)
  have "readFull 2 (len16 (length p) @ take (k - 2) p) = Inr (len16 (length p), take (k - 2) p)"
    by (rule readFull_append) (simp add: len16_def)
  moreover have "int16 (len16 (length p) ! 0) (len16 (length p) ! 1) = length p"
    using assms(2) int16_len16 [of "length p"] by (simp add: len16_def)
  moreover have "p \<noteq> []" "\<exists>e. readFull (length p) (take (k - 2) p) = Inl e"
    using assms(3) False by (auto simp: readFull_def)
  ultimately show ?thesis
    unfolding t using assms(1) by (subst relay_down.simps) (auto simp: Let_def)
qed

text \<open>
  C27: Two relays whose limits both admit the datagrams deliver them over a tunnel in order, without
  the empty ones; when the stream ends inside a datagram, that one is lost and the earlier ones stand.
\<close>

theorem wg_relay_delivers:
  assumes "\<forall>p \<in> set (q # ps). fits w v p" "k < 2 + length q"
  shows "relay_down v (relay_up w (map Datagram ps) @ take k (relay_frame w q)) = filter (\<lambda>p. p \<noteq> []) ps"
  using assms
proof (induction ps)
  case Nil
  then show ?case
    using relay_down_cut [of q v k] by (simp add: relay_frame_fits)
next
  case (Cons p ps)
  then show ?case
    using relay_down_frame [of p v] by (simp add: relay_frame_fits)
qed

definition wg_cfg :: "int \<Rightarrow> WgConfig" where
  "wg_cfg mtu = \<lparr>wc_ListenAddr = ''127.0.0.1:51820'', wc_PrivateKey = '''', wc_PublicKey = '''', wc_PeerKey = '''',
     wc_PeerAddr = ''10.0.0.1:51820'', wc_AllowedIPs = [], wc_MTU = mtu, wc_Keepalive = 0\<rparr>"

theorem wg_relay_delivers_witness:
  "relay_down (NewInner (wg_cfg 0))
     (relay_up (NewInner (wg_cfg 0)) (map Datagram [[4, 0], [], [1]]) @ take 3 (relay_frame (NewInner (wg_cfg 0)) [7, 7])) =
   [[4, 0], [1]]"
  using wg_relay_delivers [of "[7, 7]" "[[4, 0], [], [1]]" "NewInner (wg_cfg 0)" "NewInner (wg_cfg 0)" 3]
  by (simp add: wg_limit_def NewInner_def wg_cfg_def)

text \<open>
  With different MTUs the frames fall out of step: the receiver skips the header of a datagram that
  is too long for it and reads the datagram itself as frames.
\<close>

lemma relay_down_too_long:
  assumes "wg_limit v < int (length p)" "length p < 65536"
  shows "relay_down v (len16 (length p) @ p @ rest) = relay_down v (p @ rest)"
proof -
  have "readFull 2 (len16 (length p) @ p @ rest) = Inr (len16 (length p), p @ rest)"
    by (rule readFull_append) (simp add: len16_def)
  moreover have "int16 (len16 (length p) ! 0) (len16 (length p) ! 1) = length p"
    using assms(2) int16_len16 [of "length p"] by (simp add: len16_def)
  ultimately show ?thesis
    using assms(1) by (subst relay_down.simps) (simp add: Let_def)
qed

text \<open>A peer can so choose the contents of a datagram that another one appears at the far side.\<close>

lemma relay_desync_injects:
  assumes "wg_limit v < int (length (len16 (length q) @ q))" "length (len16 (length q) @ q) < 65536"
    and "q \<noteq> []" "int (length q) \<le> wg_limit v" "int (length (len16 (length q) @ q)) \<le> wg_limit w"
  shows "relay_down v (relay_up w [Datagram (len16 (length q) @ q)]) = [q]"
proof -
  have "relay_down v [] = []"
    by (subst relay_down.simps) (simp add: readFull_def)
  then show ?thesis
    using assms relay_down_too_long [of v "len16 (length q) @ q" "[]"] relay_down_frame [of q v "[]"]
    by (simp add: relay_frame_fits)
qed

subsection \<open>Restarting\<close>

text \<open>
  A stopped relay can be started again, but \<open>done\<close> stays closed: its loops end at once, and the
  next Stop panics.
\<close>

inductive wg_step :: "Inner \<Rightarrow> Inner \<Rightarrow> bool" where
  wg_start: "wg_Start resolved sock w = (r, w') \<Longrightarrow> wg_step w w'"
| wg_stop: "wg_Stop w = Inr (w', closed_socks) \<Longrightarrow> wg_step w w'"

lemma wg_stop_once:
  assumes "in_running w" "wg_Stop w = Inr (w1, socks)" "steps wg_step w1 w2"
  shows "in_done w2 \<and> (wg_Stop w2 = Inl CloseOfClosed \<longleftrightarrow> in_running w2) \<and> forwardLoop w2 ((in_done w2, r) # rs) = []"
proof -
  have "in_done w1"
    using assms(1,2) by (auto simp: wg_Stop_def split: if_splits)
  with assms(3) have "in_done w2"
    by (induction rule: steps.induct)
      (auto elim!: wg_step.cases simp: wg_Start_def wg_Stop_def split: if_splits option.splits)
  then show ?thesis
    by (simp add: wg_Stop_def)
qed

subsection \<open>Keys and files\<close>

lemma clamp_bits:
  assumes "length r = 32"
  shows "length (clamp r) = 32" "clamp r ! 0 AND 7 = 0" "clamp r ! 31 AND 128 = 0" "clamp r ! 31 AND 64 = 64"
    "clamp (clamp r) = clamp r"
proof -
  have w: "(x AND 248) AND 7 = 0" "(x AND 127 OR 64) AND 128 = 0" "(x AND 127 OR 64) AND 64 = 64"
    "(x AND 248) AND 248 = x AND 248" "(x AND 127 OR 64) AND 127 OR 64 = x AND 127 OR 64" for x :: byte
    by (simp_all add: bit.conj_disj_distrib2 and.assoc or.assoc)
  show "length (clamp r) = 32" "clamp r ! 0 AND 7 = 0" "clamp r ! 31 AND 128 = 0" "clamp r ! 31 AND 64 = 64"
    "clamp (clamp r) = clamp r"
    using assms w by (simp_all add: clamp_def Let_def list_update_swap)
qed

definition opt_lines :: "string \<Rightarrow> string \<Rightarrow> string list" where
  "opt_lines key val = (if val \<noteq> '''' then [key @ '' = '' @ val] else [])"

definition ini_lines :: "WGNodeConfig \<Rightarrow> string list" where
  "ini_lines n =
     [''[Interface]'', ''PrivateKey = '' @ nc_PrivateKey n, ''Address = '' @ nc_Address n] @
     opt_lines ''ListenPort'' (nc_ListenPort n) @ opt_lines ''DNS'' (nc_DNS n) @
     ['''', ''[Peer]'', ''PublicKey = '' @ nc_PeerPublicKey n, ''AllowedIPs = '' @ nc_PeerAllowedIPs n] @
     opt_lines ''Endpoint'' (nc_PeerEndpoint n) @ opt_lines ''PresharedKey'' (nc_PreSharedKey n) @
     (if nc_PeerEndpoint n \<noteq> '''' then [''PersistentKeepalive = 25''] else [])"

definition unlines :: "string list \<Rightarrow> string" where
  "unlines ls = concat (map (\<lambda>l. l @ [nl]) ls)"

lemma unlines_simps [simp]:
  "unlines [] = ''''" "unlines (l # ls) = l @ nl # unlines ls" "unlines (xs @ ys) = unlines xs @ unlines ys"
  by (simp_all add: unlines_def)

lemma unlines_opt [simp]: "unlines (opt_lines k v) = opt_line k v"
  by (simp add: opt_lines_def opt_line_def ini_line_def)

lemma ToINI_lines: "ToINI n = unlines (ini_lines n)"
  by (simp add: ToINI_def ini_lines_def ini_line_def)

lemma split_unlines: "(\<forall>l \<in> set ls. nl \<notin> set l) \<Longrightarrow> split_on nl (unlines ls) = ls @ ['''']"
  by (induction ls) (simp_all add: split_on_append)

definition one_line :: "WGNodeConfig \<Rightarrow> bool" where
  "one_line n \<longleftrightarrow> (\<forall>f \<in> {nc_PrivateKey, nc_Address, nc_ListenPort, nc_DNS, nc_PeerPublicKey, nc_PeerAllowedIPs,
     nc_PeerEndpoint, nc_PreSharedKey}. nl \<notin> set (f n))"

lemma ini_lines_one_line: "one_line n \<Longrightarrow> \<forall>l \<in> set (ini_lines n). nl \<notin> set l"
  by (auto simp: one_line_def ini_lines_def opt_lines_def nl_def split: if_splits)

lemma ToINI_split: "one_line n \<Longrightarrow> split_on nl (ToINI n) = ini_lines n @ ['''']"
  unfolding ToINI_lines by (rule split_unlines [OF ini_lines_one_line])

definition server_conf :: "string \<Rightarrow> string \<Rightarrow> string \<Rightarrow> string \<Rightarrow> string \<Rightarrow> WGNodeConfig" where
  "server_conf net priv pub peer psk = \<lparr>nc_PrivateKey = priv, nc_PublicKey = pub, nc_Address = net @ ''.1/24'',
     nc_ListenPort = ''51820'', nc_PeerPublicKey = peer, nc_PeerAllowedIPs = net @ ''.2/32'',
     nc_PeerEndpoint = '''', nc_PreSharedKey = psk, nc_DNS = ''''\<rparr>"

definition client_conf :: "string \<Rightarrow> string \<Rightarrow> string \<Rightarrow> string \<Rightarrow> string \<Rightarrow> string \<Rightarrow> WGNodeConfig" where
  "client_conf net ep priv pub peer psk = \<lparr>nc_PrivateKey = priv, nc_PublicKey = pub, nc_Address = net @ ''.2/24'',
     nc_ListenPort = '''', nc_PeerPublicKey = peer, nc_PeerAllowedIPs = ''0.0.0.0/0'',
     nc_PeerEndpoint = ep, nc_PreSharedKey = psk, nc_DNS = ''1.1.1.1, 8.8.8.8''\<rparr>"

text \<open>
  The two generated configurations belong together: each side's peer key is the public key of
  the other side's private key, the private keys are clamped, the pre-shared key is the same, and
  the server admits exactly the client's address. Each file consists of the lines for its fields and
  no others, with an endpoint and a keepalive on the client side only.
\<close>

theorem wg_config_pair_matches:
  assumes "length r1 = 32" "length r2 = 32" "x25519 (clamp r1) = Some p1" "x25519 (clamp r2) = Some p2"
    and "nl \<notin> set subnet" "nl \<notin> set ep" "ep \<noteq> ''''"
  shows "\<exists>c. GenerateFullConfig x25519 (Some r1, Some r2, Some r3) ep subnet = Inr c \<and>
    nc_PrivateKey (fc_Server c) = base64 (clamp r1) \<and> nc_PeerPublicKey (fc_Client c) = base64 p1 \<and>
    nc_PrivateKey (fc_Client c) = base64 (clamp r2) \<and> nc_PeerPublicKey (fc_Server c) = base64 p2 \<and>
    nc_PreSharedKey (fc_Server c) = nc_PreSharedKey (fc_Client c) \<and>
    (\<exists>a. nc_Address (fc_Client c) = a @ ''/24'' \<and> nc_PeerAllowedIPs (fc_Server c) = a @ ''/32'') \<and>
    split_on nl (ToINI (fc_Server c)) = ini_lines (fc_Server c) @ [''''] \<and>
    split_on nl (ToINI (fc_Client c)) = ini_lines (fc_Client c) @ [''''] \<and>
    (''PersistentKeepalive = 25'' \<in> set (ini_lines (fc_Client c))) \<and>
    nc_PeerEndpoint (fc_Server c) = ''''"
proof -
  define net where "net = (if subnet = '''' then ''10.66.66'' else subnet)"
  have net: "nl \<notin> set net"
    using assms(5) by (simp add: net_def nl_def)
  define c where "c = \<lparr>fc_Server = server_conf net (base64 (clamp r1)) (base64 p1) (base64 p2) (base64 r3),
    fc_Client = client_conf net ep (base64 (clamp r2)) (base64 p2) (base64 p1) (base64 r3)\<rparr>"
  have c: "GenerateFullConfig x25519 (Some r1, Some r2, Some r3) ep subnet = Inr c"
    using assms(3,4) by (simp add: GenerateFullConfig_def GenerateKeyPair_def GeneratePreSharedKey_def Let_def
        net_def c_def server_conf_def client_conf_def)
  note server = server_conf_def and client = client_conf_def
  have "one_line (fc_Server c)" "one_line (fc_Client c)"
    using net assms(6) base64_no_nl by (simp_all add: one_line_def c_def server client) (simp_all add: nl_def)
  then have "split_on nl (ToINI (fc_Server c)) = ini_lines (fc_Server c) @ ['''']"
    "split_on nl (ToINI (fc_Client c)) = ini_lines (fc_Client c) @ ['''']"
    by (simp_all only: ToINI_split)
  moreover have "''PersistentKeepalive = 25'' \<in> set (ini_lines (fc_Client c))"
    using assms(7) by (simp add: ini_lines_def c_def client)
  moreover have "\<exists>a. nc_Address (fc_Client c) = a @ ''/24'' \<and> nc_PeerAllowedIPs (fc_Server c) = a @ ''/32''"
    by (rule exI [of _ "net @ ''.2''"]) (simp add: c_def client server)
  ultimately show ?thesis
    using c by (simp add: c_def server client)
qed

theorem wg_config_pair_matches_witness:
  "\<exists>c. GenerateFullConfig (\<lambda>k. Some (rev k)) (Some (replicate 32 1), Some (replicate 32 2), Some [3])
      ''vpn.example:443'' '''' = Inr c \<and>
    nc_PeerPublicKey (fc_Client c) = base64 (rev (clamp (replicate 32 1)))"
  using wg_config_pair_matches [of "replicate 32 1" "replicate 32 2" "\<lambda>k. Some (rev k)"
      "rev (clamp (replicate 32 1))" "rev (clamp (replicate 32 2))" "''''" "''vpn.example:443''" "[3]"]
  by (auto simp: nl_def)

end
