(* ===== verification/Half_Duplex.thy ===== *)
theory Half_Duplex
  imports Main "HOL-Library.Multiset" "HOL-Library.Sublist" Go_Arith State_Machine
begin

text \<open>
  internal/antidpi/halfduplex.go: a session carried by two connections, one per direction. The
  server's goroutines communicate through three buffered channels; a step is one channel operation.
  A connection is a number. The state also records the connections in the order they were put into
  the channels and the pairs in the order they were formed, which no step reads.
\<close>

subsection \<open>A pair of connections as one\<close>

record 'c halfDuplexConn =
  hd_upload :: 'c
  hd_download :: 'c

text \<open>Which connection each operation of the pair goes to.\<close>

datatype conn_op = OpRead | OpWrite | OpLocalAddr | OpRemoteAddr | OpReadDeadline | OpWriteDeadline

fun hd_target :: "conn_op \<Rightarrow> 'c halfDuplexConn \<Rightarrow> 'c" where
  "hd_target OpRead c = hd_download c"
| "hd_target OpWrite c = hd_upload c"
| "hd_target OpLocalAddr c = hd_upload c"
| "hd_target OpRemoteAddr c = hd_upload c"
| "hd_target OpReadDeadline c = hd_download c"
| "hd_target OpWriteDeadline c = hd_upload c"

record HalfDuplexClient =
  hc_uploadConn :: "nat option"
  hc_downloadConn :: "nat option"
  hc_closed :: bool

definition NewHalfDuplexClient :: "nat option \<Rightarrow> nat option \<Rightarrow> HalfDuplexClient" where
  "NewHalfDuplexClient u d = \<lparr>hc_uploadConn = u, hc_downloadConn = d, hc_closed = False\<rparr>"

text \<open>\<open>fails\<close> tells which connections return an error from Close; the result is the first error.\<close>

definition Client_Close ::
    "(nat \<Rightarrow> bool) \<Rightarrow> HalfDuplexClient \<Rightarrow> nat option \<times> nat list \<times> HalfDuplexClient" where
  "Client_Close fails h =
     (if hc_closed h then (None, [], h)
      else
        let closes = (\<lambda>c. case c of None \<Rightarrow> [] | Some x \<Rightarrow> [x]);
            err = (\<lambda>c. case c of None \<Rightarrow> None | Some x \<Rightarrow> if fails x then Some x else None);
            err1 = err (hc_uploadConn h); err2 = err (hc_downloadConn h) in
        (if err1 \<noteq> None then err1 else err2, closes (hc_uploadConn h) @ closes (hc_downloadConn h),
         h\<lparr>hc_closed := True\<rparr>))"

subsection \<open>The server\<close>

datatype pair_loop = Idle | HasUpload nat | HasPair nat nat | Returned

record HalfDuplexServer =
  hs_uploadConns :: "nat list"
  hs_downloadConns :: "nat list"
  hs_paired :: "nat halfDuplexConn list"
  hs_done :: bool
  hs_loop :: pair_loop
  hs_accepted :: "nat halfDuplexConn list"
  hs_closed :: "nat list"
  hs_ups :: "nat list"
  hs_downs :: "nat list"
  hs_pairs :: "(nat \<times> nat) list"

definition NewHalfDuplexServer :: HalfDuplexServer where
  "NewHalfDuplexServer = \<lparr>hs_uploadConns = [], hs_downloadConns = [], hs_paired = [], hs_done = False,
     hs_loop = Idle, hs_accepted = [], hs_closed = [], hs_ups = [], hs_downs = [], hs_pairs = []\<rparr>"

definition server_pair :: "nat \<Rightarrow> nat \<Rightarrow> nat halfDuplexConn" where
  "server_pair upload download = \<lparr>hd_upload = download, hd_download = upload\<rparr>"

definition hd_Close :: "HalfDuplexServer \<Rightarrow> go_panic + HalfDuplexServer" where
  "hd_Close s = (if hs_done s then Inl CloseOfClosed else Inr (s\<lparr>hs_done := True\<rparr>))"

text \<open>A select with several ready cases takes any of them: each ready case is a step.\<close>

inductive hd_step :: "HalfDuplexServer \<Rightarrow> HalfDuplexServer \<Rightarrow> bool" where
  reg_up: "length (hs_uploadConns s) < 64 \<Longrightarrow>
    hd_step s (s\<lparr>hs_uploadConns := hs_uploadConns s @ [c], hs_ups := hs_ups s @ [c]\<rparr>)"
| reg_down: "length (hs_downloadConns s) < 64 \<Longrightarrow>
    hd_step s (s\<lparr>hs_downloadConns := hs_downloadConns s @ [c], hs_downs := hs_downs s @ [c]\<rparr>)"
| reg_done: "hs_done s \<Longrightarrow> hd_step s (s\<lparr>hs_closed := c # hs_closed s\<rparr>)"
| accept: "hs_paired s = p # ps \<Longrightarrow> hd_step s (s\<lparr>hs_paired := ps, hs_accepted := hs_accepted s @ [p]\<rparr>)"
| loop_upload: "hs_loop s = Idle \<Longrightarrow> hs_uploadConns s = u # us \<Longrightarrow>
    hd_step s (s\<lparr>hs_loop := HasUpload u, hs_uploadConns := us\<rparr>)"
| loop_download: "hs_loop s = HasUpload u \<Longrightarrow> hs_downloadConns s = d # ds \<Longrightarrow>
    hd_step s (s\<lparr>hs_loop := HasPair u d, hs_downloadConns := ds, hs_pairs := hs_pairs s @ [(u, d)]\<rparr>)"
| loop_timeout: "hs_loop s = HasUpload u \<Longrightarrow>
    hd_step s (s\<lparr>hs_loop := Idle, hs_closed := u # hs_closed s\<rparr>)"
| loop_paired: "hs_loop s = HasPair u d \<Longrightarrow> length (hs_paired s) < 32 \<Longrightarrow>
    hd_step s (s\<lparr>hs_loop := Idle, hs_paired := hs_paired s @ [server_pair u d]\<rparr>)"
| loop_done_idle: "hs_loop s = Idle \<Longrightarrow> hs_done s \<Longrightarrow> hd_step s (s\<lparr>hs_loop := Returned\<rparr>)"
| loop_done_upload: "hs_loop s = HasUpload u \<Longrightarrow> hs_done s \<Longrightarrow>
    hd_step s (s\<lparr>hs_loop := Returned, hs_closed := u # hs_closed s\<rparr>)"
| loop_done_pair: "hs_loop s = HasPair u d \<Longrightarrow> hs_done s \<Longrightarrow>
    hd_step s (s\<lparr>hs_loop := Returned, hs_closed := u # d # hs_closed s\<rparr>)"
| close: "hd_Close s = Inr s' \<Longrightarrow> hd_step s s'"

subsection \<open>What is paired with what\<close>

fun held_up :: "pair_loop \<Rightarrow> nat list" where
  "held_up (HasUpload u) = [u]"
| "held_up _ = []"

fun held_pair :: "pair_loop \<Rightarrow> (nat \<times> nat) list" where
  "held_pair (HasPair u d) = [(u, d)]"
| "held_pair _ = []"

definition pair_conns :: "(nat \<times> nat) list \<Rightarrow> nat halfDuplexConn list" where
  "pair_conns ps = map (\<lambda>(u, d). server_pair u d) ps"

definition inv_pairs :: "HalfDuplexServer \<Rightarrow> bool" where
  "inv_pairs s \<longleftrightarrow> (\<exists>out held. hs_pairs s = out @ held \<and> pair_conns out = hs_accepted s @ hs_paired s \<and>
     (if hs_loop s = Returned
      then length held \<le> 1 \<and> (\<forall>(u, d) \<in> set held. u \<in> set (hs_closed s) \<and> d \<in> set (hs_closed s))
      else held = held_pair (hs_loop s)))"

definition inv_downs :: "HalfDuplexServer \<Rightarrow> bool" where
  "inv_downs s \<longleftrightarrow> hs_downs s = map snd (hs_pairs s) @ hs_downloadConns s"

definition inv_ups :: "HalfDuplexServer \<Rightarrow> bool" where
  "inv_ups s \<longleftrightarrow> (\<exists>taken. hs_ups s = taken @ hs_uploadConns s \<and>
     subseq (map fst (hs_pairs s) @ held_up (hs_loop s)) taken \<and>
     set taken \<subseteq> fst ` set (hs_pairs s) \<union> set (held_up (hs_loop s)) \<union> set (hs_closed s))"

definition inv_caps :: "HalfDuplexServer \<Rightarrow> bool" where
  "inv_caps s \<longleftrightarrow> length (hs_uploadConns s) \<le> 64 \<and> length (hs_downloadConns s) \<le> 64 \<and>
     length (hs_paired s) \<le> 32 \<and> (hs_loop s = Returned \<longrightarrow> hs_done s)"

definition hd_inv :: "HalfDuplexServer \<Rightarrow> bool" where
  "hd_inv s \<longleftrightarrow> inv_pairs s \<and> inv_downs s \<and> inv_ups s \<and> inv_caps s"

lemma pair_conns_append [simp]: "pair_conns (xs @ ys) = pair_conns xs @ pair_conns ys"
  by (simp add: pair_conns_def)

lemma inv_pairs_step: "hd_step s s' \<Longrightarrow> inv_pairs s \<Longrightarrow> inv_pairs s'"
  unfolding inv_pairs_def
proof (induction rule: hd_step.induct)
  case (loop_paired s u d)
  then obtain out where "hs_pairs s = out @ [(u, d)]" "pair_conns out = hs_accepted s @ hs_paired s"
    by auto
  then show ?case
    by (intro exI [of _ "hs_pairs s"] exI [of _ "[]"]) (simp add: pair_conns_def)
next
  case (loop_done_pair s u d)
  then obtain out where "hs_pairs s = out @ [(u, d)]" "pair_conns out = hs_accepted s @ hs_paired s"
    by auto
  then show ?case
    by (intro exI [of _ out] exI [of _ "[(u, d)]"]) simp
next
  case (reg_done s c)
  then obtain out held where "hs_pairs s = out @ held" "pair_conns out = hs_accepted s @ hs_paired s"
    "if hs_loop s = Returned
     then length held \<le> 1 \<and> (\<forall>(u, d) \<in> set held. u \<in> set (hs_closed s) \<and> d \<in> set (hs_closed s))
     else held = held_pair (hs_loop s)"
    by blast
  then show ?case
    by (intro exI [of _ out] exI [of _ held]) auto
next
  case (loop_done_idle s)
  then show ?case
    by (intro exI [of _ "hs_pairs s"] exI [of _ "[]"]) simp
next
  case (loop_done_upload s u)
  then show ?case
    by (intro exI [of _ "hs_pairs s"] exI [of _ "[]"]) simp
next
  case (close s s')
  then have "hs_pairs s' = hs_pairs s" "hs_accepted s' = hs_accepted s" "hs_paired s' = hs_paired s"
    "hs_loop s' = hs_loop s" "hs_closed s' = hs_closed s"
    by (auto simp: hd_Close_def split: if_splits)
  with close.prems show ?case
    by (simp only:)
qed (auto split: if_splits)

lemma inv_downs_step: "hd_step s s' \<Longrightarrow> inv_downs s \<Longrightarrow> inv_downs s'"
  unfolding inv_downs_def by (induction rule: hd_step.induct) (auto simp: hd_Close_def split: if_splits)

lemma subseq_drop_last: "subseq (xs @ ys) zs \<Longrightarrow> subseq xs zs"
  using subseq_order.trans [of xs "xs @ ys" zs] subseq_rev_drop_many [of xs xs ys] by simp

lemma inv_ups_step: "hd_step s s' \<Longrightarrow> inv_ups s \<Longrightarrow> inv_ups s'"
  unfolding inv_ups_def
proof (induction rule: hd_step.induct)
  case (loop_upload s u us)
  then obtain taken where t: "hs_ups s = taken @ u # us" "subseq (map fst (hs_pairs s)) taken"
    "set taken \<subseteq> fst ` set (hs_pairs s) \<union> set (hs_closed s)"
    by auto
  then show ?case
    by (intro exI [of _ "taken @ [u]"]) (auto intro: list_emb_append_mono)
qed (auto simp: hd_Close_def split: if_splits dest: subseq_drop_last)

lemma inv_caps_step: "hd_step s s' \<Longrightarrow> inv_caps s \<Longrightarrow> inv_caps s'"
  unfolding inv_caps_def by (induction rule: hd_step.induct) (auto simp: hd_Close_def split: if_splits)

definition hd_init :: "HalfDuplexServer \<Rightarrow> bool" where
  "hd_init s \<longleftrightarrow> s = NewHalfDuplexServer"

interpretation hd_run: inductive_invariant hd_init hd_step hd_inv
proof
  show "hd_inv s" if "hd_init s" for s
    using that by (simp add: hd_init_def NewHalfDuplexServer_def hd_inv_def inv_pairs_def inv_downs_def inv_ups_def
        inv_caps_def pair_conns_def)
qed (auto simp: hd_inv_def intro: inv_pairs_step inv_downs_step inv_ups_step inv_caps_step)

text \<open>
  C22: In every interleaving the server pairs uploads and downloads by arrival alone: the n-th
  download that arrived goes with the n-th upload that did not time out, whichever clients they come
  from. The connections Accept returns are those pairs in that order, each upload taken is paired,
  held by the loop or closed, and the channels stay within their capacities.
\<close>

theorem halfduplex_pairs_by_arrival:
  assumes "reachable hd_init hd_step s"
  shows "prefix (map snd (hs_pairs s)) (hs_downs s) \<and> subseq (map fst (hs_pairs s)) (hs_ups s) \<and>
    prefix (hs_accepted s) (pair_conns (hs_pairs s)) \<and>
    set (hs_ups s) \<subseteq> set (hs_uploadConns s) \<union> fst ` set (hs_pairs s) \<union> set (held_up (hs_loop s)) \<union> set (hs_closed s) \<and>
    length (hs_uploadConns s) \<le> 64 \<and> length (hs_downloadConns s) \<le> 64 \<and> length (hs_paired s) \<le> 32"
proof -
  have inv: "hd_inv s"
    by (rule hd_run.reachable_inv [OF assms])
  then obtain out held where "hs_pairs s = out @ held" "pair_conns out = hs_accepted s @ hs_paired s"
    by (auto simp: hd_inv_def inv_pairs_def)
  then have "pair_conns (hs_pairs s) = hs_accepted s @ hs_paired s @ pair_conns held"
    by simp
  then have "prefix (hs_accepted s) (pair_conns (hs_pairs s))"
    by (simp add: prefix_def)
  moreover have "prefix (map snd (hs_pairs s)) (hs_downs s)"
    using inv by (simp add: hd_inv_def inv_downs_def)
  moreover obtain taken where t: "hs_ups s = taken @ hs_uploadConns s"
    "subseq (map fst (hs_pairs s)) taken"
    "set taken \<subseteq> fst ` set (hs_pairs s) \<union> set (held_up (hs_loop s)) \<union> set (hs_closed s)"
    using inv by (auto simp: hd_inv_def inv_ups_def dest: subseq_drop_last)
  moreover have "subseq (map fst (hs_pairs s)) (hs_ups s)"
    using t(1,2) by (simp add: subseq_rev_drop_many)
  ultimately show ?thesis
    using inv by (auto simp: hd_inv_def inv_caps_def)
qed

text \<open>Two clients whose connections arrive crosswise are given each other's downloads.\<close>

lemma halfduplex_crosses_clients:
  "\<exists>s. reachable hd_init hd_step s \<and> hs_ups s = [1, 2] \<and> hs_downs s = [20, 10] \<and> hs_pairs s = [(1, 20), (2, 10)]"
proof -
  let ?n = NewHalfDuplexServer
  let ?s = "?n\<lparr>hs_ups := [1, 2], hs_downs := [20, 10], hs_paired := [server_pair 1 20],
    hs_pairs := [(1, 20), (2, 10)], hs_loop := HasPair 2 10\<rparr>"
  have n: "hd_init ?n"
    by (simp add: hd_init_def)
  note def = NewHalfDuplexServer_def
  have r: "reachable hd_init hd_step ?n"
    using n by (rule reach_init)
  note go = reach_step [where init = hd_init and step = hd_step]
  have "reachable hd_init hd_step (?n\<lparr>hs_uploadConns := [1], hs_ups := [1]\<rparr>)"
    using go [OF r reg_up, of 1] by (simp add: def)
  note go [OF this reg_up, of 2]
  then have "reachable hd_init hd_step (?n\<lparr>hs_uploadConns := [1, 2], hs_ups := [1, 2]\<rparr>)"
    by (simp add: def)
  note go [OF this reg_down, of 20]
  then have "reachable hd_init hd_step (?n\<lparr>hs_uploadConns := [1, 2], hs_ups := [1, 2], hs_downloadConns := [20], hs_downs := [20]\<rparr>)"
    by (simp add: def)
  note go [OF this reg_down, of 10]
  then have "reachable hd_init hd_step (?n\<lparr>hs_uploadConns := [1, 2], hs_ups := [1, 2], hs_downloadConns := [20, 10], hs_downs := [20, 10]\<rparr>)"
    by (simp add: def)
  note go [OF this loop_upload, of 1 "[2]"]
  then have "reachable hd_init hd_step (?n\<lparr>hs_uploadConns := [2], hs_ups := [1, 2], hs_downloadConns := [20, 10],
      hs_downs := [20, 10], hs_loop := HasUpload 1\<rparr>)"
    by (simp add: def)
  note go [OF this loop_download, of 1 20 "[10]"]
  then have "reachable hd_init hd_step (?n\<lparr>hs_uploadConns := [2], hs_ups := [1, 2], hs_downloadConns := [10],
      hs_downs := [20, 10], hs_loop := HasPair 1 20, hs_pairs := [(1, 20)]\<rparr>)"
    by (simp add: def)
  note go [OF this loop_paired, of 1 20]
  then have "reachable hd_init hd_step (?n\<lparr>hs_uploadConns := [2], hs_ups := [1, 2], hs_downloadConns := [10],
      hs_downs := [20, 10], hs_pairs := [(1, 20)], hs_paired := [server_pair 1 20]\<rparr>)"
    by (simp add: def)
  note go [OF this loop_upload, of 2 "[]"]
  then have "reachable hd_init hd_step (?n\<lparr>hs_ups := [1, 2], hs_downloadConns := [10], hs_loop := HasUpload 2,
      hs_downs := [20, 10], hs_pairs := [(1, 20)], hs_paired := [server_pair 1 20]\<rparr>)"
    by (simp add: def)
  note go [OF this loop_download, of 2 10 "[]"]
  then have "reachable hd_init hd_step ?s"
    by (simp add: def)
  then show ?thesis
    by (intro exI [of _ ?s]) (simp add: def)
qed

theorem halfduplex_pairs_by_arrival_witness:
  "\<exists>s :: HalfDuplexServer. hs_pairs s = [(1, 20), (2, 10)] \<and> hs_downs s = [20, 10] \<and> prefix (map snd (hs_pairs s)) (hs_downs s)"
proof -
  obtain s :: HalfDuplexServer where s: "reachable hd_init hd_step s" "hs_downs s = [20, 10]" "hs_pairs s = [(1, 20), (2, 10)]"
    using halfduplex_crosses_clients by blast
  then show ?thesis
    using halfduplex_pairs_by_arrival [OF s(1)] by (intro exI [of _ s]) simp
qed

text \<open>Once the loop has returned, connections still queued stay open: no step takes them out.\<close>

lemma halfduplex_leaks_queued:
  assumes "steps hd_step s t" "hs_loop s = Returned"
  shows "hs_loop t = Returned \<and> prefix (hs_uploadConns s) (hs_uploadConns t) \<and>
    prefix (hs_downloadConns s) (hs_downloadConns t)"
  using assms
proof (induction rule: steps.induct)
  case (steps_more s s' s'')
  have "hs_loop s' = Returned \<and> prefix (hs_uploadConns s) (hs_uploadConns s') \<and>
      prefix (hs_downloadConns s) (hs_downloadConns s')"
    using steps_more.hyps(1) steps_more.prems
    by (cases rule: hd_step.cases) (auto simp: hd_Close_def split: if_splits)
  then show ?case
    using steps_more.IH prefix_order.trans by blast
qed simp

end
