(* ===== verification/Config_Sync.thy ===== *)
theory Config_Sync
  imports Aead Go_Arith
begin

text \<open>
  internal/configsync/sync.go: a server that hands out its configuration file and clients that pull
  it. Sealing with AES-GCM under the hash of the password is a pair of parameters with the contract
  \<open>aead_ok\<close>. The configuration file is its content and its modification time in milliseconds;
  HTTP exchanges are the answers of the other side's handlers, with nothing for a failed request.
\<close>

record Syncer =
  sy_role :: string
  sy_interval :: time
  sy_peerAddr :: string
  sy_listenAddr :: string
  sy_version :: int
  sy_file :: "(bytes \<times> int) option"
  sy_stopped :: bool
  sy_onChange :: bool
  sy_changes :: "bytes list"

definition NewSyncer :: "string \<Rightarrow> time \<Rightarrow> string \<Rightarrow> string \<Rightarrow> bool \<Rightarrow> (bytes \<times> int) option \<Rightarrow> Syncer" where
  "NewSyncer role interval peerAddr listenAddr onChange file = \<lparr>sy_role = role,
     sy_interval = (if interval = 0 then 5 * minute else interval), sy_peerAddr = peerAddr,
     sy_listenAddr = listenAddr, sy_version = 0, sy_file = file, sy_stopped = False, sy_onChange = onChange, sy_changes = []\<rparr>"

definition updateVersion :: "Syncer \<Rightarrow> Syncer" where
  "updateVersion s = (case sy_file s of None \<Rightarrow> s | Some (_, modTime) \<Rightarrow> s\<lparr>sy_version := modTime\<rparr>)"

text \<open>Start returns whether the server and the pull loop are started.\<close>

definition Sync_Start :: "Syncer \<Rightarrow> (bool \<times> bool) \<times> Syncer" where
  "Sync_Start s =
     ((sy_role s = ''push'' \<and> sy_listenAddr s \<noteq> '''', sy_role s = ''pull'' \<and> sy_peerAddr s \<noteq> ''''), updateVersion s)"

subsection \<open>Encryption\<close>

definition gcmNonceSize :: nat where "gcmNonceSize = 12"

datatype sync_error = SyncRand | SyncTooShort | SyncOpen | ReadFailed | EncryptFailed | PushFailed | PushRejected int

definition sync_encrypt :: "seal \<Rightarrow> bytes option \<Rightarrow> bytes \<Rightarrow> sync_error + bytes" where
  "sync_encrypt seal rnd plaintext = (case rnd of None \<Rightarrow> Inl SyncRand | Some nonce \<Rightarrow> Inr (nonce @ seal nonce plaintext))"

definition sync_decrypt :: "unseal \<Rightarrow> bytes \<Rightarrow> sync_error + bytes" where
  "sync_decrypt unseal ciphertext =
     (if length ciphertext < gcmNonceSize then Inl SyncTooShort
      else case unseal (take gcmNonceSize ciphertext) (drop gcmNonceSize ciphertext) of
        None \<Rightarrow> Inl SyncOpen | Some p \<Rightarrow> Inr p)"

subsection \<open>Handlers\<close>

definition handleVersion :: "Syncer \<Rightarrow> int" where
  "handleVersion s = sy_version s"

text \<open>The body of an error response is its message.\<close>

definition handlePull :: "seal \<Rightarrow> bytes option \<Rightarrow> Syncer \<Rightarrow> int \<times> bytes" where
  "handlePull seal rnd s =
     (case sy_file s of
        None \<Rightarrow> (404, bytes_of ''config not found'' @ [10])
      | Some (data, _) \<Rightarrow>
          (case sync_encrypt seal rnd data of
             Inl _ \<Rightarrow> (500, bytes_of ''encryption failed'' @ [10])
           | Inr encrypted \<Rightarrow> (200, encrypted)))"

text \<open>\<open>now\<close> is the time in milliseconds at which the file is written.\<close>

definition notified :: "Syncer \<Rightarrow> bytes \<Rightarrow> bytes list" where
  "notified s data = (if sy_onChange s then [data] else [])"

definition install :: "int \<Rightarrow> bytes \<Rightarrow> Syncer \<Rightarrow> Syncer" where
  "install now data s = (updateVersion (s\<lparr>sy_file := Some (data, now)\<rparr>))\<lparr>sy_changes := sy_changes s @ notified s data\<rparr>"

definition handlePush ::
    "unseal \<Rightarrow> int \<Rightarrow> bool \<Rightarrow> string \<Rightarrow> bytes option \<Rightarrow> Syncer \<Rightarrow> int \<times> Syncer" where
  "handlePush unseal now write_ok meth body s =
     (if meth \<noteq> ''POST'' then (405, s)
      else case body of
        None \<Rightarrow> (400, s)
      | Some b \<Rightarrow>
          (case sync_decrypt unseal b of
             Inl _ \<Rightarrow> (403, s)
           | Inr decrypted \<Rightarrow> if \<not> write_ok then (500, s) else (200, install now decrypted s)))"

subsection \<open>Pulling\<close>

text \<open>A version response that does not decode leaves the version at zero; statuses are not looked at.\<close>

definition pullConfig ::
    "unseal \<Rightarrow> int \<Rightarrow> bool \<Rightarrow> int option option \<Rightarrow> bytes option \<Rightarrow> Syncer \<Rightarrow> Syncer" where
  "pullConfig unseal now write_ok versionResp pullResp s =
     (case versionResp of
        None \<Rightarrow> s
      | Some v \<Rightarrow>
          let version = (case v of None \<Rightarrow> 0 | Some n \<Rightarrow> n) in
          if version \<le> sy_version s then s
          else case pullResp of
            None \<Rightarrow> s
          | Some body \<Rightarrow>
              (case sync_decrypt unseal body of
                 Inl _ \<Rightarrow> s
               | Inr decrypted \<Rightarrow> if \<not> write_ok then s else install now decrypted s))"

text \<open>One round of a client against a server.\<close>

definition pull_round ::
    "seal \<Rightarrow> unseal \<Rightarrow> bytes option \<Rightarrow> int \<Rightarrow> bool \<Rightarrow> Syncer \<Rightarrow> Syncer \<Rightarrow> Syncer" where
  "pull_round seal unseal rnd now write_ok server client =
     pullConfig unseal now write_ok (Some (Some (handleVersion server))) (Some (snd (handlePull seal rnd server))) client"

subsection \<open>Pushing\<close>

text \<open>
  The request is built on a nil reader and the encrypted file is dropped: \<open>post\<close> is what sending a
  body gives, the status of the response or nothing when the request fails.
\<close>

definition PushToClient ::
    "seal \<Rightarrow> bytes option \<Rightarrow> (bytes option \<Rightarrow> int option) \<Rightarrow> Syncer \<Rightarrow> sync_error + unit" where
  "PushToClient seal rnd post s =
     (case sy_file s of
        None \<Rightarrow> Inl ReadFailed
      | Some (data, _) \<Rightarrow>
          (case sync_encrypt seal rnd data of
             Inl _ \<Rightarrow> Inl EncryptFailed
           | Inr encrypted \<Rightarrow>
               (case post None of
                  None \<Rightarrow> Inl PushFailed
                | Some status \<Rightarrow> if status \<noteq> 200 then Inl (PushRejected status) else Inr ())))"

definition Sync_Stop :: "Syncer \<Rightarrow> go_panic + Syncer" where
  "Sync_Stop s = (if sy_stopped s then Inl CloseOfClosed else Inr (s\<lparr>sy_stopped := True\<rparr>))"

subsection \<open>What a pull does\<close>

lemma sync_roundtrip:
  "aead_ok seal unseal \<Longrightarrow> length nonce = gcmNonceSize \<Longrightarrow> sync_decrypt unseal (nonce @ seal nonce p) = Inr p"
  by (simp add: sync_decrypt_def aead_okD)

lemma install_simps [simp]:
  "sy_file (install now d s) = Some (d, now)" "sy_version (install now d s) = now"
  "sy_changes (install now d s) = sy_changes s @ notified s d" "notified (install now d s) = notified s"
  by (simp_all add: install_def updateVersion_def notified_def fun_eq_iff)

text \<open>
  C23: A round copies the server's file exactly when the version the server last recorded is greater
  than the client's, which is the time at which the client last wrote its own copy; otherwise the
  client keeps what it has. A second round with no change at the server does nothing, unless the
  client's clock is behind the recorded version: then every round installs and reports the file anew.
\<close>

theorem config_pull_exact:
  assumes "aead_ok seal unseal" "length nonce = gcmNonceSize" "length nonce' = gcmNonceSize"
    and "sy_file server = Some (data, t)"
    and "c1 = pull_round seal unseal (Some nonce) now True server client"
    and "c2 = pull_round seal unseal (Some nonce') later True server c1"
  shows "if sy_version server \<le> sy_version client then c1 = client \<and> c2 = client
    else sy_file c1 = Some (data, now) \<and> sy_version c1 = now \<and> sy_changes c1 = sy_changes client @ notified client data \<and>
      (if sy_version server \<le> now then c2 = c1 else sy_changes c2 = sy_changes client @ notified client data @ notified client data)"
  using assms(4-6) sync_roundtrip [OF assms(1,2)] sync_roundtrip [OF assms(1,3)]
  by (simp add: pull_round_def pullConfig_def handleVersion_def handlePull_def sync_encrypt_def Let_def)

definition sync_server :: Syncer where
  "sync_server = (NewSyncer ''push'' 0 '''' '':9000'' True (Some ([1, 2], 1000)))\<lparr>sy_version := 1000\<rparr>"

definition sync_client :: Syncer where
  "sync_client = NewSyncer ''pull'' 0 ''10.0.0.1:9000'' '''' True None"

theorem config_pull_exact_witness:
  "sy_file (pull_round plain_seal plain_unseal (Some (replicate 12 0)) 2000 True sync_server sync_client) = Some ([1, 2], 2000)"
  using config_pull_exact [OF plain_aead_ok, of "replicate 12 0" "replicate 12 0" sync_server "[1, 2]" 1000 _ 2000 sync_client _ 3000, OF _ _ _ refl refl]
  by (simp add: gcmNonceSize_def sync_server_def sync_client_def NewSyncer_def)

subsection \<open>Edits and old copies\<close>

text \<open>The version is read from the file at Start only: an edit of a running server is not announced.\<close>

lemma edit_unnoticed:
  assumes "sy_version server \<le> sy_version client"
  shows "pull_round seal unseal rnd now ok (server\<lparr>sy_file := f\<rparr>) client = client"
  using assms by (simp add: pull_round_def pullConfig_def handleVersion_def)

text \<open>Even after a restart, an edit older than the client's last write stays unnoticed.\<close>

lemma older_edit_unnoticed:
  assumes "sy_file server = Some (data, t)" "t \<le> sy_version client"
  shows "pull_round seal unseal rnd now ok (snd (Sync_Start server)) client = client"
  using assms by (simp add: pull_round_def pullConfig_def handleVersion_def Sync_Start_def updateVersion_def)

text \<open>
  Whoever once fetched the configuration from a server, which needs no password, can later
  install that old copy on any syncer with the same password by posting it back, whatever
  configuration the syncer has by then.
\<close>

theorem config_rollback_accepted:
  assumes "aead_ok seal unseal" "length nonce = gcmNonceSize" "sy_file old = Some (data, t)"
    and "handlePull seal (Some nonce) old = (200, body)"
  shows "\<exists>s'. handlePush unseal now True ''POST'' (Some body) s = (200, s') \<and>
    sy_file s' = Some (data, now) \<and> sy_version s' = now \<and> sy_changes s' = sy_changes s @ notified s data"
  using assms(3,4) sync_roundtrip [OF assms(1,2)]
  by (auto simp: handlePull_def sync_encrypt_def handlePush_def)

theorem config_rollback_accepted_witness:
  "\<exists>body s'. handlePull plain_seal (Some (replicate 12 0)) sync_server = (200, body) \<and>
     handlePush plain_unseal 5000 True ''POST'' (Some body) (sync_server\<lparr>sy_file := Some ([9], 4000)\<rparr>) = (200, s') \<and>
     sy_file s' = Some ([1, 2], 5000)"
proof -
  let ?body = "snd (handlePull plain_seal (Some (replicate 12 0)) sync_server)"
  have fl: "sy_file sync_server = Some ([1, 2], 1000)"
    by (simp add: sync_server_def NewSyncer_def)
  then have body: "handlePull plain_seal (Some (replicate 12 0)) sync_server = (200, ?body)"
    by (simp add: handlePull_def sync_encrypt_def)
  have "length (replicate 12 (0 :: byte)) = gcmNonceSize"
    by (simp add: gcmNonceSize_def)
  from config_rollback_accepted [OF plain_aead_ok this fl body, of 5000 "sync_server\<lparr>sy_file := Some ([9], 4000)\<rparr>"]
  show ?thesis
    using body by blast
qed

text \<open>What a push achieves does not depend on the file it is meant to deliver.\<close>

lemma push_ignores_file:
  "PushToClient seal (Some n) post (s\<lparr>sy_file := Some f\<rparr>) = PushToClient seal (Some n) post (s\<lparr>sy_file := Some g\<rparr>)"
  by (cases f; cases g) (simp add: PushToClient_def sync_encrypt_def)

end
