(* ===== verification/Management.thy ===== *)
theory Management
  imports Users Security Go_Base64
begin

text \<open>
  The HTTP interfaces over users and security: internal/api/api.go, internal/web/panel.go and
  internal/subscription/subscription.go. A request is the parts the handlers read; its body is what
  the JSON decoder makes of it. A handler gives a status, or panics on a nil manager, which the HTTP
  server turns into a dropped connection. Response bodies are modelled for the subscription service
  only, headers not at all.
\<close>

record user_request =
  ur_ID :: string
  ur_Name :: string
  ur_MaxTraffic :: int
  ur_ExpiresAt :: string

record request =
  rq_method :: string
  rq_path :: string
  rq_remote :: string
  rq_keyHeader :: string
  rq_keyQuery :: string
  rq_basic :: "(string \<times> string) option"
  rq_user :: "user_request option"
  rq_id :: "string option"
  rq_ip :: "string option"

datatype outcome = Status int | Panicked

text \<open>What the user manager depends on while it serves a request.\<close>

record 'f user_env =
  ue_enc :: "PersistedUser list \<Rightarrow> 'f"
  ue_write :: bool
  ue_order :: "string list"
  ue_created :: string
  ue_now :: time

definition new_user :: "user_request \<Rightarrow> string \<Rightarrow> User" where
  "new_user r shortID = fresh_user \<lparr>pu_ID = ur_ID r, pu_Name = ur_Name r, pu_Password = '''', pu_ShortID = shortID,
     pu_MaxTraffic = ur_MaxTraffic r, pu_ExpiresAt = ur_ExpiresAt r, pu_Enabled = True, pu_CreatedAt = ''''\<rparr>"

subsection \<open>The REST interface\<close>

record 'f api_server =
  ap_key :: string
  ap_users :: "'f Users.Manager option"
  ap_security :: "Security.Manager option"

type_synonym 'f api_handler = "'f user_env \<Rightarrow> request \<Rightarrow> 'f api_server \<Rightarrow> outcome \<times> 'f api_server"

definition presented_key :: "request \<Rightarrow> string" where
  "presented_key r = (if rq_keyHeader r = '''' then rq_keyQuery r else rq_keyHeader r)"

definition auth :: "'f api_handler \<Rightarrow> 'f api_handler" where
  "auth h e r s =
     (if ap_key s \<noteq> '''' then
        if presented_key r \<noteq> ap_key s then (Status 401, s) else h e r s
      else h e r s)"

definition handleListUsers :: "'f api_handler" where
  "handleListUsers e r s = (if ap_users s = None then (Status 400, s) else (Status 200, s))"

definition audit_user :: "'f user_env \<Rightarrow> request \<Rightarrow> string \<Rightarrow> string \<Rightarrow> string \<Rightarrow> 'f api_server \<Rightarrow> outcome \<times> 'f api_server" where
  "audit_user e r event uid details s =
     (case ap_security s of
        None \<Rightarrow> (Panicked, s)
      | Some sec \<Rightarrow>
          (Status 200, s\<lparr>ap_security := Some (Audit (ue_now e) event (rq_remote r) uid details True sec)\<rparr>))"

definition handleCreateUser :: "'f api_handler" where
  "handleCreateUser e r s =
     (if rq_method r \<noteq> ''POST'' then (Status 405, s)
      else case rq_user r of
        None \<Rightarrow> (Status 400, s)
      | Some u \<Rightarrow>
          (case ap_users s of
             None \<Rightarrow> (Panicked, s)
           | Some m \<Rightarrow>
               (case AddUser (ue_enc e) (ue_write e) (ue_order e) (ue_created e) (new_user u '''') m of
                  (Some _, m') \<Rightarrow> (Status 400, s\<lparr>ap_users := Some m'\<rparr>)
                | (None, m') \<Rightarrow>
                    audit_user e r ''user_created'' (ur_ID u) ''User created via API'' (s\<lparr>ap_users := Some m'\<rparr>))))"

text \<open>A body that does not decode leaves the ID empty.\<close>

definition handleDeleteUser :: "'f api_handler" where
  "handleDeleteUser e r s =
     (if rq_method r \<noteq> ''POST'' then (Status 405, s)
      else
        let uid = (case rq_id r of None \<Rightarrow> '''' | Some i \<Rightarrow> i) in
        case ap_users s of
          None \<Rightarrow> (Panicked, s)
        | Some m \<Rightarrow>
            (case RemoveUser (ue_enc e) (ue_write e) (ue_order e) uid m of
               (Some _, m') \<Rightarrow> (Status 400, s\<lparr>ap_users := Some m'\<rparr>)
             | (None, m') \<Rightarrow> audit_user e r ''user_deleted'' uid ''User deleted via API'' (s\<lparr>ap_users := Some m'\<rparr>)))"

definition handleBlacklist :: "'f api_handler" where
  "handleBlacklist e r s =
     (if rq_method r = ''POST'' then
        (case ap_security s of
           None \<Rightarrow> (Panicked, s)
         | Some sec \<Rightarrow> (Status 200, s\<lparr>ap_security :=
             Some (AddToBlacklist (case rq_ip r of None \<Rightarrow> '''' | Some ip \<Rightarrow> ip) sec)\<rparr>))
      else (Status 200, s))"

definition answer_ok :: "'f api_handler" where
  "answer_ok e r s = (Status 200, s)"

definition api_routes :: "(string \<times> 'f api_handler) list" where
  "api_routes =
     [(''/api/v1/status'', auth answer_ok), (''/api/v1/metrics'', auth answer_ok), (''/api/v1/health'', answer_ok),
      (''/api/v1/users'', auth handleListUsers), (''/api/v1/users/create'', auth handleCreateUser),
      (''/api/v1/users/delete'', auth handleDeleteUser), (''/api/v1/users/toggle'', auth answer_ok),
      (''/api/v1/security/audit'', auth answer_ok), (''/api/v1/security/blacklist'', auth handleBlacklist),
      (''/api/v1/control/restart'', auth answer_ok)]"

definition serve_api :: "'f api_handler" where
  "serve_api e r s =
     (if rq_method r = ''OPTIONS'' then (Status 200, s)
      else case map_of api_routes (rq_path r) of None \<Rightarrow> (Status 404, s) | Some h \<Rightarrow> h e r s)"

subsection \<open>The web panel\<close>

record 'f panel =
  pn_adminUser :: string
  pn_adminPass :: string
  pn_users :: "'f Users.Manager option"

type_synonym 'f panel_handler = "'f user_env \<Rightarrow> request \<Rightarrow> 'f panel \<Rightarrow> outcome \<times> 'f panel"

definition authMiddleware :: "'f panel_handler \<Rightarrow> 'f panel_handler" where
  "authMiddleware h e r p =
     (if pn_adminUser p \<noteq> '''' \<and> pn_adminPass p \<noteq> '''' then
        (case rq_basic r of
           None \<Rightarrow> (Status 401, p)
         | Some (u, w) \<Rightarrow> if u \<noteq> pn_adminUser p \<or> w \<noteq> pn_adminPass p then (Status 401, p) else h e r p)
      else h e r p)"

text \<open>\<open>%x\<close> of the nanoseconds modulo 0xFFFFFFFF.\<close>

definition GenerateShortID :: "nat \<Rightarrow> string" where
  "GenerateShortID unixNano = hex (unixNano mod 4294967295)"

definition handleAddUser :: "'f panel_handler" where
  "handleAddUser e r p =
     (if rq_method r \<noteq> ''POST'' then (Status 405, p)
      else case rq_user r of
        None \<Rightarrow> (Status 400, p)
      | Some u \<Rightarrow>
          if ur_ID u = '''' \<or> ur_Name u = '''' then (Status 400, p)
          else case pn_users p of
            None \<Rightarrow> (Panicked, p)
          | Some m \<Rightarrow>
              (case AddUser (ue_enc e) (ue_write e) (ue_order e) (ue_created e)
                      (new_user u (GenerateShortID (nat (ue_now e)))) m of
                 (Some _, m') \<Rightarrow> (Status 400, p\<lparr>pn_users := Some m'\<rparr>)
               | (None, m') \<Rightarrow> (Status 200, p\<lparr>pn_users := Some m'\<rparr>)))"

definition handleRemoveUser :: "'f panel_handler" where
  "handleRemoveUser e r p =
     (if rq_method r \<noteq> ''POST'' then (Status 405, p)
      else case rq_id r of
        None \<Rightarrow> (Status 400, p)
      | Some uid \<Rightarrow>
          (case pn_users p of
             None \<Rightarrow> (Panicked, p)
           | Some m \<Rightarrow>
               (case RemoveUser (ue_enc e) (ue_write e) (ue_order e) uid m of
                  (Some _, m') \<Rightarrow> (Status 400, p\<lparr>pn_users := Some m'\<rparr>)
                | (None, m') \<Rightarrow> (Status 200, p\<lparr>pn_users := Some m'\<rparr>))))"

definition handleStats :: "'f panel_handler" where
  "handleStats e r p = (if pn_users p = None then (Panicked, p) else (Status 200, p))"

definition page_ok :: "'f panel_handler" where
  "page_ok e r p = (Status 200, p)"

definition panel_routes :: "(string \<times> 'f panel_handler) list" where
  "panel_routes = [(''/api/status'', page_ok), (''/api/users'', page_ok), (''/api/users/add'', handleAddUser),
     (''/api/users/remove'', handleRemoveUser), (''/api/stats'', handleStats)]"

text \<open>Every other path belongs to the dashboard.\<close>

definition serve_panel :: "'f panel_handler" where
  "serve_panel e r = authMiddleware (case map_of panel_routes (rq_path r) of None \<Rightarrow> page_ok | Some h \<Rightarrow> h) e r"

subsection \<open>Subscriptions\<close>

record sub_service =
  ss_addr :: string
  ss_serverIP :: string
  ss_serverPort :: string
  ss_transport :: string

definition generateLinks :: "sub_service \<Rightarrow> PersistedUser \<Rightarrow> string list" where
  "generateLinks s u =
     [''ipshadowt://'' @ pu_ID u @ ''@'' @ ss_serverIP s @ '':'' @ ss_serverPort s @ ''?transport='' @ ss_transport s @
        ''&shortid='' @ pu_ShortID u @ ''#'' @ pu_Name u,
      ''socks5://127.0.0.1:1080#'' @ pu_Name u @ ''-SOCKS5'']"

definition generateClashConfig :: "PersistedUser \<Rightarrow> string" where
  "generateClashConfig u = concat (map (\<lambda>l. l @ [nl])
     [''# iPShadowT - Clash Config for '' @ pu_Name u, ''# Auto-generated'', '''', ''proxies:'',
      ''  - name: '' @ [CHR 0x22] @ pu_Name u @ [CHR 0x22], ''    type: socks5'', ''    server: 127.0.0.1'', ''    port: 1080'', '''',
      ''proxy-groups:'', ''  - name: '' @ [CHR 0x22] @ ''iPShadowT'' @ [CHR 0x22], ''    type: select'', ''    proxies:'',
      ''      - '' @ [CHR 0x22] @ pu_Name u @ [CHR 0x22], ''      - DIRECT'', '''',
      ''rules:'', ''  - GEOIP,IR,DIRECT'', ''  - MATCH,iPShadowT''])"

text \<open>\<open>strings.TrimPrefix\<close> of the path the multiplexer has already matched.\<close>

definition trim_prefix :: "string \<Rightarrow> string \<Rightarrow> string" where
  "trim_prefix s p = (if has_prefix s p then drop (length p) s else s)"

definition join_nl :: "string list \<Rightarrow> string" where
  "join_nl ls = (case ls of [] \<Rightarrow> '''' | l # ls \<Rightarrow> l @ concat (map (\<lambda>x. nl # x) ls))"

definition handleSubscription :: "sub_service \<Rightarrow> 'f Users.Manager \<Rightarrow> string \<Rightarrow> int \<times> string" where
  "handleSubscription s m path =
     (let userID = trim_prefix path ''/sub/'' in
      if userID = '''' then (400, ''User ID required'')
      else case GetUser userID m of
        None \<Rightarrow> (404, ''Not found'')
      | Some u \<Rightarrow>
          if \<not> pu_Enabled (us_data u) then (403, ''User disabled'')
          else (200, base64 (bytes_of (join_nl (generateLinks s (us_data u))))))"

definition handleClash :: "sub_service \<Rightarrow> 'f Users.Manager \<Rightarrow> string \<Rightarrow> int \<times> string" where
  "handleClash s m path =
     (let userID = trim_prefix path ''/clash/'' in
      if userID = '''' then (400, ''User ID required'')
      else case GetUser userID m of
        None \<Rightarrow> (404, ''Not found'')
      | Some u \<Rightarrow> (200, generateClashConfig (us_data u)))"

text \<open>A user who is disabled is refused the one document and still served the other.\<close>

lemma trim_prefix_append [simp]: "trim_prefix (p @ s) p = s"
  by (simp add: trim_prefix_def has_prefix_def)

lemma disabled_user_served:
  assumes "GetUser uid m = Some u" "\<not> pu_Enabled (us_data u)" "uid \<noteq> ''''"
  shows "fst (handleSubscription s m (''/sub/'' @ uid)) = 403" "fst (handleClash s m (''/clash/'' @ uid)) = 200"
  using assms trim_prefix_append [of "''/sub/''" uid] trim_prefix_append [of "''/clash/''" uid]
  by (simp_all add: handleSubscription_def handleClash_def Let_def del: trim_prefix_append)

subsection \<open>What the credentials guard\<close>

lemma reading_handlers:
  "snd (answer_ok e r s) = s" "snd (handleListUsers e r s) = s"
  by (simp_all add: answer_ok_def handleListUsers_def)

lemma posting_handlers:
  assumes "rq_method r \<noteq> ''POST''"
  shows "snd (handleCreateUser e r s) = s" "snd (handleDeleteUser e r s) = s" "snd (handleBlacklist e r s) = s"
  using assms by (simp_all add: handleCreateUser_def handleDeleteUser_def handleBlacklist_def)

lemma auth_changes:
  "snd (auth h e r s) \<noteq> s \<longrightarrow> (ap_key s = '''' \<or> presented_key r = ap_key s) \<and> snd (h e r s) \<noteq> s"
  by (simp add: auth_def)

text \<open>
  C16: The REST interface changes users or access lists only for a POST to one of three paths, and,
  when an API key is configured, only if the request carries that key; with a key configured, a
  request without it gets 401 from every known path but the health check.
\<close>

theorem api_changes_authorised:
  fixes s :: "'f api_server"
  assumes "serve_api e r s = (out, s')"
  shows "(s' \<noteq> s \<longrightarrow> rq_method r = ''POST'' \<and> (ap_key s = '''' \<or> presented_key r = ap_key s) \<and>
      rq_path r \<in> {''/api/v1/users/create'', ''/api/v1/users/delete'', ''/api/v1/security/blacklist''}) \<and>
    (ap_key s \<noteq> '''' \<longrightarrow> presented_key r \<noteq> ap_key s \<longrightarrow> rq_method r \<noteq> ''OPTIONS'' \<longrightarrow>
      rq_path r \<noteq> ''/api/v1/health'' \<longrightarrow> out = Status 401 \<or> (rq_path r \<notin> fst ` set (api_routes :: (string \<times> 'f api_handler) list) \<and> out = Status 404))"
proof (cases "rq_method r = ''OPTIONS''")
  case True
  then show ?thesis
    using assms by (simp add: serve_api_def)
next
  case no_opts: False
  show ?thesis
  proof (cases "map_of (api_routes :: (string \<times> 'f api_handler) list) (rq_path r)")
    case None
    then show ?thesis
      using assms no_opts None [unfolded map_of_eq_None_iff] by (simp add: serve_api_def)
  next
    case (Some h)
    then have h: "h e r s = (out, s')"
      using assms no_opts by (simp add: serve_api_def)
    have "rq_path r = ''/api/v1/health'' \<and> h = answer_ok \<or>
        (\<exists>g. h = auth g \<and> (g \<in> {answer_ok, handleListUsers} \<or>
          g \<in> {handleCreateUser, handleDeleteUser, handleBlacklist} \<and>
          rq_path r \<in> {''/api/v1/users/create'', ''/api/v1/users/delete'', ''/api/v1/security/blacklist''}))"
      using map_of_SomeD [OF Some] unfolding api_routes_def by auto
    then show ?thesis
    proof (elim disjE exE conjE)
      fix g
      assume g: "h = auth g" "g \<in> {answer_ok, handleListUsers}"
      then have "s' = s"
        using h auth_changes [of g e r s] by (auto simp: reading_handlers)
      then show ?thesis
        using h g(1) by (simp add: auth_def split: if_splits)
    next
      fix g
      assume g: "h = auth g" "g \<in> {handleCreateUser, handleDeleteUser, handleBlacklist}"
        "rq_path r \<in> {''/api/v1/users/create'', ''/api/v1/users/delete'', ''/api/v1/security/blacklist''}"
      have "s' \<noteq> s \<longrightarrow> rq_method r = ''POST'' \<and> (ap_key s = '''' \<or> presented_key r = ap_key s)"
        using h g(1,2) auth_changes [of g e r s]
        by (cases "rq_method r = ''POST''") (auto simp: posting_handlers)
      then show ?thesis
        using h g(1,3) by (simp add: auth_def split: if_splits)
    qed (use h in \<open>auto simp: answer_ok_def\<close>)
  qed
qed

definition sample_api :: "PersistedUser list api_server" where
  "sample_api = \<lparr>ap_key = ''k'', ap_users = None, ap_security = Some NewManager\<rparr>"

definition block_request :: "string \<Rightarrow> request" where
  "block_request key = \<lparr>rq_method = ''POST'', rq_path = ''/api/v1/security/blacklist'', rq_remote = ''1.2.3.4:5'',
     rq_keyHeader = key, rq_keyQuery = '''', rq_basic = None, rq_user = None, rq_id = None, rq_ip = Some ''6.6.6.6''\<rparr>"

definition sample_env :: "PersistedUser list user_env" where
  "sample_env = \<lparr>ue_enc = (\<lambda>ds. ds), ue_write = True, ue_order = [], ue_created = '''', ue_now = 0\<rparr>"

theorem api_changes_authorised_witness:
  "serve_api sample_env (block_request ''x'') sample_api = (Status 401, sample_api) \<and>
   snd (serve_api sample_env (block_request ''k'') sample_api) \<noteq> sample_api"
proof -
  obtain out s' where run: "serve_api sample_env (block_request ''x'') sample_api = (out, s')"
    by (cases "serve_api sample_env (block_request ''x'') sample_api")
  have "rq_path (block_request ''x'') \<in> fst ` set (api_routes :: (string \<times> PersistedUser list api_handler) list)"
    by (simp add: api_routes_def block_request_def)
  then have "out = Status 401" "s' = sample_api"
    using api_changes_authorised [OF run]
    by (auto simp: block_request_def sample_api_def presented_key_def)
  moreover have "snd (serve_api sample_env (block_request ''k'') sample_api) \<noteq> sample_api"
    by (simp add: serve_api_def api_routes_def block_request_def sample_api_def auth_def presented_key_def
        handleBlacklist_def AddToBlacklist_def NewManager_def)
  ultimately show ?thesis
    using run by simp
qed

text \<open>
  The panel asks for credentials only when a user name and a password are both configured: with
  either of them empty, anyone may change the users.
\<close>

lemma panel_changes_authorised:
  fixes p :: "'f panel"
  assumes "serve_panel e r p = (out, p')" "p' \<noteq> p"
  shows "rq_method r = ''POST'' \<and> rq_path r \<in> {''/api/users/add'', ''/api/users/remove''} \<and>
    (pn_adminUser p \<noteq> '''' \<longrightarrow> pn_adminPass p \<noteq> '''' \<longrightarrow> rq_basic r = Some (pn_adminUser p, pn_adminPass p))"
proof -
  have h: "authMiddleware h e r p = (out, p') \<Longrightarrow> p' \<noteq> p \<Longrightarrow> snd (h e r p) \<noteq> p \<and>
      (pn_adminUser p \<noteq> '''' \<longrightarrow> pn_adminPass p \<noteq> '''' \<longrightarrow> rq_basic r = Some (pn_adminUser p, pn_adminPass p))" for h
    by (auto simp: authMiddleware_def split: if_splits option.splits prod.splits)
  show ?thesis
  proof (cases "map_of (panel_routes :: (string \<times> 'f panel_handler) list) (rq_path r)")
    case None
    then show ?thesis
      using assms h [of page_ok] by (simp add: serve_panel_def page_ok_def)
  next
    case (Some g)
    then have g: "snd (g e r p) \<noteq> p" "pn_adminUser p \<noteq> '''' \<longrightarrow> pn_adminPass p \<noteq> '''' \<longrightarrow>
        rq_basic r = Some (pn_adminUser p, pn_adminPass p)"
      using assms h [of g] by (simp_all add: serve_panel_def)
    have "g = page_ok \<or> g = handleStats \<or> g = handleAddUser \<and> rq_path r = ''/api/users/add'' \<or>
        g = handleRemoveUser \<and> rq_path r = ''/api/users/remove''"
      using map_of_SomeD [OF Some] unfolding panel_routes_def by auto
    then show ?thesis
      using g by (auto simp: page_ok_def handleStats_def handleAddUser_def handleRemoveUser_def split: if_splits)
  qed
qed

lemma panel_open_without_user_name:
  "pn_adminUser p = '''' \<Longrightarrow> serve_panel e r p = serve_panel e (r\<lparr>rq_basic := Some (u, w)\<rparr>) p"
  by (auto simp: serve_panel_def authMiddleware_def panel_routes_def page_ok_def handleStats_def handleAddUser_def
      handleRemoveUser_def fun_eq_iff split: option.splits)

end
