(* ===== verification/Spec2Isabelle.thy ===== *)
theory Spec2Isabelle
  imports Dest_Header Socks5 Udp_Forward Aead Padding Fragment Obfuscation Shaper Sni_Spoof
    Reality_Server Failover Server_Conn Load_Balancer Adaptive_Pool Transport_Frames Dns Config
    Kcp Session_Pool Multipath Users Split_Tunnel Heartbeat Direct_Pool
    Ws_Conn Shadow_Tls Transport_Select Engine Rate_Limit Warmup_Pool Client_Sessions
    Auto_Select Cluster Backup Wireguard Half_Duplex Config_Sync Management
begin

text \<open>
  A verification of iPShadowT, a tunnel whose client and server carry TCP, UDP and SOCKS5 traffic
  over transports disguised as ordinary web traffic. Paths below are relative to \<open>src/\<close>.

  \<^bold>\<open>The program.\<close> The engine (\<open>core/\<close>) turns options into a configuration, starts a client or a server and
  a failover manager over the configured paths. The client (\<open>internal/client\<close>) opens transports,
  wraps them in anti-DPI connections (\<open>internal/antidpi\<close>), authenticates with encrypted frames
  (\<open>internal/crypto\<close>) and multiplexes streams, each opened by a destination header
  (\<open>internal/tunnel\<close>). The server checks access, verifies the handshake and relays. Around them are
  health, reconnection and quality monitors (\<open>internal/stability\<close>), pools, a load balancer, multipath
  dialling, users and rate limits, and management services: HTTP interfaces, cluster, backups,
  configuration synchronisation.

  \<^bold>\<open>How Go is modelled.\<close> Bytes are \<open>8 word\<close>, strings are HOL strings, errors are values of a sum or option
  type, panics are values of \<open>go_panic\<close>. Integers are \<open>int\<close> with \<open>wrap64\<close>, or words, where overflow can
  matter; times are nanoseconds. Go_Float has float64 as rationals with correct rounding. Goroutines
  are sets of atomic steps: State_Machine has reachability and the rule for invariants. Pointers
  that are shared live in an explicit store (Cluster). What the network, the clock, the random source
  or the file system answers is an argument. Iteration over a map takes the order as an argument.

  \<^bold>\<open>Language and library theories.\<close> Prelude (results, byte codecs, readers), Go_Net, Go_Strings, Go_Ip,
  Go_Arith, Go_Float, Go_Path (\<open>path/filepath\<close>), Go_Base64, Go_Sort (the contract of \<open>sort.Slice\<close>),
  Framing (length-prefixed codecs), Conn_Writer and Conn_Reader (connections that transform what
  they carry), State_Machine, Tls_Hello.

  \<^bold>\<open>Interfaces.\<close> \<open>frame_codec\<close>: a decoder undoes an encoder with bytes following, hence whole streams
  decode. \<open>stream_writer\<close> and \<open>stream_reader\<close>: a wrapped connection delivers a prefix of what was
  written and all of it when it reports success. \<open>chunk_plan\<close> and \<open>live_chunk_plan\<close>: writes in chunks.
  \<open>path_selector\<close>: choosing a failover path. \<open>slice_sort\<close>: an unstable sort. \<open>inductive_invariant\<close>:
  invariants of step relations. Each is interpreted on the definitions that model the code.

  \<^bold>\<open>Components.\<close>
  \<^item> Tunnel: Dest_Header (\<open>tunnel/header.go\<close> and the server's \<open>handleStream\<close>), Socks5
    (\<open>tunnel/forwarder.go\<close>, \<open>tunnel/socks5.go\<close>), Udp_Forward (\<open>tunnel/udp.go\<close>,
    \<open>tunnel/wireguard_fwd.go\<close>), Split_Tunnel (\<open>tun/split_tunnel.go\<close>, \<open>tunnel/splittunnel.go\<close>): the two
    parsers of SOCKS5 agree, a request reaches the destination it names, routing by prefix.
  \<^item> Crypto: Aead, Padding (\<open>internal/crypto\<close>): round trips, with the sizes at which they fail.
  \<^item> Disguise: Fragment, Obfuscation, Shaper, Sni_Spoof, Reality_Hello, Reality_Auth, Reality_Server,
    Shadow_Tls, Half_Duplex (\<open>internal/antidpi\<close>): the byte stream is preserved, a rewritten hello
    stays well formed, only holders of the key are admitted, replays are refused, half-duplex
    connections are paired by arrival.
  \<^item> Transports: Transport_Frames, Kcp, Ws_Conn, Transport_Select (\<open>internal/transport\<close>), Session_Pool
    (\<open>internal/mux\<close>), Dns (\<open>internal/dns\<close>, \<open>stealth/dns_tunnel.go\<close>), Wireguard: messages arrive in order;
    the fake TCP transport refines a queue of messages.
  \<^item> Client and server: Server_Conn (\<open>internal/server\<close>), Client_Sessions and Direct_Pool
    (\<open>internal/client\<close>), Config (\<open>internal/config\<close>): what an authenticated client writes reaches the
    destination, and nothing is relayed for anybody else.
  \<^item> Choice of paths: Path_Select, Failover, Engine_Options and Engine (\<open>core/\<close>), Load_Balancer, Multipath,
    Auto_Select (\<open>smart/auto_select.go\<close>), Cluster: selections are optimal among the healthy ones in every
    reachable state; failover terminates with a stated outcome; the balancer is fair.
  \<^item> Stability: Heartbeat, Reconnect, Dpi_Detect, Quality, Warmup_Pool (\<open>internal/stability\<close>),
    Adaptive_Pool (\<open>internal/pool\<close>): delays and averages are bounded, pools account for every
    connection under all interleavings.
  \<^item> Administration: Security, Users, Plugin, Rate_Limit, Management (\<open>internal/api\<close>,
    \<open>internal/web/panel.go\<close>, \<open>internal/subscription\<close>), Backup, Config_Sync: changes need the credentials,
    users survive a restart, limits hold up to a stated rounding error, a restore writes exactly
    where its check lets it.

  \<^bold>\<open>Parameters.\<close> Code outside the repository is an argument with its documented contract as a named
  hypothesis: the AEAD ciphers (\<open>aead_ok\<close>), HMAC and SHA-256, X25519, the TOML and JSON codecs, the
  stream multiplexer, plugins. Every property that has such a hypothesis has a witness with a
  concrete function in its place.

  \<^bold>\<open>Bounds and fuel.\<close> Write loops take fuel for which the length of the data is enough (\<open>live_chunk_plan\<close>,
  Fragment); read loops need more than the number of pieces still to be delivered (\<open>stream_reader\<close>);
  the multipath split loop needs the length times the number of paths. A positive
  constant rate of less than 100 bytes a second comes to empty chunks: the model has no result for any fuel, as
  the code never returns (\<open>rate_zero_stuck\<close>). Loops that may run forever are partial functions into
  options (\<open>splitIntoLabels\<close>, \<open>rate_write\<close>, \<open>reconnect_rounds\<close>, \<open>NewTransport\<close>), and that they return is
  proved or characterised. All other recursion is total.

  \<^bold>\<open>Not modelled.\<close>
  \<^item> Sockets, listeners, device and system calls, tickers and timers, log output, HTTP servers and
    clients: only what they deliver to the modelled code appears, as arguments or steps. This covers
    \<open>internal/tun/tun.go\<close>, \<open>tap.go\<close>, \<open>internal/utils\<close>, \<open>internal/upgrade\<close>, \<open>internal/logger\<close>, \<open>internal/acme\<close>,
    \<open>internal/cdn\<close>, \<open>internal/health\<close>, \<open>internal/metrics\<close> and the stealth decoys.
  \<^item> Transports that only configure a library: \<open>tcpmux.go\<close>, \<open>h2mux.go\<close>, \<open>quic.go\<close>, \<open>quic_mux.go\<close>,
    \<open>tlsconfig.go\<close>, \<open>utls.go\<close>, \<open>ech.go\<close>, domain fronting; of \<open>grpc.go\<close> the frames and relays are modelled.
  \<^item> Command line, examples and web pages: printing and static text.
  \<^item> Small programs that could be modelled and are not: \<open>internal/updater\<close>, \<open>internal/hotreload\<close>,
    \<open>internal/smart/detector.go\<close>, \<open>internal/antidpi/probe_resist.go\<close>, \<open>internal/stealth/protocol_morph.go\<close>.
  \<^item> Timing of writes (delays between fragments and chunks): no modelled result depends on it.
\<close>

end
